(* ===== verification/Prelude.thy ===== *)
theory Prelude
  imports Main "HOL-Library.Sublist"
begin

text \<open>
  Generic material shared by the component theories: results with errors as values, the
  Python string methods the code uses (on ASCII text; a \<^typ>\<open>char\<close> stands for one code
  point), and small facts on lists, maps and optional values.
\<close>

named_theorems pystr \<open>equations that evaluate the Python string methods\<close>
named_theorems result_simps \<open>equations of the result combinators\<close>

section \<open>Results\<close>

text \<open>A Python call that returns a value or raises: \<^term>\<open>Inl e\<close> is the raise.\<close>

type_synonym ('e, 'a) result = "'e + 'a"

definition rbind :: "('e, 'a) result \<Rightarrow> ('a \<Rightarrow> ('e, 'b) result) \<Rightarrow> ('e, 'b) result" where
  "rbind r f = (case r of Inl e \<Rightarrow> Inl e | Inr x \<Rightarrow> f x)"

lemma rbind_simps [simp, result_simps]:
  "rbind (Inl e) f = Inl e"
  "rbind (Inr x) f = f x"
  by (simp_all add: rbind_def)

lemma rbind_Inr_iff [result_simps]:
  "rbind r f = Inr y \<longleftrightarrow> (\<exists>x. r = Inr x \<and> f x = Inr y)"
  by (cases r) simp_all

lemma rbind_Inl_iff [result_simps]:
  "rbind r f = Inl e \<longleftrightarrow> r = Inl e \<or> (\<exists>x. r = Inr x \<and> f x = Inl e)"
  by (cases r) simp_all

definition require :: "bool \<Rightarrow> 'e \<Rightarrow> ('e, unit) result" where
  "require b e = (if b then Inr () else Inl e)"

lemma require_simps [simp, result_simps]:
  "require True e = Inr ()"
  "require False e = Inl e"
  by (simp_all add: require_def)

lemma require_Inr_iff [simp, result_simps]: "require b e = Inr u \<longleftrightarrow> b"
  by (simp add: require_def)

lemma require_Inl_iff [simp, result_simps]: "require b e = Inl e' \<longleftrightarrow> \<not> b \<and> e' = e"
  by (auto simp add: require_def)

text \<open>A loop over a list that stops at the first raise.\<close>

fun rfold :: "('a \<Rightarrow> 's \<Rightarrow> ('e, 's) result) \<Rightarrow> 'a list \<Rightarrow> 's \<Rightarrow> ('e, 's) result" where
  "rfold f [] s = Inr s"
| "rfold f (x # xs) s = rbind (f x s) (rfold f xs)"

lemma rfold_invariant:
  assumes "rfold f xs s = Inr t" and "P s"
    and "\<And>x s s'. x \<in> set xs \<Longrightarrow> P s \<Longrightarrow> f x s = Inr s' \<Longrightarrow> P s'"
  shows "P t"
  using assms
proof (induction xs arbitrary: s)
  case Nil
  then show ?case by simp
next
  case (Cons x xs)
  then obtain s' where s': "f x s = Inr s'" and rest: "rfold f xs s' = Inr t"
    by (auto simp: result_simps)
  have "P s'"
    by (rule Cons.prems(3) [OF _ Cons.prems(2) s']) simp
  with rest show ?case
    by (rule Cons.IH) (use Cons.prems(3) in auto)
qed

fun rmap :: "('a \<Rightarrow> ('e, 'b) result) \<Rightarrow> 'a list \<Rightarrow> ('e, 'b list) result" where
  "rmap f [] = Inr []"
| "rmap f (x # xs) = rbind (f x) (\<lambda>y. rbind (rmap f xs) (\<lambda>ys. Inr (y # ys)))"

lemma rmap_Inr_length: "rmap f xs = Inr ys \<Longrightarrow> length ys = length xs"
  by (induction xs arbitrary: ys) (auto simp: result_simps)

lemma rmap_Inr_nth:
  "rmap f xs = Inr ys \<Longrightarrow> i < length xs \<Longrightarrow> f (xs ! i) = Inr (ys ! i)"
proof (induction xs arbitrary: ys i)
  case Nil
  then show ?case by simp
next
  case (Cons x xs)
  then show ?case
    by (cases i) (auto simp: result_simps)
qed

text \<open>A fold whose step for \<open>x\<close> changes only the part of the state that \<open>x\<close> addresses.\<close>

lemma keyed_fold:
  assumes "\<And>x s. x \<in> set xs \<Longrightarrow> Inv s \<Longrightarrow> L s x = L s0 x \<Longrightarrow>
      \<exists>s'. f x s = Inr s' \<and> Inv s' \<and> Q x (L s0 x) (L s' x) \<and> (\<forall>y. y \<noteq> x \<longrightarrow> L s' y = L s y)"
    and "distinct xs" and "Inv s" and "\<forall>x \<in> set xs. L s x = L s0 x"
  shows "\<exists>s'. rfold f xs s = Inr s' \<and> Inv s' \<and> (\<forall>x \<in> set xs. Q x (L s0 x) (L s' x)) \<and>
    (\<forall>y. y \<notin> set xs \<longrightarrow> L s' y = L s y)"
  using assms
proof (induction xs arbitrary: s)
  case Nil
  then show ?case by simp
next
  case (Cons x xs)
  from Cons.prems(1) [of x s] Cons.prems(3,4) obtain s1
    where s1: "f x s = Inr s1" "Inv s1" "Q x (L s0 x) (L s1 x)" "\<forall>y. y \<noteq> x \<longrightarrow> L s1 y = L s y"
    by auto
  have "\<forall>y \<in> set xs. L s1 y = L s0 y" using s1(4) Cons.prems(2,4) by auto
  from Cons.IH [OF _ _ s1(2) this] Cons.prems(1,2) obtain s'
    where s': "rfold f xs s1 = Inr s'" "Inv s'" "\<forall>y \<in> set xs. Q y (L s0 y) (L s' y)"
      "\<forall>y. y \<notin> set xs \<longrightarrow> L s' y = L s1 y" by auto
  have "\<forall>y \<in> set (x # xs). Q y (L s0 y) (L s' y)" using s' s1(3) Cons.prems(2) by auto
  moreover have "\<forall>y. y \<notin> set (x # xs) \<longrightarrow> L s' y = L s y" using s'(4) s1(4) by auto
  ultimately show ?case using s1(1) s'(1,2) by auto
qed

section \<open>Python string methods\<close>

abbreviation newline :: char where
  "newline \<equiv> CHR 0x0A"

text \<open>\<open>s.startswith(p)\<close>, \<open>s.endswith(p)\<close>\<close>

definition starts_with :: "string \<Rightarrow> string \<Rightarrow> bool" where
  "starts_with s p \<longleftrightarrow> prefix p s"

definition ends_with :: "string \<Rightarrow> string \<Rightarrow> bool" where
  "ends_with s p \<longleftrightarrow> suffix p s"

lemma starts_with_code [pystr]:
  "starts_with s [] = True"
  "starts_with [] (p # ps) = False"
  "starts_with (x # xs) (p # ps) = (x = p \<and> starts_with xs ps)"
  by (auto simp: starts_with_def)

lemma ends_with_rev [pystr]: "ends_with s p = starts_with (rev s) (rev p)"
  by (simp add: ends_with_def starts_with_def suffix_to_prefix)

lemma ends_withD: "ends_with s p \<Longrightarrow> \<exists>t. s = t @ p"
  by (auto simp: ends_with_def suffix_def)

lemma ends_with_append [simp]: "ends_with (t @ p) p"
  by (simp add: ends_with_def suffix_def)

text \<open>\<open>s.split(c)\<close> for a one-character separator, and \<open>c.join(ls)\<close>\<close>

fun split_on :: "char \<Rightarrow> string \<Rightarrow> string list" where
  "split_on c [] = [[]]"
| "split_on c (x # xs) =
     (if x = c then [] # split_on c xs
      else (case split_on c xs of [] \<Rightarrow> [[x]] | y # ys \<Rightarrow> (x # y) # ys))"

fun join :: "string \<Rightarrow> string list \<Rightarrow> string" where
  "join sep [] = []"
| "join sep [x] = x"
| "join sep (x # y # ys) = x @ sep @ join sep (y # ys)"

lemma split_on_not_Nil [simp]: "split_on c s \<noteq> []"
  by (induction s) (auto split: list.splits)

lemma join_Cons: "ys \<noteq> [] \<Longrightarrow> join sep (x # ys) = x @ sep @ join sep ys"
  by (cases ys) auto

lemma join_split_on [simp]: "join [c] (split_on c s) = s"
proof (induction s)
  case Nil
  then show ?case by simp
next
  case (Cons x xs)
  obtain y ys where y: "split_on c xs = y # ys"
    by (cases "split_on c xs") auto
  with Cons.IH show ?case
    by (cases ys) auto
qed

lemma split_on_no_sep: "l \<in> set (split_on c s) \<Longrightarrow> c \<notin> set l"
proof (induction s arbitrary: l)
  case Nil
  then show ?case by simp
next
  case (Cons x xs)
  obtain y ys where "split_on c xs = y # ys"
    by (cases "split_on c xs") auto
  with Cons show ?case
    by (auto split: if_splits)
qed

lemma split_on_id: "c \<notin> set l \<Longrightarrow> split_on c l = [l]"
  by (induction l) auto

lemma split_on_append: "c \<notin> set l \<Longrightarrow> split_on c (l @ c # s) = l # split_on c s"
  by (induction l) auto

lemma split_on_join:
  "ls \<noteq> [] \<Longrightarrow> (\<And>l. l \<in> set ls \<Longrightarrow> c \<notin> set l) \<Longrightarrow> split_on c (join [c] ls) = ls"
proof (induction ls rule: induct_list012)
  case 1
  then show ?case by simp
next
  case (2 x)
  then show ?case by (simp add: split_on_id)
next
  case (3 x y zs)
  then show ?case by (simp add: split_on_append)
qed

lemma set_split_on: "l \<in> set (split_on c s) \<Longrightarrow> set l \<subseteq> set s"
proof (induction s arbitrary: l)
  case Nil
  then show ?case by simp
next
  case (Cons x xs)
  obtain y ys where "split_on c xs = y # ys"
    by (cases "split_on c xs") auto
  with Cons show ?case
    by (fastforce split: if_splits)
qed

lemma split_on_Cons_tl: "c \<in> set s \<Longrightarrow> tl (split_on c s) \<noteq> []"
proof (induction s)
  case Nil
  then show ?case by simp
next
  case (Cons x xs)
  then show ?case
    by (cases "split_on c xs") (auto split: if_splits)
qed

text \<open>\<open>s.partition(c)\<close>: head, separator (empty if absent), tail.\<close>

definition partition_on :: "char \<Rightarrow> string \<Rightarrow> string \<times> string \<times> string" where
  "partition_on c s =
     (let h = takeWhile (\<lambda>x. x \<noteq> c) s; r = dropWhile (\<lambda>x. x \<noteq> c) s
      in case r of [] \<Rightarrow> (h, [], []) | x # t \<Rightarrow> (h, [x], t))"

lemma partition_on_concat:
  assumes "partition_on c s = (h, m, t)"
  shows "s = h @ m @ t"
proof (cases "dropWhile (\<lambda>x. x \<noteq> c) s")
  case Nil
  with assms takeWhile_dropWhile_id [of "\<lambda>x. x \<noteq> c" s] show ?thesis
    by (simp add: partition_on_def Let_def)
next
  case (Cons x xs)
  with assms takeWhile_dropWhile_id [of "\<lambda>x. x \<noteq> c" s] show ?thesis
    by (auto simp add: partition_on_def Let_def)
qed

lemma partition_on_head: "c \<notin> set l \<Longrightarrow> partition_on c (l @ c # t) = (l, [c], t)"
  by (induction l) (auto simp: partition_on_def Let_def split: list.splits)

lemma partition_on_none:
  assumes "c \<notin> set l"
  shows "partition_on c l = (l, [], [])"
proof -
  from assms have "takeWhile (\<lambda>x. x \<noteq> c) l = l" and "dropWhile (\<lambda>x. x \<noteq> c) l = []"
    by (induction l) auto
  then show ?thesis by (simp only: partition_on_def Let_def list.case)
qed

text \<open>
  The last occurrence of a separator of any length: \<open>s.rpartition(sep)\<close> and
  \<open>s.rsplit(sep, 1)\<close> both cut there; \<^term>\<open>None\<close> if there is none.
\<close>

fun rcut :: "string \<Rightarrow> string \<Rightarrow> (string \<times> string) option" where
  "rcut sep [] = (if sep = [] then Some ([], []) else None)"
| "rcut sep (x # xs) =
     (case rcut sep xs of
        Some (h, t) \<Rightarrow> Some (x # h, t)
      | None \<Rightarrow> (if starts_with (x # xs) sep then Some ([], drop (length sep) (x # xs)) else None))"

lemma rcut_Some: "rcut sep s = Some (h, t) \<Longrightarrow> s = h @ sep @ t"
proof (induction s arbitrary: h)
  case Nil
  then show ?case by (simp split: if_splits)
next
  case (Cons x xs)
  show ?case
  proof (cases "rcut sep xs")
    case None
    with Cons.prems have "prefix sep (x # xs)" "h = []" "t = drop (length sep) (x # xs)"
      by (auto simp: starts_with_def split: if_splits)
    then show ?thesis by (auto simp: prefix_def)
  next
    case (Some p)
    with Cons show ?thesis by (cases p) auto
  qed
qed

lemma rcut_suffix: "sep \<noteq> [] \<Longrightarrow> rcut sep (s @ sep) = Some (s, [])"
proof (induction s)
  case Nil
  have shorter: "rcut sep xs = None" if "length xs < length sep" for xs
  proof (rule ccontr)
    assume "rcut sep xs \<noteq> None"
    then obtain h t where "rcut sep xs = Some (h, t)" by auto
    then have "xs = h @ sep @ t" by (rule rcut_Some)
    with that show False by simp
  qed
  from Nil obtain a list where sep: "sep = a # list" by (cases sep) auto
  with shorter [of list] show ?case
    by (simp add: starts_with_def)
next
  case (Cons x xs)
  then show ?case by simp
qed

definition rpartition :: "string \<Rightarrow> string \<Rightarrow> string \<times> string \<times> string" where
  "rpartition sep s =
     (case rcut sep s of Some (h, t) \<Rightarrow> (h, sep, t) | None \<Rightarrow> ([], [], s))"

text \<open>\<open>s.rstrip(c)\<close>, \<open>s.lstrip(c)\<close>, \<open>s.strip()\<close>, \<open>s.strip(c)\<close>\<close>

definition rstrip_char :: "char \<Rightarrow> string \<Rightarrow> string" where
  "rstrip_char c s = rev (dropWhile (\<lambda>x. x = c) (rev s))"

definition lstrip_char :: "char \<Rightarrow> string \<Rightarrow> string" where
  "lstrip_char c s = dropWhile (\<lambda>x. x = c) s"

definition strip_char :: "char \<Rightarrow> string \<Rightarrow> string" where
  "strip_char c s = rstrip_char c (lstrip_char c s)"

definition is_space :: "char \<Rightarrow> bool" where
  "is_space c \<longleftrightarrow> of_char c \<in> ({9, 10, 11, 12, 13, 28, 29, 30, 31, 32} :: nat set)"

definition strip :: "string \<Rightarrow> string" where
  "strip s = rev (dropWhile is_space (rev (dropWhile is_space s)))"

lemma rstrip_char_id: "s = [] \<or> last s \<noteq> c \<Longrightarrow> rstrip_char c s = s"
  by (cases s rule: rev_cases) (auto simp: rstrip_char_def)

lemma rstrip_char_replicate:
  "s = [] \<or> last s \<noteq> c \<Longrightarrow> rstrip_char c (s @ replicate k c) = s"
proof -
  assume s: "s = [] \<or> last s \<noteq> c"
  have "dropWhile (\<lambda>x. x = c) (replicate k c @ rev s) = dropWhile (\<lambda>x. x = c) (rev s)"
    by (rule dropWhile_append2) simp
  with rstrip_char_id [OF s] show ?thesis by (simp add: rstrip_char_def)
qed

lemma rstrip_char_decomp: "\<exists>k. s = rstrip_char c s @ replicate k c"
proof -
  have "\<exists>k. rev s = replicate k c @ dropWhile (\<lambda>x. x = c) (rev s)"
    by (metis (mono_tags, lifting) replicate_length_same set_takeWhileD takeWhile_dropWhile_id)
  then obtain k where "rev s = replicate k c @ dropWhile (\<lambda>x. x = c) (rev s)" ..
  then have "rev (rev s) = rev (replicate k c @ dropWhile (\<lambda>x. x = c) (rev s))" by (rule arg_cong)
  then have "s = rstrip_char c s @ replicate k c"
    by (simp add: rstrip_char_def)
  then show ?thesis ..
qed

lemma rstrip_char_no_trail: "rstrip_char c s = [] \<or> last (rstrip_char c s) \<noteq> c"
proof (cases "dropWhile (\<lambda>x. x = c) (rev s)")
  case Nil
  then show ?thesis by (simp add: rstrip_char_def)
next
  case (Cons a as)
  then have "a \<noteq> c"
    by (metis (mono_tags, lifting) dropWhile_eq_Cons_conv)
  with Cons show ?thesis by (simp add: rstrip_char_def)
qed

text \<open>\<open>s.lower()\<close>, \<open>s.upper()\<close> on ASCII text\<close>

definition lower_char :: "char \<Rightarrow> char" where
  "lower_char c = (let n = (of_char c :: nat) in if 65 \<le> n \<and> n \<le> 90 then char_of (n + 32) else c)"

definition upper_char :: "char \<Rightarrow> char" where
  "upper_char c = (let n = (of_char c :: nat) in if 97 \<le> n \<and> n \<le> 122 then char_of (n - 32) else c)"

definition lower :: "string \<Rightarrow> string" where
  "lower s = map lower_char s"

definition upper :: "string \<Rightarrow> string" where
  "upper s = map upper_char s"

lemma lower_char_id_iff: "lower_char c = c \<longleftrightarrow> \<not> (65 \<le> (of_char c :: nat) \<and> of_char c \<le> (90 :: nat))"
proof (cases "65 \<le> (of_char c :: nat) \<and> of_char c \<le> (90 :: nat)")
  case True
  then have "of_char (lower_char c) = (of_char c :: nat) + 32"
    by (simp add: lower_char_def Let_def)
  then have "lower_char c \<noteq> c" by auto
  with True show ?thesis by simp
next
  case False
  then show ?thesis by (auto simp add: lower_char_def Let_def)
qed

lemma lower_id_iff:
  "lower s = s \<longleftrightarrow> (\<forall>c \<in> set s. \<not> (65 \<le> (of_char c :: nat) \<and> of_char c \<le> (90 :: nat)))"
  by (induction s) (simp_all add: lower_def lower_char_id_iff)

lemma lower_char_idem [simp]: "lower_char (lower_char c) = lower_char c"
  by (auto simp: lower_char_def Let_def)

lemma lower_idem [simp]: "lower (lower s) = lower s"
  by (simp add: lower_def)

text \<open>\<open>s.removeprefix(p)\<close>\<close>

definition removeprefix :: "string \<Rightarrow> string \<Rightarrow> string" where
  "removeprefix s p = (if starts_with s p then drop (length p) s else s)"

end
