(* ===== verification/PyRegex.thy ===== *)
theory PyRegex
  imports Prelude
begin

text \<open>
  The fragment of Python's \<open>re\<close> the validators use: character classes, concatenation,
  alternatives, \<open>*\<close>, \<open>+\<close> and bounded repetition \<open>{m,n}\<close>. The matcher works by
  derivatives and is executable; \<open>rx_lang\<close> is the language it decides. Python's \<open>$\<close>
  (without \<open>MULTILINE\<close>) matches at the end of the string and also just before a newline
  that ends the string, which \<open>re_anchored\<close> writes out.
\<close>

datatype rx =
  Rx0
  | Rx1
  | RxClass "char \<Rightarrow> bool"
  | RxSeq rx rx
  | RxAlt rx rx
  | RxStar rx

fun nullable :: "rx \<Rightarrow> bool" where
  "nullable Rx0 = False"
| "nullable Rx1 = True"
| "nullable (RxClass p) = False"
| "nullable (RxSeq r s) = (nullable r \<and> nullable s)"
| "nullable (RxAlt r s) = (nullable r \<or> nullable s)"
| "nullable (RxStar r) = True"

fun deriv :: "char \<Rightarrow> rx \<Rightarrow> rx" where
  "deriv c Rx0 = Rx0"
| "deriv c Rx1 = Rx0"
| "deriv c (RxClass p) = (if p c then Rx1 else Rx0)"
| "deriv c (RxSeq r s) =
     (if nullable r then RxAlt (RxSeq (deriv c r) s) (deriv c s) else RxSeq (deriv c r) s)"
| "deriv c (RxAlt r s) = RxAlt (deriv c r) (deriv c s)"
| "deriv c (RxStar r) = RxSeq (deriv c r) (RxStar r)"

fun rx_match :: "rx \<Rightarrow> string \<Rightarrow> bool" where
  "rx_match r [] = nullable r"
| "rx_match r (c # s) = rx_match (deriv c r) s"

section \<open>The language of a pattern\<close>

definition lang_star :: "string set \<Rightarrow> string set" where
  "lang_star A = {concat ws | ws. set ws \<subseteq> A}"

fun rx_lang :: "rx \<Rightarrow> string set" where
  "rx_lang Rx0 = {}"
| "rx_lang Rx1 = {[]}"
| "rx_lang (RxClass p) = {[c] | c. p c}"
| "rx_lang (RxSeq r s) = {u @ v | u v. u \<in> rx_lang r \<and> v \<in> rx_lang s}"
| "rx_lang (RxAlt r s) = rx_lang r \<union> rx_lang s"
| "rx_lang (RxStar r) = lang_star (rx_lang r)"

lemma nullable_iff: "nullable r \<longleftrightarrow> [] \<in> rx_lang r"
proof (induction r)
  case (RxStar r)
  have "concat [] \<in> lang_star (rx_lang r)"
    unfolding lang_star_def by (intro CollectI exI [of _ "[]"]) simp
  then show ?case by simp
qed auto

lemma lang_star_Cons:
  "c # s \<in> lang_star A \<longleftrightarrow> (\<exists>u v. s = u @ v \<and> c # u \<in> A \<and> v \<in> lang_star A)"
proof
  assume "c # s \<in> lang_star A"
  then obtain ws where "c # s = concat ws" and "set ws \<subseteq> A"
    by (auto simp: lang_star_def)
  then show "\<exists>u v. s = u @ v \<and> c # u \<in> A \<and> v \<in> lang_star A"
  proof (induction ws)
    case Nil
    then show ?case by simp
  next
    case (Cons w ws)
    show ?case
    proof (cases w)
      case Nil
      with Cons show ?thesis by simp
    next
      case (Cons x u)
      with Cons.prems have "c # u \<in> A" "s = u @ concat ws" "concat ws \<in> lang_star A"
        by (auto simp: lang_star_def)
      then show ?thesis by blast
    qed
  qed
next
  assume "\<exists>u v. s = u @ v \<and> c # u \<in> A \<and> v \<in> lang_star A"
  then obtain u ws where "s = u @ concat ws" "c # u \<in> A" "set ws \<subseteq> A"
    by (auto simp: lang_star_def)
  then have "c # s = concat ((c # u) # ws) \<and> set ((c # u) # ws) \<subseteq> A" by simp
  then show "c # s \<in> lang_star A" unfolding lang_star_def by blast
qed

lemma deriv_lang: "s \<in> rx_lang (deriv c r) \<longleftrightarrow> c # s \<in> rx_lang r"
proof (induction r arbitrary: s)
  case (RxSeq r1 r2)
  have "c # s \<in> rx_lang (RxSeq r1 r2) \<longleftrightarrow>
      (\<exists>u v. s = u @ v \<and> c # u \<in> rx_lang r1 \<and> v \<in> rx_lang r2) \<or>
      ([] \<in> rx_lang r1 \<and> c # s \<in> rx_lang r2)"
    by (auto simp: Cons_eq_append_conv)
  then show ?case
    using RxSeq by (auto simp: nullable_iff)
next
  case (RxStar r)
  then show ?case by (auto simp: lang_star_Cons)
qed auto

theorem rx_match_iff: "rx_match r s \<longleftrightarrow> s \<in> rx_lang r"
  by (induction s arbitrary: r) (auto simp: nullable_iff deriv_lang)

section \<open>Derived patterns\<close>

definition RxOpt :: "rx \<Rightarrow> rx" where
  "RxOpt r = RxAlt Rx1 r"

definition RxPlus :: "rx \<Rightarrow> rx" where
  "RxPlus r = RxSeq r (RxStar r)"

definition RxChar :: "char \<Rightarrow> rx" where
  "RxChar c = RxClass (\<lambda>x. x = c)"

fun RxUpTo :: "rx \<Rightarrow> nat \<Rightarrow> rx" where
  "RxUpTo r 0 = Rx1"
| "RxUpTo r (Suc n) = RxOpt (RxSeq r (RxUpTo r n))"

fun RxTimes :: "rx \<Rightarrow> nat \<Rightarrow> rx \<Rightarrow> rx" where
  "RxTimes r 0 k = k"
| "RxTimes r (Suc n) k = RxSeq r (RxTimes r n k)"

text \<open>\<open>r{m,n}\<close>\<close>

definition RxRep :: "rx \<Rightarrow> nat \<Rightarrow> nat \<Rightarrow> rx" where
  "RxRep r m n = RxTimes r m (RxUpTo r (n - m))"

lemma RxSeq_class:
  "[] \<notin> rx_lang (RxSeq (RxClass p) r)"
  "x # xs \<in> rx_lang (RxSeq (RxClass p) r) \<longleftrightarrow> p x \<and> xs \<in> rx_lang r"
proof -
  show "[] \<notin> rx_lang (RxSeq (RxClass p) r)" by simp
  show "x # xs \<in> rx_lang (RxSeq (RxClass p) r) \<longleftrightarrow> p x \<and> xs \<in> rx_lang r"
    using rx_match_iff [of "RxSeq (RxClass p) r" "x # xs"] rx_match_iff [of "RxSeq Rx1 r" xs]
      rx_match_iff [of "RxSeq Rx0 r" xs] by (auto split: if_splits)
qed

lemma RxUpTo_class:
  "rx_lang (RxUpTo (RxClass p) n) = {s. length s \<le> n \<and> (\<forall>c \<in> set s. p c)}"
proof (induction n)
  case 0
  then show ?case by auto
next
  case (Suc n)
  have "s \<in> rx_lang (RxUpTo (RxClass p) (Suc n)) \<longleftrightarrow>
      length s \<le> Suc n \<and> (\<forall>c \<in> set s. p c)" for s
    by (cases s) (auto simp: RxOpt_def Suc RxSeq_class simp del: rx_lang.simps(4))
  then show ?case by blast
qed

lemma RxRep_class:
  "rx_lang (RxRep (RxClass p) 1 n) =
     {s. 1 \<le> length s \<and> length s \<le> max 1 n \<and> (\<forall>c \<in> set s. p c)}"
proof -
  have "s \<in> rx_lang (RxRep (RxClass p) 1 n) \<longleftrightarrow>
      1 \<le> length s \<and> length s \<le> max 1 n \<and> (\<forall>c \<in> set s. p c)" for s
    by (cases s) (auto simp: RxRep_def RxUpTo_class RxSeq_class simp del: rx_lang.simps(4))
  then show ?thesis by blast
qed

lemma RxStar_class: "rx_lang (RxStar (RxClass p)) = {s. \<forall>c \<in> set s. p c}"
proof -
  have "s \<in> rx_lang (RxStar (RxClass p)) \<longleftrightarrow> (\<forall>c \<in> set s. p c)" for s
  proof
    assume "s \<in> rx_lang (RxStar (RxClass p))"
    then show "\<forall>c \<in> set s. p c" by (fastforce simp: lang_star_def)
  next
    assume s: "\<forall>c \<in> set s. p c"
    have "concat (map (\<lambda>c. [c]) s) = s" by simp
    moreover from s have "set (map (\<lambda>c. [c]) s) \<subseteq> {[c] | c. p c}" by auto
    ultimately show "s \<in> rx_lang (RxStar (RxClass p))"
      unfolding rx_lang.simps lang_star_def by (metis (mono_tags, lifting) mem_Collect_eq)
  qed
  then show ?thesis by blast
qed

lemma RxSeq_in: "u \<in> rx_lang r \<Longrightarrow> v \<in> rx_lang s \<Longrightarrow> u @ v \<in> rx_lang (RxSeq r s)"
  by auto

lemma RxSeqE:
  assumes "w \<in> rx_lang (RxSeq r s)"
  obtains u v where "w = u @ v" "u \<in> rx_lang r" "v \<in> rx_lang s"
  using assms by auto

lemma RxStar_Cons_in:
  "u \<in> rx_lang r \<Longrightarrow> v \<in> rx_lang (RxStar r) \<Longrightarrow> u @ v \<in> rx_lang (RxStar r)"
proof -
  assume u: "u \<in> rx_lang r" and "v \<in> rx_lang (RxStar r)"
  then obtain ws where "v = concat ws" "set ws \<subseteq> rx_lang r" by (auto simp: lang_star_def)
  with u have "u @ v = concat (u # ws) \<and> set (u # ws) \<subseteq> rx_lang r" by simp
  then show ?thesis unfolding rx_lang.simps lang_star_def by blast
qed

lemma RxStar_Nil_in [simp]: "[] \<in> rx_lang (RxStar r)"
  using nullable_iff [of "RxStar r"] by simp

text \<open>
  \<open>(A c)* B\<close> where neither \<open>A\<close> nor \<open>B\<close> matches a string with the separator \<open>c\<close>:
  the pieces of \<open>s.split(c)\<close>, all but the last in \<open>A\<close> and the last in \<open>B\<close>.
\<close>

lemma separated_lang:
  assumes A: "\<And>w. w \<in> rx_lang A \<Longrightarrow> c \<notin> set w" and B: "\<And>w. w \<in> rx_lang B \<Longrightarrow> c \<notin> set w"
  shows "s \<in> rx_lang (RxSeq (RxStar (RxSeq A (RxChar c))) B) \<longleftrightarrow>
    (\<forall>l \<in> set (butlast (split_on c s)). l \<in> rx_lang A) \<and> last (split_on c s) \<in> rx_lang B"
    (is "s \<in> ?L \<longleftrightarrow> ?R s")
proof
  assume "s \<in> ?L"
  then obtain ws b where s: "s = concat ws @ b" and b: "b \<in> rx_lang B"
    and ws: "set ws \<subseteq> rx_lang (RxSeq A (RxChar c))"
    by (auto simp: lang_star_def)
  from ws show "?R s"
    unfolding s
  proof (induction ws)
    case Nil
    with b B show ?case by (simp add: split_on_id)
  next
    case (Cons w ws)
    from Cons.prems have "w \<in> rx_lang (RxSeq A (RxChar c))" by simp
    then obtain a where a: "w = a @ [c]" "a \<in> rx_lang A" by (auto simp: RxChar_def)
    with A have "c \<notin> set a" by blast
    with a have "split_on c (concat (w # ws) @ b) = a # split_on c (concat ws @ b)"
      by (simp add: split_on_append)
    moreover from Cons have "?R (concat ws @ b)" by simp
    ultimately show ?case using a by simp
  qed
next
  have "join [c] ls \<in> ?L"
    if "ls \<noteq> []" "\<forall>l \<in> set (butlast ls). l \<in> rx_lang A" "last ls \<in> rx_lang B" for ls
    using that
  proof (induction ls rule: induct_list012)
    case 1
    then show ?case by simp
  next
    case (2 x)
    have "[] @ x \<in> ?L" by (rule RxSeq_in [OF RxStar_Nil_in]) (use 2 in simp)
    then show ?case by (simp only: append_Nil join.simps)
  next
    case (3 x y zs)
    then have "join [c] (y # zs) \<in> ?L" by (intro "3.IH") simp_all
    moreover have x: "x \<in> rx_lang A" using "3.prems" by simp
    ultimately obtain u b where u: "join [c] (y # zs) = u @ b" "u \<in> rx_lang (RxStar (RxSeq A (RxChar c)))"
        "b \<in> rx_lang B"
      by (elim RxSeqE)
    have "x @ [c] \<in> rx_lang (RxSeq A (RxChar c))" by (rule RxSeq_in [OF x]) (simp add: RxChar_def)
    from RxSeq_in [OF RxStar_Cons_in [OF this u(2)] u(3)]
    show ?case using u(1) by (simp del: rx_lang.simps)
  qed
  from this [of "split_on c s"] show "?R s \<Longrightarrow> s \<in> ?L" by simp
qed

section \<open>Anchored search\<close>

text \<open>
  \<open>re.search(r"^...$", s)\<close> and \<open>re.match(r"^...$", s)\<close> for a pattern without
  \<open>MULTILINE\<close>: the whole string, or all of it but a newline at its end.
\<close>

definition re_anchored :: "rx \<Rightarrow> string \<Rightarrow> bool" where
  "re_anchored r s \<longleftrightarrow>
     rx_match r s \<or> (s \<noteq> [] \<and> last s = newline \<and> rx_match r (butlast s))"

lemma re_anchored_iff:
  "re_anchored r s \<longleftrightarrow> s \<in> rx_lang r \<or> (\<exists>t. s = t @ [newline] \<and> t \<in> rx_lang r)"
  by (cases s rule: rev_cases) (auto simp: re_anchored_def rx_match_iff)

end
