(* ===== verification/Names.thy ===== *)
theory Names
  imports PyRegex
begin

text \<open>
  Names: the validators of domain names, subnames and RR types (\<open>models/base.py\<close> and the
  field validators of \<open>models/records.py\<close>), the composition of owner names
  (\<open>RRset.construct_name\<close>) and its inverse in \<open>pdns.get_rrset_datas\<close>, and the parent
  of a domain name (\<open>models/domains.py\<close>).
\<close>

datatype verror = VError string

type_synonym validator = "string \<Rightarrow> (verror, unit) result"

text \<open>A field's validators all run; their errors are collected.\<close>

fun run_validators :: "validator list \<Rightarrow> string \<Rightarrow> verror list" where
  "run_validators [] v = []"
| "run_validators (f # fs) v =
     (case f v of Inl e \<Rightarrow> e # run_validators fs v | Inr _ \<Rightarrow> run_validators fs v)"

lemma run_validators_Nil_iff:
  "run_validators fs v = [] \<longleftrightarrow> (\<forall>f \<in> set fs. f v = Inr ())"
  by (induction fs) (auto split: sum.splits)

declare run_validators.simps [simp del]

section \<open>models/base.py\<close>

definition validate_lower :: validator where
  "validate_lower value = (if value \<noteq> lower value then Inl (VError ''invalid'') else Inr ())"

definition validate_upper :: validator where
  "validate_upper value = (if value \<noteq> upper value then Inl (VError ''invalid'') else Inr ())"

text \<open>Django's \<open>RegexValidator\<close>: \<open>search\<close> of an anchored pattern, or the error code.\<close>

definition regex_validator :: "rx \<Rightarrow> string \<Rightarrow> validator" where
  "regex_validator r code value = (if re_anchored r value then Inr () else Inl (VError code))"

definition is_lower_alnum :: "char \<Rightarrow> bool" where
  "is_lower_alnum c \<longleftrightarrow>
     (let n = (of_char c :: nat) in (97 \<le> n \<and> n \<le> 122) \<or> (48 \<le> n \<and> n \<le> 57))"

text \<open>\<open>[a-z0-9_-]\<close> and \<open>[a-z0-9-]\<close>, and a class under \<open>re.IGNORECASE\<close>\<close>

definition cls_label :: "char \<Rightarrow> bool" where
  "cls_label c \<longleftrightarrow> is_lower_alnum c \<or> c = CHR ''_'' \<or> c = CHR ''-''"

definition cls_tld :: "char \<Rightarrow> bool" where
  "cls_tld c \<longleftrightarrow> is_lower_alnum c \<or> c = CHR ''-''"

definition ignorecase :: "(char \<Rightarrow> bool) \<Rightarrow> char \<Rightarrow> bool" where
  "ignorecase p c \<longleftrightarrow> p c \<or> p (lower_char c)"

definition domain_name_rx :: rx where
  "domain_name_rx =
     RxSeq (RxStar (RxSeq (RxRep (RxClass (ignorecase cls_label)) 1 63) (RxChar CHR ''.'')))
       (RxRep (RxClass (ignorecase cls_tld)) 1 63)"

definition validate_domain_name :: "validator list" where
  "validate_domain_name =
     [validate_lower, regex_validator domain_name_rx ''invalid_domain_name'']"

section \<open>Field validators of RRset (models/records.py)\<close>

text \<open>\<open>^([*]|(([*][.])?([a-z0-9_-]{1,63}[.])*[a-z0-9_-]{1,63}))$\<close>\<close>

definition label_rx :: rx where
  "label_rx = RxRep (RxClass cls_label) 1 63"

definition labels_rx :: rx where
  "labels_rx = RxSeq (RxStar (RxSeq label_rx (RxChar CHR ''.''))) label_rx"

definition subname_rx :: rx where
  "subname_rx =
     RxAlt (RxChar CHR ''*'')
       (RxSeq (RxOpt (RxSeq (RxChar CHR ''*'') (RxChar CHR ''.''))) labels_rx)"

definition subname_validators :: "validator list" where
  "subname_validators = [validate_lower, regex_validator subname_rx ''invalid_subname'']"

text \<open>\<open>^[A-Z][A-Z0-9]*$\<close>\<close>

definition cls_upper :: "char \<Rightarrow> bool" where
  "cls_upper c \<longleftrightarrow> (let n = (of_char c :: nat) in 65 \<le> n \<and> n \<le> 90)"

definition cls_upper_num :: "char \<Rightarrow> bool" where
  "cls_upper_num c \<longleftrightarrow> cls_upper c \<or> (let n = (of_char c :: nat) in 48 \<le> n \<and> n \<le> 57)"

definition type_rx :: rx where
  "type_rx = RxSeq (RxClass cls_upper) (RxStar (RxClass cls_upper_num))"

definition type_validators :: "validator list" where
  "type_validators = [validate_upper, regex_validator type_rx ''invalid_type'']"

section \<open>Owner names\<close>

text \<open>\<open>RRset.construct_name\<close>: \<open>filter(None, ...)\<close> drops the empty parts.\<close>

definition construct_name :: "string \<Rightarrow> string \<Rightarrow> string" where
  "construct_name subname domain_name =
     join ''.'' (filter (\<lambda>s. s \<noteq> []) [subname, domain_name]) @ ''.''"

text \<open>\<open>rrset["name"][: -(len(domain.name) + 2)]\<close> in \<open>pdns.get_rrset_datas\<close>\<close>

definition subname_of_name :: "string \<Rightarrow> string \<Rightarrow> string" where
  "subname_of_name domain_name name = take (length name - (length domain_name + 2)) name"

lemma subname_of_name_construct:
  "domain_name \<noteq> [] \<Longrightarrow> subname_of_name domain_name (construct_name subname domain_name) = subname"
  by (cases "subname = []") (auto simp: subname_of_name_def construct_name_def)

lemma construct_name_inj: "construct_name s d = construct_name s' d \<longleftrightarrow> s = s'"
  by (cases "d = []") (auto simp: construct_name_def dest: subname_of_name_construct split: if_splits
      intro: arg_cong [where f = "subname_of_name d"])

text \<open>\<open>Domain._partitioned_name\<close>, \<open>.parent_domain_name\<close>, \<open>.is_locally_registrable\<close>\<close>

definition partitioned_name :: "string \<Rightarrow> string \<times> string option" where
  "partitioned_name name =
     (let (subname, _, parent_name) = partition_on CHR ''.'' name
      in (subname, if parent_name = [] then None else Some parent_name))"

definition parent_domain_name :: "string \<Rightarrow> string option" where
  "parent_domain_name name = snd (partitioned_name name)"

definition is_locally_registrable :: "string set \<Rightarrow> string \<Rightarrow> bool" where
  "is_locally_registrable local_public_suffixes name =
     (case parent_domain_name name of
        None \<Rightarrow> False | Some p \<Rightarrow> p \<in> local_public_suffixes)"

section \<open>Facts\<close>

lemma no_dot_classes:
  "\<not> ignorecase cls_label CHR ''.''" "\<not> ignorecase cls_tld CHR ''.''" "\<not> cls_label CHR ''.''"
  by (simp_all add: ignorecase_def cls_label_def cls_tld_def is_lower_alnum_def lower_char_def)

definition label_over :: "(char \<Rightarrow> bool) \<Rightarrow> string \<Rightarrow> bool" where
  "label_over p l \<longleftrightarrow> 1 \<le> length l \<and> length l \<le> 63 \<and> (\<forall>c \<in> set l. p c)"

lemma label_lang: "l \<in> rx_lang (RxRep (RxClass p) 1 63) \<longleftrightarrow> label_over p l"
  unfolding RxRep_class label_over_def by simp

text \<open>The abstract notion the domain name pattern is meant to describe.\<close>

definition domain_labels_ok :: "string \<Rightarrow> bool" where
  "domain_labels_ok s \<longleftrightarrow>
     (\<forall>l \<in> set (butlast (split_on CHR ''.'' s)). label_over cls_label l) \<and>
     label_over cls_tld (last (split_on CHR ''.'' s))"

definition labels_ok :: "string \<Rightarrow> bool" where
  "labels_ok s \<longleftrightarrow> (\<forall>l \<in> set (split_on CHR ''.'' s). label_over cls_label l)"

lemma domain_name_lang:
  "s \<in> rx_lang domain_name_rx \<longleftrightarrow>
     (\<forall>l \<in> set (butlast (split_on CHR ''.'' s)). label_over (ignorecase cls_label) l) \<and>
     label_over (ignorecase cls_tld) (last (split_on CHR ''.'' s))"
  unfolding domain_name_rx_def
  by (subst separated_lang)
    (use no_dot_classes in \<open>auto simp only: label_lang label_over_def\<close>)

lemma ignorecase_lower:
  "lower_char c = c \<Longrightarrow> ignorecase p c = p c"
  by (simp add: ignorecase_def)

lemma label_over_ignorecase:
  "\<forall>c \<in> set l. lower_char c = c \<Longrightarrow> label_over (ignorecase p) l = label_over p l"
  by (auto simp: label_over_def ignorecase_lower)

lemma lower_chars: "lower s = s \<Longrightarrow> c \<in> set s \<Longrightarrow> lower_char c = c"
  by (auto simp: lower_id_iff lower_char_id_iff)

lemma domain_name_lang_lower:
  assumes "lower s = s"
  shows "s \<in> rx_lang domain_name_rx \<longleftrightarrow> domain_labels_ok s"
proof -
  let ?ls = "split_on CHR ''.'' s"
  have low: "\<forall>c \<in> set l. lower_char c = c" if "l \<in> set ?ls" for l
    using that set_split_on [of l "CHR ''.''" s] lower_chars [OF assms] by blast
  have "label_over (ignorecase cls_label) l = label_over cls_label l" if "l \<in> set (butlast ?ls)" for l
    using low [of l] that by (intro label_over_ignorecase) (auto dest: in_set_butlastD)
  moreover have "label_over (ignorecase cls_tld) (last ?ls) = label_over cls_tld (last ?ls)"
    using low [of "last ?ls"] by (intro label_over_ignorecase) simp
  ultimately show ?thesis
    by (simp add: domain_name_lang domain_labels_ok_def)
qed

lemma labels_lang: "s \<in> rx_lang labels_rx \<longleftrightarrow> labels_ok s"
proof -
  have "s \<in> rx_lang labels_rx \<longleftrightarrow>
      (\<forall>l \<in> set (butlast (split_on CHR ''.'' s)). label_over cls_label l) \<and>
      label_over cls_label (last (split_on CHR ''.'' s))"
    unfolding labels_rx_def label_rx_def
    by (subst separated_lang)
      (use no_dot_classes in \<open>auto simp only: label_lang label_over_def\<close>)
  moreover have "set ls = insert (last ls) (set (butlast ls))" if "ls \<noteq> []" for ls :: "string list"
    using that by (cases ls rule: rev_cases) auto
  ultimately show ?thesis by (auto simp add: labels_ok_def)
qed

lemma is_locally_registrable_iff:
  "is_locally_registrable lps name \<longleftrightarrow> (\<exists>p \<in> lps. parent_domain_name name = Some p)"
  by (auto simp: is_locally_registrable_def split: option.splits)

lemma parent_domain_name_concat:
  assumes "parent_domain_name name = Some p"
  shows "\<exists>l. name = l @ ''.'' @ p \<and> CHR ''.'' \<notin> set l \<and> p \<noteq> []"
proof -
  obtain h m t where p: "partition_on CHR ''.'' name = (h, m, t)" by (cases "partition_on CHR ''.'' name")
  with assms have t: "t = p" "p \<noteq> []"
    by (auto simp: parent_domain_name_def partitioned_name_def split: if_splits)
  have "m = ''.'' \<and> CHR ''.'' \<notin> set h"
  proof (cases "dropWhile (\<lambda>x. x \<noteq> CHR ''.'') name")
    case Nil
    with p t show ?thesis by (simp add: partition_on_def)
  next
    case (Cons x xs)
    then have "x = CHR ''.''"
      using hd_dropWhile [of "\<lambda>x. x \<noteq> CHR ''.''" name] by simp
    with Cons p show ?thesis by (auto simp: partition_on_def dest: set_takeWhileD)
  qed
  with partition_on_concat [OF p] t show ?thesis by auto
qed

lemma newline_lower [simp]: "lower (s @ [newline]) = lower s @ [newline]"
  by (simp add: lower_def lower_char_def)

lemma regex_validator_ok [simp]: "regex_validator r code v = Inr () \<longleftrightarrow> re_anchored r v"
  by (simp add: regex_validator_def)

lemma validate_lower_ok [simp]: "validate_lower v = Inr () \<longleftrightarrow> lower v = v"
  by (auto simp: validate_lower_def)

lemma validate_upper_ok [simp]: "validate_upper v = Inr () \<longleftrightarrow> upper v = v"
  by (auto simp: validate_upper_def)

lemma newline_not_label [simp]: "\<not> cls_label newline" "\<not> cls_tld newline"
  by (simp_all add: cls_label_def cls_tld_def is_lower_alnum_def)

lemma domain_labels_ok_chars:
  assumes "domain_labels_ok s"
  shows "\<forall>c \<in> set s. cls_label c \<or> c = CHR ''.''"
proof -
  let ?ls = "split_on CHR ''.'' s"
  have tld: "cls_label c" if "cls_tld c" for c
    using that by (auto simp: cls_label_def cls_tld_def)
  have over: "label_over cls_label l" if "l \<in> set ?ls" for l
  proof -
    have "l = last ?ls \<or> l \<in> set (butlast ?ls)"
      using that append_butlast_last_id [OF split_on_not_Nil [of "CHR ''.''" s]]
      by (metis Un_iff empty_iff insert_iff list.set(1) list.set(2) set_append)
    with assms tld show ?thesis by (auto simp: domain_labels_ok_def label_over_def)
  qed
  have "c \<in> \<Union> (set ` set ls) \<union> {CHR ''.''}" if "c \<in> set (join ''.'' ls)" for c ls
    using that by (induction ls rule: induct_list012) auto
  from this [of _ ?ls] over show ?thesis by (fastforce simp: label_over_def)
qed

lemma lower_if_label_chars:
  assumes "\<forall>c \<in> set s. cls_label c \<or> c = CHR ''.''"
  shows "lower s = s"
proof -
  have "\<not> (65 \<le> (of_char c :: nat) \<and> of_char c \<le> (90 :: nat))" if "c \<in> set s" for c
  proof -
    consider "is_lower_alnum c" | "c = CHR ''_''" | "c = CHR ''-''" | "c = CHR ''.''"
      using assms \<open>c \<in> set s\<close> by (auto simp: cls_label_def)
    then show ?thesis by cases (auto simp: is_lower_alnum_def)
  qed
  then show ?thesis by (simp add: lower_id_iff)
qed

lemma labels_ok_chars:
  assumes "labels_ok s"
  shows "\<forall>c \<in> set s. cls_label c \<or> c = CHR ''.''"
proof -
  have "c \<in> \<Union> (set ` set ls) \<union> {CHR ''.''}" if "c \<in> set (join ''.'' ls)" for c ls
    using that by (induction ls rule: induct_list012) auto
  from this [of _ "split_on CHR ''.'' s"] assms show ?thesis
    by (fastforce simp: labels_ok_def label_over_def)
qed

section \<open>Properties\<close>

text \<open>C20: The validators of \<open>Domain.name\<close> accept a string exactly when it is a sequence of labels
  separated by dots, each of 1 to 63 lowercase letters, digits, hyphens and underscores and the
  last one without an underscore, or such a string followed by one newline: the pattern's \<open>$\<close>
  lets a newline at the end through.\<close>

theorem domain_name_validators_iff:
  "run_validators validate_domain_name s = [] \<longleftrightarrow>
     domain_labels_ok s \<or> (\<exists>t. s = t @ [newline] \<and> domain_labels_ok t)"
proof -
  have low: "lower t = t" if "domain_labels_ok t" for t
    using domain_labels_ok_chars [OF that] by (rule lower_if_label_chars)
  have "run_validators validate_domain_name s = [] \<longleftrightarrow>
      lower s = s \<and> (s \<in> rx_lang domain_name_rx \<or> (\<exists>t. s = t @ [newline] \<and> t \<in> rx_lang domain_name_rx))"
    by (simp add: run_validators_Nil_iff validate_domain_name_def re_anchored_iff)
  also have "\<dots> \<longleftrightarrow> domain_labels_ok s \<or> (\<exists>t. s = t @ [newline] \<and> domain_labels_ok t)"
    using low domain_name_lang_lower by (metis append1_eq_conv newline_lower)
  finally show ?thesis .
qed

text \<open>The validators of \<open>RRset.subname\<close> accept exactly \<open>*\<close>, a sequence of labels, or a
  sequence of labels under a leading \<open>*.\<close>, each label of 1 to 63 lowercase letters, digits,
  hyphens and underscores, again with an optional newline at the end.\<close>

lemma subname_validators_iff:
  "run_validators subname_validators s = [] \<longleftrightarrow>
     (\<exists>t. (s = t \<or> s = t @ [newline]) \<and>
       (t = ''*'' \<or> labels_ok t \<or> (\<exists>u. t = ''*.'' @ u \<and> labels_ok u)))"
proof -
  let ?ok = "\<lambda>t. t = ''*'' \<or> labels_ok t \<or> (\<exists>u. t = ''*.'' @ u \<and> labels_ok u)"
  have lang: "t \<in> rx_lang subname_rx \<longleftrightarrow> ?ok t" for t
    unfolding subname_rx_def rx_lang.simps RxOpt_def RxChar_def
    by (auto simp: labels_lang) (metis append_Cons append_Nil)+
  have star: "lower (''*.'' @ u) = ''*.'' @ lower u" "lower ''*'' = ''*''" for u
    by (simp_all add: lower_def lower_char_def)
  have low: "lower t = t" if "?ok t" for t
    using that lower_if_label_chars [OF labels_ok_chars] star by auto
  have "run_validators subname_validators s = [] \<longleftrightarrow>
      lower s = s \<and> (?ok s \<or> (\<exists>t. s = t @ [newline] \<and> ?ok t))"
    by (simp add: run_validators_Nil_iff subname_validators_def re_anchored_iff lang)
  also have "\<dots> \<longleftrightarrow> ?ok s \<or> (\<exists>t. s = t @ [newline] \<and> ?ok t)"
  proof -
    have "lower s = s" if "?ok s \<or> (\<exists>t. s = t @ [newline] \<and> ?ok t)"
      using that
    proof
      assume "\<exists>t. s = t @ [newline] \<and> ?ok t"
      then obtain t where "s = t @ [newline]" and "?ok t" by blast
      with low [OF this(2)] show ?thesis by simp
    qed (rule low)
    then show ?thesis by blast
  qed
  also have "\<dots> \<longleftrightarrow> (\<exists>t. (s = t \<or> s = t @ [newline]) \<and> ?ok t)"
    by blast
  finally show ?thesis .
qed

text \<open>The consequence for a name the message of the validator rules out.\<close>

lemma domain_name_trailing_newline:
  "run_validators validate_domain_name (''example.com'' @ [newline]) = []"
proof -
  have "domain_labels_ok ''example.com''"
    by (simp add: domain_labels_ok_def label_over_def cls_label_def cls_tld_def is_lower_alnum_def)
  then show ?thesis
    using domain_name_lang_lower [of "''example.com''"]
    by (simp add: run_validators_Nil_iff validate_domain_name_def re_anchored_iff
        lower_def lower_char_def)
qed

text \<open>The owner name built for a subname determines it: cutting the domain and the two dots off
  the name \<open>construct_name\<close> builds (as \<open>get_rrset_datas\<close> does on the zone it reads back)
  returns the subname, the empty subname of the apex included.\<close>

lemma subname_of_construct_name:
  assumes "domain_name \<noteq> []"
  shows "subname_of_name domain_name (construct_name subname domain_name) = subname"
  using assms by (rule subname_of_name_construct)

lemma subname_of_construct_name_witness:
  "subname_of_name ''a.example'' (construct_name ''www'' ''a.example'') = ''www''"
  by (rule subname_of_construct_name) simp

end
