(* ===== verification/Json.thy ===== *)
theory Json
  imports Prelude
begin

text \<open>
  Python values as \<open>json.dumps\<close> takes them, with the encoder the code uses (the default one):
  separators \<open>", "\<close> and \<open>": "\<close>, non-ASCII and control characters escaped, and a \<open>TypeError\<close>
  for a value it does not know. \<open>PyTimedelta\<close> is such a value; it stands for
  \<open>datetime.timedelta\<close> and carries a number of seconds.
\<close>

datatype pyval =
  PyNone
| PyBool bool
| PyInt int
| PyStr string
| PyList "pyval list"
| PyDict "(string \<times> pyval) list"
| PyTimedelta int

datatype json_error = JsonTypeError

section \<open>Numbers and strings\<close>

definition digit_char :: "nat \<Rightarrow> char" where
  "digit_char d = char_of (48 + d)"

fun show_nat :: "nat \<Rightarrow> string" where
  "show_nat n = (if n < 10 then [digit_char n] else show_nat (n div 10) @ [digit_char (n mod 10)])"

declare show_nat.simps [simp del]

definition show_int :: "int \<Rightarrow> string" where
  "show_int i = (if i < 0 then CHR ''-'' # show_nat (nat (- i)) else show_nat (nat i))"

definition hex_digit :: "nat \<Rightarrow> char" where
  "hex_digit d = (if d < 10 then char_of (48 + d) else char_of (87 + d))"

definition escape_char :: "char \<Rightarrow> string" where
  "escape_char c =
     (let n = (of_char c :: nat) in
      if n = 34 then [CHR 0x5C, CHR 0x22]
      else if n = 92 then [CHR 0x5C, CHR 0x5C]
      else if n = 10 then [CHR 0x5C, CHR ''n'']
      else if n = 13 then [CHR 0x5C, CHR ''r'']
      else if n = 9 then [CHR 0x5C, CHR ''t'']
      else if n = 8 then [CHR 0x5C, CHR ''b'']
      else if n = 12 then [CHR 0x5C, CHR ''f'']
      else if 32 \<le> n \<and> n \<le> 126 then [c]
      else [CHR 0x5C, CHR ''u'', CHR ''0'', CHR ''0'', hex_digit (n div 16), hex_digit (n mod 16)])"

definition dumps_str :: "string \<Rightarrow> string" where
  "dumps_str s = [CHR 0x22] @ concat (map escape_char s) @ [CHR 0x22]"

section \<open>\<open>json.dumps\<close>\<close>

fun dumps :: "pyval \<Rightarrow> (json_error, string) result"
  and dumps_list :: "pyval list \<Rightarrow> (json_error, string list) result"
  and dumps_dict :: "(string \<times> pyval) list \<Rightarrow> (json_error, string list) result" where
  "dumps PyNone = Inr ''null''"
| "dumps (PyBool b) = Inr (if b then ''true'' else ''false'')"
| "dumps (PyInt i) = Inr (show_int i)"
| "dumps (PyStr s) = Inr (dumps_str s)"
| "dumps (PyList vs) = rbind (dumps_list vs) (\<lambda>ss. Inr (''['' @ join '', '' ss @ '']''))"
| "dumps (PyDict kvs) = rbind (dumps_dict kvs) (\<lambda>ss. Inr (''{'' @ join '', '' ss @ ''}''))"
| "dumps (PyTimedelta n) = Inl JsonTypeError"
| "dumps_list [] = Inr []"
| "dumps_list (v # vs) = rbind (dumps v) (\<lambda>s. rbind (dumps_list vs) (\<lambda>ss. Inr (s # ss)))"
| "dumps_dict [] = Inr []"
| "dumps_dict ((k, v) # kvs) =
     rbind (dumps v) (\<lambda>s. rbind (dumps_dict kvs) (\<lambda>ss. Inr ((dumps_str k @ '': '' @ s) # ss)))"

text \<open>The values the encoder accepts: those without a \<open>timedelta\<close> anywhere.\<close>

fun json_serializable :: "pyval \<Rightarrow> bool" where
  "json_serializable (PyList vs) = list_all json_serializable vs"
| "json_serializable (PyDict kvs) = list_all (\<lambda>(k, v). json_serializable v) kvs"
| "json_serializable (PyTimedelta n) = False"
| "json_serializable _ = True"

lemma dumps_ok_iff:
  "(\<exists>s. dumps v = Inr s) \<longleftrightarrow> json_serializable v"
  "(\<exists>ss. dumps_list vs = Inr ss) \<longleftrightarrow> list_all json_serializable vs"
  "(\<exists>ss. dumps_dict kvs = Inr ss) \<longleftrightarrow> list_all (\<lambda>(k, v). json_serializable v) kvs"
  by (induction v and vs and kvs rule: dumps_dumps_list_dumps_dict.induct)
    (auto simp: result_simps)

lemma dumps_list_fails: "v \<in> set vs \<Longrightarrow> \<not> json_serializable v \<Longrightarrow> dumps (PyList vs) = Inl JsonTypeError"
proof -
  assume "v \<in> set vs" and "\<not> json_serializable v"
  then have "\<not> json_serializable (PyList vs)" by (auto simp: list_all_iff)
  then have "\<nexists>s. dumps (PyList vs) = Inr s" by (simp only: dumps_ok_iff) simp
  then show ?thesis
    by (cases "dumps (PyList vs)") (auto intro: json_error.exhaust)
qed

end
