(* ===== verification/Effects.thy ===== *)
theory Effects
  imports Prelude
begin

text \<open>
  Code that talks to the outside (the PowerDNS API, the clock, the database) as functions of an
  explicit world: a computation takes the world and returns a value or the exception that was
  raised, and the world it leaves, also when it raises.
\<close>

named_theorems io_simps \<open>equations of the world-passing combinators\<close>

type_synonym ('w, 'e, 'a) io = "'w \<Rightarrow> ('e, 'a) result \<times> 'w"

definition io_return :: "'a \<Rightarrow> ('w, 'e, 'a) io" where
  "io_return x w = (Inr x, w)"

definition io_raise :: "'e \<Rightarrow> ('w, 'e, 'a) io" where
  "io_raise e w = (Inl e, w)"

definition io_bind :: "('w, 'e, 'a) io \<Rightarrow> ('a \<Rightarrow> ('w, 'e, 'b) io) \<Rightarrow> ('w, 'e, 'b) io" where
  "io_bind m f w = (case m w of (Inl e, w') \<Rightarrow> (Inl e, w') | (Inr x, w') \<Rightarrow> f x w')"

definition io_lift :: "('e, 'a) result \<Rightarrow> ('w, 'e, 'a) io" where
  "io_lift r w = (r, w)"

text \<open>\<open>try: m except e: h(e)\<close>\<close>

definition io_catch :: "('w, 'e, 'a) io \<Rightarrow> ('e \<Rightarrow> ('w, 'f, 'a) io) \<Rightarrow> ('w, 'f, 'a) io" where
  "io_catch m h w = (case m w of (Inl e, w') \<Rightarrow> h e w' | (Inr x, w') \<Rightarrow> (Inr x, w'))"

fun io_iter :: "('a \<Rightarrow> ('w, 'e, unit) io) \<Rightarrow> 'a list \<Rightarrow> ('w, 'e, unit) io" where
  "io_iter f [] = io_return ()"
| "io_iter f (x # xs) = io_bind (f x) (\<lambda>_. io_iter f xs)"

lemma io_return_apply [simp, io_simps]: "io_return x w = (Inr x, w)"
  by (simp add: io_return_def)

lemma io_raise_apply [simp, io_simps]: "io_raise e w = (Inl e, w)"
  by (simp add: io_raise_def)

lemma io_lift_apply [simp, io_simps]: "io_lift r w = (r, w)"
  by (simp add: io_lift_def)

lemma io_bind_Inr: "m w = (Inr x, w') \<Longrightarrow> io_bind m f w = f x w'"
  by (simp add: io_bind_def)

lemma io_bind_Inl: "m w = (Inl e, w') \<Longrightarrow> io_bind m f w = (Inl e, w')"
  by (simp add: io_bind_def)

lemma io_bind_pure [simp]:
  "io_bind (Pair (Inr x)) f = f x"
  "io_bind (Pair (Inl e)) f = Pair (Inl e)"
  by (rule ext, simp add: io_bind_def)+

lemma io_bind_return [simp]:
  "io_bind (io_return x) f = f x"
  "io_bind (io_raise e) f = io_raise e"
  "io_bind (io_lift (Inr x)) f = f x"
  "io_bind (io_lift (Inl e)) f = io_raise e"
  by (rule ext, simp add: io_bind_def)+

lemma io_bind_Inr_iff [io_simps]:
  "io_bind m f w = (Inr y, v) \<longleftrightarrow> (\<exists>x w'. m w = (Inr x, w') \<and> f x w' = (Inr y, v))"
  by (auto simp: io_bind_def split: prod.splits sum.splits)

lemma io_bind_Inl_iff [io_simps]:
  "io_bind m f w = (Inl e, v) \<longleftrightarrow>
     m w = (Inl e, v) \<or> (\<exists>x w'. m w = (Inr x, w') \<and> f x w' = (Inl e, v))"
  by (auto simp: io_bind_def split: prod.splits sum.splits)

lemma io_iter_append:
  "io_iter f (xs @ ys) = io_bind (io_iter f xs) (\<lambda>_. io_iter f ys)"
proof (induction xs)
  case Nil
  then show ?case by simp
next
  case (Cons x xs)
  show ?case
    by (rule ext) (simp add: Cons io_bind_def split: prod.splits sum.splits)
qed

lemma io_iter_error_prefix:
  assumes "io_iter f xs w = (Inl e, w')"
  shows "\<exists>ys x zs v. xs = ys @ x # zs \<and> io_iter f ys w = (Inr (), v) \<and> f x v = (Inl e, w')"
  using assms
proof (induction xs arbitrary: w)
  case Nil
  then show ?case by simp
next
  case (Cons x xs)
  show ?case
  proof (cases "f x w")
    case (Pair r v)
    show ?thesis
    proof (cases r)
      case (Inl e')
      with Pair Cons.prems have "xs = xs \<and> f x w = (Inl e, w')" by (simp add: io_bind_def)
      then have "x # xs = [] @ x # xs \<and> io_iter f [] w = (Inr (), w) \<and> f x w = (Inl e, w')" by simp
      then show ?thesis by blast
    next
      case (Inr u)
      with Pair Cons.prems have "io_iter f xs v = (Inl e, w')" by (simp add: io_bind_def)
      from Cons.IH [OF this] obtain ys y zs v'
        where "xs = ys @ y # zs" "io_iter f ys v = (Inr (), v')" "f y v' = (Inl e, w')" by blast
      then have "x # xs = (x # ys) @ y # zs \<and> io_iter f (x # ys) w = (Inr (), v') \<and> f y v' = (Inl e, w')"
        using Pair Inr by (simp add: io_bind_def)
      then show ?thesis by blast
    qed
  qed
qed

text \<open>What every step of an iteration keeps holds at its end, also when a step raises.\<close>

lemma io_iter_keeps:
  assumes "io_iter f xs s = (r, s')" and "P s"
    and "\<And>x s r s'. x \<in> set xs \<Longrightarrow> P s \<Longrightarrow> f x s = (r, s') \<Longrightarrow> P s'"
  shows "P s'"
  using assms
proof (induction xs arbitrary: s)
  case Nil
  then show ?case by simp
next
  case (Cons x xs)
  obtain q v where f: "f x s = (q, v)" by (cases "f x s")
  have P: "P v" by (rule Cons.prems(3) [OF _ Cons.prems(2) f]) simp
  show ?case
  proof (cases q)
    case (Inl e)
    with f Cons.prems(1) P show ?thesis by (simp add: io_bind_def)
  next
    case (Inr y)
    with f Cons.prems(1) have "io_iter f xs v = (r, s')" by (simp add: io_bind_def)
    then show ?thesis by (rule Cons.IH [OF _ P]) (use Cons.prems(3) in auto)
  qed
qed

end
