(* ===== verification/Pdns.thy ===== *)
theory Pdns
  imports Names Json Effects
begin

text \<open>
  The PowerDNS and PCH clients (\<open>pdns.py\<close>, \<open>pch.py\<close>) and the settings they read
  (\<open>api/settings.py\<close>). The services themselves are outside the repository: \<open>send\<close> of the
  environment answers an HTTP request in a world of any type. SHA-1 and the resolver are
  parameters too. Metrics and request headers are not modelled.
\<close>

section \<open>Settings and environment\<close>

record settings =
  default_ns :: "string list"
  default_ns_ttl :: nat
  local_public_suffixes :: "string set"
  nslord_api :: string
  nsmaster_api :: string
  catalog_zone :: string
  pdns_max_body_size :: nat
  maximum_ttl :: nat
  minimum_ttl_default :: nat
  register_lps :: bool
  pch_enabled :: bool

datatype http_method = Get | Post | Put | Patch | Delete

record http_request =
  h_method :: http_method
  h_url :: string
  h_data :: "string option"
  h_accept :: string

record http_response =
  status_code :: nat
  json_body :: pyval
  content :: string

record 'w env =
  send :: "http_request \<Rightarrow> 'w \<Rightarrow> http_response \<times> 'w"
  sha1_hex :: "string \<Rightarrow> string"
  gethostbyname :: "string \<Rightarrow> string"
  conf :: settings

datatype server = NSLORD | NSMASTER

datatype pdns_error =
  PDNSException nat
| PCHException nat
| RequestEntityTooLarge
| SuspiciousOperation string
| PyTypeError
| PyKeyError
| PyAssertionError

definition base_url :: "settings \<Rightarrow> server \<Rightarrow> string" where
  "base_url c srv = (case srv of NSLORD \<Rightarrow> nslord_api c | NSMASTER \<Rightarrow> nsmaster_api c)"

section \<open>Requests (pdns.py)\<close>

definition pdns_request ::
  "'w env \<Rightarrow> http_method \<Rightarrow> server \<Rightarrow> string \<Rightarrow> pyval option \<Rightarrow> string \<Rightarrow>
   ('w, pdns_error, http_response) io" where
  "pdns_request E m srv path data acc =
     io_bind
       (case data of
          None \<Rightarrow> io_return None
        | Some d \<Rightarrow> (case dumps d of Inl _ \<Rightarrow> io_raise PyTypeError | Inr s \<Rightarrow> io_return (Some s)))
       (\<lambda>body.
          if (case body of None \<Rightarrow> False | Some s \<Rightarrow> pdns_max_body_size (conf E) < length s)
          then io_raise RequestEntityTooLarge
          else (\<lambda>w.
            let (r, w') = send E \<lparr>h_method = m, h_url = base_url (conf E) srv @ path,
                                   h_data = body, h_accept = acc\<rparr> w
            in if status_code r \<in> {200..<300} then (Inr r, w')
               else (Inl (PDNSException (status_code r)), w')))"

definition app_json :: string where
  "app_json = ''application/json''"

definition pdns_post where
  "pdns_post E srv path data = pdns_request E Post srv path (Some data) app_json"

definition pdns_patch where
  "pdns_patch E srv path data = pdns_request E Patch srv path (Some data) app_json"

definition pdns_get where
  "pdns_get E srv path acc = pdns_request E Get srv path None acc"

definition pdns_put where
  "pdns_put E srv path = pdns_request E Put srv path None app_json"

definition pdns_delete where
  "pdns_delete E srv path = pdns_request E Delete srv path None app_json"

text \<open>\<open>^[a-zA-Z0-9_.-]+$\<close>\<close>

definition cls_host :: "char \<Rightarrow> bool" where
  "cls_host c \<longleftrightarrow> is_lower_alnum c \<or> cls_upper c \<or> c = CHR ''_'' \<or> c = CHR ''.'' \<or> c = CHR ''-''"

definition translate_id :: "char \<Rightarrow> string" where
  "translate_id c =
     (if c = CHR ''/'' then ''=2F'' else if c = CHR ''_'' then ''=5F'' else [c])"

definition pdns_id :: "string \<Rightarrow> (pdns_error, string) result" where
  "pdns_id name =
     (if \<not> re_anchored (RxPlus (RxClass cls_host)) name
      then Inl (SuspiciousOperation name)
      else Inr (rstrip_char CHR ''.'' (concat (map translate_id name)) @ ''.''))"

section \<open>Reading JSON answers\<close>

text \<open>\<open>d[k]\<close>, \<open>d.get(k, default)\<close>, iteration and truth value of a Python value\<close>

definition py_get :: "pyval \<Rightarrow> string \<Rightarrow> (pdns_error, pyval) result" where
  "py_get v k =
     (case v of
        PyDict kvs \<Rightarrow> (case map_of kvs k of None \<Rightarrow> Inl PyKeyError | Some x \<Rightarrow> Inr x)
      | _ \<Rightarrow> Inl PyTypeError)"

definition py_get_default :: "pyval \<Rightarrow> string \<Rightarrow> pyval \<Rightarrow> (pdns_error, pyval) result" where
  "py_get_default v k d =
     (case v of
        PyDict kvs \<Rightarrow> Inr (case map_of kvs k of None \<Rightarrow> d | Some x \<Rightarrow> x)
      | _ \<Rightarrow> Inl PyTypeError)"

definition py_items :: "pyval \<Rightarrow> (pdns_error, pyval list) result" where
  "py_items v = (case v of PyList xs \<Rightarrow> Inr xs | _ \<Rightarrow> Inl PyTypeError)"

definition py_str :: "pyval \<Rightarrow> (pdns_error, string) result" where
  "py_str v = (case v of PyStr s \<Rightarrow> Inr s | _ \<Rightarrow> Inl PyTypeError)"

fun truthy :: "pyval \<Rightarrow> bool" where
  "truthy PyNone = False"
| "truthy (PyBool b) = b"
| "truthy (PyInt i) = (i \<noteq> 0)"
| "truthy (PyStr s) = (s \<noteq> [])"
| "truthy (PyList xs) = (xs \<noteq> [])"
| "truthy (PyDict kvs) = (kvs \<noteq> [])"
| "truthy (PyTimedelta n) = (n \<noteq> 0)"

text \<open>\<open>get_keys\<close>: only the published keys, with the fields renamed.\<close>

definition key_field_map :: "(string \<times> string) list" where
  "key_field_map =
     [(''dnskey'', ''dnskey''), (''cds'', ''ds''), (''flags'', ''flags''), (''keytype'', ''keytype'')]"

definition select_key :: "pyval \<Rightarrow> (pdns_error, pyval option) result" where
  "select_key key =
     rbind (py_get key ''published'') (\<lambda>p.
       if truthy p
       then rbind (rmap (\<lambda>(k, v). rbind (py_get_default key k (PyList [])) (\<lambda>x. Inr (v, x))) key_field_map)
              (\<lambda>kvs. Inr (Some (PyDict kvs)))
       else Inr None)"

definition somes :: "'a option list \<Rightarrow> 'a list" where
  "somes xs = concat (map (\<lambda>x. case x of None \<Rightarrow> [] | Some y \<Rightarrow> [y]) xs)"

definition get_keys :: "'w env \<Rightarrow> string \<Rightarrow> ('w, pdns_error, pyval list) io" where
  "get_keys E domain_name =
     io_bind (io_lift (pdns_id domain_name)) (\<lambda>i.
     io_bind (pdns_get E NSLORD (''/zones/'' @ i @ ''/cryptokeys'') app_json) (\<lambda>r.
     io_lift (rbind (py_items (json_body r)) (\<lambda>keys.
              rbind (rmap select_key keys) (\<lambda>ks. Inr (somes ks))))))"

definition get_zone :: "'w env \<Rightarrow> string \<Rightarrow> ('w, pdns_error, pyval) io" where
  "get_zone E domain_name =
     io_bind (io_lift (pdns_id domain_name)) (\<lambda>i.
     io_bind (pdns_get E NSLORD (''/zones/'' @ i) app_json) (\<lambda>r. io_return (json_body r)))"

definition get_zonefile :: "'w env \<Rightarrow> string \<Rightarrow> ('w, pdns_error, string) io" where
  "get_zonefile E domain_name =
     io_bind (io_lift (pdns_id domain_name)) (\<lambda>i.
     io_bind (pdns_get E NSLORD (''/zones/'' @ i @ ''/export'') ''text/dns'')
       (\<lambda>r. io_return (content r)))"

record rrset_data =
  d_domain :: string
  d_subname :: string
  d_type :: pyval
  d_records :: "pyval list"
  d_ttl :: pyval

definition rrset_data_of :: "string \<Rightarrow> pyval \<Rightarrow> (pdns_error, rrset_data) result" where
  "rrset_data_of domain_name rrset =
     rbind (rbind (py_get rrset ''name'') py_str) (\<lambda>name.
     rbind (py_get rrset ''type'') (\<lambda>ty.
     rbind (rbind (py_get rrset ''records'') py_items) (\<lambda>recs.
     rbind (rmap (\<lambda>r. py_get r ''content'') recs) (\<lambda>cs.
     rbind (py_get rrset ''ttl'') (\<lambda>t.
       Inr \<lparr>d_domain = domain_name, d_subname = subname_of_name domain_name name,
            d_type = ty, d_records = cs, d_ttl = t\<rparr>)))))"

definition get_rrset_datas :: "'w env \<Rightarrow> string \<Rightarrow> ('w, pdns_error, rrset_data list) io" where
  "get_rrset_datas E domain_name =
     io_bind (get_zone E domain_name) (\<lambda>z.
       io_lift (rbind (rbind (py_get z ''rrsets'') py_items) (rmap (rrset_data_of domain_name))))"

definition get_serials :: "'w env \<Rightarrow> ('w, pdns_error, (pyval \<times> pyval) list) io" where
  "get_serials E =
     io_bind (pdns_get E NSMASTER ''/zones'' app_json) (\<lambda>r.
       io_lift (rbind (py_items (json_body r))
         (rmap (\<lambda>z. rbind (py_get z ''name'') (\<lambda>n.
                     rbind (py_get z ''edited_serial'') (\<lambda>s. Inr (n, s)))))))"

section \<open>Catalog zone\<close>

definition construct_catalog_rrset ::
  "'w env \<Rightarrow> string option \<Rightarrow> bool \<Rightarrow> string option \<Rightarrow> string \<Rightarrow> string option \<Rightarrow>
   (pdns_error, pyval) result" where
  "construct_catalog_rrset E zone delete subname qtype rdata =
     (if (zone = None) = (subname = None) then Inl PyAssertionError
      else if delete \<and> rdata \<noteq> None \<and> rdata \<noteq> Some [] then Inl PyAssertionError
      else
        let zone1 = (if subname = None then map_option (\<lambda>z. rstrip_char CHR ''.'' z @ ''.'') zone else zone);
            sub1 = (case subname of
                      None \<Rightarrow> sha1_hex E (case zone1 of None \<Rightarrow> [] | Some z \<Rightarrow> z) @ ''.zones''
                    | Some s \<Rightarrow> s);
            rdata1 = (case rdata of None \<Rightarrow> zone1 | Some r \<Rightarrow> Some r)
        in Inr (PyDict
             [(''name'', PyStr (strip_char CHR ''.'' (sub1 @ ''.'' @ catalog_zone (conf E)) @ ''.'')),
              (''type'', PyStr qtype),
              (''ttl'', PyInt 0),
              (''changetype'', PyStr ''REPLACE''),
              (''records'', PyList (if delete then []
                 else [PyDict [(''content'', case rdata1 of None \<Rightarrow> PyNone | Some r \<Rightarrow> PyStr r),
                               (''disabled'', PyBool False)]]))]))"

definition update_catalog :: "'w env \<Rightarrow> string \<Rightarrow> bool \<Rightarrow> ('w, pdns_error, http_response) io" where
  "update_catalog E zone delete =
     io_bind (io_lift (pdns_id (catalog_zone (conf E)))) (\<lambda>i.
     io_bind (io_lift (construct_catalog_rrset E (Some zone) delete None ''PTR'' None)) (\<lambda>rr.
       pdns_patch E NSMASTER (''/zones/'' @ i) (PyDict [(''rrsets'', PyList [rr])])))"

section \<open>Zones\<close>

definition soa_content :: string where
  "soa_content = ''get.desec.io. get.desec.io. 1 86400 3600 2419200 3600''"

definition create_zone_lord :: "'w env \<Rightarrow> string \<Rightarrow> ('w, pdns_error, unit) io" where
  "create_zone_lord E name =
     (let n = rstrip_char CHR ''.'' name @ ''.'' in
      io_bind (pdns_post E NSLORD ''/zones?rrsets=false''
        (PyDict
          [(''name'', PyStr n), (''kind'', PyStr ''MASTER''), (''dnssec'', PyBool True),
           (''nsec3param'', PyStr ''1 0 0 -''),
           (''nameservers'', PyList (map PyStr (default_ns (conf E)))),
           (''rrsets'', PyList [PyDict
              [(''name'', PyStr n), (''type'', PyStr ''SOA''), (''ttl'', PyInt 300),
               (''records'', PyList [PyDict [(''content'', PyStr soa_content),
                                              (''disabled'', PyBool False)]])]])]))
        (\<lambda>_. io_return ()))"

definition create_zone_master :: "'w env \<Rightarrow> string \<Rightarrow> ('w, pdns_error, unit) io" where
  "create_zone_master E name =
     (let n = rstrip_char CHR ''.'' name @ ''.'' in
      io_bind (pdns_post E NSMASTER ''/zones?rrsets=false''
        (PyDict
          [(''name'', PyStr n), (''kind'', PyStr ''SLAVE''),
           (''masters'', PyList [PyStr (gethostbyname E ''nslord'')]),
           (''master_tsig_key_ids'', PyList [PyStr ''default''])]))
        (\<lambda>_. io_return ()))"

definition delete_zone :: "'w env \<Rightarrow> string \<Rightarrow> server \<Rightarrow> ('w, pdns_error, unit) io" where
  "delete_zone E name srv =
     io_bind (io_lift (pdns_id name)) (\<lambda>i.
     io_bind (pdns_delete E srv (''/zones/'' @ i)) (\<lambda>_. io_return ()))"

definition delete_zone_lord :: "'w env \<Rightarrow> string \<Rightarrow> ('w, pdns_error, unit) io" where
  "delete_zone_lord E name =
     io_bind (io_lift (pdns_id name)) (\<lambda>i.
     io_bind (pdns_delete E NSLORD (''/zones/'' @ i)) (\<lambda>_. io_return ()))"

definition delete_zone_master :: "'w env \<Rightarrow> string \<Rightarrow> ('w, pdns_error, unit) io" where
  "delete_zone_master E name =
     io_bind (io_lift (pdns_id name)) (\<lambda>i.
     io_bind (pdns_delete E NSMASTER (''/zones/'' @ i)) (\<lambda>_. io_return ()))"

definition update_zone :: "'w env \<Rightarrow> string \<Rightarrow> pyval \<Rightarrow> ('w, pdns_error, unit) io" where
  "update_zone E name data =
     io_bind (io_lift (pdns_id name)) (\<lambda>i.
     io_bind (pdns_patch E NSLORD (''/zones/'' @ i) data) (\<lambda>_. io_return ()))"

definition axfr_to_master :: "'w env \<Rightarrow> string \<Rightarrow> ('w, pdns_error, unit) io" where
  "axfr_to_master E zone =
     io_bind (io_lift (pdns_id zone)) (\<lambda>i.
     io_bind (pdns_put E NSMASTER (''/zones/'' @ i @ ''/axfr-retrieve'')) (\<lambda>_. io_return ()))"

section \<open>PCH (pch.py)\<close>

text \<open>The PCH API of the settings is one more HTTP service; \<open>pch_url\<close> is its base URL.\<close>

definition pch_request ::
  "'w env \<Rightarrow> string \<Rightarrow> http_method \<Rightarrow> string \<Rightarrow> nat list \<Rightarrow> pyval \<Rightarrow> ('w, pdns_error, unit) io" where
  "pch_request E pch_url m path expect data =
     (case dumps data of
        Inl _ \<Rightarrow> io_raise PyTypeError
      | Inr body \<Rightarrow> (\<lambda>w.
          let (r, w') = send E \<lparr>h_method = m, h_url = pch_url @ path,
                                 h_data = Some body, h_accept = app_json\<rparr> w
          in if status_code r \<in> set expect then (Inr (), w')
             else (Inl (PCHException (status_code r)), w')))"

definition pch_create_domains where
  "pch_create_domains E pch_url domains =
     pch_request E pch_url Post ''/zones'' [201] (PyDict [(''zones'', PyList (map PyStr domains))])"

definition pch_delete_domains where
  "pch_delete_domains E pch_url domains =
     pch_request E pch_url Delete ''/zones'' [200] (PyDict [(''zones'', PyList (map PyStr domains))])"

section \<open>Facts\<close>

lemma translate_id_prefix_code:
  assumes "translate_id x @ u = translate_id y @ v" and "x \<noteq> CHR ''=''" and "y \<noteq> CHR ''=''"
  shows "x = y \<and> u = v"
  using assms by (auto simp: translate_id_def split: if_splits)

lemma translate_inj:
  assumes "concat (map translate_id a) = concat (map translate_id b)"
    and "CHR ''='' \<notin> set a" and "CHR ''='' \<notin> set b"
  shows "a = b"
  using assms
proof (induction a arbitrary: b)
  case Nil
  then show ?case by (cases b) (auto simp: translate_id_def split: if_splits)
next
  case (Cons x xs)
  then obtain y ys where b: "b = y # ys"
    by (cases b) (auto simp: translate_id_def split: if_splits)
  with Cons.prems translate_id_prefix_code
  have "x = y" and "concat (map translate_id xs) = concat (map translate_id ys)"
    by auto
  with Cons b show ?case by auto
qed

lemma last_translate:
  assumes "s \<noteq> []"
  shows "concat (map translate_id s) \<noteq> [] \<and>
    (last (concat (map translate_id s)) = CHR ''.'' \<longleftrightarrow> last s = CHR ''.'')"
  using assms by (induction s rule: rev_induct) (auto simp: translate_id_def)

lemma domain_labels_ok_last:
  assumes "domain_labels_ok s"
  shows "s \<noteq> [] \<and> last s \<noteq> CHR ''.'' \<and> CHR ''='' \<notin> set s"
proof -
  let ?ls = "split_on CHR ''.'' s"
  from assms have l: "label_over cls_tld (last ?ls)" by (simp add: domain_labels_ok_def)
  have "join ''.'' ls \<noteq> [] \<and> last (join ''.'' ls) = last (last ls)"
    if "ls \<noteq> []" "last ls \<noteq> []" for ls
    using that by (induction ls rule: induct_list012) auto
  moreover have "last ?ls \<noteq> []" using l by (auto simp: label_over_def)
  ultimately have s: "s \<noteq> []" "last s = last (last ?ls)"
    by (metis join_split_on split_on_not_Nil)+
  from l have "cls_tld (last (last ?ls))" by (cases "last ?ls" rule: rev_cases) (auto simp: label_over_def)
  then have "last s \<noteq> CHR ''.''" using s(2) no_dot_classes(2) by (auto simp: ignorecase_def)
  moreover have "\<not> cls_label CHR ''=''" by (simp add: cls_label_def is_lower_alnum_def)
  then have "CHR ''='' \<notin> set s" using domain_labels_ok_chars [OF assms] by auto
  ultimately show ?thesis using s(1) by blast
qed

lemma cls_label_host: "cls_label c \<Longrightarrow> cls_host c"
  by (auto simp: cls_label_def cls_host_def)

lemma RxPlus_class: "s \<in> rx_lang (RxPlus (RxClass p)) \<longleftrightarrow> s \<noteq> [] \<and> (\<forall>c \<in> set s. p c)"
proof (cases s)
  case Nil
  then show ?thesis unfolding RxPlus_def by (simp add: RxSeq_class del: rx_lang.simps)
next
  case (Cons x xs)
  then show ?thesis unfolding RxPlus_def by (simp only: RxSeq_class RxStar_class) auto
qed

lemma pdns_id_domain:
  assumes "domain_labels_ok s"
  shows "pdns_id s = Inr (concat (map translate_id s) @ ''.'')"
proof -
  note l = domain_labels_ok_last [OF assms]
  have "\<forall>c \<in> set s. cls_host c"
    using domain_labels_ok_chars [OF assms] cls_label_host by (auto simp: cls_host_def)
  with l have "re_anchored (RxPlus (RxClass cls_host)) s"
    by (simp add: re_anchored_iff RxPlus_class)
  moreover have "rstrip_char CHR ''.'' (concat (map translate_id s)) = concat (map translate_id s)"
    using l last_translate by (intro rstrip_char_id) auto
  ultimately show ?thesis by (simp add: pdns_id_def)
qed

section \<open>Properties\<close>

text \<open>\<open>pdns_id\<close> is injective on valid domain names: two domains never address the same
  PowerDNS zone.\<close>

lemma pdns_id_injective:
  assumes "domain_labels_ok a" and "domain_labels_ok b" and "pdns_id a = pdns_id b"
  shows "a = b"
proof -
  from assms have "concat (map translate_id a) = concat (map translate_id b)"
    by (simp add: pdns_id_domain)
  then show ?thesis
    by (rule translate_inj) (use assms domain_labels_ok_last in blast)+
qed

lemma pdns_id_injective_witness:
  "domain_labels_ok ''a_b.example'' \<and> domain_labels_ok ''a-b.example'' \<and>
   pdns_id ''a_b.example'' \<noteq> pdns_id ''a-b.example''"
proof -
  have ok: "domain_labels_ok ''a_b.example''" "domain_labels_ok ''a-b.example''"
    by (simp_all add: domain_labels_ok_def label_over_def cls_label_def cls_tld_def is_lower_alnum_def)
  with pdns_id_injective [OF ok] show ?thesis by auto
qed

text \<open>A request whose JSON body is longer than the limit is never sent: the world is the one
  before the call. Any other request is sent exactly once, and the call returns the answer if its
  status is 2xx and raises \<open>PDNSException\<close> with the status otherwise.\<close>

lemma pdns_request_cases:
  assumes "dumps d = Inr body"
  shows "pdns_request E m srv path (Some d) acc w =
    (if pdns_max_body_size (conf E) < length body then (Inl RequestEntityTooLarge, w)
     else let (r, w') = send E \<lparr>h_method = m, h_url = base_url (conf E) srv @ path,
                                h_data = Some body, h_accept = acc\<rparr> w
          in (if 200 \<le> status_code r \<and> status_code r < 300 then Inr r
              else Inl (PDNSException (status_code r)), w'))"
  using assms by (auto simp: pdns_request_def Let_def split: prod.splits)

lemma pdns_request_cases_witness:
  "pdns_request
     (\<lparr>send = (\<lambda>r w. (\<lparr>status_code = 422, json_body = PyNone, content = []\<rparr>, r # w)),
      sha1_hex = (\<lambda>s. s), gethostbyname = (\<lambda>s. s),
      conf = \<lparr>default_ns = [], default_ns_ttl = 3600, local_public_suffixes = {},
        nslord_api = ''http://l'', nsmaster_api = ''http://m'', catalog_zone = ''catalog.internal'',
        pdns_max_body_size = 10, maximum_ttl = 86400, minimum_ttl_default = 3600,
        register_lps = True, pch_enabled = False\<rparr>\<rparr>)
     Post NSLORD ''/zones'' (Some (PyBool True)) app_json [] =
   (Inl (PDNSException 422),
    [\<lparr>h_method = Post, h_url = ''http://l/zones'', h_data = Some ''true'', h_accept = app_json\<rparr>])"
  by (subst pdns_request_cases [where body = "''true''"]) (simp_all add: base_url_def)

end
