(* ===== verification/Tracker.thy ===== *)
theory Tracker
  imports Pdns "HOL-Library.AList"
begin

text \<open>
  The change tracker (\<open>pdns_change_tracker.py\<close>): it listens to the save and delete signals of
  domains, RRsets and RRs inside a transaction, accumulates what changed, and on exit turns the
  net change into PowerDNS requests before it commits. The rows of the API database the tracker
  reads are modelled with it, and the model operations that emit the signals.
\<close>

section \<open>The rows of the database\<close>

text \<open>An RRset of a domain is addressed as the tracker does, by type and subname.\<close>

type_synonym rrkey = "string \<times> string"

record rrset =
  ttl :: nat
  records :: "string list"

type_synonym zone = "(rrkey \<times> rrset) list"

record db =
  zones :: "string \<rightharpoonup> zone"
  published :: "string \<rightharpoonup> int"

abbreviation keys :: "zone \<Rightarrow> rrkey set" where
  "keys z \<equiv> fst ` set z"

section \<open>The tracker's state\<close>

record tracker =
  domain_additions :: "string set"
  domain_deletions :: "string set"
  rr_set_additions :: "string \<rightharpoonup> rrkey set"
  rr_set_modifications :: "string \<rightharpoonup> rrkey set"
  rr_set_deletions :: "string \<rightharpoonup> rrkey set"

text \<open>A reversible operation against PowerDNS: the subclasses of \<open>PDNSChange\<close>.\<close>

datatype change =
  CreateDomain string
| DeleteDomain string
| CreateUpdateDeleteRRSets string "rrkey set" "rrkey set" "rrkey set"

primrec change_domain :: "change \<Rightarrow> string" where
  "change_domain (CreateDomain d) = d"
| "change_domain (DeleteDomain d) = d"
| "change_domain (CreateUpdateDeleteRRSets d A M D) = d"

primrec axfr_required :: "change \<Rightarrow> bool" where
  "axfr_required (CreateDomain d) = True"
| "axfr_required (DeleteDomain d) = False"
| "axfr_required (CreateUpdateDeleteRRSets d A M D) = True"

datatype terror =
  AssertionError
| KeyError
| ValueError string
| DoesNotExist
| IntegrityError
| PdnsError pdns_error
| ChangeFailed "change list" change terror

text \<open>\<open>__init__\<close>: the empty tracker.\<close>

definition new_tracker :: tracker where
  "new_tracker =
     \<lparr>domain_additions = {}, domain_deletions = {}, rr_set_additions = Map.empty,
      rr_set_modifications = Map.empty, rr_set_deletions = Map.empty\<rparr>"

section \<open>Signal handlers\<close>

definition key_of :: "(string \<rightharpoonup> rrkey set) \<Rightarrow> string \<Rightarrow> (terror, rrkey set) result" where
  "key_of m d = (case m d of None \<Rightarrow> Inl KeyError | Some s \<Rightarrow> Inr s)"

definition set_rrsets :: "string \<Rightarrow> rrkey set \<Rightarrow> rrkey set \<Rightarrow> rrkey set \<Rightarrow> tracker \<Rightarrow> tracker" where
  "set_rrsets d A M D t =
     t\<lparr>rr_set_additions := (rr_set_additions t)(d \<mapsto> A),
       rr_set_modifications := (rr_set_modifications t)(d \<mapsto> M),
       rr_set_deletions := (rr_set_deletions t)(d \<mapsto> D)\<rparr>"

text \<open>\<open>_rr_set_updated\<close>\<close>

definition rr_set_updated ::
  "string \<Rightarrow> rrkey \<Rightarrow> bool \<Rightarrow> bool \<Rightarrow> tracker \<Rightarrow> (terror, tracker) result" where
  "rr_set_updated d item deleted created t0 =
     (let t = (if rr_set_modifications t0 d = None then set_rrsets d {} {} {} t0 else t0) in
      rbind (key_of (rr_set_additions t) d) (\<lambda>additions.
      rbind (key_of (rr_set_modifications t) d) (\<lambda>modifications.
      rbind (key_of (rr_set_deletions t) d) (\<lambda>deletions.
        if created \<and> \<not> deleted then
          (if item \<in> modifications then Inl AssertionError
           else Inr (set_rrsets d (insert item additions) modifications (deletions - {item}) t))
        else if \<not> created \<and> deleted then
          (if item \<in> additions
           then Inr (set_rrsets d (additions - {item}) (modifications - {item}) deletions t)
           else Inr (set_rrsets d additions (modifications - {item}) (insert item deletions) t))
        else if \<not> created \<and> \<not> deleted then
          (if item \<in> deletions then Inl AssertionError
           else Inr (set_rrsets d additions (insert item modifications) deletions t))
        else Inl (ValueError ''An RR set cannot be created and deleted at the same time.'')))))"

text \<open>\<open>_domain_updated\<close>\<close>

definition domain_updated :: "string \<Rightarrow> bool \<Rightarrow> bool \<Rightarrow> tracker \<Rightarrow> (terror, tracker) result" where
  "domain_updated name created deleted t =
     (if \<not> created \<and> \<not> deleted then Inr t
      else if created \<and> deleted
      then Inl (ValueError ''A domain set cannot be created and deleted at the same time.'')
      else if created then
        Inr (if name \<in> domain_deletions t
             then t\<lparr>domain_deletions := domain_deletions t - {name}\<rparr>
             else t\<lparr>domain_additions := insert name (domain_additions t)\<rparr>)
      else
        Inr (if name \<in> domain_additions t
             then t\<lparr>domain_additions := domain_additions t - {name}\<rparr>
             else t\<lparr>domain_deletions := insert name (domain_deletions t)\<rparr>))"

definition on_rr_post_save :: "string \<Rightarrow> rrkey \<Rightarrow> tracker \<Rightarrow> (terror, tracker) result" where
  "on_rr_post_save d k t = rr_set_updated d k False False t"

text \<open>\<open>rrset_exists\<close> says whether looking up \<open>instance.rrset\<close> finds the RRset.\<close>

definition on_rr_post_delete :: "bool \<Rightarrow> string \<Rightarrow> rrkey \<Rightarrow> tracker \<Rightarrow> (terror, tracker) result" where
  "on_rr_post_delete rrset_exists d k t =
     (if rrset_exists then rr_set_updated d k False False t else Inr t)"

definition on_rr_set_post_save :: "string \<Rightarrow> rrkey \<Rightarrow> bool \<Rightarrow> tracker \<Rightarrow> (terror, tracker) result" where
  "on_rr_set_post_save d k created t = rr_set_updated d k False created t"

definition on_rr_set_post_delete :: "string \<Rightarrow> rrkey \<Rightarrow> tracker \<Rightarrow> (terror, tracker) result" where
  "on_rr_set_post_delete d k t = rr_set_updated d k True False t"

definition on_domain_post_save :: "string \<Rightarrow> bool \<Rightarrow> tracker \<Rightarrow> (terror, tracker) result" where
  "on_domain_post_save d created t = domain_updated d created False t"

definition on_domain_post_delete :: "string \<Rightarrow> tracker \<Rightarrow> (terror, tracker) result" where
  "on_domain_post_delete d t = domain_updated d False True t"

section \<open>Database operations and the signals they emit\<close>

text \<open>
  What the code inside a tracked block does to the tables: saving a new or a known RRset, saving
  one RR or several (\<open>RRManager.bulk_create\<close>, which saves the RRset once if there are any),
  deleting RRs, an RRset with its RRs, a domain with its RRsets, and creating a domain. The
  constraints of the tables (unique RRset per domain, subname and type; CNAME exclusivity; unique
  record in an RRset; unique domain name) make a violating operation raise \<open>IntegrityError\<close>.
\<close>

datatype db_op =
  OpRRsetCreate string rrkey nat
| OpRRsetSave string rrkey nat
| OpRRCreate string rrkey string
| OpRRBulkCreate string rrkey "string list"
| OpRRDelete string rrkey "string list"
| OpRRsetDelete string rrkey
| OpDomainCreate string
| OpDomainDelete string

definition cname_conflict :: "zone \<Rightarrow> rrkey \<Rightarrow> bool" where
  "cname_conflict z k \<longleftrightarrow>
     (\<exists>k' \<in> keys z. snd k' = snd k \<and> (fst k' = ''CNAME'') \<noteq> (fst k = ''CNAME''))"

definition zone_of :: "db \<Rightarrow> string \<Rightarrow> (terror, zone) result" where
  "zone_of D d = (case zones D d of None \<Rightarrow> Inl DoesNotExist | Some z \<Rightarrow> Inr z)"

definition rrset_of :: "db \<Rightarrow> string \<Rightarrow> rrkey \<Rightarrow> (terror, rrset) result" where
  "rrset_of D d k =
     rbind (zone_of D d) (\<lambda>z. case map_of z k of None \<Rightarrow> Inl DoesNotExist | Some r \<Rightarrow> Inr r)"

definition put_rrset :: "string \<Rightarrow> rrkey \<Rightarrow> rrset \<Rightarrow> db \<Rightarrow> db" where
  "put_rrset d k r D =
     (case zones D d of None \<Rightarrow> D | Some z \<Rightarrow> D\<lparr>zones := (zones D)(d \<mapsto> AList.update k r z)\<rparr>)"

definition drop_rrset :: "string \<Rightarrow> rrkey \<Rightarrow> db \<Rightarrow> db" where
  "drop_rrset d k D =
     (case zones D d of None \<Rightarrow> D | Some z \<Rightarrow> D\<lparr>zones := (zones D)(d \<mapsto> AList.delete k z)\<rparr>)"

type_synonym tracked = "db \<times> tracker"

definition rrset_delete_step :: "string \<Rightarrow> rrkey \<Rightarrow> tracked \<Rightarrow> (terror, tracked) result" where
  "rrset_delete_step d k S =
     (case S of (D, t) \<Rightarrow>
        rbind (rrset_of D d k) (\<lambda>r.
        rbind (rfold (\<lambda>_. on_rr_post_delete True d k) (records r) t) (\<lambda>t1.
        rbind (on_rr_set_post_delete d k t1) (\<lambda>t2. Inr (drop_rrset d k D, t2)))))"

fun db_step :: "db_op \<Rightarrow> tracked \<Rightarrow> (terror, tracked) result" where
  "db_step (OpRRsetCreate d k n) (D, t) =
     rbind (zone_of D d) (\<lambda>z.
     rbind (require (k \<notin> keys z \<and> \<not> cname_conflict z k) IntegrityError) (\<lambda>_.
     rbind (on_rr_set_post_save d k True t) (\<lambda>t'.
       Inr (put_rrset d k \<lparr>ttl = n, records = []\<rparr> D, t'))))"
| "db_step (OpRRsetSave d k n) (D, t) =
     rbind (rrset_of D d k) (\<lambda>r.
     rbind (on_rr_set_post_save d k False t) (\<lambda>t'. Inr (put_rrset d k (r\<lparr>ttl := n\<rparr>) D, t')))"
| "db_step (OpRRCreate d k c) (D, t) =
     rbind (rrset_of D d k) (\<lambda>r.
     rbind (require (c \<notin> set (records r)) IntegrityError) (\<lambda>_.
     rbind (on_rr_post_save d k t) (\<lambda>t'.
       Inr (put_rrset d k (r\<lparr>records := records r @ [c]\<rparr>) D, t'))))"
| "db_step (OpRRBulkCreate d k cs) (D, t) =
     rbind (rrset_of D d k) (\<lambda>r.
     rbind (require (distinct cs \<and> set cs \<inter> set (records r) = {}) IntegrityError) (\<lambda>_.
     rbind (if cs = [] then Inr t else on_rr_set_post_save d k False t) (\<lambda>t'.
       Inr (put_rrset d k (r\<lparr>records := records r @ cs\<rparr>) D, t'))))"
| "db_step (OpRRDelete d k cs) (D, t) =
     rbind (rrset_of D d k) (\<lambda>r.
     rbind (rfold (\<lambda>_. on_rr_post_delete True d k) (filter (\<lambda>c. c \<in> set cs) (records r)) t) (\<lambda>t'.
       Inr (put_rrset d k (r\<lparr>records := filter (\<lambda>c. c \<notin> set cs) (records r)\<rparr>) D, t')))"
| "db_step (OpRRsetDelete d k) S = rrset_delete_step d k S"
| "db_step (OpDomainCreate d) (D, t) =
     rbind (require (zones D d = None) IntegrityError) (\<lambda>_.
     rbind (on_domain_post_save d True t) (\<lambda>t'. Inr (D\<lparr>zones := (zones D)(d \<mapsto> [])\<rparr>, t')))"
| "db_step (OpDomainDelete d) (D, t) =
     rbind (zone_of D d) (\<lambda>z.
     rbind (rfold (rrset_delete_step d) (map fst z) (D, t)) (\<lambda>(D1, t1).
     rbind (on_domain_post_delete d t1) (\<lambda>t2. Inr (D1\<lparr>zones := (zones D1)(d := None)\<rparr>, t2))))"

definition track_run :: "db_op list \<Rightarrow> tracked \<Rightarrow> (terror, tracked) result" where
  "track_run ops = rfold db_step ops"

section \<open>Computing the changes\<close>

text \<open>The order in which the interpreter iterates over a set of names, and one of RRset keys.\<close>

record order =
  od :: "string set \<Rightarrow> string list"
  ok :: "rrkey set \<Rightarrow> rrkey list"

definition lawful_order :: "order \<Rightarrow> bool" where
  "lawful_order R \<longleftrightarrow>
     (\<forall>X. finite X \<longrightarrow> set (od R X) = X \<and> distinct (od R X)) \<and>
     (\<forall>X. finite X \<longrightarrow> set (ok R X) = X \<and> distinct (ok R X))"

definition get_set :: "(string \<rightharpoonup> rrkey set) \<Rightarrow> string \<Rightarrow> rrkey set" where
  "get_set m d = (case m d of None \<Rightarrow> {} | Some s \<Rightarrow> s)"

definition has_rrs :: "db \<Rightarrow> string \<Rightarrow> rrkey \<Rightarrow> bool" where
  "has_rrs D d k = (case rrset_of D d k of Inl _ \<Rightarrow> False | Inr r \<Rightarrow> records r \<noteq> [])"

definition discard_rrsets :: "string \<Rightarrow> tracker \<Rightarrow> tracker" where
  "discard_rrsets d t =
     t\<lparr>rr_set_additions := (rr_set_additions t)(d := None),
       rr_set_modifications := (rr_set_modifications t)(d := None),
       rr_set_deletions := (rr_set_deletions t)(d := None)\<rparr>"

definition changes_of :: "db \<Rightarrow> tracker \<Rightarrow> string \<Rightarrow> (terror, change list) result" where
  "changes_of D t d =
     (let additions = get_set (rr_set_additions t) d;
          modifications = get_set (rr_set_modifications t) d;
          deletions = get_set (rr_set_deletions t) d in
      rbind (require (additions \<inter> deletions = {}) AssertionError) (\<lambda>_.
      rbind (require (modifications \<inter> deletions = {}) AssertionError) (\<lambda>_.
        let additions' = additions - {k \<in> additions. \<not> has_rrs D d k} in
        Inr ((if d \<in> domain_additions t then [CreateDomain d] else []) @
             (if additions' \<union> modifications \<union> deletions \<noteq> {}
              then [CreateUpdateDeleteRRSets d additions' modifications deletions] else [])))))"

text \<open>\<open>_compute_changes\<close>\<close>

definition compute_changes :: "order \<Rightarrow> db \<Rightarrow> tracker \<Rightarrow> (terror, change list) result" where
  "compute_changes R D t0 =
     (let dels = od R (domain_deletions t0);
          t = fold discard_rrsets dels t0;
          names = od R (dom (rr_set_additions t) \<union> domain_additions t) in
      rbind (rmap (changes_of D t) names) (\<lambda>css. Inr (map DeleteDomain dels @ concat css)))"

section \<open>Carrying out a change\<close>

record pdns_rrset =
  p_name :: string
  p_type :: string
  p_ttl :: nat
  p_records :: "string list"

definition deletion_entry :: "string \<Rightarrow> rrkey \<Rightarrow> pdns_rrset" where
  "deletion_entry d k =
     \<lparr>p_name = construct_name (snd k) d, p_type = fst k, p_ttl = 1, p_records = []\<rparr>"

definition update_entry :: "db \<Rightarrow> string \<Rightarrow> rrkey \<Rightarrow> (terror, pdns_rrset) result" where
  "update_entry D d k =
     rbind (rrset_of D d k) (\<lambda>r.
       Inr \<lparr>p_name = construct_name (snd k) d, p_type = fst k, p_ttl = ttl r,
            p_records = records r\<rparr>)"

text \<open>The \<open>rrsets\<close> of \<open>CreateUpdateDeleteRRSets.pdns_do\<close>\<close>

definition rrsets_data ::
  "order \<Rightarrow> db \<Rightarrow> string \<Rightarrow> rrkey set \<Rightarrow> rrkey set \<Rightarrow> rrkey set \<Rightarrow> (terror, pdns_rrset list) result" where
  "rrsets_data R D d additions modifications deletions =
     rbind (rmap (update_entry D d) (ok R ((additions \<union> modifications) - deletions))) (\<lambda>us.
       Inr (map (deletion_entry d) (ok R deletions) @ us))"

definition entry_pyval :: "pdns_rrset \<Rightarrow> pyval" where
  "entry_pyval e =
     PyDict
       [(''name'', PyStr (p_name e)), (''type'', PyStr (p_type e)), (''ttl'', PyInt (int (p_ttl e))),
        (''changetype'', PyStr ''REPLACE''),
        (''records'', PyList (map (\<lambda>c. PyDict [(''content'', PyStr c), (''disabled'', PyBool False)])
           (p_records e)))]"

text \<open>The state of the process: the database as the open transaction sees it, the outside world,
  and the class variable that counts active trackers.\<close>

record 'w sys =
  api_db :: db
  net :: 'w
  active :: nat

definition on_net :: "('w, pdns_error, 'a) io \<Rightarrow> ('w sys, terror, 'a) io" where
  "on_net m s =
     (case m (net s) of
        (Inl e, w) \<Rightarrow> (Inl (PdnsError e), s\<lparr>net := w\<rparr>)
      | (Inr x, w) \<Rightarrow> (Inr x, s\<lparr>net := w\<rparr>))"

fun pdns_do :: "'w env \<Rightarrow> order \<Rightarrow> change \<Rightarrow> ('w sys, terror, unit) io" where
  "pdns_do E R (CreateDomain d) =
     on_net (io_bind (create_zone_lord E d) (\<lambda>_. io_bind (create_zone_master E d) (\<lambda>_.
             io_bind (update_catalog E d False) (\<lambda>_. io_return ()))))"
| "pdns_do E R (DeleteDomain d) =
     on_net (io_bind (delete_zone_lord E d) (\<lambda>_. io_bind (delete_zone_master E d) (\<lambda>_.
             io_bind (update_catalog E d True) (\<lambda>_. io_return ()))))"
| "pdns_do E R (CreateUpdateDeleteRRSets d A M X) =
     (\<lambda>s. case rrsets_data R (api_db s) d A M X of
            Inl e \<Rightarrow> (Inl e, s)
          | Inr es \<Rightarrow>
              if es = [] then (Inr (), s)
              else on_net (update_zone E d (PyDict [(''rrsets'', PyList (map entry_pyval es))])) s)"

text \<open>\<open>CreateDomain.api_do\<close> runs with the tracker's signals disconnected: it creates the apex NS
  RRset with the default name servers.\<close>

fun api_do :: "'w env \<Rightarrow> change \<Rightarrow> ('w sys, terror, unit) io" where
  "api_do E (CreateDomain d) =
     (\<lambda>s. case zones (api_db s) d of
            None \<Rightarrow> (Inl DoesNotExist, s)
          | Some z \<Rightarrow>
              if (''NS'', []) \<in> keys z \<or> cname_conflict z (''NS'', []) then (Inl IntegrityError, s)
              else (Inr (), s\<lparr>api_db := put_rrset d (''NS'', [])
                     \<lparr>ttl = default_ns_ttl (conf E), records = default_ns (conf E)\<rparr> (api_db s)\<rparr>))"
| "api_do E (DeleteDomain d) = io_return ()"
| "api_do E (CreateUpdateDeleteRRSets d A M X) = io_return ()"

fun pch_do :: "'w env \<Rightarrow> string \<Rightarrow> change \<Rightarrow> ('w sys, terror, unit) io" where
  "pch_do E url (CreateDomain d) = on_net (pch_create_domains E url [d])"
| "pch_do E url (DeleteDomain d) = on_net (pch_delete_domains E url [d])"
| "pch_do E url (CreateUpdateDeleteRRSets d A M X) = io_return ()"

definition do_change :: "'w env \<Rightarrow> order \<Rightarrow> string \<Rightarrow> change \<Rightarrow> ('w sys, terror, unit) io" where
  "do_change E R url c =
     io_bind (pdns_do E R c) (\<lambda>_. io_bind (api_do E c) (\<lambda>_.
       if pch_enabled (conf E) then pch_do E url c else io_return ()))"

text \<open>The loop over the changes: the first exception rolls back and is wrapped.\<close>

fun do_changes ::
  "'w env \<Rightarrow> order \<Rightarrow> string \<Rightarrow> db \<Rightarrow> change list \<Rightarrow> change list \<Rightarrow> ('w sys, terror, unit) io" where
  "do_changes E R url db0 all [] = io_return ()"
| "do_changes E R url db0 all (c # cs) =
     (\<lambda>s. case do_change E R url c s of
            (Inl e, s') \<Rightarrow> (Inl (ChangeFailed all c e), s'\<lparr>api_db := db0\<rparr>)
          | (Inr _, s') \<Rightarrow> do_changes E R url db0 all cs s')"

definition set_published :: "string set \<Rightarrow> int \<Rightarrow> db \<Rightarrow> db" where
  "set_published names now D =
     D\<lparr>published := (\<lambda>d. if d \<in> names \<and> zones D d \<noteq> None then Some now else published D d)\<rparr>"

section \<open>Entering and leaving the context\<close>

text \<open>\<open>__enter__\<close>: the counter goes up before the check against nesting. The result is the fresh
  tracker and the snapshot the transaction can return to.\<close>

definition tracker_enter :: "('w sys, terror, tracker \<times> db) io" where
  "tracker_enter s =
     (let s' = s\<lparr>active := active s + 1\<rparr> in
      if active s' = 1 then (Inr (new_tracker, api_db s'), s') else (Inl AssertionError, s'))"

text \<open>\<open>__exit__\<close>: \<open>exc\<close> says whether the block raised; \<open>db0\<close> is the snapshot.\<close>

definition tracker_exit ::
  "'w env \<Rightarrow> order \<Rightarrow> string \<Rightarrow> int \<Rightarrow> bool \<Rightarrow> db \<Rightarrow> tracker \<Rightarrow> ('w sys, terror, unit) io" where
  "tracker_exit E R url now exc db0 t s0 =
     (let s = s0\<lparr>active := active s0 - 1\<rparr> in
      if exc then (Inr (), s\<lparr>api_db := db0\<rparr>)
      else case compute_changes R (api_db s) t of
             Inl e \<Rightarrow> (Inl e, s)
           | Inr changes \<Rightarrow>
               let axfr = change_domain ` set (filter axfr_required changes) in
               io_bind (do_changes E R url db0 changes changes) (\<lambda>_.
               io_bind (io_iter (\<lambda>d. on_net (axfr_to_master E d)) (od R axfr)) (\<lambda>_ s'.
                 (Inr (), s'\<lparr>api_db := set_published axfr now (api_db s')\<rparr>))) s)"

end
