(* ===== verification/Records.thy ===== *)
theory Records
  imports Tracker "HOL-Library.Word"
begin

unbundle bit_operations_syntax

text \<open>
  RRsets and their records (\<open>models/records.py\<close>): the sets of record types, canonicalisation of
  record contents, validation and storage of the records of an RRset, and the replacement of the
  network part of addresses. dnspython's parser and printer are the parameter \<open>codec\<close>.
\<close>

section \<open>Record types\<close>

definition supported_rrset_types :: "string list" where
  "supported_rrset_types =
     [''A'', ''AAAA'', ''AFSDB'', ''ALIAS'', ''APL'', ''CAA'', ''CERT'', ''CDNSKEY'', ''CDS'', ''CNAME'',
      ''CSYNC'', ''DNSKEY'', ''DNAME'', ''DS'', ''HINFO'', ''HTTPS'', ''KEY'', ''LOC'', ''MX'', ''NAPTR'',
      ''NS'', ''NSEC'', ''NSEC3'', ''NSEC3PARAM'', ''OPENPGPKEY'', ''PTR'', ''RP'', ''RRSIG'', ''SOA'',
      ''SPF'', ''SSHFP'', ''SRV'', ''SVCB'', ''TLSA'', ''SMIMEA'', ''TXT'', ''URI'', ''DHCID'', ''DLV'',
      ''EUI48'', ''EUI64'', ''IPSECKEY'', ''KX'', ''MINFO'', ''MR'', ''RKEY'', ''WKS'', ''NID'', ''L32'',
      ''L64'', ''LP'']"

definition rr_set_types_unsupported :: "string set" where
  "rr_set_types_unsupported = {''ALIAS'', ''IPSECKEY'', ''KEY'', ''WKS''}"

definition rr_set_types_automatic :: "string set" where
  "rr_set_types_automatic = {''KEY'', ''NSEC'', ''NSEC3'', ''OPT'', ''RRSIG'', ''NSEC3PARAM'', ''SOA''}"

text \<open>\<open>dnspython\<close> is the set of types that library can validate.\<close>

definition rr_set_types_validation :: "string set \<Rightarrow> string set" where
  "rr_set_types_validation dnspython = dnspython \<union> {''L32'', ''L64'', ''LP'', ''NID''}"

definition rr_set_types_manageable :: "string set \<Rightarrow> string set" where
  "rr_set_types_manageable dnspython =
     (set supported_rrset_types \<inter> rr_set_types_validation dnspython)
       - rr_set_types_unsupported - rr_set_types_automatic"

section \<open>Canonical record contents\<close>

text \<open>The exceptions of the library that the code tells apart, in the order of its handlers.\<close>

datatype dns_exc =
  BinasciiError string
| DnsSyntaxError "string list"
| NameTooLong
| NeedAbsoluteNameOrOrigin
| PyValueError string
| OtherException string

datatype rec_error =
  RecValueError string
| RecValidationError "string list"
| RecOther dns_exc

text \<open>\<open>to_wire type text digestable\<close> and the way back, \<open>from_wire_parser\<close> and \<open>to_text\<close>\<close>

record codec =
  wire :: "string \<Rightarrow> string \<Rightarrow> bool \<Rightarrow> (dns_exc, nat list) result"
  text_of :: "string \<Rightarrow> nat list \<Rightarrow> (dns_exc, string) result"

definition to_wire :: "codec \<Rightarrow> string \<Rightarrow> string \<Rightarrow> bool \<Rightarrow> (dns_exc, string \<times> nat list) result" where
  "to_wire C ty rdata digestable = rbind (wire C ty rdata digestable) (\<lambda>w. Inr (ty, w))"

definition contains :: "string \<Rightarrow> string \<Rightarrow> bool" where
  "contains pat s \<longleftrightarrow> (\<exists>n \<in> set [0..<Suc (length s)]. starts_with (drop n s) pat)"

fun wrap_exc :: "string \<Rightarrow> dns_exc \<Rightarrow> rec_error" where
  "wrap_exc ty (BinasciiError m) = RecValueError ''Cannot parse hexadecimal or base64 record contents''"
| "wrap_exc ty (DnsSyntaxError args) =
     (if args = [] then RecOther (OtherException ''IndexError'')
      else if contains ''quote'' (hd args)
      then RecValueError (''Data for '' @ ty @ '' records must be given using quotation marks.'')
      else RecValueError (''Record content for type '' @ ty @ '' malformed: '' @ join '','' args))"
| "wrap_exc ty NameTooLong = RecValueError ''Hostname must be no longer than 255 characters''"
| "wrap_exc ty NeedAbsoluteNameOrOrigin =
     RecValueError ''Hostname must be fully qualified (i.e., end in a dot: \"example.com.\")''"
| "wrap_exc ty (PyValueError m) = RecValueError (''Cannot parse record contents: '' @ m)"
| "wrap_exc ty (OtherException m) = RecOther (OtherException m)"

definition canonical_presentation_format :: "codec \<Rightarrow> string \<Rightarrow> string \<Rightarrow> (rec_error, string) result" where
  "canonical_presentation_format C rdata ty =
     (case to_wire C ty rdata False of
        Inl x \<Rightarrow> Inl (wrap_exc ty x)
      | Inr (_, w) \<Rightarrow>
          if 64000 < length w
          then Inl (RecValidationError [''Ensure this value has no more than 64000 byte in wire format (it has ''
                 @ show_nat (length w) @ '').''])
          else case text_of C ty w of Inl x \<Rightarrow> Inl (wrap_exc ty x) | Inr s \<Rightarrow> Inr s)"

section \<open>The records of an RRset\<close>

text \<open>The owner of records: domain, type and subname.\<close>

definition error_msg :: "string \<Rightarrow> rrkey \<Rightarrow> string \<Rightarrow> string \<Rightarrow> string" where
  "error_msg d k record detail =
     ''Record content of '' @ fst k @ '' '' @ construct_name (snd k) d @ '' invalid: '' @
     [CHR 0x27] @ record @ [CHR 0x27] @ '': '' @ detail"

definition rrset_shape_errors :: "rrkey \<Rightarrow> nat \<Rightarrow> string list" where
  "rrset_shape_errors k n =
     (if fst k \<in> {''CNAME'', ''DNAME''} \<and> 1 < n
      then [fst k @ '' RRset cannot have multiple records.''] else []) @
     (if fst k \<in> {''CNAME'', ''DS''} \<and> snd k = [] then [fst k @ '' RRset cannot have empty subname.''] else []) @
     (if fst k \<in> {''DNSKEY''} \<and> snd k \<noteq> [] then [fst k @ '' RRset must have empty subname.''] else [])"

text \<open>The loop of \<open>clean_records\<close>; only \<open>ValueError\<close>s are collected.\<close>

fun clean_loop :: "codec \<Rightarrow> string \<Rightarrow> rrkey \<Rightarrow> string list \<Rightarrow> string list \<times> string set \<Rightarrow>
    (rec_error, string list \<times> string set) result" where
  "clean_loop C d k [] (errors, seen) = Inr (errors, seen)"
| "clean_loop C d k (r # rs) (errors, seen) =
     (case canonical_presentation_format C r (fst k) of
        Inl (RecValueError m) \<Rightarrow> clean_loop C d k rs (errors @ [error_msg d k r m], seen)
      | Inl e \<Rightarrow> Inl e
      | Inr c \<Rightarrow>
          if c \<in> seen
          then clean_loop C d k rs (errors @
                 [error_msg d k r (''Duplicate record content: this is identical to '' @
                    [CHR 0x27] @ c @ [CHR 0x27])], seen)
          else clean_loop C d k rs (errors, insert c seen))"

definition clean_records :: "codec \<Rightarrow> string \<Rightarrow> rrkey \<Rightarrow> string list \<Rightarrow> (rec_error, string set) result" where
  "clean_records C d k rs =
     rbind (clean_loop C d k rs (rrset_shape_errors k (length rs), {})) (\<lambda>(errors, seen).
       if errors \<noteq> [] then Inl (RecValidationError errors) else Inr seen)"

text \<open>An error in a tracked block: of the database or the tracker, or of the validation.\<close>

datatype block_error = DbError terror | RecordError rec_error

definition db_run :: "(terror, 'a) result \<Rightarrow> (block_error, 'a) result" where
  "db_run r = (case r of Inl e \<Rightarrow> Inl (DbError e) | Inr x \<Rightarrow> Inr x)"

text \<open>\<open>save_records\<close>: \<open>so\<close> is the order in which the set of added contents is listed.\<close>

definition save_records ::
  "codec \<Rightarrow> (string set \<Rightarrow> string list) \<Rightarrow> string \<Rightarrow> rrkey \<Rightarrow> string list \<Rightarrow> tracked \<Rightarrow>
   (block_error, tracked) result" where
  "save_records C so d k rs S =
     (case clean_records C d k rs of
        Inl e \<Rightarrow> Inl (RecordError e)
      | Inr new \<Rightarrow>
          rbind (db_run (rrset_of (fst S) d k)) (\<lambda>r.
          rbind (db_run (db_step (OpRRDelete d k (filter (\<lambda>c. c \<notin> new) (records r))) S)) (\<lambda>S1.
          rbind (db_run (rrset_of (fst S1) d k)) (\<lambda>r1.
            db_run (db_step (OpRRBulkCreate d k (so (new - set (records r1)))) S1)))))"

section \<open>Replacing the network part of addresses\<close>

datatype ip = V4 "32 word" | V6 "128 word"

record subnet =
  network_address :: ip
  prefixlen :: nat

text \<open>\<open>ipaddress.ip_address\<close> on an integer: an IPv4 address if it fits in 32 bits.\<close>

definition ip_of_int :: "int \<Rightarrow> ip option" where
  "ip_of_int n =
     (if n < 0 then None
      else if n < 2 ^ 32 then Some (V4 (word_of_int n))
      else if n < 2 ^ 128 then Some (V6 (word_of_int n))
      else None)"

fun ip_int :: "ip \<Rightarrow> int" where
  "ip_int (V4 w) = uint w"
| "ip_int (V6 w) = uint w"

fun ip_bits :: "ip \<Rightarrow> nat" where
  "ip_bits (V4 w) = 32"
| "ip_bits (V6 w) = 128"

text \<open>Adding an integer keeps the version of the address and fails outside its range.\<close>

fun ip_add :: "ip \<Rightarrow> int \<Rightarrow> ip option" where
  "ip_add (V4 w) n = (if 0 \<le> uint w + n \<and> uint w + n < 2 ^ 32 then Some (V4 (w + word_of_int n)) else None)"
| "ip_add (V6 w) n = (if 0 \<le> uint w + n \<and> uint w + n < 2 ^ 128 then Some (V6 (w + word_of_int n)) else None)"

definition hostmask :: "subnet \<Rightarrow> int" where
  "hostmask s = 2 ^ (ip_bits (network_address s) - prefixlen s) - 1"

fun same_version :: "ip \<Rightarrow> ip \<Rightarrow> bool" where
  "same_version (V4 _) (V4 _) = True"
| "same_version (V6 _) (V6 _) = True"
| "same_version _ _ = False"

datatype ip_error = AddressValueError

definition replace_ip_subnet :: "subnet \<Rightarrow> ip list \<Rightarrow> (ip_error, ip list) result" where
  "replace_ip_subnet s addrs =
     rmap (\<lambda>a. case ip_of_int (ip_int (network_address s)) of
                 None \<Rightarrow> Inl AddressValueError
               | Some p \<Rightarrow> (case ip_add p (ip_int a AND hostmask s) of
                              None \<Rightarrow> Inl AddressValueError | Some q \<Rightarrow> Inr q))
       (filter (same_version (network_address s)) addrs)"

end
