(* ===== verification/Bulk.thy ===== *)
theory Bulk
  imports Records "HOL-Library.Char_ord" "HOL-Library.List_Lexorder"
begin

text \<open>
  The RRset serializers (\<open>serializers/records.py\<close>) and the validators they use
  (\<open>validators.py\<close>): the checks on one RRset, its creation, update and deletion, and the list
  serializer that validates and applies many RRsets at once. Field parsing by the REST framework
  is the parameter \<open>run_validation\<close>.
\<close>

section \<open>Errors\<close>

text \<open>A validation error maps field names to messages; any other exception is a crash.\<close>

datatype verr = Invalid "(string \<times> string) list" | Denied | Crash string

datatype serr = Rejected verr | Block block_error

definition nfe :: string where
  "nfe = ''non_field_errors''"

definition invalid :: "string \<Rightarrow> (verr, 'a) result" where
  "invalid m = Inl (Invalid [(nfe, m)])"

section \<open>Checks on one RRset\<close>

record attrs =
  a_subname :: "string option"
  a_type :: "string option"
  a_ttl :: "nat option"
  a_records :: "string list option"

text \<open>The domain a serializer works on, and the tables and libraries it consults:
  \<open>name_too_long\<close> is dnspython's check on the combined name, \<open>blocked\<close> a lookup in the table of
  blocked subnets.\<close>

record ctx =
  x_domain :: string
  x_registrable :: bool
  x_minimum_ttl :: nat
  x_codec :: codec
  x_dnspython :: "string set"
  name_too_long :: "string \<Rightarrow> string \<Rightarrow> bool"
  blocked :: "string \<Rightarrow> bool"

definition validate_type :: "ctx \<Rightarrow> string \<Rightarrow> (verr, string) result" where
  "validate_type X value =
     (if value \<in> rr_set_types_manageable (x_dnspython X) then Inr value
      else if value \<in> rr_set_types_automatic
      then Inl (Invalid [(''type'', ''You cannot tinker with the '' @ value @
             '' RR set. It is managed automatically.'')])
      else if starts_with value ''TYPE'' then Inl (Invalid [(''type'', ''Generic type format is not supported.'')])
      else Inl (Invalid [(''type'', ''The '' @ value @ '' RR set type is currently unsupported.'')]))"

definition validate_records :: "string option \<Rightarrow> string list \<Rightarrow> (verr, string list) result" where
  "validate_records http_method value =
     (if http_method = Some ''POST'' \<and> value = []
      then Inl (Invalid [(''records'', ''This field must not be empty when using POST.'')])
      else Inr value)"

definition read_only_on_update :: "string option \<Rightarrow> string \<Rightarrow> string \<Rightarrow> (verr, unit) result" where
  "read_only_on_update instance_value field value =
     (if instance_value \<noteq> None \<and> instance_value \<noteq> Some value
      then Inl (Invalid [(field, ''Can only be written on create.'')]) else Inr ())"

text \<open>\<open>inst\<close> is the key (type and subname) of the instance, if there is one.\<close>

definition validate_subname :: "ctx \<Rightarrow> rrkey option \<Rightarrow> string \<Rightarrow> (verr, string) result" where
  "validate_subname X inst value =
     (if (case inst of None \<Rightarrow> False | Some k \<Rightarrow> value \<noteq> snd k)
      then Inl (Invalid [(''subname'', ''Can only be written on create.'')])
      else if name_too_long X value (x_domain X)
      then Inl (Invalid [(''subname'', ''This field combined with the domain name must not exceed 255 characters.'')])
      else Inr value)"

definition validate_ttl :: "ctx \<Rightarrow> settings \<Rightarrow> nat \<Rightarrow> (verr, nat) result" where
  "validate_ttl X c value =
     (if maximum_ttl c < value
      then Inl (Invalid [(''ttl'', ''Ensure this value is less than or equal to '' @ show_nat (maximum_ttl c) @ ''.'')])
      else if value < x_minimum_ttl X
      then Inl (Invalid [(''ttl'', ''Ensure this value is greater than or equal to '' @ show_nat (x_minimum_ttl X) @ ''.'')])
      else Inr value)"

definition validate_canonical_presentation ::
  "ctx \<Rightarrow> string list \<Rightarrow> string \<Rightarrow> (verr, string list) result" where
  "validate_canonical_presentation X rs ty =
     (case rmap (\<lambda>r. canonical_presentation_format (x_codec X) r ty) rs of
        Inr cs \<Rightarrow> Inr cs
      | Inl (RecValueError m) \<Rightarrow> invalid m
      | Inl (RecValidationError ms) \<Rightarrow> Inl (Invalid (map (\<lambda>m. (nfe, m)) ms))
      | Inl (RecOther _) \<Rightarrow> Inl (Crash ''dnspython''))"

definition validate_ci_uniqueness :: "ctx \<Rightarrow> string list \<Rightarrow> string \<Rightarrow> (verr, unit) result" where
  "validate_ci_uniqueness X rs ty =
     (if length rs \<le> 1 then Inr ()
      else case rmap (\<lambda>r. to_wire (x_codec X) ty r True) rs of
             Inl _ \<Rightarrow> Inl (Crash ''dnspython'')
           | Inr ws \<Rightarrow>
               if length rs \<noteq> card (set ws) then invalid ''Duplicate: records must be semantically unique''
               else Inr ())"

definition conservative_total_length :: "ctx \<Rightarrow> string \<Rightarrow> string list \<Rightarrow> nat" where
  "conservative_total_length X subname rs =
     32 + length (construct_name subname (x_domain X)) + sum_list (map (\<lambda>r. 12 + length r) rs) + 256"

definition validate_length :: "ctx \<Rightarrow> string option \<Rightarrow> string list \<Rightarrow> (verr, unit) result" where
  "validate_length X subname rs =
     (let total = conservative_total_length X (case subname of None \<Rightarrow> [] | Some s \<Rightarrow> s) rs;
          excess = int total - 65535 in
      if 0 < excess
      then invalid (''Total length of RRset exceeds limit by '' @ show_int excess @ '' bytes.'')
      else Inr ())"

definition validate_blocked_content :: "ctx \<Rightarrow> string list \<Rightarrow> string \<Rightarrow> (verr, unit) result" where
  "validate_blocked_content X rs ty =
     (if ty = ''A'' \<and> x_registrable X
      then rfold (\<lambda>r _. if blocked X r then invalid (''IP address '' @ r @ '' not allowed.'') else Inr ()) rs ()
      else Inr ())"

text \<open>\<open>validate\<close>: \<open>attrs.get("subname", self.instance.subname)\<close> evaluates its default first, which
  fails when there is no instance.\<close>

definition validate_ns :: "ctx \<Rightarrow> rrkey option \<Rightarrow> attrs \<Rightarrow> string \<Rightarrow> (verr, unit) result" where
  "validate_ns X inst a ty =
     (let no = Inl (Invalid [(''type'', ''Cannot modify NS records for this domain.'')]) in
      if ty = ''NS'' \<and> x_registrable X then
        (if a_records a \<noteq> Some [] then no
         else case inst of
                None \<Rightarrow> Inl (Crash ''AttributeError'')
              | Some k \<Rightarrow>
                  if (case a_subname a of None \<Rightarrow> snd k | Some s \<Rightarrow> s) = [] then no else Inr ())
      else Inr ())"

definition validate :: "ctx \<Rightarrow> rrkey option \<Rightarrow> attrs \<Rightarrow> (verr, attrs) result" where
  "validate X inst a =
     rbind (case a_type a of
              Some ty \<Rightarrow> if ty \<noteq> [] then Inr ty
                         else (case inst of None \<Rightarrow> Inl (Crash ''AttributeError'') | Some k \<Rightarrow> Inr (fst k))
            | None \<Rightarrow> (case inst of None \<Rightarrow> Inl (Crash ''AttributeError'') | Some k \<Rightarrow> Inr (fst k)))
     (\<lambda>ty. rbind
       (case a_records a of
          None \<Rightarrow> Inr a
        | Some rs \<Rightarrow>
            rbind (validate_canonical_presentation X rs ty) (\<lambda>cs.
            rbind (validate_ci_uniqueness X cs ty) (\<lambda>_.
            rbind (validate_length X (a_subname a) cs) (\<lambda>_.
            rbind (validate_blocked_content X cs ty) (\<lambda>_. Inr (a\<lparr>a_records := Some cs\<rparr>))))))
       (\<lambda>a'. rbind (validate_ns X inst a' ty) (\<lambda>_. Inr a')))"

text \<open>The validators of the class, outside list serializers: uniqueness and CNAME exclusivity. They
  look at the rows of the domain but for the instance's own.\<close>

definition unique_together :: "zone \<Rightarrow> rrkey option \<Rightarrow> rrkey \<Rightarrow> (verr, unit) result" where
  "unique_together z inst k =
     (if \<exists>j \<in> keys z. Some j \<noteq> inst \<and> j = k
      then invalid ''Another RRset with the same subdomain and type exists for this domain. (Try modifying it.)''
      else Inr ())"

definition exclusive_rows :: "zone \<Rightarrow> rrkey option \<Rightarrow> rrkey \<Rightarrow> rrkey list" where
  "exclusive_rows z inst k =
     filter (\<lambda>j. snd j = snd k \<and> Some j \<noteq> inst \<and>
       (if fst k = ''CNAME'' then fst j \<noteq> ''CNAME'' else fst j = ''CNAME'')) (map fst z)"

definition exclusion_constraint :: "bool \<Rightarrow> zone \<Rightarrow> rrkey option \<Rightarrow> rrkey \<Rightarrow> (verr, unit) result" where
  "exclusion_constraint many z inst k =
     (if many then Inr ()
      else if exclusive_rows z inst k \<noteq> []
      then invalid (''RRset with conflicting type present at same subname: database ('' @
             join '', '' (map fst (exclusive_rows z inst k)) @
             ''). (No other RRsets are allowed alongside CNAME.)'')
      else Inr ())"

section \<open>Creating, updating, deleting one RRset\<close>

record vitem =
  v_type :: string
  v_subname :: string
  v_ttl :: "nat option"
  v_records :: "string list option"

definition vkey :: "vitem \<Rightarrow> rrkey" where
  "vkey v = (v_type v, v_subname v)"

text \<open>\<open>exists\<close> on data: an absent \<open>records\<close> counts as existing.\<close>

definition exists_data :: "vitem \<Rightarrow> bool" where
  "exists_data v = (case v_records v of None \<Rightarrow> True | Some rs \<Rightarrow> rs \<noteq> [])"

text \<open>\<open>full_clean\<close> of \<open>RRset.save\<close>\<close>

definition rrset_full_clean :: "rrkey \<Rightarrow> bool" where
  "rrset_full_clean k \<longleftrightarrow>
     length (snd k) \<le> 178 \<and> (snd k = [] \<or> run_validators subname_validators (snd k) = []) \<and>
     length (fst k) \<le> 10 \<and> run_validators type_validators (fst k) = []"

type_synonym block = "(serr, tracked) result"

definition in_db :: "(terror, tracked) result \<Rightarrow> block" where
  "in_db r = (case r of Inl e \<Rightarrow> Inl (Block (DbError e)) | Inr S \<Rightarrow> Inr S)"

definition set_all_record_contents ::
  "ctx \<Rightarrow> (string set \<Rightarrow> string list) \<Rightarrow> rrkey \<Rightarrow> string list \<Rightarrow> tracked \<Rightarrow> block" where
  "set_all_record_contents X so k rs S =
     (case save_records (x_codec X) so (x_domain X) k rs S of
        Inr S' \<Rightarrow> Inr S'
      | Inl (RecordError (RecValidationError ms)) \<Rightarrow> Inl (Rejected (Invalid (map (\<lambda>m. (nfe, m)) ms)))
      | Inl e \<Rightarrow> Inl (Block e))"

definition rrset_create :: "ctx \<Rightarrow> (string set \<Rightarrow> string list) \<Rightarrow> vitem \<Rightarrow> tracked \<Rightarrow> block" where
  "rrset_create X so v S =
     (case (v_records v, v_ttl v) of
        (Some rs, Some n) \<Rightarrow>
          if \<not> rrset_full_clean (vkey v) then Inl (Rejected (Invalid [(nfe, ''full_clean'')]))
          else rbind (in_db (db_step (OpRRsetCreate (x_domain X) (vkey v) n) S))
                 (set_all_record_contents X so (vkey v) rs)
      | (None, _) \<Rightarrow> Inl (Rejected (Crash ''KeyError''))
      | (_, None) \<Rightarrow> Inl (Rejected (Invalid [(''ttl'', ''This field cannot be null.'')])))"

definition rrset_update :: "ctx \<Rightarrow> (string set \<Rightarrow> string list) \<Rightarrow> rrkey \<Rightarrow> vitem \<Rightarrow> tracked \<Rightarrow> block" where
  "rrset_update X so k v S =
     rbind (case v_records v of None \<Rightarrow> Inr S | Some rs \<Rightarrow> set_all_record_contents X so k rs S) (\<lambda>S1.
       case v_ttl v of
         None \<Rightarrow> Inr S1
       | Some n \<Rightarrow>
           (case rrset_of (fst S1) (x_domain X) k of
              Inl e \<Rightarrow> Inl (Block (DbError e))
            | Inr r \<Rightarrow>
                if n \<noteq> 0 \<and> ttl r \<noteq> n then in_db (db_step (OpRRsetSave (x_domain X) k n) S1)
                else Inr S1))"

definition rrset_delete :: "ctx \<Rightarrow> rrkey \<Rightarrow> tracked \<Rightarrow> block" where
  "rrset_delete X k S = in_db (db_step (OpRRsetDelete (x_domain X) k) S)"

text \<open>\<open>ConditionalExistenceModelSerializer.save\<close>\<close>

definition conditional_save ::
  "ctx \<Rightarrow> (string set \<Rightarrow> string list) \<Rightarrow> rrkey option \<Rightarrow> vitem \<Rightarrow> tracked \<Rightarrow> block" where
  "conditional_save X so inst v S =
     (case inst of
        Some k \<Rightarrow> if exists_data v then rrset_update X so k v S else rrset_delete X k S
      | None \<Rightarrow> if exists_data v then rrset_create X so v S else Inr S)"

section \<open>Lists of RRsets: validation\<close>

datatype item_result = ItemOk vitem | ItemBad "(string \<times> string) list"

datatype list_error =
  NotAList string
| EmptyList
| SkipField
| ItemErrors "(string \<times> string) list list"
| ListCrash string
| ListDenied

fun type_name :: "pyval \<Rightarrow> string" where
  "type_name PyNone = ''NoneType''"
| "type_name (PyBool _) = ''bool''"
| "type_name (PyInt _) = ''int''"
| "type_name (PyStr _) = ''str''"
| "type_name (PyList _) = ''list''"
| "type_name (PyDict _) = ''dict''"
| "type_name (PyTimedelta _) = ''timedelta''"

fun item_get :: "pyval \<Rightarrow> string \<Rightarrow> pyval" where
  "item_get (PyDict kvs) k = (case map_of kvs k of None \<Rightarrow> PyNone | Some v \<Rightarrow> v)"
| "item_get _ k = PyNone"

text \<open>A key as the data give it, subname first; \<open>None\<close> stands for an absent or null value.\<close>

type_synonym ikey = "string option \<times> string option"

fun str_or_none :: "pyval \<Rightarrow> (string, string option) result" where
  "str_or_none PyNone = Inr None"
| "str_or_none (PyStr s) = Inr (Some s)"
| "str_or_none v = Inl (''Expected a string, but got '' @ type_name v @ ''.'')"

definition item_key :: "pyval \<Rightarrow> ((string \<times> string) list, ikey) result" where
  "item_key item =
     (case item of
        PyDict _ \<Rightarrow>
          (case (str_or_none (item_get item ''subname''), str_or_none (item_get item ''type'')) of
             (Inr s, Inr t) \<Rightarrow> Inr (s, t)
           | (Inl e, Inr _) \<Rightarrow> Inl [(''subname'', e)]
           | (Inr _, Inl e) \<Rightarrow> Inl [(''type'', e)]
           | (Inl e, Inl e') \<Rightarrow> Inl [(''subname'', e), (''type'', e')])
      | _ \<Rightarrow> Inl [(nfe, ''Expected a dictionary, but got '' @ type_name item @ ''.'')])"

definition records_empty :: "pyval \<Rightarrow> bool" where
  "records_empty item \<longleftrightarrow> item_get item ''records'' = PyList []"

text \<open>\<open>indices[s][t]\<close>: positions in the data, and \<open>None\<close> for a row of the database.\<close>

type_synonym row = "(string option \<times> nat option set) list"
type_synonym index = "(string option \<times> row) list"

definition row_get :: "row \<Rightarrow> string option \<Rightarrow> nat option set" where
  "row_get r t = (case map_of r t of None \<Rightarrow> {} | Some s \<Rightarrow> s)"

definition index_get :: "index \<Rightarrow> string option \<Rightarrow> row" where
  "index_get ind s = (case map_of ind s of None \<Rightarrow> [] | Some r \<Rightarrow> r)"

definition db_row :: "zone \<Rightarrow> string option \<Rightarrow> row" where
  "db_row z s = map (\<lambda>k. (Some (fst k), {None})) (filter (\<lambda>k. Some (snd k) = s) (map fst z))"

definition index_item :: "zone \<Rightarrow> nat \<times> ikey \<Rightarrow> index \<Rightarrow> index" where
  "index_item z p ind =
     (case p of (idx, s, t) \<Rightarrow>
        let row = (if map_of ind s = None then db_row z s else index_get ind s) in
        AList.update s (AList.update t (insert (Some idx) (row_get row t)) row) ind)"

definition collapse_item :: "nat \<times> ikey \<Rightarrow> index \<Rightarrow> index" where
  "collapse_item p ind =
     (case p of (idx, s, t) \<Rightarrow>
        let row = index_get ind s in
        AList.update s (AList.update t (row_get row t - {Some idx, None}) row) ind)"

text \<open>The items that passed the first check, with their positions.\<close>

definition good_items :: "pyval list \<Rightarrow> (nat \<times> pyval \<times> ikey) list" where
  "good_items data =
     concat (map (\<lambda>(i, item). case item_key item of Inl _ \<Rightarrow> [] | Inr k \<Rightarrow> [(i, item, k)]) (enumerate 0 data))"

definition indices :: "zone \<Rightarrow> pyval list \<Rightarrow> index" where
  "indices z data = fold (index_item z) (map (\<lambda>(i, item, k). (i, k)) (good_items data)) []"

definition collapsed_indices :: "zone \<Rightarrow> pyval list \<Rightarrow> index" where
  "collapsed_indices z data =
     fold collapse_item (map (\<lambda>(i, item, k). (i, k)) (filter (\<lambda>(i, item, k). records_empty item) (good_items data)))
       (indices z data)"

definition conflicting_row :: "row \<Rightarrow> string option \<Rightarrow> row" where
  "conflicting_row row t = filter (\<lambda>(k, v). (k = Some ''CNAME'') \<noteq> (t = Some ''CNAME'')) row"

text \<open>\<open>_types_by_position_string\<close>; joining fails on a missing type name.\<close>

definition types_at :: "row \<Rightarrow> nat option \<Rightarrow> (string, string list) result" where
  "types_at row p =
     rmap (\<lambda>t. case t of None \<Rightarrow> Inl ''TypeError'' | Some s \<Rightarrow> Inr s)
       (map fst (filter (\<lambda>(k, v). p \<in> v) row))"

definition types_by_position_string :: "row \<Rightarrow> (string, string) result" where
  "types_by_position_string row =
     (let ps = \<Union> (snd ` set row);
          positions = map Some (sorted_list_of_set {i. Some i \<in> ps}) @ (if None \<in> ps then [None] else []) in
      rbind (rmap (\<lambda>p. rbind (types_at row p) (\<lambda>ts.
               Inr ((case p of None \<Rightarrow> ''database'' | Some i \<Rightarrow> show_nat i) @ '' ('' @ join '', '' (sort ts) @ '')'')))
               positions)
        (\<lambda>ls. Inr (join '', '' ls)))"

definition check_item ::
  "index \<Rightarrow> index \<Rightarrow> nat \<Rightarrow> pyval \<Rightarrow> ikey \<Rightarrow> (verr, unit) result" where
  "check_item ind coll idx item k =
     (case k of (s, t) \<Rightarrow>
        let data_indices = row_get (index_get ind s) t - {None} in
        if 1 < card data_indices
        then invalid (''Same subname and type as in position(s) '' @
               join '', '' (map show_nat (sorted_list_of_set ({i. Some i \<in> data_indices} - {idx}))) @
               '', but must be unique.'')
        else if \<not> records_empty item \<and> (\<exists>v \<in> snd ` set (conflicting_row (index_get coll s) t). v \<noteq> {})
        then (case types_by_position_string (conflicting_row (index_get coll s) t) of
                Inl e \<Rightarrow> Inl (Crash e)
              | Inr m \<Rightarrow> invalid (''RRset with conflicting type present at same subname: '' @ m @
                          ''. (No other RRsets are allowed alongside CNAME.)''))
        else Inr ())"

text \<open>The instance a key refers to: the keys of the known instances as \<open>known\<close>.\<close>

fun rrkey_of :: "ikey \<Rightarrow> rrkey option" where
  "rrkey_of (Some s, Some t) = Some (t, s)"
| "rrkey_of _ = None"

definition known_key :: "rrkey set \<Rightarrow> ikey \<Rightarrow> rrkey option" where
  "known_key known k =
     (case rrkey_of k of None \<Rightarrow> None | Some j \<Rightarrow> if j \<in> known then Some j else None)"

definition validate_item ::
  "(bool \<Rightarrow> rrkey option \<Rightarrow> pyval \<Rightarrow> (verr, vitem) result) \<Rightarrow> bool \<Rightarrow> rrkey set \<Rightarrow> index \<Rightarrow> index \<Rightarrow>
   nat \<Rightarrow> pyval \<Rightarrow> (verr, vitem) result" where
  "validate_item run_validation partial known ind coll idx item =
     (case item_key item of
        Inl e \<Rightarrow> Inl (Invalid e)
      | Inr k \<Rightarrow>
          rbind (check_item ind coll idx item k) (\<lambda>_.
            let inst = known_key known k in
            run_validation (partial \<and> \<not> (inst = None \<and> \<not> records_empty item)) inst item))"

fun collect_items :: "(verr, vitem) result list \<Rightarrow> (list_error, item_result list) result" where
  "collect_items [] = Inr []"
| "collect_items (Inr v # rs) = rbind (collect_items rs) (\<lambda>is. Inr (ItemOk v # is))"
| "collect_items (Inl (Invalid e) # rs) = rbind (collect_items rs) (\<lambda>is. Inr (ItemBad e # is))"
| "collect_items (Inl Denied # rs) = Inl ListDenied"
| "collect_items (Inl (Crash m) # rs) = Inl (ListCrash m)"

definition item_errors :: "item_result \<Rightarrow> (string \<times> string) list" where
  "item_errors i = (case i of ItemOk _ \<Rightarrow> [] | ItemBad e \<Rightarrow> e)"

definition item_values :: "item_result list \<Rightarrow> vitem list" where
  "item_values is = concat (map (\<lambda>i. case i of ItemOk v \<Rightarrow> [v] | ItemBad _ \<Rightarrow> []) is)"

text \<open>\<open>RRsetListSerializer.to_internal_value\<close>\<close>

definition to_internal_value ::
  "(bool \<Rightarrow> rrkey option \<Rightarrow> pyval \<Rightarrow> (verr, vitem) result) \<Rightarrow> zone \<Rightarrow> bool \<Rightarrow> bool \<Rightarrow> bool \<Rightarrow> rrkey set \<Rightarrow>
   pyval \<Rightarrow> (list_error, vitem list) result" where
  "to_internal_value run_validation z partial allow_empty has_parent known data =
     (case data of
        PyList items \<Rightarrow>
          if \<not> allow_empty \<and> items = [] then Inl (if has_parent \<and> partial then SkipField else EmptyList)
          else
            let ind = indices z items; coll = collapsed_indices z items in
            rbind (collect_items (map (\<lambda>(i, item). validate_item run_validation partial known ind coll i item)
                     (enumerate 0 items))) (\<lambda>is.
              if \<exists>i \<in> set is. item_errors i \<noteq> [] then Inl (ItemErrors (map item_errors is))
              else Inr (item_values is))
      | _ \<Rightarrow> Inl (NotAList (''Expected a list of items but got '' @ type_name data @ ''.'')))"

section \<open>Lists of RRsets: application\<close>

definition is_empty :: "vitem \<Rightarrow> bool" where
  "is_empty v \<longleftrightarrow> v_records v = Some []"

definition data_index :: "vitem list \<Rightarrow> rrkey \<Rightarrow> vitem option" where
  "data_index vs = map_of (rev (map (\<lambda>v. (vkey v, v)) vs))"

definition with_item ::
  "vitem list \<Rightarrow> rrkey \<Rightarrow> (vitem \<Rightarrow> tracked \<Rightarrow> block) \<Rightarrow> tracked \<Rightarrow> block" where
  "with_item vs k f S = (case data_index vs k of None \<Rightarrow> Inl (Rejected (Crash ''KeyError'')) | Some v \<Rightarrow> f v S)"

text \<open>\<open>RRsetListSerializer.update\<close>: \<open>instances\<close> are the keys of the queryset, \<open>ko\<close> the order of a set
  of keys.\<close>

definition rrsets_update ::
  "ctx \<Rightarrow> (string set \<Rightarrow> string list) \<Rightarrow> (rrkey set \<Rightarrow> rrkey list) \<Rightarrow> rrkey set \<Rightarrow> vitem list \<Rightarrow> tracked \<Rightarrow> block" where
  "rrsets_update X so ko instances vs S =
     (let data = set (map vkey vs);
          known = {k \<in> instances. k \<in> data} in
      if \<not> known \<subseteq> data then Inl (Rejected (Crash ''ValueError''))
      else
        let everything = known \<union> data;
            unknown = everything - known;
            empty = vkey ` set (filter is_empty vs);
            nonempty = everything - empty in
        rbind (rfold (rrset_delete X) (ko (known \<inter> empty)) S) (\<lambda>S1.
        rbind (rfold (\<lambda>k. with_item vs k (rrset_create X so)) (ko (unknown \<inter> nonempty)) S1)
          (rfold (\<lambda>k. with_item vs k (rrset_update X so k)) (ko (known \<inter> nonempty)))))"

text \<open>Creation of many RRsets (\<open>POST\<close> of a list)\<close>

definition list_create :: "ctx \<Rightarrow> (string set \<Rightarrow> string list) \<Rightarrow> vitem list \<Rightarrow> tracked \<Rightarrow> block" where
  "list_create X so vs = rfold (rrset_create X so) vs"

end
