(* ===== verification/Tokens.thy ===== *)
theory Tokens
  imports Names "HOL-Library.Word" "HOL-Library.Char_ord" "HOL-Library.List_Lexorder" "HOL-Library.Product_Lexorder"
begin

text \<open>
  Tokens and their scoping policies (\<open>models/tokens.py\<close>), the permission classes
  (\<open>permissions.py\<close>) and which of them the token endpoints ask for (\<open>views/tokens.py\<close>). The
  database triggers are the check \<open>commit_ok\<close> at the end of a transaction.
\<close>

section \<open>State\<close>

record policy =
  p_id :: nat
  p_domain :: "string option"
  p_subname :: "string option"
  p_rtype :: "string option"
  perm_write :: bool

record token =
  t_id :: nat
  t_owner :: nat
  t_user_override :: "nat option"
  t_created :: int
  t_last_used :: "int option"
  t_max_age :: "int option"
  t_max_unused :: "int option"
  t_mfa :: "bool option"
  perm_create_domain :: bool
  perm_delete_domain :: bool
  perm_manage_tokens :: bool
  auto_policy :: bool
  policies :: "policy list"

text \<open>The generated field \<open>user_id\<close>\<close>

definition token_user :: "token \<Rightarrow> nat" where
  "token_user t = (case t_user_override t of None \<Rightarrow> t_owner t | Some u \<Rightarrow> u)"

text \<open>An RRset as a policy sees it: domain, subname, type.\<close>

type_synonym target = "string \<times> string \<times> string"

section \<open>Validity\<close>

text \<open>Comparing with an absent limit raises \<open>TypeError\<close>, which is swallowed.\<close>

definition is_valid :: "int \<Rightarrow> token \<Rightarrow> bool" where
  "is_valid now t =
     (if (case t_max_age t of None \<Rightarrow> False | Some a \<Rightarrow> t_created t + a < now) then False
      else if (case t_max_unused t of None \<Rightarrow> False
               | Some p \<Rightarrow> (case t_last_used t of None \<Rightarrow> t_created t | Some u \<Rightarrow> u) + p < now) then False
      else True)"

section \<open>Policies\<close>

definition matches :: "target option \<Rightarrow> policy \<Rightarrow> bool" where
  "matches r p \<longleftrightarrow>
     (p_domain p = map_option fst r \<or> p_domain p = None) \<and>
     (p_subname p = map_option (fst \<circ> snd) r \<or> p_subname p = None) \<and>
     (p_rtype p = map_option (snd \<circ> snd) r \<or> p_rtype p = None)"

text \<open>Ascending with nulls last\<close>

definition nulls_last :: "string option \<Rightarrow> bool \<times> string" where
  "nulls_last x = (case x of None \<Rightarrow> (True, []) | Some s \<Rightarrow> (False, s))"

definition policy_order :: "policy \<Rightarrow> (bool \<times> string) \<times> (bool \<times> string) \<times> (bool \<times> string)" where
  "policy_order p = (nulls_last (p_domain p), nulls_last (p_subname p), nulls_last (p_rtype p))"

definition get_policy :: "policy list \<Rightarrow> target option \<Rightarrow> policy option" where
  "get_policy ps r = (case sort_key policy_order (filter (matches r) ps) of [] \<Rightarrow> None | p # _ \<Rightarrow> Some p)"

definition can_safely_delete_domain :: "policy list \<Rightarrow> string \<Rightarrow> bool" where
  "can_safely_delete_domain ps d =
     (let forbidden =
        (\<exists>p \<in> set ps. p_domain p = Some d \<and> \<not> perm_write p) \<or>
        (\<not> (\<exists>p \<in> set ps. p_domain p = Some d \<and> p_subname p = None \<and> p_rtype p = None \<and> perm_write p) \<and>
         (\<exists>p \<in> set ps. p_domain p = None \<and> \<not> perm_write p))
      in \<not> forbidden)"

definition represents_default_policy :: "policy \<Rightarrow> bool" where
  "represents_default_policy p \<longleftrightarrow> p_domain p = None \<and> p_subname p = None \<and> p_rtype p = None"

definition is_default_policy :: "token \<Rightarrow> policy \<Rightarrow> bool" where
  "is_default_policy t p = (case get_policy (policies t) None of None \<Rightarrow> False | Some q \<Rightarrow> p_id p = p_id q)"

section \<open>Operations of the models\<close>

datatype token_error =
  ManageWithOverride
| AutoPolicyNeedsRestrictiveDefault
| FirstPolicyMustBeDefault
| ExactlyOneDefault
| DefaultMustBeRestrictive
| DefaultNeededByOthers
| DefaultNeededByAutoPolicy
| UniqueViolation
| NoSuchPolicy
| TriggerException

type_synonym token_result = "(token_error, token) result"

definition token_clean :: "token \<Rightarrow> (token_error, unit) result" where
  "token_clean t =
     (if perm_manage_tokens t \<and> t_user_override t \<noteq> None then Inl ManageWithOverride
      else if \<not> auto_policy t then Inr ()
      else case get_policy (policies t) None of
             None \<Rightarrow> Inr ()
           | Some p \<Rightarrow> if perm_write p then Inl AutoPolicyNeedsRestrictiveDefault else Inr ())"

definition same_scope :: "policy \<Rightarrow> policy \<Rightarrow> bool" where
  "same_scope p q \<longleftrightarrow> p_domain p = p_domain q \<and> p_subname p = p_subname q \<and> p_rtype p = p_rtype q"

text \<open>\<open>TokenDomainPolicy.save\<close> on a new row: \<open>clean\<close>, then the unique constraint.\<close>

definition policy_create :: "policy \<Rightarrow> token \<Rightarrow> token_result" where
  "policy_create p t =
     (if get_policy (policies t) None = None \<and> \<not> represents_default_policy p then Inl FirstPolicyMustBeDefault
      else if \<exists>q \<in> set (policies t). same_scope p q \<or> p_id p = p_id q then Inl UniqueViolation
      else Inr (t\<lparr>policies := policies t @ [p]\<rparr>))"

text \<open>On a known row; \<open>p\<close> carries the new values.\<close>

definition policy_update :: "policy \<Rightarrow> token \<Rightarrow> token_result" where
  "policy_update p t =
     (if \<not> (\<exists>q \<in> set (policies t). p_id q = p_id p) then Inl NoSuchPolicy
      else if is_default_policy t p \<noteq> represents_default_policy p then Inl ExactlyOneDefault
      else if perm_write p \<and> is_default_policy t p \<and> auto_policy t then Inl DefaultMustBeRestrictive
      else if \<exists>q \<in> set (policies t). p_id q \<noteq> p_id p \<and> same_scope p q then Inl UniqueViolation
      else Inr (t\<lparr>policies := map (\<lambda>q. if p_id q = p_id p then p else q) (policies t)\<rparr>))"

definition policy_delete :: "policy \<Rightarrow> token \<Rightarrow> token_result" where
  "policy_delete p t =
     (if is_default_policy t p \<and> (\<exists>q \<in> set (policies t). p_id q \<noteq> p_id p) then Inl DefaultNeededByOthers
      else if is_default_policy t p \<and> auto_policy t then Inl DefaultNeededByAutoPolicy
      else Inr (t\<lparr>policies := filter (\<lambda>q. p_id q \<noteq> p_id p) (policies t)\<rparr>))"

text \<open>\<open>Token.save\<close>; \<open>new\<close> is a fresh key for the default policy it may add.\<close>

definition default_policy :: "nat \<Rightarrow> policy" where
  "default_policy new = \<lparr>p_id = new, p_domain = None, p_subname = None, p_rtype = None, perm_write = False\<rparr>"

definition token_save :: "nat \<Rightarrow> bool \<Rightarrow> token \<Rightarrow> token_result" where
  "token_save new only_last_used t =
     rbind (if only_last_used then Inr () else token_clean t) (\<lambda>_.
       if auto_policy t \<and> get_policy (policies t) None = None then policy_create (default_policy new) t
       else Inr t)"

text \<open>The deferred triggers \<open>token_auto_policy\<close>, \<open>default_policy_primacy\<close> and
  \<open>default_policy_when_auto_policy\<close> as they look at the tables when the transaction commits.\<close>

definition commit_ok :: "token \<Rightarrow> bool" where
  "commit_ok t \<longleftrightarrow>
     (auto_policy t \<longrightarrow> (\<exists>p \<in> set (policies t). represents_default_policy p)) \<and>
     (policies t \<noteq> [] \<longrightarrow> (\<exists>p \<in> set (policies t). represents_default_policy p))"

datatype token_op =
  SaveToken token nat
| SetLastUsed int nat
| CreatePolicy policy
| UpdatePolicy policy
| DeletePolicy policy

text \<open>What a request changes of a token: its own fields (the policies are those of the table), or one
  policy. The last guard is the check constraint \<open>user_override_conditions\<close>, the trigger
  \<open>token_policy_user_id\<close>, which refuses to change an override once set, and the foreign key that ties
  the domain of a policy to the user of its token.\<close>

definition override_ok :: "token \<Rightarrow> token \<Rightarrow> bool" where
  "override_ok old new \<longleftrightarrow>
     (t_user_override new = None \<or>
        \<not> perm_manage_tokens new \<and> t_mfa new = None \<and> t_user_override new \<noteq> Some (t_owner new)) \<and>
     (t_user_override old \<noteq> None \<longrightarrow> token_user new = token_user old) \<and>
     (token_user new \<noteq> token_user old \<longrightarrow> (\<forall>p \<in> set (policies new). p_domain p = None))"

fun token_step :: "token_op \<Rightarrow> token \<Rightarrow> token_result" where
  "token_step (SaveToken u new) t =
     (let t' = u\<lparr>policies := policies t\<rparr> in
      rbind (token_save new False t') (\<lambda>t''.
        if \<not> override_ok t t'' then Inl TriggerException
        else if commit_ok t'' then Inr t'' else Inl TriggerException))"
| "token_step (SetLastUsed now new) t = token_save new True (t\<lparr>t_last_used := Some now\<rparr>)"
| "token_step (CreatePolicy p) t =
     rbind (policy_create p t) (\<lambda>t'. if commit_ok t' then Inr t' else Inl TriggerException)"
| "token_step (UpdatePolicy p) t =
     rbind (policy_update p t) (\<lambda>t'. if commit_ok t' then Inr t' else Inl TriggerException)"
| "token_step (DeletePolicy p) t =
     rbind (policy_delete p t) (\<lambda>t'. if commit_ok t' then Inr t' else Inl TriggerException)"

section \<open>Permissions\<close>

record user =
  u_id :: nat
  u_is_active :: "bool option"
  u_mfa_enabled :: bool
  u_limit_domains :: "nat option"
  u_domain_count :: nat

record request =
  r_user :: "user option"
  r_auth :: token
  r_remote_addr :: "32 word"

definition is_active_user :: "request \<Rightarrow> bool" where
  "is_active_user r = (case r_user r of None \<Rightarrow> False | Some u \<Rightarrow> u_is_active u = Some True)"

definition is_authenticated :: "request \<Rightarrow> bool" where
  "is_authenticated r = (r_user r \<noteq> None)"

definition is_api_token :: "request \<Rightarrow> bool" where
  "is_api_token r = (t_mfa (r_auth r) = None)"

definition is_login_token :: "request \<Rightarrow> bool" where
  "is_login_token r = (t_mfa (r_auth r) \<noteq> None)"

definition mfa_required_if_enabled :: "request \<Rightarrow> bool" where
  "mfa_required_if_enabled r =
     (t_mfa (r_auth r) = Some True \<or>
      t_mfa (r_auth r) = Some False \<and> (case r_user r of None \<Rightarrow> False | Some u \<Rightarrow> \<not> u_mfa_enabled u))"

definition is_owner :: "request \<Rightarrow> nat \<Rightarrow> bool" where
  "is_owner r obj_owner = (map_option u_id (r_user r) = Some obj_owner)"

definition is_user :: "request \<Rightarrow> token \<Rightarrow> bool" where
  "is_user r obj = (map_option u_id (r_user r) = Some (token_user obj))"

definition is_token_user :: "request \<Rightarrow> token \<Rightarrow> bool" where
  "is_token_user r policy_token = is_user r policy_token"

definition is_domain_owner :: "request \<Rightarrow> nat \<Rightarrow> bool" where
  "is_domain_owner r domain_owner = (map_option u_id (r_user r) = Some domain_owner)"

definition token_has_rrset_permission :: "policy list \<Rightarrow> target \<Rightarrow> bool" where
  "token_has_rrset_permission ps rrset =
     (case get_policy ps (Some rrset) of None \<Rightarrow> True | Some p \<Rightarrow> perm_write p)"

definition auth_token_corresponds_to_view_token :: "request \<Rightarrow> nat \<Rightarrow> bool" where
  "auth_token_corresponds_to_view_token r token_id = (token_id = t_id (r_auth r))"

text \<open>The client is in \<open>10.8.0.0/24\<close>.\<close>

definition is_vpn_client :: "request \<Rightarrow> bool" where
  "is_vpn_client r = (drop_bit 8 (r_remote_addr r) = drop_bit 8 (0x0A080000 :: 32 word))"

definition has_create_domain_permission :: "request \<Rightarrow> bool" where
  "has_create_domain_permission r = perm_create_domain (r_auth r)"

definition has_delete_domain_permission :: "request \<Rightarrow> bool" where
  "has_delete_domain_permission r = perm_delete_domain (r_auth r)"

definition may_delete_domain_object :: "request \<Rightarrow> string \<Rightarrow> bool" where
  "may_delete_domain_object r d = can_safely_delete_domain (policies (r_auth r)) d"

definition has_manage_tokens_permission :: "request \<Rightarrow> bool" where
  "has_manage_tokens_permission r = perm_manage_tokens (r_auth r)"

definition within_domain_limit :: "request \<Rightarrow> bool" where
  "within_domain_limit r =
     (case r_user r of
        None \<Rightarrow> False
      | Some u \<Rightarrow> (case u_limit_domains u of None \<Rightarrow> True | Some n \<Rightarrow> u_domain_count u < n))"

section \<open>The token endpoints\<close>

datatype view_method = SafeMethod | UnsafeMethod bool

text \<open>\<open>UnsafeMethod destroy\<close>; \<open>obj\<close> is the token addressed, absent on the list endpoint.\<close>

definition token_view_allowed :: "request \<Rightarrow> view_method \<Rightarrow> token option \<Rightarrow> bool" where
  "token_view_allowed r m obj =
     (is_authenticated r \<and> (is_api_token r \<or> mfa_required_if_enabled r) \<and> has_manage_tokens_permission r \<and>
      (case m of
         UnsafeMethod False \<Rightarrow> (case obj of None \<Rightarrow> True | Some t \<Rightarrow> is_user r t)
       | _ \<Rightarrow> True))"

definition token_queryset :: "request \<Rightarrow> token list \<Rightarrow> token list" where
  "token_queryset r ts =
     filter (\<lambda>t. map_option u_id (r_user r) = Some (t_owner t) \<or>
       t_user_override t \<noteq> None \<and> map_option u_id (r_user r) = t_user_override t) ts"

definition policy_view_allowed :: "request \<Rightarrow> view_method \<Rightarrow> token \<Rightarrow> bool" where
  "policy_view_allowed r m view_token =
     (is_authenticated r \<and> (is_api_token r \<or> mfa_required_if_enabled r) \<and>
      (case m of
         SafeMethod \<Rightarrow> has_manage_tokens_permission r \<or>
           auth_token_corresponds_to_view_token r (t_id view_token)
       | UnsafeMethod _ \<Rightarrow> has_manage_tokens_permission r \<and> is_token_user r view_token))"

text \<open>\<open>TokenSerializer.validate_user_override\<close>: the field cannot change on update.\<close>

definition validate_user_override :: "token option \<Rightarrow> nat option \<Rightarrow> (verror, nat option) result" where
  "validate_user_override inst value =
     (if (case inst of None \<Rightarrow> False | Some t \<Rightarrow> value \<noteq> t_user_override t)
      then Inl (VError ''Cannot alter this field once set.'') else Inr value)"

end
