(* ===== verification/Domains.thy ===== *)
theory Domains
  imports Bulk Tokens
begin

text \<open>
  Domains (\<open>models/domains.py\<close>, \<open>serializers/domains.py\<close>, \<open>views/domains.py\<close>): finding the domain
  responsible for a name, which names may be registered, the delegation of a domain from its
  parent, its keys, and the import of a zone file. The public suffix list is a parameter: a lookup
  that may time out.
\<close>

section \<open>Finding a domain\<close>

record domain =
  m_name :: string
  m_owner :: nat

definition dotted_suffix :: "string \<Rightarrow> string \<Rightarrow> bool" where
  "dotted_suffix a b \<longleftrightarrow> ends_with (CHR ''.'' # b) (CHR ''.'' # a)"

text \<open>The validators of the name field; empty values are not validated.\<close>

definition name_field_ok :: "string \<Rightarrow> bool" where
  "name_field_ok s \<longleftrightarrow> s = [] \<or> (run_validators validate_domain_name s = [] \<and> length s \<le> 191)"

definition filter_qname :: "domain list \<Rightarrow> string \<Rightarrow> domain list" where
  "filter_qname ds qname =
     (if \<not> name_field_ok (lower (removeprefix qname ''*.'')) then []
      else filter (\<lambda>d. dotted_suffix (m_name d) qname) ds)"

text \<open>\<open>.order_by("-name_length")[:1]\<close>\<close>

definition responsible_domain :: "domain list \<Rightarrow> string \<Rightarrow> domain option" where
  "responsible_domain ds qname =
     (case sort_key (\<lambda>d. - int (length (m_name d))) (filter_qname ds qname) of
        [] \<Rightarrow> None | d # _ \<Rightarrow> Some d)"

section \<open>Registrability\<close>

text \<open>\<open>psl name\<close> is the public suffix and whether the name is one itself, or \<open>None\<close> on a timeout.\<close>

type_synonym psl = "string \<Rightarrow> (string \<times> bool) option"

definition public_suffix :: "psl \<Rightarrow> string list \<Rightarrow> string \<Rightarrow> string" where
  "public_suffix psl lps name =
     (let (psuf, is_suffix) =
        (case psl name of
           Some p \<Rightarrow> p
         | None \<Rightarrow> (snd (snd (rpartition ''.'' name)), CHR ''.'' \<notin> set name))
      in if is_suffix then psuf
         else fold (\<lambda>l acc. if dotted_suffix l name \<and> length acc < length l then l else acc) lps psuf)"

definition private_domains :: "string \<Rightarrow> string \<Rightarrow> string list" where
  "private_domains name psuf =
     (let rest = rstrip_char CHR ''.'' (case rcut psuf name of None \<Rightarrow> name | Some (h, _) \<Rightarrow> h);
          components = (if rest = [] then [] else split_on CHR ''.'' rest)
      in map (\<lambda>i. join ''.'' (drop i components) @ ''.'' @ psuf) [0..<length components])"

datatype domain_error = DomainAssertion | DomainValueError | NoKeys

definition is_covered_by_foreign_zone ::
  "domain list \<Rightarrow> nat \<Rightarrow> string \<Rightarrow> string \<Rightarrow> (domain_error, bool) result" where
  "is_covered_by_foreign_zone ds owner name psuf =
     (let ps = private_domains name psuf in
      if name \<noteq> (case ps of [] \<Rightarrow> psuf | p # _ \<Rightarrow> p) then Inl DomainAssertion
      else Inr (\<exists>d \<in> set ds. m_name d \<in> set ps \<and> m_owner d \<noteq> owner))"

definition covers_foreign_zone :: "domain list \<Rightarrow> nat \<Rightarrow> string \<Rightarrow> bool" where
  "covers_foreign_zone ds owner name =
     (\<exists>d \<in> set ds. ends_with (m_name d) (CHR ''.'' # name) \<and> m_owner d \<noteq> owner)"

definition dots :: "string \<Rightarrow> nat" where
  "dots s = count_list s CHR ''.''"

definition is_registrable ::
  "psl \<Rightarrow> string list \<Rightarrow> domain list \<Rightarrow> nat \<Rightarrow> string \<Rightarrow> (domain_error, bool) result" where
  "is_registrable psl lps ds owner name =
     (let psuf = public_suffix psl lps name;
          private_generation = int (dots name) - int (dots psuf) in
      if private_generation < 0 then Inl DomainAssertion
      else if ends_with (CHR ''.'' # name) ''.internal'' then Inr False
      else if private_generation = 0 \<and> name \<notin> set lps then Inr False
      else if private_generation = 1 \<and>
        (\<exists>p \<in> {''_'', ''autoconfig.'', ''autodiscover.''}. starts_with name p) then Inr False
      else rbind (is_covered_by_foreign_zone ds owner name psuf) (\<lambda>covered.
        if covered then Inr False
        else if covers_foreign_zone ds owner name then Inr False
        else Inr True))"

section \<open>Renewal state at creation\<close>

datatype renewal_state = IMMORTAL | FRESH | NOTIFIED | WARNED

definition initial_renewal_state :: "string set \<Rightarrow> renewal_state option \<Rightarrow> string \<Rightarrow> renewal_state" where
  "initial_renewal_state lps given name =
     (case given of
        Some s \<Rightarrow> s
      | None \<Rightarrow> if is_locally_registrable lps name then FRESH else IMMORTAL)"

section \<open>Keys and time stamps\<close>

record key =
  k_dnskey :: string
  k_ds :: "string list"
  k_managed :: bool

text \<open>\<open>keys\<close>: the managed ones of PowerDNS, then the DNSKEY records of the apex in order; \<open>make_ds\<close>
  and the SEP flag are dnspython's.\<close>

definition domain_keys :: "(string \<Rightarrow> bool) \<Rightarrow> (string \<Rightarrow> string list) \<Rightarrow> (string \<times> string list) list \<Rightarrow>
    zone \<Rightarrow> key list" where
  "domain_keys is_sep make_ds managed z =
     map (\<lambda>(k, ds). \<lparr>k_dnskey = k, k_ds = ds, k_managed = True\<rparr>) managed @
     (case map_of z (''DNSKEY'', []) of
        None \<Rightarrow> []
      | Some r \<Rightarrow> map (\<lambda>c. \<lparr>k_dnskey = c, k_ds = (if is_sep c then make_ds c else []), k_managed = False\<rparr>)
          (sort (records r)))"

definition domain_touched :: "int list \<Rightarrow> int option \<Rightarrow> int option" where
  "domain_touched rrset_touched published_at =
     (if rrset_touched = [] then published_at
      else let m = Max (set rrset_touched) in
           Some (max m (case published_at of None \<Rightarrow> m | Some p \<Rightarrow> p)))"

section \<open>Delegation\<close>

text \<open>\<open>RRset.objects.create(contents=...)\<close>\<close>

definition create_with_contents ::
  "string \<Rightarrow> rrkey \<Rightarrow> nat \<Rightarrow> string list \<Rightarrow> tracked \<Rightarrow> (terror, tracked) result" where
  "create_with_contents d k n contents S =
     rbind (db_step (OpRRsetCreate d k n) S) (rfold (\<lambda>c. db_step (OpRRCreate d k c)) contents)"

datatype delegation_error = DelegationError domain_error | DelegationDb terror

text \<open>\<open>child_keys\<close> is \<open>None\<close> when the child is gone.\<close>

definition update_delegation ::
  "settings \<Rightarrow> string \<Rightarrow> string \<Rightarrow> key list option \<Rightarrow> tracked \<Rightarrow> (delegation_error, tracked) result" where
  "update_delegation cf parent child child_keys S =
     (let (child_subname, child_domain_name) = partitioned_name child in
      if child_domain_name \<noteq> Some parent then Inl (DelegationError DomainValueError)
      else case zone_of (fst S) parent of
             Inl e \<Rightarrow> Inl (DelegationDb e)
           | Inr z \<Rightarrow>
      case rfold (\<lambda>k. db_step (OpRRsetDelete parent k))
             (filter (\<lambda>k. snd k = child_subname \<and> fst k \<in> {''NS'', ''DS''}) (map fst z)) S of
        Inl e \<Rightarrow> Inl (DelegationDb e)
      | Inr S1 \<Rightarrow>
          (case child_keys of
             None \<Rightarrow> Inr S1
           | Some ks \<Rightarrow>
               if ks = [] then Inl (DelegationError NoKeys)
               else
                 (case rbind (create_with_contents parent (''NS'', child_subname) 3600 (default_ns cf) S1)
                    (create_with_contents parent (''DS'', child_subname) 300 (concat (map k_ds ks))) of
                    Inl e \<Rightarrow> Inl (DelegationDb e) | Inr S2 \<Rightarrow> Inr S2)))"

section \<open>Importing a zone file\<close>

text \<open>What dnspython's parser yields: per owner name (the subname relative to the zone, empty at the
  apex) its RRsets.\<close>

record import_rrset =
  i_subname :: string
  i_type :: string
  i_ttl :: nat
  i_records :: "string list"

definition not_imported :: "import_rrset \<Rightarrow> bool" where
  "not_imported r \<longleftrightarrow>
     i_type r \<in> rr_set_types_automatic \<union> {''CDS'', ''CDNSKEY'', ''DNSKEY''} \<or>
     (i_subname r = [] \<and> i_type r = ''NS'')"

definition import_data :: "settings \<Rightarrow> nat \<Rightarrow> import_rrset list \<Rightarrow> import_rrset list" where
  "import_data cf min_ttl rs =
     map (\<lambda>r. r\<lparr>i_ttl := max min_ttl (min (maximum_ttl cf) (i_ttl r))\<rparr>)
       (filter (\<lambda>r. \<not> not_imported r) rs)"

section \<open>The domain endpoints\<close>

datatype domain_action = DomainSafe | DomainCreate | DomainDestroy

definition domain_view_allowed :: "request \<Rightarrow> domain_action \<Rightarrow> domain option \<Rightarrow> bool" where
  "domain_view_allowed r a obj =
     (is_authenticated r \<and> (is_api_token r \<or> mfa_required_if_enabled r) \<and>
      (case obj of None \<Rightarrow> True | Some d \<Rightarrow> is_owner r (m_owner d)) \<and>
      (case a of
         DomainSafe \<Rightarrow> True
       | DomainCreate \<Rightarrow> has_create_domain_permission r \<and> within_domain_limit r
       | DomainDestroy \<Rightarrow> has_delete_domain_permission r \<and>
           (case obj of None \<Rightarrow> True | Some d \<Rightarrow> may_delete_domain_object r (m_name d))))"

text \<open>\<open>get_queryset\<close>: a token with a user override and policies sees only the domains of its policies.\<close>

definition domain_queryset :: "request \<Rightarrow> domain list \<Rightarrow> string option \<Rightarrow> domain list" where
  "domain_queryset r ds owns_qname =
     (let own = filter (\<lambda>d. map_option u_id (r_user r) = Some (m_owner d)) ds;
          visible = (if t_user_override (r_auth r) \<noteq> None \<and> policies (r_auth r) \<noteq> []
                     then filter (\<lambda>d. \<exists>p \<in> set (policies (r_auth r)). p_domain p = Some (m_name d)) own
                     else own)
      in case owns_qname of
           None \<Rightarrow> visible
         | Some q \<Rightarrow> (case responsible_domain visible q of None \<Rightarrow> [] | Some d \<Rightarrow> [d]))"

text \<open>\<open>perform_create\<close> up to the delegation: unless registration is suspended, the domain row, the
  RRsets of the zone file by \<open>import\<close>, and under \<open>auto_policy\<close> the policy for the new domain; all but
  the first check happen in one tracked block.\<close>

datatype create_error = RegistrationSuspended | CreateBlock serr | CreatePolicyError token_error

definition registration_suspended :: "settings \<Rightarrow> string \<Rightarrow> bool" where
  "registration_suspended cf name \<longleftrightarrow>
     \<not> register_lps cf \<and> is_locally_registrable (local_public_suffixes cf) name"

definition create_in_block ::
  "nat \<Rightarrow> string \<Rightarrow> (tracked \<Rightarrow> block) \<Rightarrow> token \<Rightarrow> tracked \<Rightarrow> (create_error, tracked \<times> token) result" where
  "create_in_block new_id name import t S =
     (case rbind (in_db (db_step (OpDomainCreate name) S)) import of
        Inl e \<Rightarrow> Inl (CreateBlock e)
      | Inr S' \<Rightarrow>
          if auto_policy t then
            (case token_step (CreatePolicy \<lparr>p_id = new_id, p_domain = Some name, p_subname = None,
                     p_rtype = None, perm_write = True\<rparr>) t of
               Inl e \<Rightarrow> Inl (CreatePolicyError e)
             | Inr t' \<Rightarrow> Inr (S', t'))
          else Inr (S', t))"

definition perform_create ::
  "settings \<Rightarrow> nat \<Rightarrow> string \<Rightarrow> (tracked \<Rightarrow> block) \<Rightarrow> tracked \<Rightarrow> token \<Rightarrow>
   (create_error, tracked \<times> token) result" where
  "perform_create cf new_id name import S t =
     (if registration_suspended cf name then Inl RegistrationSuspended
      else create_in_block new_id name import t S)"

text \<open>\<open>auto_delegate\<close>: the parent must be in the database.\<close>

definition auto_delegate ::
  "settings \<Rightarrow> string \<Rightarrow> key list option \<Rightarrow> tracked \<Rightarrow> (delegation_error, tracked) result" where
  "auto_delegate cf name ks S =
     (if is_locally_registrable (local_public_suffixes cf) name then
        (case parent_domain_name name of
           None \<Rightarrow> Inl (DelegationDb DoesNotExist)
         | Some p \<Rightarrow>
             (case zone_of (fst S) p of
                Inl e \<Rightarrow> Inl (DelegationDb e)
              | Inr _ \<Rightarrow> update_delegation cf p name ks S))
      else Inr S)"

text \<open>\<open>perform_destroy\<close>: the deletion and the removal of the delegation are two tracked blocks.\<close>

definition perform_destroy_delete :: "string \<Rightarrow> tracked \<Rightarrow> (terror, tracked) result" where
  "perform_destroy_delete name S = db_step (OpDomainDelete name) S"

definition perform_destroy_delegation ::
  "settings \<Rightarrow> string \<Rightarrow> tracked \<Rightarrow> (delegation_error, tracked) result" where
  "perform_destroy_delegation cf name S = auto_delegate cf name None S"

section \<open>The list of serials\<close>

text \<open>The cache holds the list and a sentinel for the current minute; times in seconds.\<close>

record serial_cache =
  sentinel_until :: int
  cached_serials :: "((pyval \<times> pyval) list \<times> int) option"

definition serial_list_get ::
  "int \<Rightarrow> ('w, 'e, (pyval \<times> pyval) list) io \<Rightarrow> serial_cache \<Rightarrow> 'w \<Rightarrow>
   ('e, (pyval \<times> pyval) list option) result \<times> serial_cache \<times> 'w" where
  "serial_list_get now fetch c w =
     (if sentinel_until c \<le> now
      then let c' = c\<lparr>sentinel_until := now + 60\<rparr> in
           (case fetch w of
              (Inl e, w') \<Rightarrow> (Inl e, c', w')
            | (Inr s, w') \<Rightarrow> (Inr (Some s), c'\<lparr>cached_serials := Some (s, now + 300)\<rparr>, w'))
      else (case cached_serials c of
              Some (s, until) \<Rightarrow> if now < until then (Inr (Some s), c, w) else (Inr None, c, w)
            | None \<Rightarrow> (Inr None, c, w)))"

end
