(* ===== verification/TrackerLog.thy ===== *)
theory TrackerLog
  imports Tracker
begin

text \<open>
  What the database operations rely on when they signal the tracker, as an interface: per domain
  a triple of sets (added, modified, deleted), and one law per kind of signal. The tracker's
  three dictionaries provide it; the cascades of signals a deletion causes are handled once, in
  the locale.
\<close>

type_synonym rrlog = "rrkey set \<times> rrkey set \<times> rrkey set"

fun log_modified :: "rrkey \<Rightarrow> rrlog \<Rightarrow> rrlog" where
  "log_modified k (A, M, X) = (A, insert k M, X)"

fun log_created :: "rrkey \<Rightarrow> rrlog \<Rightarrow> rrlog" where
  "log_created k (A, M, X) = (insert k A, M, X - {k})"

fun log_deleted :: "rrkey \<Rightarrow> rrlog \<Rightarrow> rrlog" where
  "log_deleted k (A, M, X) =
     (if k \<in> A then (A - {k}, M - {k}, X) else (A, M - {k}, insert k X))"

lemma log_deleted_modified [simp]: "log_deleted k (log_modified k l) = log_deleted k l"
  by (cases l) auto

lemma log_modified_idem [simp]: "log_modified k (log_modified k l) = log_modified k l"
  by (cases l) auto

locale signal_log =
  fixes inv :: "'t \<Rightarrow> bool"
    and log :: "'t \<Rightarrow> string \<Rightarrow> rrlog"
    and rest :: "'t \<Rightarrow> 'r"
    and created modified deleted :: "string \<Rightarrow> rrkey \<Rightarrow> 't \<Rightarrow> (terror, 't) result"
  assumes created_log: "inv t \<Longrightarrow> k \<notin> fst (snd (log t d)) \<Longrightarrow>
      \<exists>t'. created d k t = Inr t' \<and> inv t' \<and> rest t' = rest t \<and>
           log t' = (log t)(d := log_created k (log t d))"
    and modified_log: "inv t \<Longrightarrow> k \<notin> snd (snd (log t d)) \<Longrightarrow>
      \<exists>t'. modified d k t = Inr t' \<and> inv t' \<and> rest t' = rest t \<and>
           log t' = (log t)(d := log_modified k (log t d))"
    and deleted_log: "inv t \<Longrightarrow>
      \<exists>t'. deleted d k t = Inr t' \<and> inv t' \<and> rest t' = rest t \<and>
           log t' = (log t)(d := log_deleted k (log t d))"
begin

text \<open>The signals of the RRs of one RRset: one or more modifications count once.\<close>

lemma rr_signals:
  assumes "inv t" and "k \<notin> snd (snd (log t d))"
  shows "\<exists>t'. rfold (\<lambda>_. modified d k) cs t = Inr t' \<and> inv t' \<and> rest t' = rest t \<and>
      log t' = (if cs = [] then log t else (log t)(d := log_modified k (log t d)))"
  using assms
proof (induction cs arbitrary: t)
  case Nil
  then show ?case by simp
next
  case (Cons c cs)
  from modified_log [OF Cons.prems] obtain t1
    where t1: "modified d k t = Inr t1" "inv t1" "rest t1 = rest t"
      "log t1 = (log t)(d := log_modified k (log t d))" by blast
  from t1 Cons.prems(2) have "k \<notin> snd (snd (log t1 d))" by (cases "log t d") simp
  from Cons.IH [OF t1(2) this] t1 show ?case by (auto simp: fun_eq_iff)
qed

text \<open>Deleting an RRset: the signals of its RRs, then its own, count as one deletion.\<close>

lemma delete_cascade:
  assumes "inv t" and "k \<notin> snd (snd (log t d))"
  shows "\<exists>t'. rbind (rfold (\<lambda>_. modified d k) cs t) (deleted d k) = Inr t' \<and> inv t' \<and>
      rest t' = rest t \<and> log t' = (log t)(d := log_deleted k (log t d))"
proof -
  from rr_signals [OF assms] obtain t1
    where t1: "rfold (\<lambda>_. modified d k) cs t = Inr t1" "inv t1" "rest t1 = rest t"
      "log t1 = (if cs = [] then log t else (log t)(d := log_modified k (log t d)))" by blast
  from deleted_log [OF t1(2), of d k] t1 show ?thesis by auto
qed

end

section \<open>The tracker provides the interface\<close>

definition tracker_sync :: "tracker \<Rightarrow> bool" where
  "tracker_sync t \<longleftrightarrow>
     dom (rr_set_additions t) = dom (rr_set_modifications t) \<and>
     dom (rr_set_deletions t) = dom (rr_set_modifications t) \<and>
     finite (dom (rr_set_modifications t))"

definition tracker_log :: "tracker \<Rightarrow> string \<Rightarrow> rrlog" where
  "tracker_log t d =
     (get_set (rr_set_additions t) d, get_set (rr_set_modifications t) d,
      get_set (rr_set_deletions t) d)"

definition tracker_domains :: "tracker \<Rightarrow> string set \<times> string set" where
  "tracker_domains t = (domain_additions t, domain_deletions t)"

lemma tracker_log_set [simp]:
  "tracker_log (set_rrsets d A M X t) = (tracker_log t)(d := (A, M, X))"
  by (rule ext) (simp add: tracker_log_def set_rrsets_def get_set_def)

lemma tracker_sync_set [simp]: "tracker_sync t \<Longrightarrow> tracker_sync (set_rrsets d A M X t)"
  by (auto simp: tracker_sync_def set_rrsets_def)

lemma tracker_domains_set [simp]: "tracker_domains (set_rrsets d A M X t) = tracker_domains t"
  by (simp add: tracker_domains_def set_rrsets_def)

lemma set_rrsets_twice [simp]:
  "set_rrsets d A M X (set_rrsets d A' M' X' t) = set_rrsets d A M X t"
  by (simp add: set_rrsets_def)

lemma rr_set_updated_sync:
  assumes "tracker_sync t" and log: "tracker_log t d = (A, M, X)"
  shows "rr_set_updated d k False True t =
      (if k \<in> M then Inl AssertionError else Inr (set_rrsets d (insert k A) M (X - {k}) t))"
    and "rr_set_updated d k True False t =
      (if k \<in> A then Inr (set_rrsets d (A - {k}) (M - {k}) X t)
       else Inr (set_rrsets d A (M - {k}) (insert k X) t))"
    and "rr_set_updated d k False False t =
      (if k \<in> X then Inl AssertionError else Inr (set_rrsets d A (insert k M) X t))"
proof -
  let ?t = "if rr_set_modifications t d = None then set_rrsets d {} {} {} t else t"
  have none: "rr_set_additions t d = None \<longleftrightarrow> rr_set_modifications t d = None"
      "rr_set_deletions t d = None \<longleftrightarrow> rr_set_modifications t d = None"
    using assms(1) unfolding tracker_sync_def by (metis domIff)+
  have keys: "key_of (rr_set_additions ?t) d = Inr A" "key_of (rr_set_modifications ?t) d = Inr M"
      "key_of (rr_set_deletions ?t) d = Inr X"
    using none log
    by (cases "rr_set_modifications t d"; cases "rr_set_additions t d"; cases "rr_set_deletions t d";
        simp add: tracker_log_def get_set_def key_of_def set_rrsets_def)+
  have "set_rrsets d A' M' X' ?t = set_rrsets d A' M' X' t" for A' M' X' by simp
  with keys show
    "rr_set_updated d k False True t =
      (if k \<in> M then Inl AssertionError else Inr (set_rrsets d (insert k A) M (X - {k}) t))"
    "rr_set_updated d k True False t =
      (if k \<in> A then Inr (set_rrsets d (A - {k}) (M - {k}) X t)
       else Inr (set_rrsets d A (M - {k}) (insert k X) t))"
    "rr_set_updated d k False False t =
      (if k \<in> X then Inl AssertionError else Inr (set_rrsets d A (insert k M) X t))"
    by (simp_all add: rr_set_updated_def Let_def)
qed

interpretation tlog: signal_log tracker_sync tracker_log tracker_domains
  "\<lambda>d k. on_rr_set_post_save d k True" on_rr_post_save on_rr_set_post_delete
proof unfold_locales
  fix t k d
  assume sync: "tracker_sync t"
  obtain A M X where l: "tracker_log t d = (A, M, X)" by (cases "tracker_log t d")
  note upd = rr_set_updated_sync [OF sync l, of k]
  show "\<exists>t'. on_rr_set_post_save d k True t = Inr t' \<and> tracker_sync t' \<and>
      tracker_domains t' = tracker_domains t \<and>
      tracker_log t' = (tracker_log t)(d := log_created k (tracker_log t d))"
    if "k \<notin> fst (snd (tracker_log t d))"
    using that sync l by (simp add: on_rr_set_post_save_def upd)
  show "\<exists>t'. on_rr_post_save d k t = Inr t' \<and> tracker_sync t' \<and>
      tracker_domains t' = tracker_domains t \<and>
      tracker_log t' = (tracker_log t)(d := log_modified k (tracker_log t d))"
    if "k \<notin> snd (snd (tracker_log t d))"
    using that sync l by (simp add: on_rr_post_save_def upd)
  show "\<exists>t'. on_rr_set_post_delete d k t = Inr t' \<and> tracker_sync t' \<and>
      tracker_domains t' = tracker_domains t \<and>
      tracker_log t' = (tracker_log t)(d := log_deleted k (tracker_log t d))"
    using sync l by (simp add: on_rr_set_post_delete_def upd)
qed

lemma on_rr_post_delete_True [simp]: "on_rr_post_delete True = on_rr_post_save"
  by (rule ext)+ (simp add: on_rr_post_delete_def on_rr_post_save_def)

lemma on_rr_set_post_save_False [simp]: "on_rr_set_post_save d k False = on_rr_post_save d k"
  by (rule ext) (simp add: on_rr_set_post_save_def on_rr_post_save_def)

section \<open>One operation on the database and the log\<close>

definition keys_of :: "db \<Rightarrow> string \<Rightarrow> rrkey set" where
  "keys_of D d = (case zones D d of None \<Rightarrow> {} | Some z \<Rightarrow> keys z)"

definition log_ok :: "rrkey set \<Rightarrow> rrlog \<Rightarrow> bool" where
  "log_ok K l = (case l of (A, M, X) \<Rightarrow>
     finite A \<and> finite M \<and> finite X \<and> A \<inter> X = {} \<and> M \<inter> X = {} \<and> A \<union> M \<subseteq> K \<and> X \<inter> K = {})"

lemma log_ok_steps:
  "log_ok K l \<Longrightarrow> k \<notin> K \<Longrightarrow> log_ok (insert k K) (log_created k l)"
  "log_ok K l \<Longrightarrow> k \<in> K \<Longrightarrow> log_ok K (log_modified k l)"
  "log_ok K l \<Longrightarrow> log_ok (K - {k}) (log_deleted k l)"
  by (cases l; auto simp: log_ok_def)+

lemma log_ok_member:
  "log_ok K l \<Longrightarrow> k \<notin> K \<Longrightarrow> k \<notin> fst (snd l)"
  "log_ok K l \<Longrightarrow> k \<in> K \<Longrightarrow> k \<notin> snd (snd l)"
  by (cases l; auto simp: log_ok_def)+

definition db_wf :: "db \<Rightarrow> bool" where
  "db_wf D \<longleftrightarrow> (\<forall>d z. zones D d = Some z \<longrightarrow> distinct (map fst z))"

text \<open>The invariant of a tracked block: the database and the tracker agree.\<close>

definition tracked_inv :: "tracked \<Rightarrow> bool" where
  "tracked_inv S = (case S of (D, t) \<Rightarrow>
     db_wf D \<and> tracker_sync t \<and> (\<forall>d. log_ok (keys_of D d) (tracker_log t d)) \<and>
     finite (domain_additions t) \<and> finite (domain_deletions t) \<and>
     domain_additions t \<subseteq> dom (zones D) \<and> domain_deletions t \<inter> dom (zones D) = {})"

end
