(* ===== verification/TrackerCorrect.thy ===== *)
theory TrackerCorrect
  imports TrackerLog
begin

text \<open>
  Correctness of the change tracker: the invariant every database operation keeps, the absence of
  assertion failures, what the computed changes say about the database, the agreement of PowerDNS
  with the database after the changes, and the behaviour of \<open>__enter__\<close> and \<open>__exit__\<close>.
\<close>

section \<open>Rows\<close>

lemma rrset_of_Inr: "rrset_of D d k = Inr r \<longleftrightarrow> (\<exists>z. zones D d = Some z \<and> map_of z k = Some r)"
  by (auto simp: rrset_of_def zone_of_def split: option.splits)

lemma rrset_of_Inl: "rrset_of D d k = Inl e \<Longrightarrow> e = DoesNotExist"
  by (auto simp: rrset_of_def zone_of_def split: option.splits)

lemma zone_of_Inr: "zone_of D d = Inr z \<longleftrightarrow> zones D d = Some z"
  by (auto simp: zone_of_def split: option.splits)

lemma zone_of_Inl: "zone_of D d = Inl e \<Longrightarrow> e = DoesNotExist"
  by (auto simp: zone_of_def split: option.splits)

lemma keys_update: "keys (AList.update k r z) = insert k (keys z)"
proof -
  have "set (map fst (AList.update k r z)) = insert k (set (map fst z))"
    by (simp only: update_keys) auto
  then show ?thesis by simp
qed

lemma keys_delete: "keys (AList.delete k z) = keys z - {k}"
proof -
  have "set (map fst (AList.delete k z)) = set (map fst z) - {k}"
    by (simp only: delete_keys set_removeAll)
  then show ?thesis by simp
qed

lemma map_of_keys: "map_of z k = Some r \<Longrightarrow> k \<in> keys z"
  by (metis fst_conv image_eqI map_of_SomeD)

lemma put_rrset_Some:
  "zones D d = Some z \<Longrightarrow> put_rrset d k r D = D\<lparr>zones := (zones D)(d \<mapsto> AList.update k r z)\<rparr>"
  by (simp add: put_rrset_def)

lemma drop_rrset_Some:
  "zones D d = Some z \<Longrightarrow> drop_rrset d k D = D\<lparr>zones := (zones D)(d \<mapsto> AList.delete k z)\<rparr>"
  by (simp add: drop_rrset_def)

section \<open>The invariant\<close>

lemma tracked_inv_update:
  assumes "tracked_inv (D, t)" and "zones D d = Some z" and "tracker_sync t'"
    and "tracker_domains t' = tracker_domains t" and "tracker_log t' = (tracker_log t)(d := l)"
    and "log_ok (keys z') l" and "distinct (map fst z')"
  shows "tracked_inv (D\<lparr>zones := (zones D)(d \<mapsto> z')\<rparr>, t')"
  using assms
  by (auto simp: tracked_inv_def db_wf_def keys_of_def tracker_domains_def domIff)

lemma tracked_inv_log: "tracked_inv (D, t) \<Longrightarrow> zones D d = Some z \<Longrightarrow> log_ok (keys z) (tracker_log t d)"
  by (auto simp: tracked_inv_def keys_of_def dest: spec [of _ d])

lemma tracked_inv_distinct: "tracked_inv (D, t) \<Longrightarrow> zones D d = Some z \<Longrightarrow> distinct (map fst z)"
  by (auto simp: tracked_inv_def db_wf_def)

lemma tracked_inv_sync: "tracked_inv (D, t) \<Longrightarrow> tracker_sync t"
  by (simp add: tracked_inv_def)

definition good_result :: "(terror, tracked) result \<Rightarrow> bool" where
  "good_result r =
     (case r of Inl e \<Rightarrow> e = DoesNotExist \<or> e = IntegrityError | Inr S \<Rightarrow> tracked_inv S)"

text \<open>An operation that leaves the keys alone and signals modifications of \<open>k\<close>.\<close>

lemma good_modified:
  assumes inv: "tracked_inv (D, t)" and z: "zones D d = Some z" and k: "k \<in> keys z"
  shows "\<exists>t'. rfold (\<lambda>_. on_rr_post_save d k) cs t = Inr t' \<and>
      tracker_log t' = (if cs = [] then tracker_log t
        else (tracker_log t)(d := log_modified k (tracker_log t d))) \<and>
      tracked_inv (put_rrset d k r D, t')"
proof -
  note l = tracked_inv_log [OF inv z]
  from tlog.rr_signals [OF tracked_inv_sync [OF inv] log_ok_member(2) [OF l k], of cs] obtain t'
    where t': "rfold (\<lambda>_. on_rr_post_save d k) cs t = Inr t'" "tracker_sync t'"
      "tracker_domains t' = tracker_domains t"
      "tracker_log t' = (if cs = [] then tracker_log t
        else (tracker_log t)(d := log_modified k (tracker_log t d)))" by blast
  let ?l = "if cs = [] then tracker_log t d else log_modified k (tracker_log t d)"
  have "tracker_log t' = (tracker_log t)(d := ?l)" using t'(4) by auto
  moreover have "log_ok (keys (AList.update k r z)) ?l"
    using l k by (simp add: keys_update insert_absorb log_ok_steps(2))
  moreover have "distinct (map fst (AList.update k r z))"
    using tracked_inv_distinct [OF inv z] by (rule distinct_update)
  ultimately have "tracked_inv (D\<lparr>zones := (zones D)(d \<mapsto> AList.update k r z)\<rparr>, t')"
    using tracked_inv_update [OF inv z t'(2,3)] by blast
  with t' z show ?thesis by (auto simp: put_rrset_Some)
qed

lemma good_modified1:
  assumes "tracked_inv (D, t)" and "zones D d = Some z" and "k \<in> keys z"
  shows "\<exists>t'. on_rr_post_save d k t = Inr t' \<and>
      tracker_log t' = (tracker_log t)(d := log_modified k (tracker_log t d)) \<and>
      tracked_inv (put_rrset d k r D, t')"
  using good_modified [OF assms, of "[[]]" r] by (auto simp: result_simps)

lemma good_created:
  assumes inv: "tracked_inv (D, t)" and z: "zones D d = Some z" and k: "k \<notin> keys z"
  shows "\<exists>t'. on_rr_set_post_save d k True t = Inr t' \<and>
      tracker_log t' = (tracker_log t)(d := log_created k (tracker_log t d)) \<and>
      tracked_inv (put_rrset d k r D, t')"
proof -
  note l = tracked_inv_log [OF inv z]
  from tlog.created_log [OF tracked_inv_sync [OF inv] log_ok_member(1) [OF l k]] obtain t'
    where t': "on_rr_set_post_save d k True t = Inr t'" "tracker_sync t'"
      "tracker_domains t' = tracker_domains t"
      "tracker_log t' = (tracker_log t)(d := log_created k (tracker_log t d))" by blast
  have "log_ok (keys (AList.update k r z)) (log_created k (tracker_log t d))"
    using log_ok_steps(1) [OF l k] by (simp add: keys_update)
  moreover have "distinct (map fst (AList.update k r z))"
    using tracked_inv_distinct [OF inv z] by (rule distinct_update)
  ultimately have "tracked_inv (D\<lparr>zones := (zones D)(d \<mapsto> AList.update k r z)\<rparr>, t')"
    using tracked_inv_update [OF inv z t'(2,3,4)] by blast
  with t' z show ?thesis by (auto simp: put_rrset_Some)
qed

lemma rrset_delete_good:
  assumes inv: "tracked_inv (D, t)" and r: "rrset_of D d k = Inr r"
  shows "\<exists>t'. rrset_delete_step d k (D, t) = Inr (drop_rrset d k D, t') \<and>
      tracker_log t' = (tracker_log t)(d := log_deleted k (tracker_log t d)) \<and>
      tracker_domains t' = tracker_domains t \<and> tracked_inv (drop_rrset d k D, t')"
proof -
  from r obtain z where z: "zones D d = Some z" and "map_of z k = Some r" by (auto simp: rrset_of_Inr)
  then have k: "k \<in> keys z" by (auto dest: map_of_keys)
  note l = tracked_inv_log [OF inv z]
  from tlog.delete_cascade [OF tracked_inv_sync [OF inv] log_ok_member(2) [OF l k], of "records r"]
  obtain t' where
    t': "rbind (rfold (\<lambda>_. on_rr_post_save d k) (records r) t) (on_rr_set_post_delete d k) = Inr t'"
      "tracker_sync t'" "tracker_domains t' = tracker_domains t"
      "tracker_log t' = (tracker_log t)(d := log_deleted k (tracker_log t d))" by blast
  have "log_ok (keys (AList.delete k z)) (log_deleted k (tracker_log t d))"
    using log_ok_steps(3) [OF l] by (simp add: keys_delete)
  moreover have "distinct (map fst (AList.delete k z))"
    using tracked_inv_distinct [OF inv z] by (rule distinct_delete)
  ultimately have "tracked_inv (D\<lparr>zones := (zones D)(d \<mapsto> AList.delete k z)\<rparr>, t')"
    using tracked_inv_update [OF inv z t'(2,3,4)] by blast
  moreover have "rrset_delete_step d k (D, t) = Inr (drop_rrset d k D, t')"
    using r t'(1) by (auto simp: rrset_delete_step_def result_simps)
  ultimately show ?thesis using t' z by (auto simp: drop_rrset_Some)
qed

lemma domain_rrsets_deleted:
  assumes "tracked_inv (D, t)" and "zones D d = Some z" and "distinct ks" and "set ks \<subseteq> keys z"
  shows "\<exists>D' t' z'. rfold (rrset_delete_step d) ks (D, t) = Inr (D', t') \<and> tracked_inv (D', t') \<and>
      tracker_domains t' = tracker_domains t \<and> zones D' = (zones D)(d \<mapsto> z') \<and>
      keys z' = keys z - set ks \<and> (\<forall>e. e \<noteq> d \<longrightarrow> tracker_log t' e = tracker_log t e)"
  using assms
proof (induction ks arbitrary: D t z)
  case Nil
  then have "zones D = (zones D)(d \<mapsto> z) \<and> keys z = keys z - set []" by auto
  with Nil(1) show ?case by (metis rfold.simps(1))
next
  case (Cons k ks)
  then obtain r where r: "rrset_of D d k = Inr r"
    by (auto simp: rrset_of_Inr dest: weak_map_of_SomeI)
  let ?D = "drop_rrset d k D"
  from rrset_delete_good [OF Cons.prems(1) r] obtain t1
    where t1: "rrset_delete_step d k (D, t) = Inr (?D, t1)"
      "tracker_domains t1 = tracker_domains t" "tracked_inv (?D, t1)"
      "tracker_log t1 = (tracker_log t)(d := log_deleted k (tracker_log t d))" by blast
  have z1: "zones ?D = (zones D)(d \<mapsto> AList.delete k z)"
    using Cons.prems(2) by (simp add: drop_rrset_Some)
  then have z1': "zones ?D d = Some (AList.delete k z)" by simp
  have ks: "distinct ks" "set ks \<subseteq> keys (AList.delete k z)"
    using Cons.prems(3,4) by (auto simp: keys_delete)
  from Cons.IH [OF t1(3) z1' ks] obtain D' t' z'
    where IH: "rfold (rrset_delete_step d) ks (?D, t1) = Inr (D', t')" "tracked_inv (D', t')"
      "tracker_domains t' = tracker_domains t1" "zones D' = (zones ?D)(d \<mapsto> z')"
      "keys z' = keys (AList.delete k z) - set ks"
      "\<forall>e. e \<noteq> d \<longrightarrow> tracker_log t' e = tracker_log t1 e" by blast
  have "\<forall>e. e \<noteq> d \<longrightarrow> tracker_log t' e = tracker_log t e" using IH(6) t1(4) by simp
  moreover have "zones D' = (zones D)(d \<mapsto> z')" using IH(4) z1 by simp
  moreover have "keys z' = keys z - set (k # ks)" using IH(5) by (auto simp: keys_delete)
  moreover have "rfold (rrset_delete_step d) (k # ks) (D, t) = Inr (D', t')" using t1(1) IH(1) by simp
  ultimately show ?case using IH(2,3) t1(2) by metis
qed

section \<open>Every operation keeps the invariant\<close>

lemma domain_create_good:
  assumes inv: "tracked_inv (D, t)" and "zones D d = None"
  shows "\<exists>t'. on_domain_post_save d True t = Inr t' \<and> tracker_log t' = tracker_log t \<and>
      tracked_inv (D\<lparr>zones := (zones D)(d \<mapsto> [])\<rparr>, t')"
proof -
  let ?t = "if d \<in> domain_deletions t then t\<lparr>domain_deletions := domain_deletions t - {d}\<rparr>
            else t\<lparr>domain_additions := insert d (domain_additions t)\<rparr>"
  have log: "tracker_log ?t = tracker_log t" by (rule ext) (simp add: tracker_log_def)
  have sync: "tracker_sync ?t" using inv by (simp add: tracked_inv_def tracker_sync_def)
  have doms: "finite (domain_additions ?t)" "finite (domain_deletions ?t)"
      "domain_additions ?t \<subseteq> insert d (dom (zones D))"
      "domain_deletions ?t \<inter> insert d (dom (zones D)) = {}"
    using inv by (auto simp: tracked_inv_def)
  have keys: "keys_of (D\<lparr>zones := (zones D)(d \<mapsto> [])\<rparr>) = keys_of D"
    by (rule ext) (use assms(2) in \<open>auto simp: keys_of_def\<close>)
  have "tracked_inv (D\<lparr>zones := (zones D)(d \<mapsto> [])\<rparr>, ?t)"
    using inv doms unfolding tracked_inv_def prod.case log keys
    by (auto simp: sync db_wf_def)
  with log show ?thesis by (simp add: on_domain_post_save_def domain_updated_def)
qed

lemma domain_drop_good:
  assumes inv: "tracked_inv (D, t)" and z: "zones D d = Some z" and "keys z = {}"
  shows "\<exists>t'. on_domain_post_delete d t = Inr t' \<and> tracker_log t' = tracker_log t \<and>
      tracked_inv (D\<lparr>zones := (zones D)(d := None)\<rparr>, t')"
proof -
  let ?t = "if d \<in> domain_additions t then t\<lparr>domain_additions := domain_additions t - {d}\<rparr>
            else t\<lparr>domain_deletions := insert d (domain_deletions t)\<rparr>"
  have log: "tracker_log ?t = tracker_log t" by (rule ext) (simp add: tracker_log_def)
  have sync: "tracker_sync ?t" using inv by (simp add: tracked_inv_def tracker_sync_def)
  have doms: "finite (domain_additions ?t)" "finite (domain_deletions ?t)"
      "domain_additions ?t \<subseteq> dom (zones D) - {d}" "domain_deletions ?t \<inter> (dom (zones D) - {d}) = {}"
    using inv by (auto simp: tracked_inv_def)
  have keys: "keys_of (D\<lparr>zones := (zones D)(d := None)\<rparr>) = keys_of D"
    by (rule ext) (use assms(2,3) in \<open>auto simp: keys_of_def\<close>)
  have "tracked_inv (D\<lparr>zones := (zones D)(d := None)\<rparr>, ?t)"
    using inv doms unfolding tracked_inv_def prod.case log keys
    by (auto simp: sync db_wf_def)
  with log show ?thesis by (simp add: on_domain_post_delete_def domain_updated_def)
qed

lemma good_bind_zone:
  assumes "\<And>z. zones D d = Some z \<Longrightarrow> good_result (f z)"
  shows "good_result (rbind (zone_of D d) f)"
  using assms by (auto simp: zone_of_def good_result_def split: option.splits)

lemma good_bind_rrset:
  assumes "\<And>z r. zones D d = Some z \<Longrightarrow> k \<in> keys z \<Longrightarrow> map_of z k = Some r \<Longrightarrow> good_result (f r)"
  shows "good_result (rbind (rrset_of D d k) f)"
proof (cases "rrset_of D d k")
  case (Inl e)
  then show ?thesis by (simp add: good_result_def rrset_of_Inl [OF Inl])
next
  case (Inr r)
  then obtain z where "zones D d = Some z" "map_of z k = Some r" by (auto simp: rrset_of_Inr)
  with assms [OF this(1) map_of_keys [OF this(2)] this(2)] Inr show ?thesis by simp
qed

lemma good_bind_require:
  assumes "b \<Longrightarrow> good_result (f ())"
  shows "good_result (rbind (require b IntegrityError) f)"
  using assms by (cases b) (auto simp: good_result_def)

lemma db_step_good:
  assumes inv: "tracked_inv (D, t)"
  shows "good_result (db_step op (D, t))"
proof (cases op)
  case (OpRRsetCreate d k n)
  show ?thesis unfolding OpRRsetCreate db_step.simps
  proof (intro good_bind_zone good_bind_require)
    fix z
    assume z: "zones D d = Some z" and k: "k \<notin> keys z \<and> \<not> cname_conflict z k"
    then show "good_result (rbind (on_rr_set_post_save d k True t)
        (\<lambda>t'. Inr (put_rrset d k \<lparr>ttl = n, records = []\<rparr> D, t')))"
      using good_created [OF inv, of d z k "\<lparr>ttl = n, records = []\<rparr>"]
      by (auto simp: good_result_def)
  qed
next
  case (OpRRsetSave d k n)
  show ?thesis unfolding OpRRsetSave db_step.simps
  proof (intro good_bind_rrset)
    fix z and r :: rrset assume z: "zones D d = Some z" "k \<in> keys z"
    from good_modified1 [OF inv z, of "r\<lparr>ttl := n\<rparr>"]
    show "good_result (rbind (on_rr_set_post_save d k False t)
        (\<lambda>t'. Inr (put_rrset d k (r\<lparr>ttl := n\<rparr>) D, t')))"
      by (auto simp: good_result_def)
  qed
next
  case (OpRRCreate d k c)
  show ?thesis unfolding OpRRCreate db_step.simps
  proof (intro good_bind_rrset good_bind_require)
    fix z and r :: rrset assume z: "zones D d = Some z" "k \<in> keys z"
    from good_modified1 [OF inv z, of "r\<lparr>records := records r @ [c]\<rparr>"]
    show "good_result (rbind (on_rr_post_save d k t)
        (\<lambda>t'. Inr (put_rrset d k (r\<lparr>records := records r @ [c]\<rparr>) D, t')))"
      by (auto simp: good_result_def)
  qed
next
  case (OpRRBulkCreate d k cs)
  show ?thesis unfolding OpRRBulkCreate db_step.simps
  proof (intro good_bind_rrset good_bind_require)
    fix z and r :: rrset assume z: "zones D d = Some z" "k \<in> keys z"
    from good_modified1 [OF inv z, of "r\<lparr>records := records r @ cs\<rparr>"]
      good_modified [OF inv z, of "[]" "r\<lparr>records := records r @ cs\<rparr>"]
    show "good_result (rbind (if cs = [] then Inr t else on_rr_set_post_save d k False t)
        (\<lambda>t'. Inr (put_rrset d k (r\<lparr>records := records r @ cs\<rparr>) D, t')))"
      by (auto simp: good_result_def)
  qed
next
  case (OpRRDelete d k cs)
  show ?thesis unfolding OpRRDelete db_step.simps
  proof (intro good_bind_rrset)
    fix z and r :: rrset assume z: "zones D d = Some z" "k \<in> keys z"
    let ?r = "r\<lparr>records := filter (\<lambda>c. c \<notin> set cs) (records r)\<rparr>"
    from good_modified [OF inv z, of "filter (\<lambda>c. c \<in> set cs) (records r)" ?r]
    show "good_result (rbind (rfold (\<lambda>_. on_rr_post_delete True d k)
        (filter (\<lambda>c. c \<in> set cs) (records r)) t) (\<lambda>t'. Inr (put_rrset d k ?r D, t')))"
      by (auto simp: good_result_def)
  qed
next
  case (OpRRsetDelete d k)
  show ?thesis
  proof (cases "rrset_of D d k")
    case (Inl e)
    then show ?thesis
      using rrset_of_Inl [OF Inl] by (simp add: OpRRsetDelete rrset_delete_step_def good_result_def)
  next
    case (Inr r)
    from rrset_delete_good [OF inv this] show ?thesis
      by (auto simp: OpRRsetDelete good_result_def)
  qed
next
  case (OpDomainCreate d)
  show ?thesis unfolding OpDomainCreate db_step.simps
    by (rule good_bind_require) (use domain_create_good [OF inv, of d] in \<open>auto simp: good_result_def\<close>)
next
  case (OpDomainDelete d)
  show ?thesis unfolding OpDomainDelete db_step.simps
  proof (intro good_bind_zone)
    fix z assume z: "zones D d = Some z"
    from domain_rrsets_deleted [OF inv z tracked_inv_distinct [OF inv z]] obtain D1 t1 z1
      where D1: "rfold (rrset_delete_step d) (map fst z) (D, t) = Inr (D1, t1)" "tracked_inv (D1, t1)"
        "zones D1 = (zones D)(d \<mapsto> z1)" "keys z1 = keys z - set (map fst z)" by auto
    then have "zones D1 d = Some z1" "keys z1 = {}" by simp_all
    from domain_drop_good [OF D1(2) this] D1(1)
    show "good_result (rbind (rfold (rrset_delete_step d) (map fst z) (D, t))
        (\<lambda>(D1, t1). rbind (on_domain_post_delete d t1)
          (\<lambda>t2. Inr (D1\<lparr>zones := (zones D1)(d := None)\<rparr>, t2))))"
      by (auto simp: good_result_def)
  qed
qed

lemma track_run_good:
  assumes "tracked_inv S"
  shows "good_result (track_run ops S)"
  using assms unfolding track_run_def
proof (induction ops arbitrary: S)
  case Nil
  then show ?case by (simp add: good_result_def)
next
  case (Cons op ops)
  have "good_result (db_step op S)" using db_step_good Cons.prems by (cases S) auto
  then show ?case
    using Cons.IH by (cases "db_step op S") (auto simp: good_result_def)
qed

lemma tracked_inv_start: "db_wf D \<Longrightarrow> tracked_inv (D, new_tracker)"
  by (simp add: tracked_inv_def new_tracker_def tracker_sync_def tracker_log_def get_set_def log_ok_def)

section \<open>What one operation does to the zones and the log\<close>

fun rr_target :: "db_op \<Rightarrow> (string \<times> rrkey) option" where
  "rr_target (OpRRsetCreate d k n) = Some (d, k)"
| "rr_target (OpRRsetSave d k n) = Some (d, k)"
| "rr_target (OpRRCreate d k c) = Some (d, k)"
| "rr_target (OpRRBulkCreate d k cs) = Some (d, k)"
| "rr_target (OpRRDelete d k cs) = Some (d, k)"
| "rr_target (OpRRsetDelete d k) = Some (d, k)"
| "rr_target (OpDomainCreate d) = None"
| "rr_target (OpDomainDelete d) = None"

fun op_domain :: "db_op \<Rightarrow> string" where
  "op_domain (OpDomainCreate d) = d"
| "op_domain (OpDomainDelete d) = d"
| "op_domain op = fst (the (rr_target op))"

inductive rr_effect :: "string \<Rightarrow> rrkey \<Rightarrow> bool \<Rightarrow> tracked \<Rightarrow> tracked \<Rightarrow> bool" for d k where
  created: "zones D d = Some z \<Longrightarrow> k \<notin> keys z \<Longrightarrow> zones D' = (zones D)(d \<mapsto> z') \<Longrightarrow>
     map_of z' = (map_of z)(k \<mapsto> r) \<Longrightarrow>
     tracker_log t' = (tracker_log t)(d := log_created k (tracker_log t d)) \<Longrightarrow>
     rr_effect d k False (D, t) (D', t')"
| modified: "zones D d = Some z \<Longrightarrow> k \<in> keys z \<Longrightarrow> zones D' = (zones D)(d \<mapsto> z') \<Longrightarrow>
     map_of z' = (map_of z)(k \<mapsto> r) \<Longrightarrow>
     tracker_log t' = (tracker_log t)(d := log_modified k (tracker_log t d)) \<Longrightarrow>
     rr_effect d k False (D, t) (D', t')"
| silent: "zones D d = Some z \<Longrightarrow> zones D' = (zones D)(d \<mapsto> z') \<Longrightarrow> map_of z' = map_of z \<Longrightarrow>
     tracker_log t' = tracker_log t \<Longrightarrow> rr_effect d k False (D, t) (D', t')"
| deleted: "zones D d = Some z \<Longrightarrow> k \<in> keys z \<Longrightarrow> zones D' = (zones D)(d \<mapsto> z') \<Longrightarrow>
     map_of z' = (map_of z)(k := None) \<Longrightarrow>
     tracker_log t' = (tracker_log t)(d := log_deleted k (tracker_log t d)) \<Longrightarrow>
     rr_effect d k True (D, t) (D', t')"

inductive_cases rr_effectE: "rr_effect d k b (D, t) (D', t')"

lemma map_of_update_id: "map_of z k = Some r \<Longrightarrow> map_of (AList.update k r z) = map_of z"
  by (rule ext) (simp add: update_conv')

lemma effect_modified1:
  assumes inv: "tracked_inv (D, t)" and z: "zones D d = Some z" and k: "k \<in> keys z"
    and step: "rbind (on_rr_post_save d k t) (\<lambda>t'. Inr (put_rrset d k r D, t')) = Inr (D', t')"
  shows "rr_effect d k False (D, t) (D', t')"
proof -
  from good_modified1 [OF inv z k, of r] step
  have "tracker_log t' = (tracker_log t)(d := log_modified k (tracker_log t d))"
    and "D' = put_rrset d k r D" by auto
  with z k show ?thesis
    by (intro rr_effect.modified [where z = z and z' = "AList.update k r z" and r = r])
      (auto simp: put_rrset_Some update_conv')
qed

lemma effect_modified:
  assumes inv: "tracked_inv (D, t)" and z: "zones D d = Some z" and k: "map_of z k = Some r0"
    and step: "rbind (rfold (\<lambda>_. on_rr_post_save d k) cs t) (\<lambda>t'. Inr (put_rrset d k r D, t')) = Inr (D', t')"
    and same: "cs = [] \<Longrightarrow> r = r0"
  shows "rr_effect d k False (D, t) (D', t')"
proof -
  note kz = map_of_keys [OF k]
  from good_modified [OF inv z kz, of cs r] step
  have t': "tracker_log t' = (if cs = [] then tracker_log t
      else (tracker_log t)(d := log_modified k (tracker_log t d)))"
    and D': "D' = put_rrset d k r D" by auto
  show ?thesis
  proof (cases "cs = []")
    case True
    with z t' D' same k show ?thesis
      by (intro rr_effect.silent [where z = z and z' = "AList.update k r z"])
        (auto simp: put_rrset_Some map_of_update_id)
  next
    case False
    with z kz t' D' show ?thesis
      by (intro rr_effect.modified [where z = z and z' = "AList.update k r z" and r = r])
        (auto simp: put_rrset_Some update_conv')
  qed
qed

lemma filter_none_id: "filter (\<lambda>c. c \<in> X) xs = [] \<Longrightarrow> filter (\<lambda>c. c \<notin> X) xs = xs"
  by (induction xs) (auto split: if_splits)

lemma db_step_rr_effect:
  assumes inv: "tracked_inv (D, t)" and op: "rr_target op = Some (d, k)"
    and step: "db_step op (D, t) = Inr (D', t')"
  shows "rr_effect d k (op = OpRRsetDelete d k) (D, t) (D', t')"
proof (cases op)
  case (OpRRsetCreate d' k' n)
  with op step obtain z where z: "zones D d = Some z" "k \<notin> keys z"
    and s: "rbind (on_rr_set_post_save d k True t)
      (\<lambda>t'. Inr (put_rrset d k \<lparr>ttl = n, records = []\<rparr> D, t')) = Inr (D', t')"
    by (auto simp: result_simps zone_of_Inr simp del: on_rr_set_post_save_False)
  from good_created [OF inv z, of "\<lparr>ttl = n, records = []\<rparr>"] s z have
    "rr_effect d k False (D, t) (D', t')"
    by (intro rr_effect.created [where z = z and z' = "AList.update k \<lparr>ttl = n, records = []\<rparr> z"
          and r = "\<lparr>ttl = n, records = []\<rparr>"])
      (auto simp: put_rrset_Some update_conv')
  with OpRRsetCreate show ?thesis by simp
next
  case (OpRRsetSave d' k' n)
  with op step obtain r z where "zones D d = Some z" "map_of z k = Some r"
    and s: "rbind (on_rr_post_save d k t) (\<lambda>t'. Inr (put_rrset d k (r\<lparr>ttl := n\<rparr>) D, t')) = Inr (D', t')"
    by (auto simp: result_simps rrset_of_Inr)
  with effect_modified1 [OF inv _ map_of_keys s] OpRRsetSave show ?thesis by simp
next
  case (OpRRCreate d' k' c)
  with op step obtain r z where "zones D d = Some z" "map_of z k = Some r"
    and s: "rbind (on_rr_post_save d k t)
      (\<lambda>t'. Inr (put_rrset d k (r\<lparr>records := records r @ [c]\<rparr>) D, t')) = Inr (D', t')"
    by (auto simp: result_simps rrset_of_Inr)
  with effect_modified1 [OF inv _ map_of_keys s] OpRRCreate show ?thesis by simp
next
  case (OpRRBulkCreate d' k' cs)
  with op step obtain r z where r: "zones D d = Some z" "map_of z k = Some r"
    and s: "rbind (if cs = [] then Inr t else on_rr_set_post_save d k False t)
      (\<lambda>t'. Inr (put_rrset d k (r\<lparr>records := records r @ cs\<rparr>) D, t')) = Inr (D', t')"
    by (auto simp: result_simps rrset_of_Inr simp del: on_rr_set_post_save_False)
  have "rbind (rfold (\<lambda>_. on_rr_post_save d k) (if cs = [] then [] else [()]) t)
      (\<lambda>t'. Inr (put_rrset d k (r\<lparr>records := records r @ cs\<rparr>) D, t')) = Inr (D', t')"
    using s by (cases "on_rr_post_save d k t") (auto split: if_splits)
  from effect_modified [OF inv r this] OpRRBulkCreate show ?thesis by (cases "cs = []") simp_all
next
  case (OpRRDelete d' k' cs)
  with op step obtain r z where r: "zones D d = Some z" "map_of z k = Some r"
    and s: "rbind (rfold (\<lambda>_. on_rr_post_save d k) (filter (\<lambda>c. c \<in> set cs) (records r)) t)
      (\<lambda>t'. Inr (put_rrset d k (r\<lparr>records := filter (\<lambda>c. c \<notin> set cs) (records r)\<rparr>) D, t')) = Inr (D', t')"
    by (auto simp: result_simps rrset_of_Inr)
  from effect_modified [OF inv r s] OpRRDelete show ?thesis by (simp add: filter_none_id)
next
  case (OpRRsetDelete d' k')
  with op step obtain r z where r: "rrset_of D d k = Inr r" and z: "zones D d = Some z" "map_of z k = Some r"
    by (auto simp: rrset_delete_step_def result_simps rrset_of_Inr)
  from rrset_delete_good [OF inv r] step op OpRRsetDelete
  have "D' = drop_rrset d k D" "tracker_log t' = (tracker_log t)(d := log_deleted k (tracker_log t d))"
    by auto
  with z have "rr_effect d k True (D, t) (D', t')"
    by (intro rr_effect.deleted [where z = z and z' = "AList.delete k z"])
      (auto simp: drop_rrset_Some delete_conv' dest: map_of_keys)
  with OpRRsetDelete op show ?thesis by simp
qed (use op in auto)

lemma db_step_frame:
  assumes inv: "tracked_inv (D, t)" and step: "db_step op (D, t) = Inr (D', t')" and "op_domain op \<noteq> d"
  shows "zones D' d = zones D d \<and> tracker_log t' d = tracker_log t d"
proof (cases "rr_target op")
  case (Some p)
  then obtain e k where p: "rr_target op = Some (e, k)" by (cases p) auto
  then have "e \<noteq> d" using assms(3) by (cases op) auto
  with db_step_rr_effect [OF inv p step] show ?thesis by (auto elim!: rr_effectE)
next
  case None
  then consider e where "op = OpDomainCreate e" | e where "op = OpDomainDelete e"
    by (cases op) auto
  then show ?thesis
  proof cases
    case 1
    with step have "zones D e = None" by (auto simp: result_simps)
    from domain_create_good [OF inv this] step 1 assms(3) show ?thesis by (auto simp: result_simps)
  next
    case 2
    with step obtain z where z: "zones D e = Some z" by (auto simp: result_simps zone_of_Inr)
    from domain_rrsets_deleted [OF inv z tracked_inv_distinct [OF inv z]] obtain D1 t1 z1
      where D1: "rfold (rrset_delete_step e) (map fst z) (D, t) = Inr (D1, t1)" "tracked_inv (D1, t1)"
        "zones D1 = (zones D)(e \<mapsto> z1)" "keys z1 = keys z - set (map fst z)"
        "\<forall>x. x \<noteq> e \<longrightarrow> tracker_log t1 x = tracker_log t x" by auto
    then have "zones D1 e = Some z1" "keys z1 = {}" by simp_all
    from domain_drop_good [OF D1(2) this] obtain t2
      where "on_domain_post_delete e t1 = Inr t2" "tracker_log t2 = tracker_log t1" by blast
    with step 2 z D1 assms(3) show ?thesis by (auto simp: zone_of_def)
  qed
qed

end
