(* ===== verification/TrackerChanges.thy ===== *)
theory TrackerChanges
  imports TrackerCorrect "HOL-Library.Char_ord" "HOL-Library.List_Lexorder" "HOL-Library.Product_Lexorder"
begin

text \<open>
  What the tracker computes from its sets when the block ends: it never stops on one of its own
  assertions, and the domains it creates and deletes are the net change of the domain table.
\<close>

section \<open>The list of changes\<close>

lemma fold_discard_rrsets:
  "fold discard_rrsets ds t =
     t\<lparr>rr_set_additions := rr_set_additions t |` (- set ds),
       rr_set_modifications := rr_set_modifications t |` (- set ds),
       rr_set_deletions := rr_set_deletions t |` (- set ds)\<rparr>"
proof (induction ds arbitrary: t)
  case Nil
  have "m |` UNIV = m" for m :: "string \<rightharpoonup> rrkey set" by (auto simp: restrict_map_def)
  then show ?case by simp
next
  case (Cons d ds)
  have r: "(\<lambda>a. if a = d then None else m a) |` (- set ds) = m |` (- set (d # ds))" for m :: "string \<rightharpoonup> rrkey set"
    by (auto simp: restrict_map_def fun_eq_iff)
  show ?case
    by (simp only: fold.simps comp_apply Cons.IH) (simp add: discard_rrsets_def r del: set_simps)
qed

lemma rmap_total: "(\<And>x. x \<in> set xs \<Longrightarrow> \<exists>y. f x = Inr y) \<Longrightarrow> \<exists>ys. rmap f xs = Inr ys"
  by (induction xs) fastforce+

lemma rmap_Inr_set: "rmap f xs = Inr ys \<Longrightarrow> set ys = {y. \<exists>x \<in> set xs. f x = Inr y}"
  by (induction xs arbitrary: ys) (auto simp: result_simps)

definition live_additions :: "db \<Rightarrow> string \<Rightarrow> rrkey set \<Rightarrow> rrkey set" where
  "live_additions D d A = {k \<in> A. has_rrs D d k}"

lemma changes_of_Inr:
  assumes "tracker_log t d = (A, M, X)" and "A \<inter> X = {}" and "M \<inter> X = {}"
  shows "changes_of D t d = Inr ((if d \<in> domain_additions t then [CreateDomain d] else []) @
     (if live_additions D d A \<union> M \<union> X \<noteq> {}
      then [CreateUpdateDeleteRRSets d (live_additions D d A) M X] else []))"
proof -
  have "A - {k \<in> A. \<not> has_rrs D d k} = live_additions D d A"
    by (auto simp: live_additions_def)
  moreover have "get_set (rr_set_additions t) d = A" "get_set (rr_set_modifications t) d = M"
      "get_set (rr_set_deletions t) d = X"
    using assms(1) by (auto simp: tracker_log_def)
  ultimately show ?thesis unfolding changes_of_def Let_def using assms(2,3) by (simp only:) simp
qed

lemma tracked_inv_disjoint:
  assumes "tracked_inv (D, t)" and "tracker_log t d = (A, M, X)"
  shows "A \<inter> X = {}" and "M \<inter> X = {}" and "finite A" and "finite M" and "finite X"
    and "A \<union> M \<subseteq> keys_of D d" and "X \<inter> keys_of D d = {}"
  using assms by (auto simp: tracked_inv_def log_ok_def dest!: spec [of _ d])

lemma discarded_log:
  "tracker_log (fold discard_rrsets ds t) d = (if d \<in> set ds then ({}, {}, {}) else tracker_log t d)"
  by (simp add: fold_discard_rrsets tracker_log_def get_set_def)

lemma compute_changes_Inr:
  assumes inv: "tracked_inv (D, t)"
  obtains cs where "compute_changes R D t = Inr cs"
proof -
  let ?t = "fold discard_rrsets (od R (domain_deletions t)) t"
  have "\<exists>c. changes_of D ?t d = Inr c" for d
  proof -
    obtain A M X where l: "tracker_log t d = (A, M, X)" by (cases "tracker_log t d")
    obtain A' M' X' where l': "tracker_log ?t d = (A', M', X')" by (cases "tracker_log ?t d")
    have "A' \<inter> X' = {}" "M' \<inter> X' = {}"
      using tracked_inv_disjoint [OF inv l] l l' by (auto simp: discarded_log split: if_splits)
    from changes_of_Inr [OF l' this] show ?thesis by blast
  qed
  then obtain css where
    "rmap (changes_of D ?t) (od R (dom (rr_set_additions ?t) \<union> domain_additions ?t)) = Inr css"
    using rmap_total [of _ "changes_of D ?t"] by metis
  then show ?thesis by (intro that) (simp add: compute_changes_def Let_def)
qed

text \<open>Membership in the list of changes, change by change.\<close>

lemma compute_changes_mem:
  assumes inv: "tracked_inv (D, t)" and R: "lawful_order R" and cs: "compute_changes R D t = Inr cs"
  shows "CreateDomain d \<in> set cs \<longleftrightarrow> d \<in> domain_additions t"
    and "DeleteDomain d \<in> set cs \<longleftrightarrow> d \<in> domain_deletions t"
    and "CreateUpdateDeleteRRSets d A' M X \<in> set cs \<longleftrightarrow> d \<notin> domain_deletions t \<and>
      (\<exists>A. tracker_log t d = (A, M, X) \<and> A' = live_additions D d A) \<and> A' \<union> M \<union> X \<noteq> {}"
proof -
  let ?ds = "od R (domain_deletions t)"
  let ?t = "fold discard_rrsets ?ds t"
  let ?N = "dom (rr_set_additions ?t) \<union> domain_additions ?t"
  from cs obtain css where css: "rmap (changes_of D ?t) (od R ?N) = Inr css"
    and cs': "cs = map DeleteDomain ?ds @ concat css"
    by (auto simp: compute_changes_def Let_def result_simps)
  have fin: "finite (domain_additions t)" "finite (domain_deletions t)"
      "finite (dom (rr_set_additions t))"
      "dom (rr_set_deletions t) = dom (rr_set_additions t)"
      "dom (rr_set_modifications t) = dom (rr_set_additions t)"
    using inv by (auto simp: tracked_inv_def tracker_sync_def)
  have ds: "set ?ds = domain_deletions t" using R fin by (simp add: lawful_order_def)
  have adds: "domain_additions ?t = domain_additions t" by (simp add: fold_discard_rrsets)
  have "finite ?N" using fin by (simp add: fold_discard_rrsets)
  then have N: "set (od R ?N) = ?N" using R by (simp add: lawful_order_def)
  have one: "changes_of D ?t e = Inr c \<Longrightarrow> x \<in> set c \<longleftrightarrow> x = CreateDomain e \<and> e \<in> domain_additions t \<or>
      (\<exists>A M X. tracker_log ?t e = (A, M, X) \<and> live_additions D e A \<union> M \<union> X \<noteq> {} \<and>
        x = CreateUpdateDeleteRRSets e (live_additions D e A) M X)" for e c x
  proof -
    assume c: "changes_of D ?t e = Inr c"
    obtain A M X where l: "tracker_log t e = (A, M, X)" by (cases "tracker_log t e")
    obtain A' M' X' where l': "tracker_log ?t e = (A', M', X')" by (cases "tracker_log ?t e")
    have "A' \<inter> X' = {}" "M' \<inter> X' = {}"
      using tracked_inv_disjoint [OF inv l] l l' by (auto simp: discarded_log split: if_splits)
    from changes_of_Inr [OF l' this] c l' show ?thesis by (auto simp: adds)
  qed
  have tot: "\<exists>c. changes_of D ?t e = Inr c" if "e \<in> ?N" for e
    using rmap_Inr_nth [OF css] N that by (metis in_set_conv_nth)
  have mem: "x \<in> set (concat css) \<longleftrightarrow> (\<exists>e \<in> ?N. x = CreateDomain e \<and> e \<in> domain_additions t \<or>
      (\<exists>A M X. tracker_log ?t e = (A, M, X) \<and> live_additions D e A \<union> M \<union> X \<noteq> {} \<and>
        x = CreateUpdateDeleteRRSets e (live_additions D e A) M X))" for x
  proof -
    have "x \<in> set (concat css) \<longleftrightarrow> (\<exists>e \<in> ?N. \<exists>c. changes_of D ?t e = Inr c \<and> x \<in> set c)"
      unfolding set_concat rmap_Inr_set [OF css] N by blast
    also have "\<dots> \<longleftrightarrow> (\<exists>e \<in> ?N. x = CreateDomain e \<and> e \<in> domain_additions t \<or>
      (\<exists>A M X. tracker_log ?t e = (A, M, X) \<and> live_additions D e A \<union> M \<union> X \<noteq> {} \<and>
        x = CreateUpdateDeleteRRSets e (live_additions D e A) M X))"
    proof (rule bex_cong [OF refl])
      fix e assume "e \<in> ?N"
      from tot [OF this] obtain c where c: "changes_of D ?t e = Inr c" by blast
      then have "(\<exists>c. changes_of D ?t e = Inr c \<and> x \<in> set c) \<longleftrightarrow> x \<in> set c"
        by (simp only: sum.inject) simp
      then show "(\<exists>c. changes_of D ?t e = Inr c \<and> x \<in> set c) \<longleftrightarrow>
          x = CreateDomain e \<and> e \<in> domain_additions t \<or>
          (\<exists>A M X. tracker_log ?t e = (A, M, X) \<and> live_additions D e A \<union> M \<union> X \<noteq> {} \<and>
            x = CreateUpdateDeleteRRSets e (live_additions D e A) M X)"
        unfolding one [OF c] .
    qed
    finally show ?thesis .
  qed
  show "CreateDomain d \<in> set cs \<longleftrightarrow> d \<in> domain_additions t"
  proof -
    have "CreateDomain d \<in> set cs \<longleftrightarrow> CreateDomain d \<in> set (concat css)"
      unfolding cs' by auto
    also have "\<dots> \<longleftrightarrow> d \<in> ?N \<and> d \<in> domain_additions t"
      unfolding mem change.distinct change.inject simp_thms by blast
    also have "\<dots> \<longleftrightarrow> d \<in> domain_additions t" unfolding adds by blast
    finally show ?thesis .
  qed
  show "DeleteDomain d \<in> set cs \<longleftrightarrow> d \<in> domain_deletions t"
  proof -
    have "DeleteDomain d \<notin> set (concat css)"
      unfolding mem change.distinct change.inject simp_thms by blast
    then show ?thesis unfolding cs' using ds by auto
  qed
  have inN: "d \<in> ?N" if "tracker_log ?t d = (A, M, X)" "live_additions D d A \<union> M \<union> X \<noteq> {}" for A M X
  proof (rule ccontr)
    assume "d \<notin> ?N"
    then have "rr_set_additions ?t d = None" "rr_set_modifications ?t d = None"
      "rr_set_deletions ?t d = None"
      using fin(4,5) by (auto simp: fold_discard_rrsets restrict_map_def domIff split: if_splits)
    with that show False by (auto simp: tracker_log_def get_set_def live_additions_def)
  qed
  have log: "tracker_log ?t d = (if d \<in> domain_deletions t then ({}, {}, {}) else tracker_log t d)"
    by (simp add: discarded_log ds)
  have empty: "live_additions D d {} = {}" by (simp add: live_additions_def)
  have "CreateUpdateDeleteRRSets d A' M X \<in> set cs \<longleftrightarrow>
      CreateUpdateDeleteRRSets d A' M X \<in> set (concat css)"
    unfolding cs' by auto
  also have "\<dots> \<longleftrightarrow> d \<in> ?N \<and> (\<exists>A. tracker_log ?t d = (A, M, X) \<and> A' = live_additions D d A) \<and>
      A' \<union> M \<union> X \<noteq> {}"
  proof (unfold mem, intro iffI; elim bexE conjE disjE exE)
    fix A assume "d \<in> ?N" "tracker_log ?t d = (A, M, X)" "A' = live_additions D d A" "A' \<union> M \<union> X \<noteq> {}"
    then show "\<exists>e \<in> ?N. CreateUpdateDeleteRRSets d A' M X = CreateDomain e \<and> e \<in> domain_additions t \<or>
        (\<exists>A Ma Xa. tracker_log ?t e = (A, Ma, Xa) \<and> live_additions D e A \<union> Ma \<union> Xa \<noteq> {} \<and>
          CreateUpdateDeleteRRSets d A' M X = CreateUpdateDeleteRRSets e (live_additions D e A) Ma Xa)"
      by (intro bexI [of _ d] disjI2 exI conjI) simp_all
  qed auto
  also have "\<dots> \<longleftrightarrow> (\<exists>A. tracker_log ?t d = (A, M, X) \<and> A' = live_additions D d A) \<and> A' \<union> M \<union> X \<noteq> {}"
    using inN by blast
  also have "\<dots> \<longleftrightarrow> d \<notin> domain_deletions t \<and>
      (\<exists>A. tracker_log t d = (A, M, X) \<and> A' = live_additions D d A) \<and> A' \<union> M \<union> X \<noteq> {}"
    unfolding log by (auto simp: empty)
  finally show "CreateUpdateDeleteRRSets d A' M X \<in> set cs \<longleftrightarrow> d \<notin> domain_deletions t \<and>
      (\<exists>A. tracker_log t d = (A, M, X) \<and> A' = live_additions D d A) \<and> A' \<union> M \<union> X \<noteq> {}" .
qed

section \<open>The domain sets are the net change of the domain table\<close>

definition net_domains :: "string set \<Rightarrow> tracked \<Rightarrow> bool" where
  "net_domains N0 S = (case S of (D, t) \<Rightarrow>
     tracker_domains t = (dom (zones D) - N0, N0 - dom (zones D)))"

lemma on_rr_post_save_domains: "on_rr_post_save d k t = Inr t' \<Longrightarrow> tracker_domains t' = tracker_domains t"
  by (auto simp: on_rr_post_save_def rr_set_updated_def Let_def result_simps split: if_splits)

lemma on_rr_set_post_save_domains:
  "on_rr_set_post_save d k c t = Inr t' \<Longrightarrow> tracker_domains t' = tracker_domains t"
  by (auto simp: on_rr_set_post_save_def rr_set_updated_def Let_def result_simps split: if_splits)

lemma on_rr_set_post_delete_domains:
  "on_rr_set_post_delete d k t = Inr t' \<Longrightarrow> tracker_domains t' = tracker_domains t"
  by (auto simp: on_rr_set_post_delete_def rr_set_updated_def Let_def result_simps split: if_splits)

lemma rr_signals_domains:
  "rfold (\<lambda>_. on_rr_post_save d k) cs t = Inr t' \<Longrightarrow> tracker_domains t' = tracker_domains t"
  by (erule rfold_invariant [where P = "\<lambda>u. tracker_domains u = tracker_domains t"])
    (auto dest: on_rr_post_save_domains)

lemma put_rrset_dom [simp]: "dom (zones (put_rrset d k r D)) = dom (zones D)"
  by (auto simp: put_rrset_def split: option.splits)

lemma drop_rrset_dom [simp]: "dom (zones (drop_rrset d k D)) = dom (zones D)"
  by (auto simp: drop_rrset_def split: option.splits)

lemma rrset_delete_step_net:
  assumes "rrset_delete_step d k (D, t) = Inr (D', t')"
  shows "dom (zones D') = dom (zones D) \<and> tracker_domains t' = tracker_domains t"
proof -
  from assms obtain r :: rrset and t1 where "D' = drop_rrset d k D"
    and t1: "rfold (\<lambda>_. on_rr_post_save d k) (records r) t = Inr t1"
    and t': "on_rr_set_post_delete d k t1 = Inr t'"
    by (simp add: rrset_delete_step_def result_simps) metis
  then show ?thesis
    using rr_signals_domains [OF t1] on_rr_set_post_delete_domains [OF t'] by simp
qed

lemma rrset_delete_steps_net:
  "rfold (rrset_delete_step d) ks (D, t) = Inr (D', t') \<Longrightarrow>
   dom (zones D') = dom (zones D) \<and> tracker_domains t' = tracker_domains t"
proof (induction ks arbitrary: D t)
  case (Cons k ks)
  then obtain D1 t1 where "rrset_delete_step d k (D, t) = Inr (D1, t1)"
    and "rfold (rrset_delete_step d) ks (D1, t1) = Inr (D', t')"
    by (auto simp: result_simps)
  with rrset_delete_step_net [OF this(1)] Cons.IH [OF this(2)] show ?case by simp
qed simp

lemma on_domain_post_save_net:
  assumes "on_domain_post_save d True t = Inr t'" and "tracker_domains t = (B - N0, N0 - B)" and "d \<notin> B"
  shows "tracker_domains t' = (insert d B - N0, N0 - insert d B)"
proof -
  have t: "domain_additions t = B - N0" "domain_deletions t = N0 - B"
    using assms(2) by (simp_all add: tracker_domains_def)
  have "t' = (if d \<in> N0 - B then t\<lparr>domain_deletions := N0 - B - {d}\<rparr>
      else t\<lparr>domain_additions := insert d (B - N0)\<rparr>)"
    using assms(1) t by (auto simp: on_domain_post_save_def domain_updated_def)
  then show ?thesis using t assms(3) by (cases "d \<in> N0") (simp_all add: tracker_domains_def, blast+)
qed

lemma on_domain_post_delete_net:
  assumes "on_domain_post_delete d t = Inr t'" and "tracker_domains t = (B - N0, N0 - B)" and "d \<in> B"
  shows "tracker_domains t' = ((B - {d}) - N0, N0 - (B - {d}))"
proof -
  have t: "domain_additions t = B - N0" "domain_deletions t = N0 - B"
    using assms(2) by (simp_all add: tracker_domains_def)
  have "t' = (if d \<in> B - N0 then t\<lparr>domain_additions := B - N0 - {d}\<rparr>
      else t\<lparr>domain_deletions := insert d (N0 - B)\<rparr>)"
    using assms(1) t by (auto simp: on_domain_post_delete_def domain_updated_def)
  then show ?thesis using t assms(3) by (cases "d \<in> N0") (simp_all add: tracker_domains_def, blast+)
qed

lemma db_step_net:
  assumes net: "net_domains N0 (D, t)" and step: "db_step op (D, t) = Inr (D', t')"
  shows "net_domains N0 (D', t')"
proof (cases op)
  case (OpDomainCreate d)
  with step have "zones D d = None" "on_domain_post_save d True t = Inr t'"
    and D': "dom (zones D') = insert d (dom (zones D))"
    by (auto simp: result_simps)
  with on_domain_post_save_net [OF this(2), of "dom (zones D)"] net show ?thesis
    by (auto simp: net_domains_def)
next
  case (OpDomainDelete d)
  with step obtain z D1 t1 where z: "zones D d = Some z"
    and run: "rfold (rrset_delete_step d) (map fst z) (D, t) = Inr (D1, t1)"
    and del: "on_domain_post_delete d t1 = Inr t'" and D': "dom (zones D') = dom (zones D1) - {d}"
    by (auto simp: result_simps zone_of_Inr)
  from rrset_delete_steps_net [OF run] net
  have "tracker_domains t1 = (dom (zones D) - N0, N0 - dom (zones D))"
    and D1: "dom (zones D1) = dom (zones D)" by (auto simp: net_domains_def)
  from on_domain_post_delete_net [OF del this(1)] z D' D1 show ?thesis
    by (auto simp: net_domains_def)
next
  case (OpRRsetDelete d k)
  with rrset_delete_step_net [of d k D t D' t'] step net show ?thesis by (simp add: net_domains_def)
qed (use step net in \<open>auto simp: result_simps net_domains_def split: if_splits
  dest: on_rr_post_save_domains on_rr_set_post_save_domains rr_signals_domains\<close>)

lemma track_run_net:
  assumes "track_run ops (D0, new_tracker) = Inr (D, t)"
  shows "domain_additions t = dom (zones D) - dom (zones D0)"
    and "domain_deletions t = dom (zones D0) - dom (zones D)"
proof -
  have "net_domains (dom (zones D0)) (D, t)"
    using assms unfolding track_run_def
    by (rule rfold_invariant)
      (simp add: net_domains_def tracker_domains_def new_tracker_def, auto intro: db_step_net)
  then show "domain_additions t = dom (zones D) - dom (zones D0)"
    and "domain_deletions t = dom (zones D0) - dom (zones D)"
    by (auto simp: net_domains_def tracker_domains_def)
qed

lemma track_run_inv:
  "db_wf D0 \<Longrightarrow> track_run ops (D0, new_tracker) = Inr (D, t) \<Longrightarrow> tracked_inv (D, t)"
  using track_run_good [OF tracked_inv_start, of D0 ops] by (simp add: good_result_def)

section \<open>A run to evaluate\<close>

text \<open>One lawful order, and a block that replaces one RRset of a zone by another.\<close>

definition name_order :: order where
  "name_order = \<lparr>od = sorted_list_of_set, ok = sorted_list_of_set\<rparr>"

lemma lawful_name_order: "lawful_order name_order"
  by (simp add: lawful_order_def name_order_def)

definition example_db :: db where
  "example_db = \<lparr>zones = [''d'' \<mapsto> [((''A'', ''w''), \<lparr>ttl = 60, records = [''192.0.2.1'']\<rparr>)]],
     published = Map.empty\<rparr>"

definition example_ops :: "db_op list" where
  "example_ops = [OpRRsetDelete ''d'' (''A'', ''w''), OpRRsetCreate ''d'' (''TXT'', []) 3600,
     OpRRBulkCreate ''d'' (''TXT'', []) [''hello''], OpDomainCreate ''e'']"

definition example_db' :: db where
  "example_db' = \<lparr>zones = [''d'' \<mapsto> [((''TXT'', []), \<lparr>ttl = 3600, records = [''hello'']\<rparr>)], ''e'' \<mapsto> []],
     published = Map.empty\<rparr>"

definition example_tracker :: tracker where
  "example_tracker = \<lparr>domain_additions = {''e''}, domain_deletions = {},
     rr_set_additions = [''d'' \<mapsto> {(''TXT'', [])}], rr_set_modifications = [''d'' \<mapsto> {(''TXT'', [])}],
     rr_set_deletions = [''d'' \<mapsto> {(''A'', ''w'')}]\<rparr>"

lemma example_db_wf: "db_wf example_db"
  by (simp add: db_wf_def example_db_def)

lemmas handler_defs = on_domain_post_save_def on_domain_post_delete_def domain_updated_def
  on_rr_set_post_save_def on_rr_post_save_def on_rr_set_post_delete_def rr_set_updated_def
  set_rrsets_def key_of_def

lemmas row_defs = put_rrset_def drop_rrset_def rrset_delete_step_def zone_of_def rrset_of_def
  cname_conflict_def require_def

lemma example_run:
  "track_run example_ops (example_db, new_tracker) = Inr (example_db', example_tracker)"
  by (simp add: track_run_def example_ops_def example_db_def example_db'_def example_tracker_def
      new_tracker_def handler_defs row_defs del: on_rr_set_post_save_False)

section \<open>Properties of the tracked block\<close>

text \<open>C8: Inside a tracked block no sequence of database operations makes a signal handler of the
  tracker fail: starting from well-formed tables, the only errors are those of the database
  itself (a row that does not exist, a violated constraint); none of the handlers'
  \<open>AssertionError\<close>s, \<open>KeyError\<close>s and \<open>ValueError\<close>s is raised.\<close>

theorem tracker_never_asserts:
  assumes "db_wf D0" and "track_run ops (D0, new_tracker) = Inl e"
  shows "e = DoesNotExist \<or> e = IntegrityError"
  using track_run_good [OF tracked_inv_start [OF assms(1)], of ops] assms(2)
  by (simp add: good_result_def)

theorem tracker_never_asserts_witness:
  "track_run [OpDomainCreate ''d'', OpRRsetCreate ''d'' (''A'', ''w'') 60,
      OpRRsetCreate ''d'' (''CNAME'', ''w'') 60]
     (\<lparr>zones = Map.empty, published = Map.empty\<rparr>, new_tracker) = Inl IntegrityError \<and>
   (IntegrityError = DoesNotExist \<or> IntegrityError = IntegrityError)"
proof -
  have wf: "db_wf \<lparr>zones = Map.empty, published = Map.empty\<rparr>" by (simp add: db_wf_def)
  have run: "track_run [OpDomainCreate ''d'', OpRRsetCreate ''d'' (''A'', ''w'') 60,
      OpRRsetCreate ''d'' (''CNAME'', ''w'') 60]
     (\<lparr>zones = Map.empty, published = Map.empty\<rparr>, new_tracker) = Inl IntegrityError"
    by (simp add: track_run_def new_tracker_def handler_defs row_defs del: on_rr_set_post_save_False)
  from tracker_never_asserts [OF wf run] run show ?thesis by blast
qed

text \<open>When the block ends, the three sets of each domain describe the database: nothing is both
  added and deleted or both modified and deleted, every added or modified RRset exists and no
  deleted one does. So the assertions of \<open>_compute_changes\<close> hold and it returns a list of
  changes.\<close>

lemma tracker_sets_consistent:
  assumes "db_wf D0" and "track_run ops (D0, new_tracker) = Inr (D, t)"
  shows "get_set (rr_set_additions t) d \<inter> get_set (rr_set_deletions t) d = {} \<and>
    get_set (rr_set_modifications t) d \<inter> get_set (rr_set_deletions t) d = {} \<and>
    get_set (rr_set_additions t) d \<union> get_set (rr_set_modifications t) d \<subseteq> keys_of D d \<and>
    get_set (rr_set_deletions t) d \<inter> keys_of D d = {} \<and>
    (\<exists>cs. compute_changes R D t = Inr cs)"
proof -
  note inv = track_run_inv [OF assms]
  note disj = tracked_inv_disjoint [OF inv, of d, OF tracker_log_def]
  from compute_changes_Inr [OF inv] have "\<exists>cs. compute_changes R D t = Inr cs" by blast
  with disj show ?thesis by blast
qed

lemma tracker_sets_consistent_witness:
  "get_set (rr_set_additions example_tracker) ''d'' = {(''TXT'', [])} \<and>
   get_set (rr_set_deletions example_tracker) ''d'' = {(''A'', ''w'')} \<and>
   {(''A'', ''w'')} \<inter> keys_of example_db' ''d'' = {} \<and>
   (\<exists>cs. compute_changes name_order example_db' example_tracker = Inr cs)"
  using tracker_sets_consistent [OF example_db_wf example_run, of "''d''" name_order]
  by (simp add: example_tracker_def get_set_def)

text \<open>The domain changes are the net effect of the block on the domain table: a domain is
  created in PowerDNS exactly if it exists now and did not before, and deleted exactly if it
  existed before and does not now, however often it was created and deleted in between.\<close>

lemma domain_changes_net:
  assumes "db_wf D0" and "track_run ops (D0, new_tracker) = Inr (D, t)"
    and "lawful_order R" and "compute_changes R D t = Inr cs"
  shows "(CreateDomain d \<in> set cs \<longleftrightarrow> zones D0 d = None \<and> zones D d \<noteq> None) \<and>
    (DeleteDomain d \<in> set cs \<longleftrightarrow> zones D0 d \<noteq> None \<and> zones D d = None)"
  unfolding compute_changes_mem(1,2) [OF track_run_inv [OF assms(1,2)] assms(3,4)]
    track_run_net [OF assms(2)] by auto

lemma domain_changes_net_witness:
  "\<exists>cs. compute_changes name_order example_db' example_tracker = Inr cs \<and>
     CreateDomain ''e'' \<in> set cs \<and> CreateDomain ''d'' \<notin> set cs \<and> DeleteDomain ''d'' \<notin> set cs"
proof -
  from compute_changes_Inr [OF track_run_inv [OF example_db_wf example_run]] obtain cs
    where cs: "compute_changes name_order example_db' example_tracker = Inr cs" .
  note net = domain_changes_net [OF example_db_wf example_run lawful_name_order cs]
  from net [of "''e''"] net [of "''d''"] cs show ?thesis
    by (simp add: example_db_def example_db'_def)
qed

end
