(* ===== verification/TrackerSync.thy ===== *)
theory TrackerSync
  imports TrackerChanges
begin

text \<open>
  The RRset changes the tracker sends agree with the database: the payload of the PATCH request
  describes every RRset whose content differs from the one at the start of the block, with its
  content at the end. \<open>content\<close> is the abstraction: what an RRset is to PowerDNS, which knows no
  RRset without records.
\<close>

section \<open>The log and the zone, key by key\<close>

definition lookup_rrset :: "db \<Rightarrow> string \<Rightarrow> rrkey \<Rightarrow> rrset option" where
  "lookup_rrset D d k = (case zones D d of None \<Rightarrow> None | Some z \<Rightarrow> map_of z k)"

definition content :: "db \<Rightarrow> string \<Rightarrow> rrkey \<Rightarrow> (nat \<times> string list) option" where
  "content D d k =
     (case lookup_rrset D d k of
        None \<Rightarrow> None
      | Some r \<Rightarrow> if records r = [] then None else Some (ttl r, records r))"

lemma keys_map_of: "k \<in> keys z \<longleftrightarrow> map_of z k \<noteq> None"
  by (simp add: map_of_eq_None_iff)

lemma keys_of_lookup: "k \<in> keys_of D d \<longleftrightarrow> lookup_rrset D d k \<noteq> None"
  by (simp add: keys_of_def lookup_rrset_def keys_map_of split: option.splits)

lemma rrset_of_lookup: "rrset_of D d k = Inr r \<longleftrightarrow> lookup_rrset D d k = Some r"
  by (auto simp: rrset_of_Inr lookup_rrset_def split: option.splits)

lemma has_rrs_content: "has_rrs D d k \<longleftrightarrow> content D d k \<noteq> None"
proof (cases "rrset_of D d k")
  case (Inl e)
  then have "lookup_rrset D d k = None" using rrset_of_lookup by (metis not_Some_eq sum.distinct(1))
  with Inl show ?thesis by (simp add: has_rrs_def content_def)
next
  case (Inr r)
  then have "lookup_rrset D d k = Some r" by (simp add: rrset_of_lookup)
  with Inr show ?thesis by (simp add: has_rrs_def content_def)
qed

text \<open>What is known of one RRset after \<open>n\<close> deletions of it, against its row at the start.\<close>

definition key_inv :: "rrset option \<Rightarrow> nat \<Rightarrow> rrkey \<Rightarrow> rrset option \<Rightarrow> rrlog \<Rightarrow> bool" where
  "key_inv r0 n k r l = (case l of (A, M, X) \<Rightarrow>
     if r0 = None then (k \<in> A \<longleftrightarrow> r \<noteq> None) \<and> k \<notin> X
     else if n = 0 then k \<notin> A \<and> k \<notin> X \<and> (k \<notin> M \<longrightarrow> r = r0) \<and> r \<noteq> None
     else n = 1 \<longrightarrow> k \<in> A \<or> k \<in> X)"

definition synced :: "(rrkey \<Rightarrow> rrset option) \<Rightarrow> (rrkey \<Rightarrow> nat) \<Rightarrow> string \<Rightarrow> tracked \<Rightarrow> bool" where
  "synced f0 n d S = (case S of (D, t) \<Rightarrow>
     \<forall>k. key_inv (f0 k) (n k) k (lookup_rrset D d k) (tracker_log t d))"

definition deletes :: "string \<Rightarrow> db_op list \<Rightarrow> rrkey \<Rightarrow> nat" where
  "deletes d ops k = count_list ops (OpRRsetDelete d k)"

lemma key_inv_other:
  assumes "key_inv r0 n j r (A, M, X)" and "j \<in> A' \<longleftrightarrow> j \<in> A" and "j \<in> M' \<longleftrightarrow> j \<in> M" and "j \<in> X' \<longleftrightarrow> j \<in> X"
  shows "key_inv r0 n j r (A', M', X')"
  using assms by (simp add: key_inv_def)

lemma key_inv_created:
  assumes "key_inv r0 n k None (A, M, X)"
  shows "key_inv r0 n k (Some r) (log_created k (A, M, X))"
  using assms by (auto simp: key_inv_def split: if_splits)

lemma key_inv_modified:
  assumes "key_inv r0 n k (Some r) (A, M, X)"
  shows "key_inv r0 n k (Some r') (log_modified k (A, M, X))"
  using assms by (auto simp: key_inv_def split: if_splits)

lemma key_inv_deleted:
  assumes "key_inv r0 n k (Some r) (A, M, X)"
  shows "key_inv r0 (Suc n) k None (log_deleted k (A, M, X))"
  using assms by (auto simp: key_inv_def split: if_splits)

lemma lookup_updated:
  "zones D' = (zones D)(d \<mapsto> z') \<Longrightarrow> lookup_rrset D' d = map_of z'"
  by (rule ext) (simp add: lookup_rrset_def)

lemma lookup_Some: "zones D d = Some z \<Longrightarrow> lookup_rrset D d = map_of z"
  by (rule ext) (simp add: lookup_rrset_def)

lemma synced_effect:
  assumes sync: "synced f0 n d (D, t)" and eff: "rr_effect d k b (D, t) (D', t')"
  shows "synced f0 (\<lambda>j. n j + (if b \<and> j = k then 1 else 0)) d (D', t')"
proof -
  obtain A M X where l: "tracker_log t d = (A, M, X)" by (cases "tracker_log t d")
  have inv: "key_inv (f0 j) (n j) j (lookup_rrset D d j) (A, M, X)" for j
    using sync l unfolding synced_def prod.case by metis
  have "key_inv (f0 j) (n j + (if b \<and> j = k then 1 else 0)) j (lookup_rrset D' d j) (tracker_log t' d)" for j
    using eff
  proof (cases rule: rr_effectE [consumes 1, case_names created modified silent deleted])
    case (created z z' r)
    from created l inv [of j] key_inv_created [of "f0 k" "n k" k A M X r] show ?thesis
      by (cases "j = k") (auto simp: lookup_updated lookup_Some keys_map_of elim: key_inv_other)
  next
    case (modified z z' r)
    then obtain r' where "map_of z k = Some r'" by (auto simp: keys_map_of)
    with modified l inv [of j] key_inv_modified [of "f0 k" "n k" k r' A M X r] show ?thesis
      by (cases "j = k") (auto simp: lookup_updated lookup_Some elim: key_inv_other)
  next
    case (silent z z')
    with l inv [of j] show ?thesis by (simp add: lookup_updated lookup_Some)
  next
    case (deleted z z' )
    then obtain r' where "map_of z k = Some r'" by (auto simp: keys_map_of)
    with deleted l inv [of j] key_inv_deleted [of "f0 k" "n k" k r' A M X] show ?thesis
      by (cases "j = k") (auto simp: lookup_updated lookup_Some elim: key_inv_other)
  qed
  then show ?thesis by (simp add: synced_def)
qed

lemma db_step_synced:
  assumes inv: "tracked_inv (D, t)" and sync: "synced f0 n d (D, t)"
    and step: "db_step op (D, t) = Inr (D', t')" and "op \<noteq> OpDomainDelete d"
  shows "synced f0 (\<lambda>j. n j + deletes d [op] j) d (D', t')"
proof (cases "op_domain op = d")
  case False
  then have "op \<noteq> OpRRsetDelete d j" for j by auto
  with db_step_frame [OF inv step False] sync show ?thesis
    by (simp add: synced_def deletes_def lookup_rrset_def)
next
  case d: True
  show ?thesis
  proof (cases "rr_target op")
    case None
    with assms(4) d have "op = OpDomainCreate d" by (cases op) auto
    with step have z: "zones D d = None" and "zones D' = (zones D)(d \<mapsto> [])"
      by (auto simp: result_simps)
    then have "lookup_rrset D' d = lookup_rrset D d" by (auto simp: lookup_rrset_def)
    moreover have "tracker_log t' = tracker_log t"
      using domain_create_good [OF inv z] step \<open>op = OpDomainCreate d\<close> by (auto simp: result_simps)
    ultimately show ?thesis using sync \<open>op = OpDomainCreate d\<close> by (simp add: synced_def deletes_def)
  next
    case (Some p)
    with d obtain k where k: "rr_target op = Some (d, k)" by (cases op) auto
    have "(\<lambda>j. n j + deletes d [op] j) =
        (\<lambda>j. n j + (if op = OpRRsetDelete d k \<and> j = k then 1 else 0))"
      using k by (cases op) (auto simp: deletes_def)
    with synced_effect [OF sync db_step_rr_effect [OF inv k step]] show ?thesis by simp
  qed
qed

lemma track_run_synced:
  assumes "tracked_inv (D, t)" and "synced f0 n d (D, t)" and "track_run ops (D, t) = Inr (D', t')"
    and "OpDomainDelete d \<notin> set ops"
  shows "synced f0 (\<lambda>j. n j + deletes d ops j) d (D', t')"
  using assms unfolding track_run_def
proof (induction ops arbitrary: n D t)
  case Nil
  then show ?case by (simp add: deletes_def)
next
  case (Cons op ops)
  then obtain D1 t1 where step: "db_step op (D, t) = Inr (D1, t1)"
    and rest: "rfold db_step ops (D1, t1) = Inr (D', t')" by (auto simp: result_simps)
  have inv: "tracked_inv (D1, t1)"
    using db_step_good [OF Cons.prems(1), of op] step by (simp add: good_result_def)
  have "op \<noteq> OpDomainDelete d" using Cons.prems(4) by auto
  from Cons.IH [OF inv db_step_synced [OF Cons.prems(1,2) step this] rest] Cons.prems(4)
  have "synced f0 (\<lambda>j. n j + deletes d [op] j + deletes d ops j) d (D', t')" by simp
  moreover have "(\<lambda>j. n j + deletes d [op] j + deletes d ops j) = (\<lambda>j. n j + deletes d (op # ops) j)"
    by (auto simp: deletes_def)
  ultimately show ?case by simp
qed

lemma synced_start: "synced (lookup_rrset D d) (\<lambda>_. 0) d (D, new_tracker)"
  by (auto simp: synced_def key_inv_def tracker_log_def new_tracker_def get_set_def)

section \<open>The payload\<close>

definition payload_of :: "order \<Rightarrow> db \<Rightarrow> string \<Rightarrow> change \<Rightarrow> pdns_rrset list" where
  "payload_of R D d c = (case c of
     CreateUpdateDeleteRRSets e A M X \<Rightarrow>
       if e = d then (case rrsets_data R D e A M X of Inl _ \<Rightarrow> [] | Inr es \<Rightarrow> es) else []
   | _ \<Rightarrow> [])"

text \<open>All entries the changes send for domain \<open>d\<close>, and the entry for a key.\<close>

definition pushed :: "order \<Rightarrow> db \<Rightarrow> change list \<Rightarrow> string \<Rightarrow> pdns_rrset set" where
  "pushed R D cs d = (\<Union>c \<in> set cs. set (payload_of R D d c))"

definition describes :: "string \<Rightarrow> rrkey \<Rightarrow> (nat \<times> string list) option \<Rightarrow> pdns_rrset \<Rightarrow> bool" where
  "describes d k c e \<longleftrightarrow> p_name e = construct_name (snd k) d \<and> p_type e = fst k \<and>
     (case c of None \<Rightarrow> p_records e = []
      | Some (n, rs) \<Rightarrow> p_ttl e = n \<and> p_records e = rs)"

lemma update_entry_describes:
  "update_entry D d k = Inr e \<Longrightarrow> describes d k (content D d k) e"
  by (auto simp: update_entry_def result_simps rrset_of_lookup describes_def content_def)

lemma rrsets_data_Inr:
  assumes R: "lawful_order R" and fin: "finite A" "finite M" "finite X"
    and ex: "A \<union> M \<subseteq> keys_of D d"
  obtains es where "rrsets_data R D d A M X = Inr es"
    and "set es = deletion_entry d ` X \<union> {e. \<exists>k \<in> A \<union> M - X. update_entry D d k = Inr e}"
proof -
  have s: "set (ok R (A \<union> M - X)) = A \<union> M - X" "set (ok R X) = X"
    using R fin by (simp_all add: lawful_order_def)
  have "\<exists>e. update_entry D d k = Inr e" if "k \<in> set (ok R (A \<union> M - X))" for k
  proof -
    from that ex s have "k \<in> keys_of D d" by auto
    then have "lookup_rrset D d k \<noteq> None" by (simp add: keys_of_lookup)
    then obtain r where "rrset_of D d k = Inr r" by (auto simp: rrset_of_lookup)
    then show ?thesis by (simp add: update_entry_def)
  qed
  then obtain us where us: "rmap (update_entry D d) (ok R (A \<union> M - X)) = Inr us"
    using rmap_total by blast
  show ?thesis
  proof
    show "rrsets_data R D d A M X = Inr (map (deletion_entry d) (ok R X) @ us)"
      using us by (simp add: rrsets_data_def)
    show "set (map (deletion_entry d) (ok R X) @ us) =
        deletion_entry d ` X \<union> {e. \<exists>k \<in> A \<union> M - X. update_entry D d k = Inr e}"
      using rmap_Inr_set [OF us] s by auto
  qed
qed

lemma db_step_keeps_domain:
  assumes inv: "tracked_inv (D, t)" and step: "db_step op (D, t) = Inr (D', t')"
    and "op \<noteq> OpDomainDelete d" and "zones D d \<noteq> None"
  shows "zones D' d \<noteq> None"
proof (cases "op_domain op = d")
  case False
  with db_step_frame [OF inv step False] assms(4) show ?thesis by simp
next
  case d: True
  show ?thesis
  proof (cases "rr_target op")
    case None
    with assms(3) d have "op = OpDomainCreate d" by (cases op) auto
    with step assms(4) show ?thesis by (auto simp: result_simps)
  next
    case (Some p)
    with d obtain k where k: "rr_target op = Some (d, k)" by (cases op) auto
    from db_step_rr_effect [OF inv k step] show ?thesis by (auto elim: rr_effectE)
  qed
qed

lemma track_run_keeps_domain:
  "tracked_inv (D, t) \<Longrightarrow> track_run ops (D, t) = Inr (D', t') \<Longrightarrow> OpDomainDelete d \<notin> set ops \<Longrightarrow>
   zones D d \<noteq> None \<Longrightarrow> zones D' d \<noteq> None"
  unfolding track_run_def
proof (induction ops arbitrary: D t)
  case (Cons op ops)
  then obtain D1 t1 where step: "db_step op (D, t) = Inr (D1, t1)"
    and rest: "rfold db_step ops (D1, t1) = Inr (D', t')" by (auto simp: result_simps)
  have "tracked_inv (D1, t1)"
    using db_step_good [OF Cons.prems(1), of op] step by (simp add: good_result_def)
  from Cons.IH [OF this rest] db_step_keeps_domain [OF Cons.prems(1) step, of d] Cons.prems(3,4)
  show ?case by auto
qed simp

lemma describes_deletion: "describes d k None (deletion_entry d k)"
  by (simp add: describes_def deletion_entry_def)

lemma content_None: "lookup_rrset D d k = None \<Longrightarrow> content D d k = None"
  by (simp add: content_def)

text \<open>The entries pushed for a domain, in terms of its three sets.\<close>

lemma pushed_iff:
  assumes inv: "tracked_inv (D, t)" and R: "lawful_order R" and cs: "compute_changes R D t = Inr cs"
    and l: "tracker_log t d = (A, M, X)" and d: "d \<notin> domain_deletions t"
  shows "pushed R D cs d =
    deletion_entry d ` X \<union> {e. \<exists>k \<in> live_additions D d A \<union> M - X. update_entry D d k = Inr e}"
    (is "_ = ?E")
proof -
  note disj = tracked_inv_disjoint [OF inv l]
  let ?A = "live_additions D d A"
  have A: "finite ?A" "?A \<union> M \<subseteq> keys_of D d"
    using disj(3,6) by (auto simp: live_additions_def)
  from rrsets_data_Inr [OF R A(1) disj(4,5) A(2)] obtain es
    where es: "rrsets_data R D d ?A M X = Inr es" "set es = ?E" by blast
  have mem: "CreateUpdateDeleteRRSets d A' M' X' \<in> set cs \<longleftrightarrow>
      A' = ?A \<and> M' = M \<and> X' = X \<and> ?A \<union> M \<union> X \<noteq> {}" for A' M' X'
    unfolding compute_changes_mem(3) [OF inv R cs] using d l by auto
  have "pushed R D cs d = (if ?A \<union> M \<union> X \<noteq> {} then set es else {})"
  proof (cases "?A \<union> M \<union> X = {}")
    case True
    then have "CreateUpdateDeleteRRSets d A' M' X' \<notin> set cs" for A' M' X' using mem by simp
    then have "payload_of R D d c = []" if "c \<in> set cs" for c
      using that by (auto simp: payload_of_def split: change.splits)
    with True show ?thesis by (auto simp: pushed_def)
  next
    case False
    then have "CreateUpdateDeleteRRSets d ?A M X \<in> set cs" using mem by simp
    moreover have "payload_of R D d (CreateUpdateDeleteRRSets d ?A M X) = es"
      using es by (simp add: payload_of_def)
    ultimately have "set es \<subseteq> pushed R D cs d" unfolding pushed_def by blast
    moreover have "payload_of R D d c = [] \<or> payload_of R D d c = es" if "c \<in> set cs" for c
      using that mem es by (auto simp: payload_of_def split: change.splits)
    then have "set (payload_of R D d c) \<subseteq> set es" if "c \<in> set cs" for c
      using that by (metis empty_set empty_subsetI order_refl)
    then have "pushed R D cs d \<subseteq> set es" unfolding pushed_def by blast
    ultimately show ?thesis using False by simp
  qed
  with es(2) show ?thesis by auto
qed

lemma pushed_covers:
  assumes "db_wf D0" and "track_run ops (D0, new_tracker) = Inr (D, t)"
    and "lawful_order R" and "compute_changes R D t = Inr cs"
    and "OpDomainDelete d \<notin> set ops"
    and "\<And>k. lookup_rrset D0 d k \<noteq> None \<Longrightarrow> deletes d ops k \<le> 1"
    and "\<And>k. content D0 d k \<noteq> None \<Longrightarrow> lookup_rrset D d k \<noteq> None \<Longrightarrow> content D d k \<noteq> None"
  shows "(\<forall>e \<in> pushed R D cs d. \<exists>k. describes d k (content D d k) e) \<and>
    (\<forall>k. content D d k \<noteq> content D0 d k \<longrightarrow>
      (\<exists>e \<in> pushed R D cs d. describes d k (content D d k) e))"
proof -
  note inv = track_run_inv [OF assms(1,2)]
  obtain A M X where l: "tracker_log t d = (A, M, X)" by (cases "tracker_log t d")
  note disj = tracked_inv_disjoint [OF inv l]
  have d: "d \<notin> domain_deletions t"
    using track_run_keeps_domain [OF tracked_inv_start [OF assms(1)] assms(2,5)]
    unfolding track_run_net(2) [OF assms(2)] by auto
  note P = pushed_iff [OF inv assms(3,4) l d]
  have gone: "content D d k = None" if "k \<in> X" for k
  proof -
    from that disj(7) have "k \<notin> keys_of D d" by auto
    then show ?thesis by (simp add: keys_of_lookup content_None)
  qed
  have K: "key_inv (lookup_rrset D0 d k) (deletes d ops k) k (lookup_rrset D d k) (A, M, X)" for k
    using track_run_synced [OF tracked_inv_start [OF assms(1)] synced_start assms(2,5)] l
    unfolding synced_def prod.case by (metis add_0)
  have "\<exists>k. describes d k (content D d k) e" if "e \<in> pushed R D cs d" for e
  proof -
    from that consider k where "k \<in> X" "e = deletion_entry d k" | k where "update_entry D d k = Inr e"
      unfolding P by blast
    then show ?thesis
    proof cases
      case 1
      from describes_deletion [of d k] gone [OF 1(1)] 1(2) show ?thesis by metis
    next
      case 2
      from update_entry_describes [OF this] show ?thesis by blast
    qed
  qed
  moreover have "\<exists>e \<in> pushed R D cs d. describes d k (content D d k) e"
    if ch: "content D d k \<noteq> content D0 d k" for k
  proof (cases "k \<in> X")
    case True
    then have "deletion_entry d k \<in> pushed R D cs d" unfolding P by blast
    with gone [OF True] describes_deletion show ?thesis by metis
  next
    case False
    have "k \<in> live_additions D d A \<union> M"
    proof (rule ccontr)
      assume no: "k \<notin> live_additions D d A \<union> M"
      then have A: "k \<notin> A \<or> content D d k = None"
        unfolding live_additions_def has_rrs_content by blast
      show False
      proof (cases "lookup_rrset D0 d k = None")
        case True
        with K [of k] A have "content D d k = None"
          by (cases "content D d k") (auto simp: key_inv_def content_None)
        with ch True show False by (simp add: content_None)
      next
        case old: False
        show False
        proof (cases "deletes d ops k = 0")
          case True
          with K [of k] old no have "lookup_rrset D d k = lookup_rrset D0 d k"
            by (simp add: key_inv_def)
          with ch show False by (simp add: content_def)
        next
          case False
          with assms(6) [OF old] have "deletes d ops k = 1" by simp
          with K [of k] old \<open>k \<notin> X\<close> have "k \<in> A" by (simp add: key_inv_def)
          with disj(6) have "k \<in> keys_of D d" by blast
          then have l: "lookup_rrset D d k \<noteq> None" by (simp add: keys_of_lookup)
          from A \<open>k \<in> A\<close> have c: "content D d k = None" by blast
          with ch have "content D0 d k \<noteq> None" by metis
          from assms(7) [OF this l] c show False by contradiction
        qed
      qed
    qed
    with disj(6) have "k \<in> keys_of D d" by (auto simp: live_additions_def)
    then obtain r where "rrset_of D d k = Inr r" by (auto simp: keys_of_lookup rrset_of_lookup)
    then obtain e where e: "update_entry D d k = Inr e" by (simp add: update_entry_def)
    with \<open>k \<in> live_additions D d A \<union> M\<close> False have "e \<in> pushed R D cs d" unfolding P by blast
    with update_entry_describes [OF e] show ?thesis by blast
  qed
  ultimately show ?thesis by blast
qed

text \<open>C2: What the tracker pushes to PowerDNS for a domain agrees with the database at the end of
  the block, and covers it: every entry of the payload states the current content of an RRset
  (its TTL and records, or their absence), and every RRset whose content is not what it was when
  the block began has an entry. The domain is not deleted in the block, no RRset it had at the
  start is deleted twice, and none that had records ends up existing without any.\<close>

theorem pushed_matches_database:
  assumes "db_wf D0" and "track_run ops (D0, new_tracker) = Inr (D, t)"
    and "lawful_order R" and "compute_changes R D t = Inr cs"
    and "OpDomainDelete d \<notin> set ops"
    and "\<And>k. lookup_rrset D0 d k \<noteq> None \<Longrightarrow> deletes d ops k \<le> 1"
    and "\<And>k. content D0 d k \<noteq> None \<Longrightarrow> lookup_rrset D d k \<noteq> None \<Longrightarrow> content D d k \<noteq> None"
  shows "(\<forall>e \<in> pushed R D cs d. \<exists>k. describes d k (content D d k) e) \<and>
    (\<forall>k. content D d k \<noteq> content D0 d k \<longrightarrow>
      (\<exists>e \<in> pushed R D cs d. describes d k (content D d k) e))"
  by (rule pushed_covers [OF assms(1-5)]) (use assms(6,7) in auto)

theorem pushed_matches_database_witness:
  "\<exists>cs. compute_changes name_order example_db' example_tracker = Inr cs \<and>
     (\<exists>e \<in> pushed name_order example_db' cs ''d''. describes ''d'' (''TXT'', []) (Some (3600, [''hello''])) e) \<and>
     (\<exists>e \<in> pushed name_order example_db' cs ''d''. describes ''d'' (''A'', ''w'') None e)"
proof -
  from compute_changes_Inr [OF track_run_inv [OF example_db_wf example_run]] obtain cs
    where cs: "compute_changes name_order example_db' example_tracker = Inr cs" .
  have "OpDomainDelete ''d'' \<notin> set example_ops" by (simp add: example_ops_def)
  moreover have "deletes ''d'' example_ops k \<le> 1" for k
    by (simp add: example_ops_def deletes_def)
  moreover have "content example_db' ''d'' k \<noteq> None"
    if "content example_db ''d'' k \<noteq> None" and "lookup_rrset example_db' ''d'' k \<noteq> None" for k
    using that by (auto simp: content_def lookup_rrset_def example_db'_def split: if_splits)
  ultimately have "\<forall>k. content example_db' ''d'' k \<noteq> content example_db ''d'' k \<longrightarrow>
      (\<exists>e \<in> pushed name_order example_db' cs ''d''. describes ''d'' k (content example_db' ''d'' k) e)"
    using pushed_matches_database [OF example_db_wf example_run lawful_name_order cs, of "''d''"] by blast
  from this [rule_format, of "(''TXT'', [])"] this [rule_format, of "(''A'', ''w'')"] cs
  show ?thesis
    by (simp add: content_def lookup_rrset_def example_db'_def example_db_def)
qed

section \<open>A lost deletion\<close>

text \<open>The hypothesis on repeated deletions is needed: deleting an RRset, creating it again and
  deleting it again leaves all three sets empty, so PowerDNS keeps serving the old RRset.\<close>

lemma repeated_deletion_is_lost:
  defines "ops \<equiv> [OpRRsetDelete ''d'' (''A'', ''w''), OpRRsetCreate ''d'' (''A'', ''w'') 60,
      OpRRsetDelete ''d'' (''A'', ''w'')]"
  shows "\<exists>D t. track_run ops (example_db, new_tracker) = Inr (D, t) \<and>
    content example_db ''d'' (''A'', ''w'') \<noteq> None \<and> content D ''d'' (''A'', ''w'') = None \<and>
    tracker_log t ''d'' = ({}, {}, {})"
  by (simp add: ops_def track_run_def example_db_def new_tracker_def handler_defs row_defs
      content_def lookup_rrset_def tracker_log_def get_set_def del: on_rr_set_post_save_False)

end
