(* ===== verification/RecordsCorrect.thy ===== *)
theory RecordsCorrect
  imports Records TrackerSync
begin

text \<open>
  What validating and storing the records of an RRset achieves, and what replacing the network
  part of addresses does to their bits.
\<close>

section \<open>Validation\<close>

text \<open>The loop without its error branches: every content in canonical form, none twice.\<close>

definition canonical_list :: "codec \<Rightarrow> rrkey \<Rightarrow> string list \<Rightarrow> (rec_error, string list) result" where
  "canonical_list C k rs = rmap (\<lambda>r. canonical_presentation_format C r (fst k)) rs"

lemma clean_loop_Inr:
  assumes "clean_loop C d k rs (es, seen) = Inr (es', seen')"
  shows "(es' = [] \<longleftrightarrow> es = [] \<and> (\<exists>cs. canonical_list C k rs = Inr cs \<and> distinct cs \<and> set cs \<inter> seen = {})) \<and>
    (es' = [] \<longrightarrow> (\<forall>cs. canonical_list C k rs = Inr cs \<longrightarrow> seen' = seen \<union> set cs))"
  using assms
proof (induction rs arbitrary: es seen)
  case Nil
  then show ?case by (auto simp: canonical_list_def)
next
  case (Cons r rs)
  show ?case
  proof (cases "canonical_presentation_format C r (fst k)")
    case (Inl e)
    with Cons.prems obtain m where "e = RecValueError m" by (cases e) auto
    with Inl Cons.prems Cons.IH [of "es @ [error_msg d k r m]" seen] show ?thesis
      by (simp add: canonical_list_def)
  next
    case (Inr c)
    show ?thesis
    proof (cases "c \<in> seen")
      case True
      with Inr Cons.prems Cons.IH show ?thesis
        by (fastforce simp: canonical_list_def result_simps)
    next
      case False
      with Inr Cons.prems have "clean_loop C d k rs (es, insert c seen) = Inr (es', seen')" by simp
      from Cons.IH [OF this] False Inr show ?thesis
        by (auto simp: canonical_list_def result_simps)
    qed
  qed
qed

lemma clean_loop_ok:
  assumes "canonical_list C k rs = Inr cs" and "distinct cs" and "set cs \<inter> seen = {}"
  shows "clean_loop C d k rs ([], seen) = Inr ([], seen \<union> set cs)"
  using assms
proof (induction rs arbitrary: cs seen)
  case Nil
  then show ?case by (simp add: canonical_list_def)
next
  case (Cons r rs)
  then obtain c cs' where "canonical_presentation_format C r (fst k) = Inr c"
    "canonical_list C k rs = Inr cs'" "cs = c # cs'"
    by (auto simp: canonical_list_def result_simps)
  with Cons.prems Cons.IH [of cs' "insert c seen"] show ?case by auto
qed

lemma clean_records_accepts:
  "clean_records C d k rs = Inr new \<longleftrightarrow>
     rrset_shape_errors k (length rs) = [] \<and>
     (\<exists>cs. canonical_list C k rs = Inr cs \<and> distinct cs \<and> new = set cs)"
proof
  assume "clean_records C d k rs = Inr new"
  then have run: "clean_loop C d k rs (rrset_shape_errors k (length rs), {}) = Inr ([], new)"
    by (auto simp: clean_records_def result_simps split: if_splits)
  from clean_loop_Inr [OF this] show "rrset_shape_errors k (length rs) = [] \<and>
     (\<exists>cs. canonical_list C k rs = Inr cs \<and> distinct cs \<and> new = set cs)" by auto
next
  assume "rrset_shape_errors k (length rs) = [] \<and>
     (\<exists>cs. canonical_list C k rs = Inr cs \<and> distinct cs \<and> new = set cs)"
  then show "clean_records C d k rs = Inr new"
    using clean_loop_ok [of C k rs _ "{}" d] by (auto simp: clean_records_def)
qed

lemma clean_records_finite: "clean_records C d k rs = Inr new \<Longrightarrow> finite new"
  by (auto simp: clean_records_accepts)

text \<open>The canonical form of a content of type \<open>ty\<close> in terms of the library: print what is parsed, unless it has
  more than 64000 octets.\<close>

definition canonical_form :: "codec \<Rightarrow> string \<Rightarrow> string \<Rightarrow> string \<Rightarrow> bool" where
  "canonical_form C ty r c \<longleftrightarrow> (\<exists>w. wire C ty r False = Inr w \<and> length w \<le> 64000 \<and> text_of C ty w = Inr c)"

lemma canonical_form_iff: "canonical_presentation_format C r ty = Inr c \<longleftrightarrow> canonical_form C ty r c"
  by (auto simp: canonical_presentation_format_def canonical_form_def to_wire_def split: sum.splits)
    (auto simp: rbind_def split: sum.splits)

lemma rmap_Inr_list: "rmap f xs = Inr ys \<longleftrightarrow> list_all2 (\<lambda>x y. f x = Inr y) xs ys"
  by (induction xs arbitrary: ys) (auto simp: result_simps list_all2_Cons1)

lemma canonical_list_iff: "canonical_list C k rs = Inr cs \<longleftrightarrow> list_all2 (canonical_form C (fst k)) rs cs"
  by (simp add: canonical_list_def rmap_Inr_list canonical_form_iff)

text \<open>C15: \<open>clean_records\<close> accepts a list of record contents exactly if a CNAME or DNAME RRset has at most one
  record, a CNAME or DS RRset is not at the apex and a DNSKEY RRset is, every content has a
  canonical form of at most 64000 octets, and no two have the same; it then returns the canonical contents.\<close>

theorem clean_records_iff:
  "clean_records C d (ty, subname) rs = Inr new \<longleftrightarrow>
     (ty \<in> {''CNAME'', ''DNAME''} \<longrightarrow> length rs \<le> 1) \<and> (ty \<in> {''CNAME'', ''DS''} \<longrightarrow> subname \<noteq> []) \<and>
     (ty = ''DNSKEY'' \<longrightarrow> subname = []) \<and>
     (\<exists>cs. list_all2 (canonical_form C ty) rs cs \<and> distinct cs \<and> new = set cs)"
proof -
  have "rrset_shape_errors (ty, subname) (length rs) = [] \<longleftrightarrow>
      (ty \<in> {''CNAME'', ''DNAME''} \<longrightarrow> length rs \<le> 1) \<and> (ty \<in> {''CNAME'', ''DS''} \<longrightarrow> subname \<noteq> []) \<and>
      (ty = ''DNSKEY'' \<longrightarrow> subname = [])"
    by (auto simp: rrset_shape_errors_def)
  then show ?thesis by (simp add: clean_records_accepts canonical_list_iff)
qed

section \<open>Storage\<close>

lemma db_run_simps [simp]: "db_run (Inr x) = Inr x" "db_run (Inl e) = Inl (DbError e)"
  by (simp_all add: db_run_def)

lemma put_rrset_twice:
  "zones D d = Some z \<Longrightarrow> put_rrset d k r' (put_rrset d k r D) = put_rrset d k r' D"
  by (simp add: put_rrset_Some AList.update_conv' fun_upd_idem)

lemma lookup_put_rrset:
  assumes "zones D d = Some z"
  shows "lookup_rrset (put_rrset d k r D) e = (if e = d then (lookup_rrset D d)(k \<mapsto> r) else lookup_rrset D e)"
  using assms by (auto simp: put_rrset_Some lookup_rrset_def update_conv' fun_eq_iff)

lemma lookup_drop_rrset:
  assumes "zones D d = Some z"
  shows "lookup_rrset (drop_rrset d k D) e = (if e = d then (lookup_rrset D d)(k := None) else lookup_rrset D e)"
  using assms by (auto simp: drop_rrset_Some lookup_rrset_def delete_conv' fun_eq_iff)

definition lawful_list :: "(string set \<Rightarrow> string list) \<Rightarrow> bool" where
  "lawful_list so \<longleftrightarrow> (\<forall>X. finite X \<longrightarrow> set (so X) = X \<and> distinct (so X))"

text \<open>The two steps of \<open>save_records\<close> on the rows and the log.\<close>

lemma rr_delete_step:
  fixes cs :: "string list"
  assumes inv: "tracked_inv (D, t)" and z: "zones D d = Some z" and r: "map_of z k = Some r"
  defines "dropped \<equiv> filter (\<lambda>c. c \<in> set cs) (records r)"
    and "r1 \<equiv> r\<lparr>records := filter (\<lambda>c. c \<notin> set cs) (records r)\<rparr>"
  shows "\<exists>t1. db_step (OpRRDelete d k cs) (D, t) = Inr (put_rrset d k r1 D, t1) \<and>
    (dropped = [] \<longrightarrow> t1 = t) \<and> tracked_inv (put_rrset d k r1 D, t1)"
proof -
  from good_modified [OF inv z map_of_keys [OF r], of dropped r1] obtain t1
    where t1: "rfold (\<lambda>_. on_rr_post_save d k) dropped t = Inr t1" "tracked_inv (put_rrset d k r1 D, t1)"
    by blast
  moreover have "rrset_of D d k = Inr r" using z r by (simp add: rrset_of_Inr)
  ultimately show ?thesis by (auto simp: dropped_def r1_def)
qed

lemma rr_bulk_step:
  assumes inv: "tracked_inv (D, t)" and z: "zones D d = Some z" and r: "map_of z k = Some r"
    and new: "distinct cs" "set cs \<inter> set (records r) = {}"
  defines "r1 \<equiv> r\<lparr>records := records r @ cs\<rparr>"
  shows "\<exists>t1. db_step (OpRRBulkCreate d k cs) (D, t) = Inr (put_rrset d k r1 D, t1) \<and>
    (cs = [] \<longrightarrow> t1 = t) \<and> tracked_inv (put_rrset d k r1 D, t1)"
proof -
  from good_modified [OF inv z map_of_keys [OF r], of "if cs = [] then [] else [()]" r1] obtain t1
    where t1: "rfold (\<lambda>_. on_rr_post_save d k) (if cs = [] then [] else [()]) t = Inr t1"
      "tracked_inv (put_rrset d k r1 D, t1)" by blast
  moreover have "rrset_of D d k = Inr r" using z r by (simp add: rrset_of_Inr)
  ultimately show ?thesis using new
    by (cases "cs = []"; cases "on_rr_post_save d k t") (simp_all add: r1_def)
qed

lemma save_records_result:
  assumes inv: "tracked_inv (D, t)" and z: "zones D d = Some z" and r: "map_of z k = Some r"
    and new: "clean_records C d k rs = Inr new" and so: "lawful_list so"
  defines "kept \<equiv> filter (\<lambda>c. c \<in> new) (records r)"
  defines "r' \<equiv> r\<lparr>records := kept @ so (new - set kept)\<rparr>"
  shows "\<exists>t'. save_records C so d k rs (D, t) = Inr (put_rrset d k r' D, t') \<and>
    tracked_inv (put_rrset d k r' D, t') \<and> (set (records r) = new \<longrightarrow> t' = t)"
proof -
  let ?drop = "filter (\<lambda>c. c \<notin> new) (records r)"
  let ?r1 = "r\<lparr>records := kept\<rparr>"
  have rr: "rrset_of D d k = Inr r" using z r by (simp add: rrset_of_Inr)
  have kept: "filter (\<lambda>c. c \<notin> set ?drop) (records r) = kept"
    by (simp add: kept_def cong: filter_cong)
  from rr_delete_step [OF inv z r, of ?drop] obtain t1
    where t1: "db_step (OpRRDelete d k ?drop) (D, t) = Inr (put_rrset d k ?r1 D, t1)"
      "filter (\<lambda>c. c \<in> set ?drop) (records r) = [] \<longrightarrow> t1 = t" "tracked_inv (put_rrset d k ?r1 D, t1)"
    unfolding kept by blast
  have z1: "zones (put_rrset d k ?r1 D) d = Some (AList.update k ?r1 z)"
    using z by (simp add: put_rrset_Some)
  have r1: "map_of (AList.update k ?r1 z) k = Some ?r1" by (simp add: update_conv')
  then have rr1: "rrset_of (put_rrset d k ?r1 D) d k = Inr ?r1" using z1 by (simp add: rrset_of_Inr)
  let ?add = "so (new - set kept)"
  have add: "distinct ?add" "set ?add = new - set kept"
    using so clean_records_finite [OF new] by (simp_all add: lawful_list_def)
  then have "set ?add \<inter> set (records ?r1) = {}" by auto
  from rr_bulk_step [OF t1(3) z1 r1 add(1) this] obtain t2
    where t2: "db_step (OpRRBulkCreate d k ?add) (put_rrset d k ?r1 D, t1) =
        Inr (put_rrset d k (?r1\<lparr>records := kept @ ?add\<rparr>) (put_rrset d k ?r1 D), t2)"
      "?add = [] \<longrightarrow> t2 = t1"
      "tracked_inv (put_rrset d k (?r1\<lparr>records := kept @ ?add\<rparr>) (put_rrset d k ?r1 D), t2)" by auto
  have fin: "put_rrset d k (?r1\<lparr>records := kept @ ?add\<rparr>) (put_rrset d k ?r1 D) = put_rrset d k r' D"
    using z by (simp add: put_rrset_twice r'_def)
  have "t2 = t" if "set (records r) = new"
  proof -
    have "filter (\<lambda>c. c \<in> set ?drop) (records r) = []" using that by auto
    moreover have "?add = []" using add(2) that by (auto simp: kept_def)
    ultimately show ?thesis using t1(2) t2(2) by simp
  qed
  moreover have "save_records C so d k rs (D, t) = Inr (put_rrset d k r' D, t2)"
    using new rr t1(1) rr1 t2(1) fin by (simp add: save_records_def)
  ultimately show ?thesis using t2(3) fin by auto
qed

lemma save_records_ok:
  assumes "tracked_inv (D, t)" and "lookup_rrset D d k = Some r" and "distinct (records r)"
    and "clean_records C d k rs = Inr new" and "lawful_list so"
  shows "\<exists>D' t' r'. save_records C so d k rs (D, t) = Inr (D', t') \<and> tracked_inv (D', t') \<and>
    lookup_rrset D' d k = Some r' \<and> set (records r') = new \<and> distinct (records r') \<and> ttl r' = ttl r \<and>
    (\<forall>e j. (e, j) \<noteq> (d, k) \<longrightarrow> lookup_rrset D' e j = lookup_rrset D e j) \<and>
    (set (records r) = new \<longrightarrow> t' = t)"
proof -
  obtain z where z: "zones D d = Some z" "map_of z k = Some r"
    using assms(2) by (auto simp: lookup_rrset_def split: option.splits)
  let ?kept = "filter (\<lambda>c. c \<in> new) (records r)"
  let ?add = "so (new - set ?kept)"
  have "set ?add = new - set ?kept" "distinct ?add"
    using assms(5) clean_records_finite [OF assms(4)] by (simp_all add: lawful_list_def)
  with assms(3) have "set (?kept @ ?add) = new" "distinct (?kept @ ?add)" by auto
  moreover from save_records_result [OF assms(1) z assms(4,5)] obtain t'
    where "save_records C so d k rs (D, t) = Inr (put_rrset d k (r\<lparr>records := ?kept @ ?add\<rparr>) D, t')"
      "tracked_inv (put_rrset d k (r\<lparr>records := ?kept @ ?add\<rparr>) D, t')"
      "set (records r) = new \<longrightarrow> t' = t" by blast
  ultimately show ?thesis
    using lookup_put_rrset [OF z(1)]
    by (intro exI [of _ "put_rrset d k (r\<lparr>records := ?kept @ ?add\<rparr>) D"] exI [of _ t']
        exI [of _ "r\<lparr>records := ?kept @ ?add\<rparr>"] conjI) auto
qed

text \<open>C16: Saving a valid list of records never fails on the database and leaves the RRset with exactly
  the canonical contents, each once, its TTL and all other RRsets untouched; when they are the
  contents the RRset has already, no signal reaches the tracker, so no request will be sent.\<close>

theorem save_records_replaces:
  assumes "tracked_inv (D, t)" and "lookup_rrset D d k = Some r" and "distinct (records r)"
    and "clean_records C d k rs = Inr new" and "lawful_list so"
  shows "\<exists>D' t' r'. save_records C so d k rs (D, t) = Inr (D', t') \<and> lookup_rrset D' d k = Some r' \<and>
    set (records r') = new \<and> distinct (records r') \<and> ttl r' = ttl r \<and>
    (\<forall>e j. (e, j) \<noteq> (d, k) \<longrightarrow> lookup_rrset D' e j = lookup_rrset D e j) \<and>
    (set (records r) = new \<longrightarrow> t' = t)"
  using save_records_ok [OF assms] by blast

definition plain_codec :: codec where
  "plain_codec = \<lparr>wire = (\<lambda>ty s dig. Inr (map of_char s)), text_of = (\<lambda>ty w. Inr (map char_of w))\<rparr>"

lemma lawful_sorted_list: "lawful_list sorted_list_of_set"
  by (simp add: lawful_list_def)

lemma plain_canonical:
  "length s \<le> 64000 \<Longrightarrow> canonical_presentation_format plain_codec s ty = Inr s"
  by (simp add: canonical_presentation_format_def to_wire_def plain_codec_def comp_def)

lemma plain_form: "canonical_form plain_codec ty r c \<longleftrightarrow> c = r \<and> length r \<le> 64000"
  by (auto simp: canonical_form_def plain_codec_def comp_def)

theorem clean_records_iff_witness:
  "clean_records plain_codec ''d'' (''CNAME'', ''w'') [''e.''] = Inr {''e.''} \<and>
   clean_records plain_codec ''d'' (''CNAME'', []) [''e.''] \<noteq> Inr {''e.''} \<and>
   clean_records plain_codec ''d'' (''CNAME'', ''w'') [''e.'', ''f.''] \<noteq> Inr {''e.'', ''f.''}"
  unfolding clean_records_iff by (simp add: plain_form list_all2_Cons1)

theorem save_records_replaces_witness:
  "\<exists>D' t' r'. save_records plain_codec sorted_list_of_set ''d'' (''A'', ''w'') [''192.0.2.1'', ''192.0.2.2'']
       (example_db, new_tracker) = Inr (D', t') \<and> lookup_rrset D' ''d'' (''A'', ''w'') = Some r' \<and>
     set (records r') = {''192.0.2.1'', ''192.0.2.2''}"
proof -
  have "clean_records plain_codec ''d'' (''A'', ''w'') [''192.0.2.1'', ''192.0.2.2''] =
      Inr {''192.0.2.1'', ''192.0.2.2''}"
    by (simp add: clean_records_def plain_canonical rrset_shape_errors_def insert_commute)
  from save_records_replaces [OF tracked_inv_start [OF example_db_wf], of "''d''" "(''A'', ''w'')"
      "\<lparr>ttl = 60, records = [''192.0.2.1'']\<rparr>", OF _ _ this lawful_sorted_list]
  show ?thesis by (auto simp: lookup_rrset_def example_db_def)
qed

section \<open>Addresses\<close>

definition in_subnet :: "subnet \<Rightarrow> bool" where
  "in_subnet s \<longleftrightarrow> prefixlen s \<le> ip_bits (network_address s) \<and>
     ip_int (network_address s) AND hostmask s = 0"

lemma word_replace:
  fixes n a :: "'a::len word"
  assumes "uint n AND mask m = 0"
  shows "uint n + (uint a AND mask m) = uint (n OR take_bit m a)"
    and "n + word_of_int (uint a AND mask m) = n OR take_bit m a"
proof -
  have x: "uint a AND mask m = uint (take_bit m a)"
    by (simp add: take_bit_eq_mask [symmetric] unsigned_take_bit_eq)
  have z: "uint n AND uint (take_bit m a) = 0"
    unfolding x [symmetric] and.left_commute [of "uint n"] assms by simp
  have "uint n + uint (take_bit m a) = uint (n OR take_bit m a)"
    by (simp only: disjunctive_add_eq_or [OF z] unsigned_or_eq)
  with x show "uint n + (uint a AND mask m) = uint (n OR take_bit m a)" by simp
  have "n AND take_bit m a = 0"
    using z by (simp only: unsigned_and_eq [symmetric] unsigned_eq_0_iff)
  then show "n + word_of_int (uint a AND mask m) = n OR take_bit m a"
    by (simp only: x word_of_int_uint disjunctive_add_eq_or)
qed

fun in_network :: "subnet \<Rightarrow> ip \<Rightarrow> ip \<Rightarrow> bool" where
  "in_network s (V4 a) (V4 b) =
     (\<forall>i < 32. bit b i = (if i < 32 - prefixlen s then bit a i
        else bit (ip_int (network_address s)) i))"
| "in_network s (V6 a) (V6 b) =
     (\<forall>i < 128. bit b i = (if i < 128 - prefixlen s then bit a i
        else bit (ip_int (network_address s)) i))"
| "in_network s _ _ = False"

lemma bit_replaced:
  fixes n a :: "'a::len word"
  assumes "uint n AND mask m = 0" and "i < LENGTH('a)"
  shows "bit (n OR take_bit m a) i = (if i < m then bit a i else bit (uint n) i)"
proof -
  have "bit (uint n AND mask m) i = False" using assms(1) by simp
  with assms(2) show ?thesis by (auto simp: bit_simps)
qed

lemma replace_V4:
  assumes "in_subnet \<lparr>network_address = V4 n, prefixlen = p\<rparr>"
  defines "s \<equiv> \<lparr>network_address = V4 n, prefixlen = p\<rparr>"
  shows "\<exists>q. ip_of_int (ip_int (network_address s)) = Some (V4 n) \<and>
    ip_add (V4 n) (ip_int (V4 a) AND hostmask s) = Some q \<and> in_network s (V4 a) q"
proof -
  let ?m = "32 - p"
  have m: "uint n AND mask ?m = 0"
    using assms(1) by (simp add: in_subnet_def hostmask_def mask_eq_exp_minus_1)
  have h: "hostmask s = mask ?m" by (simp add: s_def hostmask_def mask_eq_exp_minus_1)
  have "ip_add (V4 n) (uint a AND mask ?m) = Some (V4 (n OR take_bit ?m a))"
    using word_replace [OF m, of a] uint_lt2p [of "n OR take_bit ?m a"] by simp
  moreover have "in_network s (V4 a) (V4 (n OR take_bit ?m a))"
    using bit_replaced [OF m] by (simp add: s_def)
  moreover have "ip_of_int (uint n) = Some (V4 n)"
    using uint_lt2p [of n] by (simp add: ip_of_int_def)
  ultimately show ?thesis by (simp add: s_def h [unfolded s_def])
qed

lemma replace_V6:
  assumes "in_subnet \<lparr>network_address = V6 n, prefixlen = p\<rparr>" and "2 ^ 32 \<le> uint n"
  defines "s \<equiv> \<lparr>network_address = V6 n, prefixlen = p\<rparr>"
  shows "\<exists>q. ip_of_int (ip_int (network_address s)) = Some (V6 n) \<and>
    ip_add (V6 n) (ip_int (V6 a) AND hostmask s) = Some q \<and> in_network s (V6 a) q"
proof -
  let ?m = "128 - p"
  have m: "uint n AND mask ?m = 0"
    using assms(1) by (simp add: in_subnet_def hostmask_def mask_eq_exp_minus_1)
  have h: "hostmask s = mask ?m" by (simp add: s_def hostmask_def mask_eq_exp_minus_1)
  have "ip_add (V6 n) (uint a AND mask ?m) = Some (V6 (n OR take_bit ?m a))"
    using word_replace [OF m, of a] uint_lt2p [of "n OR take_bit ?m a"] by simp
  moreover have "in_network s (V6 a) (V6 (n OR take_bit ?m a))"
    using bit_replaced [OF m] by (simp add: s_def)
  moreover have "ip_of_int (uint n) = Some (V6 n)"
    using uint_lt2p [of n] assms(2) by (simp add: ip_of_int_def)
  ultimately show ?thesis by (simp add: s_def h [unfolded s_def])
qed

lemma replace_one:
  assumes "in_subnet s" and "2 ^ 32 \<le> ip_int (network_address s) \<or> (\<exists>n. network_address s = V4 n)"
    and "same_version (network_address s) a"
  shows "\<exists>p q. ip_of_int (ip_int (network_address s)) = Some p \<and>
    ip_add p (ip_int a AND hostmask s) = Some q \<and> in_network s a q"
proof (cases s)
  case (fields net p)
  then show ?thesis
    using assms replace_V4 [of _ p] replace_V6 [of _ p]
    by (cases net; cases a) auto
qed

text \<open>C17: Replacing the network part succeeds for every address of the subnet's version and drops the
  others; each result has the network's bits above the prefix length and its own bits below. For
  IPv6 this needs a network address of at least \<open>2 ^ 32\<close>.\<close>

theorem replace_ip_subnet_bits:
  assumes "in_subnet s" and "2 ^ 32 \<le> ip_int (network_address s) \<or> (\<exists>n. network_address s = V4 n)"
  shows "\<exists>qs. replace_ip_subnet s addrs = Inr qs \<and>
    list_all2 (in_network s) (filter (same_version (network_address s)) addrs) qs"
proof (induction addrs)
  case Nil
  then show ?case by (simp add: replace_ip_subnet_def)
next
  case (Cons a addrs)
  then obtain qs where "replace_ip_subnet s addrs = Inr qs"
    "list_all2 (in_network s) (filter (same_version (network_address s)) addrs) qs" by blast
  with replace_one [OF assms, of a] show ?case
    by (auto simp: replace_ip_subnet_def)
qed

theorem replace_ip_subnet_bits_witness:
  "\<exists>qs. replace_ip_subnet \<lparr>network_address = V4 0xCB007100, prefixlen = 24\<rparr> [V4 0xC0000205, V6 1] = Inr qs \<and>
     list_all2 (in_network \<lparr>network_address = V4 0xCB007100, prefixlen = 24\<rparr>) [V4 0xC0000205] qs"
  using replace_ip_subnet_bits [of "\<lparr>network_address = V4 0xCB007100, prefixlen = 24\<rparr>" "[V4 0xC0000205, V6 1]"]
  by (simp add: in_subnet_def hostmask_def)

text \<open>Below \<open>2 ^ 32\<close> the integer is taken for an IPv4 address: a host in \<open>::/96\<close> becomes one, and a
  host in \<open>::/64\<close> whose low 64 bits need more than 32 makes the addition fail.\<close>

lemma small_ipv6_network:
  "replace_ip_subnet \<lparr>network_address = V6 0, prefixlen = 96\<rparr> [V6 0x20010db8000000000000000000000005] =
     Inr [V4 5]"
  "replace_ip_subnet \<lparr>network_address = V6 0, prefixlen = 64\<rparr> [V6 0x20010db8000000000000000100000005] =
     Inl AddressValueError"
  by (simp_all add: replace_ip_subnet_def ip_of_int_def hostmask_def)

end
