(* ===== verification/TokensCorrect.thy ===== *)
theory TokensCorrect
  imports Tokens
begin

text \<open>
  Token scoping: the policy that applies is the one the documented priority list names, deleting a
  domain is only allowed to tokens that may write all of it, every operation keeps the policies
  consistent, and the token endpoints admit only tokens that manage tokens.
\<close>

section \<open>The applicable policy\<close>

lemma get_policy_None: "get_policy ps r = None \<longleftrightarrow> (\<forall>p \<in> set ps. \<not> matches r p)"
proof -
  have "get_policy ps r = None \<longleftrightarrow> sort_key policy_order (filter (matches r) ps) = []"
    by (simp add: get_policy_def split: list.splits)
  also have "\<dots> \<longleftrightarrow> filter (matches r) ps = []"
    by (metis length_0_conv length_sort)
  finally show ?thesis by (simp add: filter_empty_conv)
qed

lemma get_policy_Some:
  assumes "get_policy ps r = Some p"
  shows "p \<in> set ps" and "matches r p"
    and "q \<in> set ps \<Longrightarrow> matches r q \<Longrightarrow> policy_order p \<le> policy_order q"
proof -
  let ?s = "sort_key policy_order (filter (matches r) ps)"
  from assms obtain qs where s: "?s = p # qs"
    by (auto simp: get_policy_def split: list.splits)
  have set: "set ?s = {q \<in> set ps. matches r q}" by simp
  with s show "p \<in> set ps" "matches r p" by auto
  have "sorted (map policy_order (p # qs))" using sorted_sort_key s by metis
  moreover assume "q \<in> set ps" "matches r q"
  then have "q \<in> set (p # qs)" using set s by auto
  ultimately show "policy_order p \<le> policy_order q" by auto
qed

type_synonym scope = "string option \<times> string option \<times> string option"

definition scope_of :: "policy \<Rightarrow> scope" where
  "scope_of p = (p_domain p, p_subname p, p_rtype p)"

definition unique_scopes :: "policy list \<Rightarrow> bool" where
  "unique_scopes ps \<longleftrightarrow> (\<forall>p \<in> set ps. \<forall>q \<in> set ps. same_scope p q \<longrightarrow> p = q)"

text \<open>The priority order of \<open>docs/auth/tokens.rst\<close>, 1 to 8.\<close>

definition priority_list :: "target \<Rightarrow> scope list" where
  "priority_list r = (case r of (d, s, t) \<Rightarrow>
     [(Some d, Some s, Some t), (Some d, Some s, None), (Some d, None, Some t), (Some d, None, None),
      (None, Some s, Some t), (None, Some s, None), (None, None, Some t), (None, None, None)])"

fun first_policy :: "policy list \<Rightarrow> scope list \<Rightarrow> policy option" where
  "first_policy ps [] = None"
| "first_policy ps (sc # scs) =
     (case find (\<lambda>p. scope_of p = sc) ps of Some p \<Rightarrow> Some p | None \<Rightarrow> first_policy ps scs)"

definition scope_order :: "scope \<Rightarrow> (bool \<times> string) \<times> (bool \<times> string) \<times> (bool \<times> string)" where
  "scope_order sc = (case sc of (d, s, t) \<Rightarrow> (nulls_last d, nulls_last s, nulls_last t))"

lemma policy_order_scope: "policy_order p = scope_order (scope_of p)"
  by (simp add: policy_order_def scope_order_def scope_of_def)

lemma matches_scope: "matches (Some r) p \<longleftrightarrow> scope_of p \<in> set (priority_list r)"
  by (cases r) (auto simp: matches_def scope_of_def priority_list_def)

lemma priority_list_sorted: "sorted_wrt (\<lambda>a b. scope_order a < scope_order b) (priority_list r)"
  by (cases r) (auto simp: priority_list_def scope_order_def nulls_last_def less_prod_def')

lemma same_scope_iff: "same_scope p q \<longleftrightarrow> scope_of p = scope_of q"
  by (simp add: same_scope_def scope_of_def)

lemma first_policy_minimal:
  assumes "sorted_wrt (\<lambda>a b. scope_order a < scope_order b) scs" and "unique_scopes ps"
    and "p \<in> set ps" and "scope_of p \<in> set scs"
    and "\<And>q. q \<in> set ps \<Longrightarrow> scope_of q \<in> set scs \<Longrightarrow> policy_order p \<le> policy_order q"
  shows "first_policy ps scs = Some p"
  using assms
proof (induction scs)
  case (Cons sc scs)
  show ?case
  proof (cases "find (\<lambda>p. scope_of p = sc) ps")
    case None
    then have "scope_of p \<noteq> sc" using Cons.prems(3) by (auto simp: find_None_iff)
    then have "scope_of p \<in> set scs" using Cons.prems(4) by simp
    moreover have "sorted_wrt (\<lambda>a b. scope_order a < scope_order b) scs" using Cons.prems(1) by simp
    ultimately have "first_policy ps scs = Some p" using Cons.IH Cons.prems(2,3,5) by simp
    with None show ?thesis by simp
  next
    case (Some q)
    then have q: "q \<in> set ps" "scope_of q = sc" by (auto simp: find_Some_iff)
    have "scope_of p = sc"
    proof (rule ccontr)
      assume "scope_of p \<noteq> sc"
      then have "scope_order sc < policy_order p"
        using Cons.prems(1,4) by (auto simp: policy_order_scope)
      moreover have "policy_order p \<le> scope_order sc"
        using Cons.prems(5) [OF q(1)] q(2) by (simp add: policy_order_scope)
      ultimately show False by simp
    qed
    with q Cons.prems(2,3) have "p = q" by (auto simp: unique_scopes_def same_scope_iff)
    with Some show ?thesis by simp
  qed
qed simp

lemma first_policy_None: "first_policy ps scs = None \<longleftrightarrow> (\<forall>p \<in> set ps. scope_of p \<notin> set scs)"
proof (induction scs)
  case (Cons sc scs)
  show ?case
  proof (cases "find (\<lambda>p. scope_of p = sc) ps")
    case None
    then have "\<forall>p \<in> set ps. scope_of p \<noteq> sc" by (simp add: find_None_iff)
    with Cons.IH None show ?thesis by auto
  next
    case (Some q)
    then have "q \<in> set ps \<and> scope_of q = sc" by (auto simp: find_Some_iff)
    with Some show ?thesis by auto
  qed
qed simp

lemma get_policy_first:
  assumes "unique_scopes ps"
  shows "get_policy ps (Some r) = first_policy ps (priority_list r)"
proof (cases "get_policy ps (Some r)")
  case None
  then show ?thesis
    by (metis (no_types, lifting) get_policy_None first_policy_None matches_scope)
next
  case (Some p)
  note get_policy_Some [OF Some]
  then have "first_policy ps (priority_list r) = Some p"
    by (intro first_policy_minimal [OF priority_list_sorted assms]) (auto simp: matches_scope)
  with Some show ?thesis by simp
qed

text \<open>C10: The policy \<open>get_policy\<close> selects for an RRset is the first one on the documented priority list
  of scopes, from (domain, subname, type) down to the default policy, that the token has.\<close>

theorem get_policy_priority:
  assumes "unique_scopes ps"
  shows "get_policy ps (Some r) = first_policy ps (priority_list r)"
  using assms by (rule get_policy_first)

definition example_policies :: "policy list" where
  "example_policies =
     [\<lparr>p_id = 0, p_domain = None, p_subname = None, p_rtype = None, perm_write = False\<rparr>,
      \<lparr>p_id = 1, p_domain = Some ''d'', p_subname = None, p_rtype = None, perm_write = True\<rparr>,
      \<lparr>p_id = 2, p_domain = None, p_subname = Some ''w'', p_rtype = Some ''A'', perm_write = False\<rparr>]"

lemma example_unique: "unique_scopes example_policies"
  by (simp add: unique_scopes_def example_policies_def same_scope_def)

theorem get_policy_priority_witness:
  "get_policy example_policies (Some (''d'', ''w'', ''A'')) =
     Some \<lparr>p_id = 1, p_domain = Some ''d'', p_subname = None, p_rtype = None, perm_write = True\<rparr>"
  using get_policy_priority [OF example_unique, of "(''d'', ''w'', ''A'')"]
  by (simp add: example_policies_def priority_list_def scope_of_def)

section \<open>Deleting a domain\<close>

lemma safe_deletion_permits:
  assumes "can_safely_delete_domain ps d"
  shows "token_has_rrset_permission ps (d, s, t)"
proof (cases "get_policy ps (Some (d, s, t))")
  case None
  then show ?thesis by (simp add: token_has_rrset_permission_def)
next
  case (Some p)
  note p = get_policy_Some [OF Some]
  have "perm_write p"
  proof (rule ccontr)
    assume w: "\<not> perm_write p"
    with assms p(1) have "p_domain p \<noteq> Some d" by (auto simp: can_safely_delete_domain_def Let_def)
    with p(2) have none: "p_domain p = None" by (auto simp: matches_def)
    with assms p(1) w obtain q where q: "q \<in> set ps" "p_domain q = Some d" "p_subname q = None"
      "p_rtype q = None" by (auto simp: can_safely_delete_domain_def Let_def)
    then have "matches (Some (d, s, t)) q" by (simp add: matches_def)
    from p(3) [OF q(1) this] none q(2) show False
      by (simp add: policy_order_def nulls_last_def less_eq_prod_def less_prod_def)
  qed
  with Some show ?thesis by (simp add: token_has_rrset_permission_def)
qed

section \<open>Consistency of the policies\<close>

definition token_wf :: "token \<Rightarrow> bool" where
  "token_wf t \<longleftrightarrow>
     distinct (map p_id (policies t)) \<and> unique_scopes (policies t) \<and> commit_ok t \<and>
     (auto_policy t \<longrightarrow> (\<forall>p \<in> set (policies t). represents_default_policy p \<longrightarrow> \<not> perm_write p)) \<and>
     (t_user_override t \<noteq> None \<longrightarrow> \<not> perm_manage_tokens t)"

lemma matches_None: "matches None p \<longleftrightarrow> represents_default_policy p"
  by (simp add: matches_def represents_default_policy_def)

lemma default_same_scope:
  "represents_default_policy p \<Longrightarrow> represents_default_policy q \<Longrightarrow> same_scope p q"
  by (simp add: represents_default_policy_def same_scope_def)

lemma get_default_Some:
  assumes "unique_scopes ps"
  shows "get_policy ps None = Some p \<longleftrightarrow> p \<in> set ps \<and> represents_default_policy p"
proof
  assume "get_policy ps None = Some p"
  from get_policy_Some [OF this] show "p \<in> set ps \<and> represents_default_policy p"
    by (simp add: matches_None)
next
  assume p: "p \<in> set ps \<and> represents_default_policy p"
  then have "get_policy ps None \<noteq> None" by (auto simp: get_policy_None matches_None)
  then obtain q where q: "get_policy ps None = Some q" by blast
  from get_policy_Some [OF q] p assms have "q = p"
    by (auto simp: matches_None unique_scopes_def dest: default_same_scope)
  with q show "get_policy ps None = Some p" by simp
qed

lemma get_default_None: "get_policy ps None = None \<longleftrightarrow> (\<forall>p \<in> set ps. \<not> represents_default_policy p)"
  by (simp add: get_policy_None matches_None)

lemma is_default_policy_iff:
  assumes "unique_scopes (policies t)"
  shows "is_default_policy t p \<longleftrightarrow>
    (\<exists>q \<in> set (policies t). represents_default_policy q \<and> p_id q = p_id p)"
  unfolding is_default_policy_def
  by (cases "get_policy (policies t) None")
    (auto simp: get_default_Some [OF assms] get_default_None split: option.splits,
     metis assms default_same_scope get_default_Some option.inject)

text \<open>The operations keep the invariant by their own checks, before the triggers have a say.\<close>

lemma policy_create_wf:
  assumes wf: "token_wf t" and run: "policy_create p t = Inr t'"
  shows "token_wf t'"
proof -
  from run have t': "t' = t\<lparr>policies := policies t @ [p]\<rparr>"
    and new: "\<forall>q \<in> set (policies t). \<not> same_scope p q \<and> p_id p \<noteq> p_id q"
    and first: "get_policy (policies t) None = None \<longrightarrow> represents_default_policy p"
    by (auto simp: policy_create_def split: if_splits)
  have u: "unique_scopes (policies t')"
    using wf new by (auto simp: token_wf_def unique_scopes_def t' same_scope_def)
  have "commit_ok t'"
    using first get_default_None [of "policies t"] by (auto simp: commit_ok_def t')
  moreover have "\<not> perm_write p" if "auto_policy t" "represents_default_policy p"
  proof -
    from wf that(1) obtain q where "q \<in> set (policies t)" "represents_default_policy q"
      by (auto simp: token_wf_def commit_ok_def)
    with new that(2) default_same_scope show ?thesis by blast
  qed
  ultimately show ?thesis using wf new u by (auto simp: token_wf_def t')
qed

lemma policy_update_wf:
  assumes wf: "token_wf t" and run: "policy_update p t = Inr t'"
  shows "token_wf t'"
proof -
  let ?f = "\<lambda>q. if p_id q = p_id p then p else q"
  note u = wf [unfolded token_wf_def]
  have uniq: "unique_scopes (policies t)" using u by simp
  note def_iff = is_default_policy_iff [OF uniq]
  from run have t': "t' = t\<lparr>policies := map ?f (policies t)\<rparr>"
    and known: "\<exists>q \<in> set (policies t). p_id q = p_id p"
    and same: "is_default_policy t p = represents_default_policy p"
    and strict: "\<not> (perm_write p \<and> is_default_policy t p \<and> auto_policy t)"
    and other: "\<forall>q \<in> set (policies t). p_id q \<noteq> p_id p \<longrightarrow> \<not> same_scope p q"
    by (auto simp: policy_update_def split: if_splits)
  have ids: "map p_id (map ?f (policies t)) = map p_id (policies t)" by simp
  have mem: "q \<in> set (policies t') \<longleftrightarrow> q = p \<or> q \<in> set (policies t) \<and> p_id q \<noteq> p_id p" for q
    using known by (auto simp: t')
  have uniq': "unique_scopes (policies t')"
    unfolding unique_scopes_def
  proof (intro ballI impI)
    fix a b assume ab: "a \<in> set (policies t')" "b \<in> set (policies t')" and s: "same_scope a b"
    have sym: "same_scope b a" using s by (simp add: same_scope_def)
    from ab [unfolded mem] show "a = b"
    proof (elim disjE conjE)
      assume "a \<in> set (policies t)" "b \<in> set (policies t)"
      with uniq s show ?thesis unfolding unique_scopes_def by blast
    qed (use other s sym in blast)+
  qed
  have default: "\<exists>q \<in> set (policies t'). represents_default_policy q"
    if "\<exists>q \<in> set (policies t). represents_default_policy q"
  proof -
    from that obtain q where q: "q \<in> set (policies t)" "represents_default_policy q" by blast
    show ?thesis
    proof (cases "p_id q = p_id p")
      case True
      with q same def_iff have "represents_default_policy p" by blast
      with mem show ?thesis by blast
    next
      case False
      with q mem show ?thesis by blast
    qed
  qed
  have same_fields: "auto_policy t' = auto_policy t" "t_user_override t' = t_user_override t"
    "perm_manage_tokens t' = perm_manage_tokens t" "map p_id (policies t') = map p_id (policies t)"
    by (simp_all add: t')
  have "commit_ok t'"
    using u default known by (auto simp: commit_ok_def same_fields(1))
  moreover have "\<not> perm_write q"
    if "auto_policy t" "q \<in> set (policies t')" "represents_default_policy q" for q
    using that u strict same unfolding mem by auto
  ultimately show ?thesis
    using u uniq' unfolding token_wf_def same_fields by blast
qed

lemma policy_delete_wf:
  assumes wf: "token_wf t" and run: "policy_delete p t = Inr t'"
  shows "token_wf t'"
proof -
  note u = wf [unfolded token_wf_def]
  have uniq: "unique_scopes (policies t)" using u by simp
  from run have t': "t' = t\<lparr>policies := filter (\<lambda>q. p_id q \<noteq> p_id p) (policies t)\<rparr>"
    and others: "is_default_policy t p \<Longrightarrow> \<forall>q \<in> set (policies t). p_id q = p_id p"
    and auto: "\<not> (is_default_policy t p \<and> auto_policy t)"
    by (auto simp: policy_delete_def split: if_splits)
  have keep: "\<exists>q \<in> set (policies t'). represents_default_policy q"
    if "\<not> is_default_policy t p" "\<exists>q \<in> set (policies t). represents_default_policy q"
    using that is_default_policy_iff [OF uniq, of p] by (auto simp: t')
  have "commit_ok t'"
  proof (cases "is_default_policy t p")
    case True
    with others auto show ?thesis by (auto simp: commit_ok_def t')
  next
    case False
    have "policies t' \<noteq> [] \<Longrightarrow> policies t \<noteq> []" by (auto simp: t')
    with keep [OF False] u show ?thesis by (auto simp: commit_ok_def t')
  qed
  moreover have "unique_scopes (policies t')" using uniq by (auto simp: unique_scopes_def t')
  ultimately show ?thesis using u by (auto simp: token_wf_def t' distinct_map_filter)
qed

lemma token_save_wf:
  assumes "distinct (map p_id (policies t))" and uniq: "unique_scopes (policies t)"
    and primacy: "policies t \<noteq> [] \<Longrightarrow> \<exists>p \<in> set (policies t). represents_default_policy p"
    and clean: "token_clean t = Inr ()" and save: "token_save new b t = Inr t'"
  shows "token_wf t'"
proof -
  have restr: "\<not> perm_write p"
    if "auto_policy t" "p \<in> set (policies t)" "represents_default_policy p" for p
    using clean that get_default_Some [OF uniq, of p]
    by (auto simp: token_clean_def split: if_splits option.splits)
  have over: "t_user_override t \<noteq> None \<longrightarrow> \<not> perm_manage_tokens t"
    using clean by (auto simp: token_clean_def split: if_splits)
  show ?thesis
  proof (cases "auto_policy t \<and> get_policy (policies t) None = None")
    case True
    then have "policies t = []" using primacy get_default_None by metis
    moreover have "policy_create (default_policy new) t = Inr t'"
      using save clean True by (auto simp: token_save_def result_simps split: if_splits)
    ultimately show ?thesis using over
      by (auto simp: policy_create_def default_policy_def token_wf_def unique_scopes_def commit_ok_def
          represents_default_policy_def split: if_splits)
  next
    case False
    then have "t' = t" using save by (auto simp: token_save_def result_simps split: if_splits)
    moreover have "commit_ok t"
      using False primacy get_default_None [of "policies t"] by (auto simp: commit_ok_def)
    ultimately show ?thesis using assms(1) uniq restr over by (auto simp: token_wf_def)
  qed
qed

lemma token_step_wf:
  assumes wf: "token_wf t" and step: "token_step op t = Inr t'"
  shows "token_wf t'"
proof (cases op)
  case (SaveToken u new)
  let ?u = "u\<lparr>policies := policies t\<rparr>"
  from step SaveToken have save: "token_save new False ?u = Inr t'"
    by (auto simp: Let_def result_simps split: if_splits)
  then have "token_clean ?u = Inr ()" by (auto simp: token_save_def result_simps)
  from token_save_wf [OF _ _ _ this save] wf show ?thesis by (auto simp: token_wf_def commit_ok_def)
next
  case (SetLastUsed now new)
  let ?u = "t\<lparr>t_last_used := Some now\<rparr>"
  from wf have "auto_policy t \<Longrightarrow> get_policy (policies t) None \<noteq> None"
    by (auto simp: token_wf_def commit_ok_def get_default_None)
  with step SetLastUsed have "t' = ?u" by (auto simp: token_save_def split: if_splits)
  with wf show ?thesis by (simp add: token_wf_def commit_ok_def)
next
  case (CreatePolicy p)
  with step policy_create_wf [OF wf] show ?thesis by (auto simp: result_simps split: if_splits)
next
  case (UpdatePolicy p)
  with step policy_update_wf [OF wf] show ?thesis by (auto simp: result_simps split: if_splits)
next
  case (DeletePolicy p)
  with step policy_delete_wf [OF wf] show ?thesis by (auto simp: result_simps split: if_splits)
qed

text \<open>The states a token can get into from one without policies.\<close>

inductive token_reachable :: "token \<Rightarrow> bool" where
  start: "policies t = [] \<Longrightarrow> auto_policy t = False \<Longrightarrow>
     \<not> (perm_manage_tokens t \<and> t_user_override t \<noteq> None) \<Longrightarrow> token_reachable t"
| step: "token_reachable t \<Longrightarrow> token_step op t = Inr t' \<Longrightarrow> token_reachable t'"

lemma token_reachable_wf: "token_reachable t \<Longrightarrow> token_wf t"
proof (induction rule: token_reachable.induct)
  case (start t)
  then show ?case by (auto simp: token_wf_def unique_scopes_def commit_ok_def)
next
  case (step t op t')
  then show ?case using token_step_wf by blast
qed

text \<open>C12: Whatever sequence of token saves and policy changes succeeds, the policies stay consistent: no
  two for the same scope, a default policy whenever there is any policy or \<open>auto_policy\<close> is set,
  a restrictive default under \<open>auto_policy\<close>, and no token that manages tokens has a user override.\<close>

theorem policies_stay_consistent:
  assumes "token_reachable t"
  shows "unique_scopes (policies t) \<and>
    (policies t \<noteq> [] \<or> auto_policy t \<longrightarrow> (\<exists>p. get_policy (policies t) None = Some p \<and>
       (auto_policy t \<longrightarrow> \<not> perm_write p))) \<and>
    (perm_manage_tokens t \<longrightarrow> t_user_override t = None)"
proof -
  note wf = token_reachable_wf [OF assms, unfolded token_wf_def]
  have "\<exists>p. get_policy (policies t) None = Some p \<and> (auto_policy t \<longrightarrow> \<not> perm_write p)"
    if "policies t \<noteq> [] \<or> auto_policy t"
  proof -
    from that wf obtain p where "p \<in> set (policies t)" "represents_default_policy p"
      by (auto simp: commit_ok_def)
    with wf get_default_Some [of "policies t" p] show ?thesis by auto
  qed
  with wf show ?thesis by auto
qed

text \<open>What a save hands to the database: the fields as given, and either the policies as they were or,
  under \<open>auto_policy\<close> without any policy, a new restrictive default.\<close>

lemma token_save_result:
  assumes wf: "token_wf t" and save: "token_save new False (u\<lparr>policies := policies t\<rparr>) = Inr t'"
  shows "token_wf t' \<and> (t' = u\<lparr>policies := policies t\<rparr> \<or> policies t = [] \<and> t' = u\<lparr>policies := [default_policy new]\<rparr>)"
proof -
  let ?u = "u\<lparr>policies := policies t\<rparr>"
  from save have clean: "token_clean ?u = Inr ()" by (auto simp: token_save_def result_simps)
  have "token_wf t'" using token_save_wf [OF _ _ _ clean save] wf by (auto simp: token_wf_def commit_ok_def)
  moreover have "t' = ?u \<or> policies t = [] \<and> t' = u\<lparr>policies := [default_policy new]\<rparr>"
  proof (cases "auto_policy u \<and> get_policy (policies t) None = None")
    case True
    have "policies t = []" using True wf get_default_None [of "policies t"] by (auto simp: token_wf_def commit_ok_def)
    with save clean True show ?thesis by (auto simp: token_save_def policy_create_def split: if_splits)
  next
    case False
    with save clean show ?thesis by (auto simp: token_save_def)
  qed
  ultimately show ?thesis by blast
qed


section \<open>Who may manage tokens\<close>

text \<open>The endpoints admit changes to tokens and policies only to requests whose token has
  \<open>perm_manage_tokens\<close>, and with multi-factor authentication enabled only API tokens or login
  tokens that passed it; a policy or the fields of a token are changed only by the effective user
  of that token.\<close>

lemma token_management_guarded:
  assumes "r_user r = Some u"
    and "token_view_allowed r (UnsafeMethod destroy) (Some obj) \<or> policy_view_allowed r (UnsafeMethod destroy) obj"
  shows "perm_manage_tokens (r_auth r) \<and>
    (u_mfa_enabled u \<longrightarrow> t_mfa (r_auth r) = None \<or> t_mfa (r_auth r) = Some True) \<and>
    (destroy \<and> token_view_allowed r (UnsafeMethod destroy) (Some obj) \<or> u_id u = token_user obj)"
  using assms
  by (cases destroy)
    (auto simp: token_view_allowed_def policy_view_allowed_def has_manage_tokens_permission_def
      is_api_token_def mfa_required_if_enabled_def is_user_def is_token_user_def)

definition example_token :: token where
  "example_token = \<lparr>t_id = 1, t_owner = 7, t_user_override = None, t_created = 0, t_last_used = None,
     t_max_age = None, t_max_unused = None, t_mfa = None, perm_create_domain = False,
     perm_delete_domain = False, perm_manage_tokens = True, auto_policy = False, policies = []\<rparr>"

definition auto_token :: token where
  "auto_token = example_token\<lparr>auto_policy := True, policies := [default_policy 5]\<rparr>"

lemma auto_token_reachable: "token_reachable auto_token"
proof (rule token_reachable.step)
  show "token_reachable example_token" by (rule token_reachable.start) (simp_all add: example_token_def)
  show "token_step (SaveToken (example_token\<lparr>auto_policy := True\<rparr>) 5) example_token = Inr auto_token"
    by (simp add: auto_token_def example_token_def token_save_def token_clean_def get_policy_def
        policy_create_def default_policy_def represents_default_policy_def override_ok_def commit_ok_def
        Let_def)
qed

theorem policies_stay_consistent_witness:
  "get_policy (policies auto_token) None \<noteq> None \<and> t_user_override auto_token = None"
  using policies_stay_consistent [OF auto_token_reachable]
  by (auto simp: auto_token_def example_token_def)


lemma token_management_guarded_witness:
  "\<exists>r. policy_view_allowed r (UnsafeMethod False) auto_token \<and> perm_manage_tokens (r_auth r)"
proof -
  let ?u = "\<lparr>u_id = 7, u_is_active = Some True, u_mfa_enabled = True, u_limit_domains = None, u_domain_count = 0\<rparr>"
  let ?r = "\<lparr>r_user = Some ?u, r_auth = example_token, r_remote_addr = 0\<rparr>"
  have ok: "policy_view_allowed ?r (UnsafeMethod False) auto_token"
    by (simp add: policy_view_allowed_def is_authenticated_def is_api_token_def has_manage_tokens_permission_def
        is_token_user_def is_user_def token_user_def auto_token_def example_token_def)
  from token_management_guarded [of ?r ?u False auto_token] ok show ?thesis by auto
qed

end
