(* ===== verification/DomainsCorrect.thy ===== *)
theory DomainsCorrect
  imports Domains RecordsCorrect TokensCorrect
begin

text \<open>
  Domains: dotted suffixes are suffixes of label lists; the responsible domain is the most specific
  one; the names between a domain and its public suffix; when a name is registrable, and the
  invariant of the registry that follows from it; the delegation of a domain; the keys and the
  TTLs of an import.
\<close>

section \<open>Names as label lists\<close>

abbreviation labels :: "string \<Rightarrow> string list" where
  "labels \<equiv> split_on CHR ''.''"

lemma split_on_concat: "split_on c (a @ c # b) = split_on c a @ split_on c b"
proof (induction a)
  case Nil
  then show ?case by simp
next
  case (Cons x a)
  then show ?case by (cases "split_on c a") auto
qed

lemma join_append:
  "xs \<noteq> [] \<Longrightarrow> ys \<noteq> [] \<Longrightarrow> join sep (xs @ ys) = join sep xs @ sep @ join sep ys"
  by (induction xs rule: induct_list012) (auto simp: join_Cons)

lemma labels_inj: "labels a = labels b \<longleftrightarrow> a = b"
  by (metis join_split_on)

lemma dotted_suffix_labels: "dotted_suffix a b \<longleftrightarrow> suffix (labels a) (labels b)"
proof
  assume "dotted_suffix a b"
  then obtain p where p: "CHR ''.'' # b = p @ CHR ''.'' # a"
    by (auto simp: dotted_suffix_def ends_with_def suffix_def)
  show "suffix (labels a) (labels b)"
  proof (cases p)
    case Nil
    with p show ?thesis by simp
  next
    case (Cons x q)
    with p have "b = q @ CHR ''.'' # a" by simp
    then show ?thesis by (simp add: split_on_concat suffix_def)
  qed
next
  assume "suffix (labels a) (labels b)"
  then obtain ls where ls: "labels b = ls @ labels a" by (auto simp: suffix_def)
  have b: "b = join ''.'' (ls @ labels a)" using ls by (metis join_split_on)
  show "dotted_suffix a b"
  proof (cases "ls = []")
    case True
    with b show ?thesis by (simp add: dotted_suffix_def ends_with_def)
  next
    case False
    with b have "CHR ''.'' # b = (CHR ''.'' # join ''.'' ls) @ CHR ''.'' # a" by (simp add: join_append)
    then show ?thesis unfolding dotted_suffix_def by (metis ends_with_append)
  qed
qed

lemma dotted_suffix_refl [simp]: "dotted_suffix a a"
  by (simp add: dotted_suffix_labels)

lemma dotted_suffix_trans: "dotted_suffix a b \<Longrightarrow> dotted_suffix b c \<Longrightarrow> dotted_suffix a c"
  unfolding dotted_suffix_labels by (rule suffix_order.trans)

lemma dotted_suffix_length: "dotted_suffix a b \<Longrightarrow> length a \<le> length b"
  by (auto simp: dotted_suffix_def ends_with_def dest: suffix_length_le)

lemma dotted_suffix_same_length: "dotted_suffix a b \<Longrightarrow> length a = length b \<Longrightarrow> a = b"
proof -
  assume a: "dotted_suffix a b" and l: "length a = length b"
  then obtain p where p: "CHR ''.'' # b = p @ CHR ''.'' # a"
    by (auto simp: dotted_suffix_def ends_with_def suffix_def)
  from arg_cong [OF p, of length] l have "p = []" by simp
  with p show "a = b" by simp
qed

lemma dotted_suffix_linear:
  "dotted_suffix a c \<Longrightarrow> dotted_suffix b c \<Longrightarrow> length a \<le> length b \<Longrightarrow> dotted_suffix a b"
  unfolding dotted_suffix_def ends_with_def by (rule suffix_length_suffix) auto

text \<open>A proper dotted suffix is the ending the registration looks for.\<close>

lemma proper_dotted_suffix:
  "dotted_suffix a b \<and> a \<noteq> b \<longleftrightarrow> ends_with b (CHR ''.'' # a)"
proof
  assume h: "dotted_suffix a b \<and> a \<noteq> b"
  then obtain p where p: "CHR ''.'' # b = p @ CHR ''.'' # a"
    by (auto simp: dotted_suffix_def ends_with_def suffix_def)
  with h show "ends_with b (CHR ''.'' # a)"
    by (cases p) (auto simp: ends_with_def suffix_def)
next
  assume "ends_with b (CHR ''.'' # a)"
  then obtain q where "b = q @ CHR ''.'' # a" by (auto simp: ends_with_def suffix_def)
  then show "dotted_suffix a b \<and> a \<noteq> b"
    by (auto simp: dotted_suffix_def ends_with_def suffix_def)
qed

section \<open>The responsible domain\<close>

lemma filter_qname_iff:
  assumes "name_field_ok (lower (removeprefix q ''*.''))"
  shows "d \<in> set (filter_qname ds q) \<longleftrightarrow> d \<in> set ds \<and> dotted_suffix (m_name d) q"
  using assms by (auto simp: filter_qname_def)

lemma responsible_domain_Some:
  assumes "responsible_domain ds q = Some d"
  shows "d \<in> set ds" "dotted_suffix (m_name d) q"
    "e \<in> set ds \<Longrightarrow> dotted_suffix (m_name e) q \<Longrightarrow> dotted_suffix (m_name e) (m_name d)"
proof -
  let ?f = "\<lambda>d. - int (length (m_name d))"
  let ?s = "sort_key ?f (filter_qname ds q)"
  from assms obtain es where s: "?s = d # es"
    by (auto simp: responsible_domain_def split: list.splits)
  then have mem: "d \<in> set (filter_qname ds q)" by (metis list.set_intros(1) set_sort)
  then have valid: "name_field_ok (lower (removeprefix q ''*.''))"
    by (auto simp: filter_qname_def split: if_splits)
  from mem filter_qname_iff [OF valid] show d: "d \<in> set ds" "dotted_suffix (m_name d) q" by auto
  assume "e \<in> set ds" and e: "dotted_suffix (m_name e) q"
  then have "e \<in> set (filter_qname ds q)" using filter_qname_iff [OF valid] by blast
  then have "e \<in> set (d # es)" using s by (metis set_sort)
  moreover have "sorted (map ?f (d # es))" using s by (metis sorted_sort_key)
  ultimately have "length (m_name e) \<le> length (m_name d)" by auto
  then show "dotted_suffix (m_name e) (m_name d)" using dotted_suffix_linear e d(2) by blast
qed

lemma responsible_domain_None:
  assumes "name_field_ok (lower (removeprefix q ''*.''))"
  shows "responsible_domain ds q = None \<longleftrightarrow> (\<forall>d \<in> set ds. \<not> dotted_suffix (m_name d) q)"
proof -
  have "responsible_domain ds q = None \<longleftrightarrow> filter_qname ds q = []"
    by (simp add: responsible_domain_def split: list.splits) (metis length_0_conv length_sort list.distinct(1))
  also have "\<dots> \<longleftrightarrow> (\<forall>d. d \<notin> set (filter_qname ds q))" by (cases "filter_qname ds q") auto
  finally show ?thesis using filter_qname_iff [OF assms] by auto
qed

text \<open>C23: The domain responsible for a name (of the domains a user has, with distinct names) is its most
  specific one: a domain is returned exactly when it is a dotted suffix of the name and every other
  such domain of the user is a dotted suffix of it. None is returned exactly when the name is not
  in any of the domains, or is not a valid domain name (after a leading \<open>*.\<close>).\<close>

theorem responsible_domain_most_specific:
  assumes "distinct (map m_name ds)"
  shows "responsible_domain ds q = Some d \<longleftrightarrow>
    name_field_ok (lower (removeprefix q ''*.'')) \<and> d \<in> set ds \<and> dotted_suffix (m_name d) q \<and>
    (\<forall>e \<in> set ds. dotted_suffix (m_name e) q \<longrightarrow> dotted_suffix (m_name e) (m_name d))"
proof
  assume r: "responsible_domain ds q = Some d"
  then have "name_field_ok (lower (removeprefix q ''*.''))"
    by (cases "name_field_ok (lower (removeprefix q ''*.''))")
      (simp_all add: responsible_domain_def filter_qname_def)
  with responsible_domain_Some [OF r] show "name_field_ok (lower (removeprefix q ''*.'')) \<and> d \<in> set ds \<and>
      dotted_suffix (m_name d) q \<and>
      (\<forall>e \<in> set ds. dotted_suffix (m_name e) q \<longrightarrow> dotted_suffix (m_name e) (m_name d))" by blast
next
  assume h: "name_field_ok (lower (removeprefix q ''*.'')) \<and> d \<in> set ds \<and> dotted_suffix (m_name d) q \<and>
    (\<forall>e \<in> set ds. dotted_suffix (m_name e) q \<longrightarrow> dotted_suffix (m_name e) (m_name d))"
  with responsible_domain_None [of q ds] obtain e where e: "responsible_domain ds q = Some e" by auto
  have "dotted_suffix (m_name e) (m_name d)" "dotted_suffix (m_name d) (m_name e)"
    using h responsible_domain_Some [OF e] by auto
  then have "m_name e = m_name d" by (meson dotted_suffix_length dotted_suffix_same_length le_antisym)
  then have "e = d"
    using assms h responsible_domain_Some(1) [OF e] by (auto simp: distinct_map dest: inj_onD)
  with e show "responsible_domain ds q = Some d" by simp
qed

section \<open>Public suffixes and the names above a domain\<close>

text \<open>What the public suffix list is relied on for: its answer is the name or one of its ancestors.\<close>

definition lawful_psl :: "psl \<Rightarrow> bool" where
  "lawful_psl psl \<longleftrightarrow> (\<forall>n p b. psl n = Some (p, b) \<longrightarrow> dotted_suffix p n \<and> p \<noteq> [])"

lemma labels_nonempty: "domain_labels_ok n \<Longrightarrow> [] \<notin> set (labels n)"
proof
  assume ok: "domain_labels_ok n" and "[] \<in> set (labels n)"
  then have "[] \<in> set (butlast (labels n)) \<or> [] = last (labels n)"
    by (metis append_butlast_last_id in_set_conv_decomp split_on_not_Nil rotate1.simps(2) set_ConsD set_rotate1)
  with ok show False by (auto simp: domain_labels_ok_def label_over_def)
qed

lemma last_label_rpartition:
  "dotted_suffix (snd (snd (rpartition ''.'' n))) n"
proof (cases "rcut ''.'' n")
  case None
  then show ?thesis by (simp add: rpartition_def)
next
  case (Some p)
  obtain h t where p: "p = (h, t)" by (cases p)
  have "n = h @ ''.'' @ t" by (rule rcut_Some) (use Some p in simp)
  then have "CHR ''.'' # n = (CHR ''.'' # h) @ CHR ''.'' # t" by simp
  then show ?thesis using Some p by (metis dotted_suffix_def ends_with_append option.case(2) prod.case
        rpartition_def snd_conv)
qed

lemma longest_local:
  fixes lps :: "string list"
  assumes "dotted_suffix s n"
  defines "r \<equiv> fold (\<lambda>l acc. if dotted_suffix l n \<and> length acc < length l then l else acc) lps s"
  shows "dotted_suffix r n" "length s \<le> length r" "r = s \<or> r \<in> set lps"
    "l \<in> set lps \<Longrightarrow> dotted_suffix l n \<Longrightarrow> length l \<le> length r"
proof -
  have "dotted_suffix r n \<and> length s \<le> length r \<and> (r = s \<or> r \<in> set lps) \<and>
      (\<forall>l \<in> set lps. dotted_suffix l n \<longrightarrow> length l \<le> length r)"
    using assms(1) unfolding r_def
  proof (induction lps arbitrary: s)
    case Nil
    then show ?case by simp
  next
    case (Cons a lps)
    from Cons.IH [of s] Cons.IH [of a] Cons.prems show ?case by auto
  qed
  then show "dotted_suffix r n" "length s \<le> length r" "r = s \<or> r \<in> set lps"
    "l \<in> set lps \<Longrightarrow> dotted_suffix l n \<Longrightarrow> length l \<le> length r" by auto
qed

lemma rpartition_nonempty:
  assumes "[] \<notin> set (labels n)"
  shows "snd (snd (rpartition ''.'' n)) \<noteq> []"
proof
  assume e: "snd (snd (rpartition ''.'' n)) = []"
  from last_label_rpartition [of n] e have "suffix (labels []) (labels n)"
    by (simp add: dotted_suffix_labels)
  then have "[] \<in> set (labels n)" by (auto simp: suffix_def)
  with assms show False by simp
qed

lemma public_suffix_dotted:
  assumes "lawful_psl psl"
  shows "dotted_suffix (public_suffix psl lps n) n"
proof (cases "psl n")
  case None
  with longest_local(1) [OF last_label_rpartition] last_label_rpartition show ?thesis
    by (simp add: public_suffix_def)
next
  case (Some pb)
  obtain p b where "pb = (p, b)" by (cases pb)
  with Some assms have "dotted_suffix p n" by (auto simp: lawful_psl_def)
  with longest_local(1) Some \<open>pb = (p, b)\<close> show ?thesis by (simp add: public_suffix_def)
qed

lemma public_suffix_nonempty:
  assumes "lawful_psl psl" and "[] \<notin> set (labels n)"
  shows "public_suffix psl lps n \<noteq> []"
proof
  assume "public_suffix psl lps n = []"
  with public_suffix_dotted [OF assms(1), of lps n] have "suffix (labels []) (labels n)"
    by (simp add: dotted_suffix_labels)
  with assms(2) show False by (auto simp: suffix_def)
qed

text \<open>\<open>private_domains\<close> lists the ancestors of a name, itself included, below the public suffix.\<close>

lemma private_components:
  assumes ne: "[] \<notin> set (labels n)" and suf: "dotted_suffix p n" and p: "p \<noteq> []"
  obtains ls where "labels n = ls @ labels p"
    and "private_domains n p = map (\<lambda>i. join ''.'' (drop i (labels n))) [0..<length ls]"
proof -
  from suf obtain ls where ls: "labels n = ls @ labels p"
    by (auto simp: dotted_suffix_labels suffix_def)
  have n: "n = join ''.'' (ls @ labels p)" using ls by (metis join_split_on)
  have "private_domains n p = map (\<lambda>i. join ''.'' (drop i (labels n))) [0..<length ls]"
  proof (cases "ls = []")
    case True
    then have "n = p" using n by simp
    then have "rcut p n = Some ([], [])" using rcut_suffix [of p "[]"] p by simp
    then show ?thesis using True by (simp add: private_domains_def rstrip_char_def)
  next
    case False
    let ?h = "join ''.'' ls"
    have n': "n = (?h @ ''.'') @ p" using n False by (simp add: join_append)
    have rc: "rcut p n = Some (?h @ ''.'', [])" using rcut_suffix [OF p, of "?h @ ''.''"] n' by simp
    have nodot: "CHR ''.'' \<notin> set l" if "l \<in> set ls" for l
      using that ls split_on_no_sep [of l "CHR ''.''" n] by simp
    have lh: "labels ?h = ls" using split_on_join [OF False, of "CHR ''.''"] nodot by blast
    have last: "?h = [] \<or> last ?h \<noteq> CHR ''.''"
    proof -
      obtain l xs where l: "ls = xs @ [l]" using False by (cases ls rule: rev_cases) auto
      have "l \<noteq> []" using l ne ls by auto
      then have "?h \<noteq> [] \<and> last ?h = last l"
        using l by (cases "xs = []") (auto simp: join_append)
      moreover have "last l \<noteq> CHR ''.''" using nodot [of l] l last_in_set [OF \<open>l \<noteq> []\<close>] by fastforce
      ultimately show ?thesis by simp
    qed
    have strip: "rstrip_char CHR ''.'' (?h @ ''.'') = ?h"
      using rstrip_char_replicate [OF last, of 1] by simp
    have hne: "?h \<noteq> []"
      using lh ls ne False by (cases "?h = []") auto
    have "join ''.'' (drop i ls) @ ''.'' @ p = join ''.'' (drop i (labels n))" if "i < length ls" for i
    proof -
      have "drop i (labels n) = drop i ls @ labels p" using ls that by simp
      moreover have "drop i ls \<noteq> []" using that by simp
      ultimately show ?thesis by (simp add: join_append)
    qed
    then show ?thesis using rc strip hne lh by (simp add: private_domains_def)
  qed
  with ls show ?thesis by (rule that)
qed

lemma private_domains_set:
  assumes ne: "[] \<notin> set (labels n)" and suf: "dotted_suffix p n" and p: "p \<noteq> []"
  shows "x \<in> set (private_domains n p) \<longleftrightarrow> dotted_suffix x n \<and> length p < length x"
    and "(case private_domains n p of [] \<Rightarrow> p | q # _ \<Rightarrow> q) = n"
proof -
  from private_components [OF assms] obtain ls where ls: "labels n = ls @ labels p"
    and pd: "private_domains n p = map (\<lambda>i. join ''.'' (drop i (labels n))) [0..<length ls]" .
  have len: "length (join ''.'' (drop i (labels n))) = length p + k" if "i + j = length ls" "i \<le> length ls"
    "k = (if i = length ls then 0 else length (join ''.'' (drop i ls)) + 1)" for i j k
  proof (cases "i = length ls")
    case True
    then show ?thesis using ls that by simp
  next
    case False
    then have "drop i ls \<noteq> []" using that(2) by simp
    then show ?thesis using ls that False by (simp add: join_append)
  qed
  show "x \<in> set (private_domains n p) \<longleftrightarrow> dotted_suffix x n \<and> length p < length x"
  proof
    assume "x \<in> set (private_domains n p)"
    then obtain i where i: "i < length ls" "x = join ''.'' (drop i (labels n))" using pd by auto
    have ne': "drop i (labels n) \<noteq> []" using i ls by simp
    have "labels x = drop i (labels n)"
      using split_on_join [OF ne', of "CHR ''.''"] i(2) split_on_no_sep [of _ "CHR ''.''" n]
      by (metis in_set_dropD)
    then have "dotted_suffix x n" by (simp add: dotted_suffix_labels suffix_drop)
    moreover have "length p < length x" using len [of i "length ls - i"] i by simp
    ultimately show "dotted_suffix x n \<and> length p < length x" by simp
  next
    assume x: "dotted_suffix x n \<and> length p < length x"
    then obtain ks where ks: "labels n = ks @ labels x" by (auto simp: dotted_suffix_labels suffix_def)
    have xj: "x = join ''.'' (drop (length ks) (labels n))" using ks by simp
    have "length ks < length ls"
    proof (rule ccontr)
      assume "\<not> length ks < length ls"
      then have "length (labels x) \<le> length (labels p)" using arg_cong [OF ks, of length] ls by simp
      moreover have "suffix (labels x) (labels n)" unfolding ks by (simp add: suffix_def)
      moreover have "suffix (labels p) (labels n)" unfolding ls by (simp add: suffix_def)
      ultimately have "suffix (labels x) (labels p)" using suffix_length_suffix by blast
      then have "length x \<le> length p" by (simp add: dotted_suffix_length dotted_suffix_labels)
      with x show False by simp
    qed
    then show "x \<in> set (private_domains n p)" using pd xj by auto
  qed
  show "(case private_domains n p of [] \<Rightarrow> p | q # _ \<Rightarrow> q) = n"
  proof (cases "ls = []")
    case True
    then show ?thesis using pd ls labels_inj by (auto simp: labels_inj)
  next
    case False
    then have "[0..<length ls] = 0 # [1..<length ls]" by (simp add: upt_conv_Cons)
    then show ?thesis using pd by simp
  qed
qed

section \<open>Registrability\<close>

lemma dots_labels: "Suc (dots s) = length (labels s)"
proof (induction s)
  case Nil
  then show ?case by (simp add: dots_def)
next
  case (Cons x s)
  then show ?case by (cases "labels s") (auto simp: dots_def)
qed

definition private_generation :: "psl \<Rightarrow> string list \<Rightarrow> string \<Rightarrow> int" where
  "private_generation psl lps n = int (dots n) - int (dots (public_suffix psl lps n))"

lemma private_generation_nonneg: "lawful_psl psl \<Longrightarrow> 0 \<le> private_generation psl lps n"
proof -
  assume "lawful_psl psl"
  then have "length (labels (public_suffix psl lps n)) \<le> length (labels n)"
    using public_suffix_dotted [of psl lps n] by (simp add: dotted_suffix_labels suffix_length_le)
  then show ?thesis using dots_labels [of n] dots_labels [of "public_suffix psl lps n"]
    by (simp add: private_generation_def)
qed

lemma private_generation_0:
  assumes "lawful_psl psl"
  shows "private_generation psl lps n = 0 \<longleftrightarrow> public_suffix psl lps n = n"
proof
  assume "private_generation psl lps n = 0"
  then have l: "length (labels (public_suffix psl lps n)) = length (labels n)"
    using dots_labels [of n] dots_labels [of "public_suffix psl lps n"] by (simp add: private_generation_def)
  from public_suffix_dotted [OF assms, of lps n]
  obtain zs where "labels n = zs @ labels (public_suffix psl lps n)"
    by (auto simp: dotted_suffix_labels suffix_def)
  with l show "public_suffix psl lps n = n" by (simp add: labels_inj)
qed (simp add: private_generation_def)

lemma registrable_cases:
  assumes "lawful_psl psl" and "[] \<notin> set (labels n)"
  shows "\<exists>b. is_registrable psl lps ds owner n = Inr b \<and> (b \<longleftrightarrow>
    \<not> dotted_suffix ''internal'' n \<and> (public_suffix psl lps n = n \<longrightarrow> n \<in> set lps) \<and>
    \<not> (private_generation psl lps n = 1 \<and>
        (\<exists>p \<in> {''_'', ''autoconfig.'', ''autodiscover.''}. starts_with n p)) \<and>
    (\<forall>d \<in> set ds. m_owner d \<noteq> owner \<longrightarrow>
       \<not> (dotted_suffix (m_name d) n \<and> length (public_suffix psl lps n) < length (m_name d)) \<and>
       \<not> (dotted_suffix n (m_name d) \<and> m_name d \<noteq> n)))"
proof -
  let ?p = "public_suffix psl lps n"
  note pd = private_domains_set [OF assms(2) public_suffix_dotted [OF assms(1)]
      public_suffix_nonempty [OF assms]]
  have int: "ends_with (CHR ''.'' # n) ''.internal'' \<longleftrightarrow> dotted_suffix ''internal'' n"
    by (simp add: dotted_suffix_def)
  have cov: "is_covered_by_foreign_zone ds owner n ?p =
      Inr (\<exists>d \<in> set ds. (dotted_suffix (m_name d) n \<and> length ?p < length (m_name d)) \<and> m_owner d \<noteq> owner)"
    using pd by (simp add: is_covered_by_foreign_zone_def Let_def)
  have "covers_foreign_zone ds owner n \<longleftrightarrow>
      (\<exists>d \<in> set ds. dotted_suffix n (m_name d) \<and> m_name d \<noteq> n \<and> m_owner d \<noteq> owner)"
    unfolding covers_foreign_zone_def proper_dotted_suffix [symmetric] by blast
  moreover have "private_generation psl lps n = 0 \<longleftrightarrow> ?p = n" by (rule private_generation_0 [OF assms(1)])
  ultimately show ?thesis
    using private_generation_nonneg [OF assms(1), of lps n]
    unfolding is_registrable_def Let_def private_generation_def [symmetric] int cov by auto
qed

text \<open>C22: What \<open>is_registrable\<close> answers, for a name without empty labels and a public suffix list that
  returns ancestors: it never fails one of its assertions, and it accepts a name exactly when the
  name is not under \<open>internal\<close>, is not a public suffix (unless a local one), is not a reserved
  child of a public suffix, lies below no domain of another user that is itself below the public
  suffix, and has no domain of another user below it.\<close>

theorem is_registrable_iff:
  assumes "lawful_psl psl" and "[] \<notin> set (labels n)"
  shows "\<exists>b. is_registrable psl lps ds owner n = Inr b \<and> (b \<longleftrightarrow>
    \<not> dotted_suffix ''internal'' n \<and> (public_suffix psl lps n = n \<longrightarrow> n \<in> set lps) \<and>
    \<not> (private_generation psl lps n = 1 \<and>
        (\<exists>p \<in> {''_'', ''autoconfig.'', ''autodiscover.''}. starts_with n p)) \<and>
    (\<forall>d \<in> set ds. m_owner d \<noteq> owner \<longrightarrow>
       \<not> (dotted_suffix (m_name d) n \<and> length (public_suffix psl lps n) < length (m_name d)) \<and>
       \<not> (dotted_suffix n (m_name d) \<and> m_name d \<noteq> n)))"
  using assms by (rule registrable_cases)

text \<open>The registry: domains are created by users whose name passed \<open>is_registrable\<close> and the unique
  constraint, and deleted again.\<close>

inductive registry :: "psl \<Rightarrow> string list \<Rightarrow> domain list \<Rightarrow> bool" for psl lps where
  empty: "registry psl lps []"
| create: "registry psl lps ds \<Longrightarrow> run_validators validate_domain_name n = [] \<Longrightarrow>
     is_registrable psl lps ds owner n = Inr True \<Longrightarrow> n \<notin> m_name ` set ds \<Longrightarrow>
     registry psl lps (\<lparr>m_name = n, m_owner = owner\<rparr> # ds)"
| delete: "registry psl lps ds \<Longrightarrow> registry psl lps (filter (\<lambda>e. e \<noteq> d) ds)"

lemma labels_snoc:
  "x \<noteq> c \<Longrightarrow> split_on c (s @ [x]) = butlast (split_on c s) @ [last (split_on c s) @ [x]]"
proof (induction s)
  case Nil
  then show ?case by simp
next
  case (Cons y s)
  then obtain l ls where l: "split_on c s = l # ls" by (cases "split_on c s") auto
  with Cons show ?case by (cases ls) auto
qed

lemma valid_labels_nonempty:
  assumes "run_validators validate_domain_name n = []"
  shows "[] \<notin> set (labels n)"
proof -
  have nonempty: "[] \<notin> set (labels t)" if "t \<in> rx_lang domain_name_rx" for t
  proof
    assume "[] \<in> set (labels t)"
    then have "[] \<in> set (butlast (labels t)) \<or> [] = last (labels t)"
      by (metis append_butlast_last_id in_set_conv_decomp split_on_not_Nil rotate1.simps(2) set_ConsD set_rotate1)
    with that show False by (auto simp: domain_name_lang label_over_def)
  qed
  from assms have "n \<in> rx_lang domain_name_rx \<or> (\<exists>t. n = t @ [newline] \<and> t \<in> rx_lang domain_name_rx)"
    by (auto simp: run_validators_Nil_iff validate_domain_name_def regex_validator_def re_anchored_iff
        split: if_splits)
  then show ?thesis
  proof
    assume "\<exists>t. n = t @ [newline] \<and> t \<in> rx_lang domain_name_rx"
    then obtain t where n: "n = t @ [newline]" and t: "t \<in> rx_lang domain_name_rx" by blast
    have "labels n = butlast (labels t) @ [last (labels t) @ [newline]]"
      unfolding n by (rule labels_snoc) simp
    with nonempty [OF t] show ?thesis by (auto dest: in_set_butlastD)
  qed (rule nonempty)
qed

lemma registry_invariant:
  assumes psl: "lawful_psl psl" and reg: "registry psl lps ds"
  shows "distinct (map m_name ds) \<and>
    (\<forall>d \<in> set ds. \<forall>e \<in> set ds. m_owner d \<noteq> m_owner e \<longrightarrow> dotted_suffix (m_name d) (m_name e) \<longrightarrow>
       length (m_name d) \<le> length (public_suffix psl lps (m_name e)))"
  using reg
proof (induction rule: registry.induct)
  case empty
  then show ?case by simp
next
  case (create ds n owner)
  have "\<forall>d \<in> set ds. m_owner d \<noteq> owner \<longrightarrow>
      \<not> (dotted_suffix (m_name d) n \<and> length (public_suffix psl lps n) < length (m_name d)) \<and>
      \<not> (dotted_suffix n (m_name d) \<and> m_name d \<noteq> n)"
    using registrable_cases [OF psl valid_labels_nonempty [OF create.hyps(2)], of lps ds owner] create.hyps(3)
    by auto
  with create.IH create.hyps(4) show ?case by (auto simp: linorder_not_less)
next
  case (delete ds d)
  then show ?case by (auto simp: distinct_map intro: distinct_filter inj_on_subset)
qed

text \<open>C21: Whatever domains are created and deleted, the registry never holds two domains of the same name,
  and a domain never lies inside a domain of another user: if one domain is a dotted suffix of a
  domain with a different owner, then it is at most as long as the public suffix of that domain.\<close>

theorem registry_separates_owners:
  assumes "lawful_psl psl" and "registry psl lps ds" and "d \<in> set ds" and "e \<in> set ds"
  shows "(m_name d = m_name e \<longrightarrow> d = e) \<and>
    (m_owner d \<noteq> m_owner e \<and> dotted_suffix (m_name d) (m_name e) \<longrightarrow>
       dotted_suffix (m_name d) (public_suffix psl lps (m_name e)))"
proof -
  note inv = registry_invariant [OF assms(1,2)]
  have "m_name d = m_name e \<longrightarrow> d = e"
    using inv assms(3,4) by (auto simp: distinct_map dest: inj_onD)
  moreover have "dotted_suffix (m_name d) (public_suffix psl lps (m_name e))"
    if "m_owner d \<noteq> m_owner e" "dotted_suffix (m_name d) (m_name e)"
    using inv assms(3,4) that public_suffix_dotted [OF assms(1)] dotted_suffix_linear by blast
  ultimately show ?thesis by blast
qed

section \<open>Delegation\<close>

lemma rrset_create_effect:
  assumes "db_step (OpRRsetCreate d k n) (D, t) = Inr (D', t')"
  shows "lookup_rrset D' e j = (if e = d \<and> j = k then Some \<lparr>ttl = n, records = []\<rparr> else lookup_rrset D e j)"
  using assms by (cases "zones D d") (auto simp: result_simps zone_of_def lookup_put_rrset)

lemma rr_create_effect:
  assumes "db_step (OpRRCreate d k c) (D, t) = Inr (D', t')"
  shows "\<exists>r. lookup_rrset D d k = Some r \<and> c \<notin> set (records r) \<and>
    lookup_rrset D' e j = (if e = d \<and> j = k then Some (r\<lparr>records := records r @ [c]\<rparr>) else lookup_rrset D e j)"
  using assms by (cases "zones D d")
    (auto simp: result_simps rrset_of_lookup lookup_put_rrset, simp add: lookup_rrset_def)

lemma rrset_delete_effect:
  assumes "db_step (OpRRsetDelete d k) (D, t) = Inr (D', t')"
  shows "lookup_rrset D' e j = (if e = d \<and> j = k then None else lookup_rrset D e j)"
  using assms by (cases "zones D d")
    (auto simp: result_simps rrset_delete_step_def lookup_drop_rrset rrset_of_lookup, simp_all add: lookup_rrset_def)

lemma rr_create_all:
  assumes "rfold (\<lambda>c. db_step (OpRRCreate d k c)) cs (D, t) = Inr (D', t')"
    and "lookup_rrset D d k = Some r"
  shows "lookup_rrset D' e j =
    (if e = d \<and> j = k then Some (r\<lparr>records := records r @ cs\<rparr>) else lookup_rrset D e j)"
  using assms
proof (induction cs arbitrary: D t r)
  case Nil
  then show ?case by auto
next
  case (Cons c cs)
  from Cons.prems(1) obtain D1 t1 where s: "db_step (OpRRCreate d k c) (D, t) = Inr (D1, t1)"
    and rest: "rfold (\<lambda>c. db_step (OpRRCreate d k c)) cs (D1, t1) = Inr (D', t')"
    by (auto simp: result_simps simp del: db_step.simps)
  from rr_create_effect [OF s, of d k] Cons.prems(2)
  have l: "lookup_rrset D1 d k = Some (r\<lparr>records := records r @ [c]\<rparr>)" by auto
  from Cons.IH [OF rest l] rr_create_effect [OF s, of e j] Cons.prems(2) show ?case by auto
qed

lemma create_with_contents_effect:
  assumes "create_with_contents d k n cs (D, t) = Inr (D', t')"
  shows "lookup_rrset D' e j = (if e = d \<and> j = k then Some \<lparr>ttl = n, records = cs\<rparr> else lookup_rrset D e j)"
proof -
  from assms obtain D1 t1 where s: "db_step (OpRRsetCreate d k n) (D, t) = Inr (D1, t1)"
    and rest: "rfold (\<lambda>c. db_step (OpRRCreate d k c)) cs (D1, t1) = Inr (D', t')"
    by (auto simp: create_with_contents_def result_simps simp del: db_step.simps)
  have l: "lookup_rrset D1 d k = Some \<lparr>ttl = n, records = []\<rparr>" using rrset_create_effect [OF s, of d k] by simp
  from rr_create_all [OF rest l, of e j] rrset_create_effect [OF s, of e j] show ?thesis by auto
qed

lemma rrset_delete_all:
  assumes "rfold (\<lambda>k. db_step (OpRRsetDelete d k)) ks (D, t) = Inr (D', t')"
  shows "lookup_rrset D' e j = (if e = d \<and> j \<in> set ks then None else lookup_rrset D e j)"
  using assms
proof (induction ks arbitrary: D t)
  case Nil
  then show ?case by simp
next
  case (Cons k ks)
  from Cons.prems obtain D1 t1 where s: "db_step (OpRRsetDelete d k) (D, t) = Inr (D1, t1)"
    and rest: "rfold (\<lambda>k. db_step (OpRRsetDelete d k)) ks (D1, t1) = Inr (D', t')"
    by (auto simp: result_simps simp del: db_step.simps)
  from Cons.IH [OF rest] rrset_delete_effect [OF s, of e j] show ?case by auto
qed

text \<open>C24: Updating the delegation of a child domain succeeds only in its immediate parent, for a child
  that is gone or has keys. It then replaces the NS and DS RRsets of the child in the parent zone:
  by the default name servers and the DS records of all keys, or by nothing if the child is gone.
  No other RRset of any domain changes.\<close>

theorem update_delegation_correct:
  assumes "update_delegation cf parent child child_keys (D, t) = Inr (D', t')"
  shows "\<exists>sub. partitioned_name child = (sub, Some parent) \<and> child_keys \<noteq> Some [] \<and>
    lookup_rrset D' parent (''NS'', sub) =
      map_option (\<lambda>_. \<lparr>ttl = 3600, records = default_ns cf\<rparr>) child_keys \<and>
    lookup_rrset D' parent (''DS'', sub) =
      map_option (\<lambda>ks. \<lparr>ttl = 300, records = concat (map k_ds ks)\<rparr>) child_keys \<and>
    (\<forall>d k. d \<noteq> parent \<or> k \<notin> {(''NS'', sub), (''DS'', sub)} \<longrightarrow> lookup_rrset D' d k = lookup_rrset D d k)"
proof -
  obtain sub pn where p: "partitioned_name child = (sub, pn)" by (cases "partitioned_name child")
  from assms p have pn: "pn = Some parent" by (auto simp: update_delegation_def split: if_splits)
  from assms p pn obtain z where z: "zone_of D parent = Inr z"
    by (auto simp: update_delegation_def split: sum.splits)
  let ?ks = "filter (\<lambda>k. snd k = sub \<and> fst k \<in> {''NS'', ''DS''}) (map fst z)"
  from assms p pn z obtain D1 t1
    where del: "rfold (\<lambda>k. db_step (OpRRsetDelete parent k)) ?ks (D, t) = Inr (D1, t1)"
    by (auto simp: update_delegation_def simp del: db_step.simps split: sum.splits)
  have l1: "lookup_rrset D1 e j =
      (if e = parent \<and> j \<in> {(''NS'', sub), (''DS'', sub)} then None else lookup_rrset D e j)" for e j
  proof -
    have zp: "zones D parent = Some z" using z by (auto simp: zone_of_def split: option.splits)
    have "lookup_rrset D parent j = None" if "j \<notin> keys z" for j
      using that by (simp add: lookup_rrset_def zp map_of_eq_None_iff)
    then show ?thesis using rrset_delete_all [OF del, of e j] by (cases j) auto
  qed
  show ?thesis
  proof (cases child_keys)
    case None
    with assms p pn z del have "D' = D1" by (simp add: update_delegation_def del: db_step.simps)
    with p pn None l1 show ?thesis by auto
  next
    case (Some ks)
    with assms p pn z del have "ks \<noteq> []" by (auto simp: update_delegation_def simp del: db_step.simps)
    with assms p pn z del Some obtain D2 t2
      where c1: "create_with_contents parent (''NS'', sub) 3600 (default_ns cf) (D1, t1) = Inr (D2, t2)"
        and c2: "create_with_contents parent (''DS'', sub) 300 (concat (map k_ds ks)) (D2, t2) = Inr (D', t')"
      by (auto simp: update_delegation_def result_simps simp del: db_step.simps split: sum.splits)
    from create_with_contents_effect [OF c1] create_with_contents_effect [OF c2] l1
    have "lookup_rrset D' e j =
        (if e = parent \<and> j = (''DS'', sub) then Some \<lparr>ttl = 300, records = concat (map k_ds ks)\<rparr>
         else if e = parent \<and> j = (''NS'', sub) then Some \<lparr>ttl = 3600, records = default_ns cf\<rparr>
         else lookup_rrset D e j)" for e j by auto
    with p pn Some \<open>ks \<noteq> []\<close> show ?thesis by auto
  qed
qed

section \<open>Creating a domain\<close>

lemma perform_create_token:
  assumes "perform_create cf i name imp S t = Inr (S', t')" and "auto_policy t"
  shows "policies t' = policies t @
    [\<lparr>p_id = i, p_domain = Some name, p_subname = None, p_rtype = None, perm_write = True\<rparr>]"
  using assms
  by (auto simp: perform_create_def create_in_block_def policy_create_def result_simps split: if_splits sum.splits)

text \<open>A token with \<open>auto_policy\<close> that creates a domain it has no policies for may afterwards write
  every RRset of that domain, and nothing changes for other domains. A name below a local public
  suffix is refused while registration there is suspended.\<close>

lemma created_domain_writable:
  assumes "perform_create cf i name imp S t = Inr (S', t')" and "auto_policy t"
    and "\<forall>p \<in> set (policies t). p_domain p \<noteq> Some name"
  shows "token_has_rrset_permission (policies t') (name, sub, ty) \<and>
    (d \<noteq> name \<longrightarrow> token_has_rrset_permission (policies t') (d, sub, ty) =
       token_has_rrset_permission (policies t) (d, sub, ty)) \<and>
    (is_locally_registrable (local_public_suffixes cf) name \<longrightarrow> register_lps cf)"
proof -
  let ?p = "\<lparr>p_id = i, p_domain = Some name, p_subname = None, p_rtype = None, perm_write = True\<rparr>"
  note ps = perform_create_token [OF assms(1,2)]
  have m: "matches (Some (name, sub, ty)) ?p" by (simp add: matches_def)
  have mem: "?p \<in> set (policies t')" using ps by simp
  from m mem obtain q where q: "get_policy (policies t') (Some (name, sub, ty)) = Some q"
    using get_policy_None by (metis not_Some_eq)
  note g = get_policy_Some [OF q]
  have "policy_order q \<le> policy_order ?p" using g(3) [OF mem m] .
  then have "p_domain q \<noteq> None" by (cases "p_domain q") (auto simp: policy_order_def nulls_last_def)
  with g(2) have "p_domain q = Some name" by (auto simp: matches_def)
  then have "q = ?p" using g(1) ps assms(3) by auto
  with q have "token_has_rrset_permission (policies t') (name, sub, ty)"
    by (simp add: token_has_rrset_permission_def)
  moreover have "get_policy (policies t') (Some (d, sub, ty)) = get_policy (policies t) (Some (d, sub, ty))"
    if "d \<noteq> name"
    using that ps by (simp add: get_policy_def matches_def)
  moreover have "is_locally_registrable (local_public_suffixes cf) name \<longrightarrow> register_lps cf"
    using assms(1) by (auto simp: perform_create_def registration_suspended_def split: if_splits)
  ultimately show ?thesis by (simp add: token_has_rrset_permission_def)
qed

section \<open>Examples\<close>

text \<open>A public suffix list that knows top-level domains only.\<close>

definition tld_psl :: psl where
  "tld_psl n =
     (let s = snd (snd (rpartition ''.'' n)) in if s = [] then None else Some (s, CHR ''.'' \<notin> set n))"

lemma lawful_tld_psl: "lawful_psl tld_psl"
  using last_label_rpartition by (auto simp: lawful_psl_def tld_psl_def Let_def split: if_splits)

definition example_domains :: "domain list" where
  "example_domains =
     [\<lparr>m_name = ''a.dev'', m_owner = 1\<rparr>, \<lparr>m_name = ''b.a.dev'', m_owner = 1\<rparr>, \<lparr>m_name = ''c.dev'', m_owner = 2\<rparr>]"

theorem responsible_domain_most_specific_witness:
  "responsible_domain example_domains ''www.b.a.dev'' = Some \<lparr>m_name = ''b.a.dev'', m_owner = 1\<rparr>"
proof -
  have "distinct (map m_name example_domains)" by (simp add: example_domains_def)
  moreover have "name_field_ok (lower (removeprefix ''www.b.a.dev'' ''*.''))" by code_simp
  moreover have "dotted_suffix ''b.a.dev'' ''www.b.a.dev''" by code_simp
  moreover have "\<forall>e \<in> set example_domains. dotted_suffix (m_name e) ''www.b.a.dev'' \<longrightarrow>
      dotted_suffix (m_name e) ''b.a.dev''" by code_simp
  ultimately show ?thesis
    by (subst responsible_domain_most_specific) (auto simp: example_domains_def)
qed

theorem is_registrable_iff_witness:
  "is_registrable tld_psl [] example_domains 2 ''x.a.dev'' = Inr False"
proof -
  have l: "[] \<notin> set (labels ''x.a.dev'')" by code_simp
  have p: "public_suffix tld_psl [] ''x.a.dev'' = ''dev''" by code_simp
  have "dotted_suffix ''a.dev'' ''x.a.dev''" by code_simp
  then show ?thesis using is_registrable_iff [OF lawful_tld_psl l, of "[]" example_domains 2] p
    by (auto simp: example_domains_def)
qed

lemma example_registry: "registry tld_psl [] example_domains"
proof -
  have "registry tld_psl [] [\<lparr>m_name = ''c.dev'', m_owner = 2\<rparr>]"
    by (rule registry.create [OF registry.empty]) code_simp+
  then have "registry tld_psl [] [\<lparr>m_name = ''b.a.dev'', m_owner = 1\<rparr>, \<lparr>m_name = ''c.dev'', m_owner = 2\<rparr>]"
    by (rule registry.create) code_simp+
  then show ?thesis
    unfolding example_domains_def by (rule registry.create) code_simp+
qed

theorem registry_separates_owners_witness:
  "\<not> dotted_suffix ''c.dev'' ''b.a.dev'' \<and> dotted_suffix (public_suffix tld_psl [] ''b.a.dev'') ''b.a.dev''"
proof -
  have "\<not> dotted_suffix ''c.dev'' (public_suffix tld_psl [] ''b.a.dev'')" by code_simp
  moreover have "dotted_suffix (public_suffix tld_psl [] ''b.a.dev'') ''b.a.dev''" by code_simp
  moreover have "\<lparr>m_name = ''c.dev'', m_owner = 2\<rparr> \<in> set example_domains"
    "\<lparr>m_name = ''b.a.dev'', m_owner = 1\<rparr> \<in> set example_domains" by (simp_all add: example_domains_def)
  ultimately show ?thesis
    using registry_separates_owners [OF lawful_tld_psl example_registry,
        of "\<lparr>m_name = ''c.dev'', m_owner = 2\<rparr>" "\<lparr>m_name = ''b.a.dev'', m_owner = 1\<rparr>"] by auto
qed

definition example_settings :: settings where
  "example_settings = \<lparr>default_ns = [''ns1.example.''], default_ns_ttl = 3600, local_public_suffixes = {''d''},
     nslord_api = [], nsmaster_api = [], catalog_zone = ''catalog'', pdns_max_body_size = 1000,
     maximum_ttl = 86400, minimum_ttl_default = 3600, register_lps = True, pch_enabled = False\<rparr>"

theorem update_delegation_correct_witness:
  "\<exists>D' t'. update_delegation example_settings ''d'' ''c.d''
       (Some [\<lparr>k_dnskey = ''k'', k_ds = [''h2'', ''h4''], k_managed = True\<rparr>]) (example_db, new_tracker) = Inr (D', t') \<and>
     lookup_rrset D' ''d'' (''DS'', ''c'') = Some \<lparr>ttl = 300, records = [''h2'', ''h4'']\<rparr>"
proof -
  let ?r = "update_delegation example_settings ''d'' ''c.d''
       (Some [\<lparr>k_dnskey = ''k'', k_ds = [''h2'', ''h4''], k_managed = True\<rparr>]) (example_db, new_tracker)"
  have p: "partitioned_name ''c.d'' = (''c'', Some ''d'')" by code_simp
  obtain D' t' where "?r = Inr (D', t')"
    by (simp add: update_delegation_def p example_db_def zone_of_def create_with_contents_def
        rrset_of_def put_rrset_def cname_conflict_def example_settings_def new_tracker_def
        on_rr_post_save_def on_rr_set_post_save_def rr_set_updated_def key_of_def set_rrsets_def Let_def)
  with update_delegation_correct [OF this] p show ?thesis by auto
qed

lemma created_domain_writable_witness:
  "\<exists>S' t'. perform_create example_settings 9 ''e'' Inr (example_db, new_tracker) auto_token = Inr (S', t') \<and>
     token_has_rrset_permission (policies t') (''e'', ''www'', ''A'')"
proof -
  have "\<exists>S' t'. perform_create example_settings 9 ''e'' Inr (example_db, new_tracker) auto_token = Inr (S', t')"
    by (simp add: perform_create_def registration_suspended_def create_in_block_def in_db_def
        example_settings_def example_db_def new_tracker_def auto_token_def
        example_token_def policy_create_def get_policy_def default_policy_def matches_def same_scope_def
        commit_ok_def represents_default_policy_def on_domain_post_save_def domain_updated_def)
  then obtain S' t' where c: "perform_create example_settings 9 ''e'' Inr (example_db, new_tracker) auto_token
      = Inr (S', t')" by blast
  have "auto_policy auto_token" "\<forall>p \<in> set (policies auto_token). p_domain p \<noteq> Some ''e''"
    by (simp_all add: auto_token_def default_policy_def)
  from created_domain_writable [OF c this] c show ?thesis by blast
qed

end
