(* ===== verification/TrackerExit.thy ===== *)
theory TrackerExit
  imports TrackerChanges
begin

text \<open>
  Leaving and entering the tracker's context: what a failing change does to the database and the
  requests sent, what a successful block publishes, and the counter against nesting.
\<close>

section \<open>Which part of the state an operation touches\<close>

definition frame :: "('w sys, terror, 'a) io \<Rightarrow> bool" where
  "frame m \<longleftrightarrow> (\<forall>s. api_db (snd (m s)) = api_db s \<and> active (snd (m s)) = active s)"

lemma frame_on_net: "frame (on_net m)"
  by (auto simp: frame_def on_net_def split: prod.splits sum.splits)

lemma frame_return: "frame (io_return x)"
  by (simp add: frame_def)

lemma frame_pdns_do: "frame (pdns_do E R c)"
  using frame_on_net by (cases c) (fastforce simp: frame_def split: sum.splits)+

lemma frame_pch_do: "frame (pch_do E url c)"
  by (cases c) (simp_all add: frame_on_net frame_return)

lemma frame_step: "frame m \<Longrightarrow> m s = (r, s') \<Longrightarrow> api_db s' = api_db s \<and> active s' = active s"
  unfolding frame_def by (metis snd_conv)

lemma api_do_effect:
  "api_do E c s = (r, s') \<Longrightarrow> active s' = active s \<and> net s' = net s \<and>
     published (api_db s') = published (api_db s) \<and> dom (zones (api_db s')) = dom (zones (api_db s))"
  by (cases c) (auto simp: put_rrset_def split: option.splits if_splits)

lemma do_change_effect:
  assumes "do_change E R url c s = (r, s')"
  shows "active s' = active s \<and> published (api_db s') = published (api_db s) \<and>
    dom (zones (api_db s')) = dom (zones (api_db s))"
proof -
  obtain r1 s1 where 1: "pdns_do E R c s = (r1, s1)" by (cases "pdns_do E R c s")
  obtain r2 s2 where 2: "api_do E c s1 = (r2, s2)" by (cases "api_do E c s1")
  obtain r3 s3 where 3: "(if pch_enabled (conf E) then pch_do E url c else io_return ()) s2 = (r3, s3)"
    by (cases "(if pch_enabled (conf E) then pch_do E url c else io_return ()) s2")
  have f3: "frame (if pch_enabled (conf E) then pch_do E url c else io_return ())"
    by (simp add: frame_pch_do frame_return)
  note e = frame_step [OF frame_pdns_do 1] api_do_effect [OF 2] frame_step [OF f3 3]
  from assms have "s' = s1 \<or> s' = s2 \<or> s' = s3"
    unfolding do_change_def io_bind_def using 1 2 3 by (auto split: sum.splits)
  with e show ?thesis by (elim disjE) simp_all
qed

section \<open>The loop over the changes\<close>

lemma do_changes_Inr:
  assumes "do_changes E R url db0 all cs s = (Inr u, s')"
  shows "active s' = active s \<and> published (api_db s') = published (api_db s) \<and>
    dom (zones (api_db s')) = dom (zones (api_db s))"
  using assms
proof (induction cs arbitrary: s)
  case (Cons c cs)
  then obtain v where "do_change E R url c s = (Inr (), v)"
    and "do_changes E R url db0 all cs v = (Inr u, s')"
    by (auto split: prod.splits sum.splits)
  with Cons.IH do_change_effect show ?case by metis
qed simp

lemma do_changes_Inl:
  assumes "do_changes E R url db0 all cs s = (Inl e, s')"
  shows "\<exists>pre c post v w x. cs = pre @ c # post \<and> do_changes E R url db0 all pre s = (Inr (), v) \<and>
    do_change E R url c v = (Inl x, w) \<and> e = ChangeFailed all c x \<and> s' = w\<lparr>api_db := db0\<rparr> \<and>
    active s' = active s"
  using assms
proof (induction cs arbitrary: s)
  case (Cons c cs)
  obtain r v where step: "do_change E R url c s = (r, v)" by (cases "do_change E R url c s")
  show ?case
  proof (cases r)
    case (Inl x)
    with step Cons.prems have "e = ChangeFailed all c x" "s' = v\<lparr>api_db := db0\<rparr>" by auto
    with step Inl do_change_effect [OF step]
    have "c # cs = [] @ c # cs \<and> do_changes E R url db0 all [] s = (Inr (), s) \<and>
      do_change E R url c s = (Inl x, v) \<and> e = ChangeFailed all c x \<and> s' = v\<lparr>api_db := db0\<rparr> \<and>
      active s' = active s" by simp
    then show ?thesis by blast
  next
    case (Inr u)
    with step Cons.prems have "do_changes E R url db0 all cs v = (Inl e, s')" by simp
    from Cons.IH [OF this] obtain pre b post v' w x where
      "cs = pre @ b # post" "do_changes E R url db0 all pre v = (Inr (), v')"
      "do_change E R url b v' = (Inl x, w)" "e = ChangeFailed all b x" "s' = w\<lparr>api_db := db0\<rparr>"
      "active s' = active v" by blast
    with step Inr do_change_effect [OF step]
    have "c # cs = (c # pre) @ b # post \<and> do_changes E R url db0 all (c # pre) s = (Inr (), v') \<and>
      do_change E R url b v' = (Inl x, w) \<and> e = ChangeFailed all b x \<and> s' = w\<lparr>api_db := db0\<rparr> \<and>
      active s' = active s" by simp
    then show ?thesis by blast
  qed
qed simp

lemma axfr_frame:
  "io_iter (\<lambda>d. on_net (axfr_to_master E d)) ds s = (r, s') \<Longrightarrow> api_db s' = api_db s \<and> active s' = active s"
proof (induction ds arbitrary: s)
  case (Cons d ds)
  obtain q v where step: "on_net (axfr_to_master E d) s = (q, v)"
    by (cases "on_net (axfr_to_master E d) s")
  note f = frame_step [OF frame_on_net step]
  show ?case
  proof (cases q)
    case (Inl e)
    with step f Cons.prems show ?thesis by (simp add: io_bind_def)
  next
    case (Inr u)
    with step f Cons show ?thesis by (simp add: io_bind_def)
  qed
qed simp

lemma axfr_error:
  "io_iter (\<lambda>d. on_net (axfr_to_master E d)) ds s = (Inl e, s') \<Longrightarrow> \<exists>x. e = PdnsError x"
proof -
  assume "io_iter (\<lambda>d. on_net (axfr_to_master E d)) ds s = (Inl e, s')"
  from io_iter_error_prefix [OF this] obtain d v where "on_net (axfr_to_master E d) v = (Inl e, s')"
    by blast
  then show ?thesis by (auto simp: on_net_def split: prod.splits sum.splits)
qed

lemma rmap_Inl: "rmap f xs = Inl e \<Longrightarrow> \<exists>x \<in> set xs. f x = Inl e"
  by (induction xs) (auto simp: result_simps)

lemma compute_changes_Inl: "compute_changes R D t = Inl e \<Longrightarrow> e = AssertionError"
  by (auto simp: compute_changes_def changes_of_def Let_def result_simps require_def
      dest!: rmap_Inl split: if_splits)

lemma tracker_exit_active:
  assumes "tracker_exit E R url now exc db0 t s = (r, s')"
  shows "active s' = active s - 1"
proof (cases exc)
  case True
  with assms show ?thesis by (auto simp: tracker_exit_def Let_def)
next
  case False
  let ?s = "s\<lparr>active := active s - 1\<rparr>"
  show ?thesis
  proof (cases "compute_changes R (api_db s) t")
    case (Inl e)
    with False assms show ?thesis by (auto simp: tracker_exit_def Let_def)
  next
    case (Inr cs)
    let ?ds = "od R (change_domain ` set (filter axfr_required cs))"
    obtain q v where run: "do_changes E R url db0 cs cs ?s = (q, v)"
      by (cases "do_changes E R url db0 cs cs ?s")
    obtain p w where it: "io_iter (\<lambda>d. on_net (axfr_to_master E d)) ?ds v = (p, w)"
      by (cases "io_iter (\<lambda>d. on_net (axfr_to_master E d)) ?ds v")
    have "active v = active s - 1"
    proof (cases q)
      case (Inl e)
      with do_changes_Inl [of E R url db0 cs cs ?s e v] run show ?thesis by auto
    next
      case (Inr u)
      with do_changes_Inr [of E R url db0 cs cs ?s u v] run show ?thesis by simp
    qed
    with axfr_frame [OF it] have "active w = active s - 1" "active v = active s - 1" by simp_all
    with assms False Inr run it show ?thesis
      by (auto simp: tracker_exit_def Let_def io_bind_def split: sum.splits)
  qed
qed

section \<open>Examples of an environment\<close>

definition constant_env :: "nat \<Rightarrow> http_request list env" where
  "constant_env code =
     \<lparr>send = (\<lambda>r w. (\<lparr>status_code = code, json_body = PyNone, content = []\<rparr>, r # w)),
      sha1_hex = (\<lambda>s. s), gethostbyname = (\<lambda>s. s),
      conf = \<lparr>default_ns = [''ns1.example.''], default_ns_ttl = 3600, local_public_suffixes = {},
        nslord_api = ''http://l'', nsmaster_api = ''http://m'', catalog_zone = ''catalog.internal'',
        pdns_max_body_size = 16777216, maximum_ttl = 86400, minimum_ttl_default = 3600,
        register_lps = True, pch_enabled = False\<rparr>\<rparr>"

lemma escape_char_length: "length (escape_char c) \<le> 6"
  by (simp add: escape_char_def Let_def)

lemma length_dumps_str: "length (dumps_str s) \<le> 6 * length s + 2"
proof -
  have "length (concat (map escape_char s)) \<le> 6 * length s"
    using escape_char_length by (induction s) (simp_all add: add_mono)
  then show ?thesis by (simp add: dumps_str_def)
qed

definition new_domain_tracker :: tracker where
  "new_domain_tracker = new_tracker\<lparr>domain_additions := {''e.f''}\<rparr>"

definition new_domain_sys :: "http_request list sys" where
  "new_domain_sys =
     \<lparr>api_db = \<lparr>zones = [''e.f'' \<mapsto> []], published = Map.empty\<rparr>, net = [], active = 1\<rparr>"

lemma new_domain_changes:
  "compute_changes name_order (api_db new_domain_sys) new_domain_tracker = Inr [CreateDomain ''e.f'']"
  by (simp add: compute_changes_def new_domain_tracker_def new_domain_sys_def new_tracker_def
      name_order_def changes_of_def get_set_def require_def)

lemma name_order_od: "od name_order = sorted_list_of_set"
  by (simp add: name_order_def)

lemma example_ids:
  "pdns_id ''catalog.internal'' = Inr ''catalog.internal.''" "pdns_id ''e.f'' = Inr ''e.f.''"
  by (simp_all add: pdns_id_domain translate_id_def domain_labels_ok_def label_over_def cls_label_def
      cls_tld_def is_lower_alnum_def)

section \<open>Properties\<close>

text \<open>C13: When a change fails, the context leaves the database as it was when the block began
  and names the change: the changes before it in the computed list were carried out, it raised
  the reported error, no request was made for any later one, and the tracker is closed.\<close>

theorem failed_change_rolls_back:
  assumes "tracker_exit E R url now False db0 t s = (Inl (ChangeFailed all c e), s')"
  shows "compute_changes R (api_db s) t = Inr all \<and> api_db s' = db0 \<and> active s' = active s - 1 \<and>
    (\<exists>pre post v w. all = pre @ c # post \<and>
       do_changes E R url db0 all pre (s\<lparr>active := active s - 1\<rparr>) = (Inr (), v) \<and>
       do_change E R url c v = (Inl e, w) \<and> net s' = net w)"
proof -
  let ?s = "s\<lparr>active := active s - 1\<rparr>"
  obtain cs where cs: "compute_changes R (api_db s) t = Inr cs"
  proof (cases "compute_changes R (api_db s) t")
    case (Inl x)
    with assms have "x = ChangeFailed all c e" by (simp add: tracker_exit_def Let_def)
    with compute_changes_Inl [OF Inl] show ?thesis by simp
  qed
  obtain r v where run: "do_changes E R url db0 cs cs ?s = (r, v)"
    by (cases "do_changes E R url db0 cs cs ?s")
  show ?thesis
  proof (cases r)
    case (Inr u)
    let ?names = "od R (change_domain ` set (filter axfr_required cs))"
    obtain q v' where it: "io_iter (\<lambda>d. on_net (axfr_to_master E d)) ?names v = (q, v')"
      by (cases "io_iter (\<lambda>d. on_net (axfr_to_master E d)) ?names v")
    with run Inr cs assms have "q = Inl (ChangeFailed all c e)"
      by (cases q) (simp_all add: tracker_exit_def Let_def io_bind_def)
    with axfr_error it show ?thesis by fastforce
  next
    case (Inl x)
    with run cs assms have x: "x = ChangeFailed all c e" and v: "v = s'"
      by (simp_all add: tracker_exit_def Let_def io_bind_def)
    from do_changes_Inl [OF run [unfolded Inl x v]] cs show ?thesis by auto
  qed
qed

theorem failed_change_rolls_back_witness:
  "\<exists>s'. tracker_exit (constant_env 500) name_order [] 7 False \<lparr>zones = Map.empty, published = Map.empty\<rparr>
       new_domain_tracker new_domain_sys =
     (Inl (ChangeFailed [CreateDomain ''e.f''] (CreateDomain ''e.f'') (PdnsError (PDNSException 500))), s') \<and>
     api_db s' = \<lparr>zones = Map.empty, published = Map.empty\<rparr>"
proof -
  let ?exit = "tracker_exit (constant_env 500) name_order [] 7 False
      \<lparr>zones = Map.empty, published = Map.empty\<rparr> new_domain_tracker new_domain_sys"
  have "fst ?exit = Inl (ChangeFailed [CreateDomain ''e.f''] (CreateDomain ''e.f'')
      (PdnsError (PDNSException 500)))"
    by (simp add: tracker_exit_def Let_def new_domain_changes do_change_def on_net_def io_bind_def
        create_zone_lord_def pdns_post_def pdns_request_def constant_env_def soa_content_def
        dumps_str_def escape_char_def show_int_def show_nat.simps rstrip_char_def
        split: prod.splits sum.splits)
  then obtain s' where "?exit = (Inl (ChangeFailed [CreateDomain ''e.f''] (CreateDomain ''e.f'')
      (PdnsError (PDNSException 500))), s')" by (cases ?exit) auto
  with failed_change_rolls_back [OF this] show ?thesis by blast
qed



text \<open>A block that raises sends nothing: the world outside is untouched and the database is
  the one the block started from.\<close>

lemma aborted_block_sends_nothing:
  "tracker_exit E R url now True db0 t s =
     (Inr (), \<lparr>api_db = db0, net = net s, active = active s - 1\<rparr>)"
  by (simp add: tracker_exit_def Let_def)

section \<open>Nesting\<close>

text \<open>Nested trackers are refused, but the refused attempt is counted: when the outer block
  has left, every later attempt to enter a tracker fails as well.\<close>

lemma nested_enter_blocks_trackers:
  assumes "active s0 = 0" and "tracker_enter s0 = (r0, s1)" and "tracker_enter s1 = (r1, s2)"
    and "tracker_exit E R url now exc db0 t s2 = (r2, s3)"
  shows "r1 = Inl AssertionError \<and> fst (tracker_enter s3) = Inl AssertionError"
  using assms(1-3) tracker_exit_active [OF assms(4)] by (auto simp: tracker_enter_def Let_def)

lemma nested_enter_blocks_trackers_witness:
  "\<exists>r3 s3. tracker_exit (constant_env 200) name_order [] 7 True (api_db new_domain_sys) new_tracker
       (new_domain_sys\<lparr>active := 2\<rparr>) = (r3, s3) \<and> fst (tracker_enter s3) = Inl AssertionError"
proof -
  obtain r3 s3 where e: "tracker_exit (constant_env 200) name_order [] 7 True (api_db new_domain_sys)
      new_tracker (new_domain_sys\<lparr>active := 2\<rparr>) = (r3, s3)" by (rule prod.exhaust)
  have "tracker_enter (new_domain_sys\<lparr>active := 0\<rparr>) =
      (Inr (new_tracker, api_db new_domain_sys), new_domain_sys\<lparr>active := 1\<rparr>)"
    "tracker_enter (new_domain_sys\<lparr>active := 1\<rparr>) =
      (Inl AssertionError, new_domain_sys\<lparr>active := 2\<rparr>)"
    by (simp_all add: tracker_enter_def Let_def)
  from nested_enter_blocks_trackers [OF _ this e] e show ?thesis by simp
qed

end
