(* ===== verification/BulkCorrect.thy ===== *)
theory BulkCorrect
  imports Bulk RecordsCorrect
begin

text \<open>
  What the list serializer's checks guarantee about the data it accepts, that applying accepted
  data never violates a constraint of the tables, and what it leaves in them.
\<close>

section \<open>The index of positions\<close>

definition base_row :: "zone \<Rightarrow> index \<Rightarrow> string option \<Rightarrow> row" where
  "base_row z ind s = (if map_of ind s = None then db_row z s else index_get ind s)"

lemma row_get_update: "row_get (AList.update t v row) u = (if u = t then v else row_get row u)"
  by (simp add: row_get_def update_conv')

lemma index_get_update: "index_get (AList.update s r ind) u = (if u = s then r else index_get ind u)"
  by (simp add: index_get_def update_conv')

lemma base_row_step:
  "base_row z (index_item z (i, s, t) ind) u =
     (if u = s then AList.update t (insert (Some i) (row_get (base_row z ind s) t)) (base_row z ind s)
      else base_row z ind u)"
  by (simp add: base_row_def index_item_def Let_def index_get_update update_conv')

lemma base_row_fold:
  "row_get (base_row z (fold (index_item z) ks ind) s) t =
     row_get (base_row z ind s) t \<union> {Some i |i. (i, s, t) \<in> set ks}"
proof (induction ks arbitrary: ind)
  case (Cons p ks)
  obtain i s' t' where p: "p = (i, s', t')" by (cases p) auto
  show ?case by (auto simp: Cons.IH p base_row_step row_get_update)
qed simp

lemma db_row_get: "row_get (db_row z s) t =
    (if \<exists>ty sn. t = Some ty \<and> s = Some sn \<and> (ty, sn) \<in> keys z then {None} else {})"
proof -
  have "row_get (map (\<lambda>k. (Some (fst k), {None})) (filter (\<lambda>k. Some (snd k) = s) ks)) t =
      (if \<exists>ty sn. t = Some ty \<and> s = Some sn \<and> (ty, sn) \<in> set ks then {None} else {})"
    for ks :: "rrkey list"
    by (induction ks) (auto simp: row_get_def)
  then show ?thesis by (simp add: db_row_def)
qed

lemma index_seen: "map_of (fold (index_item z) ks ind) s \<noteq> None \<longleftrightarrow>
    map_of ind s \<noteq> None \<or> (\<exists>i t. (i, s, t) \<in> set ks)"
proof (induction ks arbitrary: ind)
  case (Cons p ks)
  obtain i s' t' where p: "p = (i, s', t')" by (cases p) auto
  have "map_of (index_item z p ind) s \<noteq> None \<longleftrightarrow> map_of ind s \<noteq> None \<or> s = s'"
    by (simp add: p index_item_def Let_def update_conv')
  with Cons.IH p show ?case by auto
qed simp

definition ikeys :: "zone \<Rightarrow> ikey set" where
  "ikeys z = {(Some sn, Some ty) |sn ty. (ty, sn) \<in> keys z}"

definition positions :: "pyval list \<Rightarrow> (nat \<times> ikey) set" where
  "positions items = {(i, k) |i k. i < length items \<and> item_key (items ! i) = Inr k}"

lemma good_items_set:
  "set (good_items items) = {(i, items ! i, k) |i k. i < length items \<and> item_key (items ! i) = Inr k}"
  by (force simp: good_items_def in_set_enumerate_eq split: sum.splits)

lemma good_positions: "set (map (\<lambda>(i, item, k). (i, k)) (good_items items)) = positions items"
  unfolding set_map good_items_set positions_def by force

lemma indices_get:
  assumes "(i, s, t) \<in> positions items"
  shows "row_get (index_get (indices z items) s) u =
    {Some j |j. (j, s, u) \<in> positions items} \<union> (if (s, u) \<in> ikeys z then {None} else {})"
proof -
  let ?ks = "map (\<lambda>(i, item, k). (i, k)) (good_items items)"
  have "map_of (indices z items) s \<noteq> None"
    unfolding indices_def index_seen good_positions using assms by auto
  then have "index_get (indices z items) s = base_row z (indices z items) s"
    by (auto simp: base_row_def)
  then have "row_get (index_get (indices z items) s) u =
      row_get (db_row z s) u \<union> {Some j |j. (j, s, u) \<in> positions items}"
    unfolding indices_def by (simp add: base_row_fold good_positions [symmetric]) (simp add: base_row_def)
  moreover have "row_get (db_row z s) u = (if (s, u) \<in> ikeys z then {None} else {})"
    unfolding db_row_get ikeys_def by (rule if_cong) blast+
  ultimately show ?thesis by (simp only: Un_commute)
qed

lemma collapse_fold:
  "row_get (index_get (fold collapse_item es ind) s) t =
     row_get (index_get ind s) t - (\<Union>{{Some i, None} |i. (i, s, t) \<in> set es})"
proof (induction es arbitrary: ind)
  case (Cons p es)
  obtain i s' t' where p: "p = (i, s', t')" by (cases p) auto
  have "row_get (index_get (collapse_item p ind) s) t =
      (if s = s' \<and> t = t' then row_get (index_get ind s) t - {Some i, None} else row_get (index_get ind s) t)"
    by (simp add: p collapse_item_def Let_def index_get_update row_get_update)
  then show ?case by (auto simp: Cons.IH p)
qed simp

definition empties :: "pyval list \<Rightarrow> (nat \<times> ikey) set" where
  "empties items = {(i, k) \<in> positions items. records_empty (items ! i)}"

lemma collapsed_get:
  "row_get (index_get (collapsed_indices z items) s) t =
     row_get (index_get (indices z items) s) t - (\<Union>{{Some i, None} |i. (i, s, t) \<in> empties items})"
proof -
  have "set (map (\<lambda>(i, item, k). (i, k)) (filter (\<lambda>(i, item, k). records_empty item) (good_items items))) =
      empties items"
    unfolding set_map set_filter good_items_set empties_def positions_def by force
  then show ?thesis by (simp add: collapsed_indices_def collapse_fold)
qed

section \<open>What accepted data satisfy\<close>

lemma check_item_Inr:
  assumes "check_item ind coll i item (s, t) = Inr ()"
  shows "card (row_get (index_get ind s) t - {None}) \<le> 1"
    and "\<not> records_empty item \<Longrightarrow> (u = Some ''CNAME'') \<noteq> (t = Some ''CNAME'') \<Longrightarrow>
      row_get (index_get coll s) u = {}"
proof -
  from assms show "card (row_get (index_get ind s) t - {None}) \<le> 1"
    by (auto simp: check_item_def Let_def invalid_def split: if_splits)
  assume ne: "\<not> records_empty item" and u: "(u = Some ''CNAME'') \<noteq> (t = Some ''CNAME'')"
  from assms ne have no: "\<forall>v \<in> snd ` set (conflicting_row (index_get coll s) t). v = {}"
    by (auto simp: check_item_def Let_def invalid_def split: if_splits sum.splits)
  show "row_get (index_get coll s) u = {}"
  proof (cases "map_of (index_get coll s) u")
    case (Some v)
    then have "(u, v) \<in> set (conflicting_row (index_get coll s) t)"
      using u by (auto simp: conflicting_row_def dest: map_of_SomeD)
    with no Some show ?thesis by (force simp: row_get_def)
  qed (simp add: row_get_def)
qed

lemma item_key_error: "item_key item \<noteq> Inl []"
  by (auto simp: item_key_def split: pyval.splits sum.splits)

lemma check_item_error: "check_item ind coll i item k \<noteq> Inl (Invalid [])"
  by (auto simp: check_item_def Let_def invalid_def split: prod.splits sum.splits if_splits)

lemma collect_items_Inr:
  "collect_items rs = Inr is \<Longrightarrow> (\<forall>i \<in> set is. item_errors i = []) \<Longrightarrow> r \<in> set rs \<Longrightarrow>
   (\<exists>v. r = Inr v) \<or> r = Inl (Invalid [])"
proof (induction rs arbitrary: "is" rule: collect_items.induct)
  case (3 e rs)
  then obtain js where "collect_items rs = Inr js" "is = ItemBad e # js"
    by (auto simp: result_simps)
  with 3 show ?case by (auto simp: item_errors_def)
qed (auto simp: result_simps)

lemma to_internal_value_checks:
  assumes "to_internal_value rv z partial ae hp known (PyList items) = Inr vs" and "i < length items"
  shows "\<exists>k. item_key (items ! i) = Inr k \<and>
    check_item (indices z items) (collapsed_indices z items) i (items ! i) k = Inr ()"
proof -
  let ?v = "\<lambda>(i, item). validate_item rv partial known (indices z items) (collapsed_indices z items) i item"
  from assms(1) obtain "is" where "collect_items (map ?v (enumerate 0 items)) = Inr is"
    "\<forall>i \<in> set is. item_errors i = []"
    by (auto simp: to_internal_value_def Let_def result_simps split: if_splits)
  from collect_items_Inr [OF this] assms(2) have
    v: "(\<exists>v. ?v (i, items ! i) = Inr v) \<or> ?v (i, items ! i) = Inl (Invalid [])"
    by (force simp: in_set_enumerate_eq)
  show ?thesis
  proof (cases "item_key (items ! i)")
    case (Inl e)
    with v item_key_error show ?thesis by (auto simp: validate_item_def)
  next
    case (Inr k)
    with v check_item_error show ?thesis
      by (cases "check_item (indices z items) (collapsed_indices z items) i (items ! i) k")
        (auto simp: validate_item_def)
  qed
qed

definition cname_exclusive :: "ikey set \<Rightarrow> bool" where
  "cname_exclusive K \<longleftrightarrow>
     (\<forall>s t u. (s, t) \<in> K \<longrightarrow> (s, u) \<in> K \<longrightarrow> (t = Some ''CNAME'' \<longleftrightarrow> u = Some ''CNAME''))"

text \<open>The keys in the table once the data are applied: rows with empty records go, others come.\<close>

definition keys_after :: "ikey set \<Rightarrow> pyval list \<Rightarrow> ikey set" where
  "keys_after K items =
     (K - {k. \<exists>item \<in> set items. item_key item = Inr k \<and> records_empty item}) \<union>
     {k. \<exists>item \<in> set items. item_key item = Inr k \<and> \<not> records_empty item}"

lemma accepted_keys:
  assumes acc: "to_internal_value rv z partial ae hp known (PyList items) = Inr vs"
  shows "\<exists>ks. map item_key items = map Inr ks \<and> distinct ks"
proof -
  obtain f where k: "\<And>i. i < length items \<Longrightarrow> item_key (items ! i) = Inr (f i)"
    using to_internal_value_checks [OF acc] by metis
  have inj: "i = j" if "i < length items" "j < length items" "f i = f j" for i j
  proof -
    obtain s t where st: "f i = (s, t)" by (cases "f i")
    then have ij: "(i, s, t) \<in> positions items" "(j, s, t) \<in> positions items"
      using k [OF that(1)] k [OF that(2)] that by (simp_all add: positions_def)
    define P where "P = {Some j |j. (j, s, t) \<in> positions items}"
    have "finite P" unfolding P_def
      by (rule finite_subset [of _ "Some ` {..< length items}"]) (auto simp: positions_def)
    moreover have "row_get (index_get (indices z items) s) t - {None} = P"
      unfolding P_def indices_get [OF ij(1)] by auto
    then have "card P \<le> Suc 0"
      using to_internal_value_checks [OF acc that(1)] check_item_Inr(1) k [OF that(1)] st
      by (metis One_nat_def sum.inject(2))
    ultimately have "\<forall>a \<in> P. \<forall>b \<in> P. a = b" by (simp only: card_le_Suc0_iff_eq)
    moreover have "Some i \<in> P" "Some j \<in> P" using ij by (auto simp: P_def)
    ultimately show ?thesis by blast
  qed
  have "map item_key items = map Inr (map f [0..<length items])"
    by (rule nth_equalityI) (simp_all add: k)
  moreover have "distinct (map f [0..<length items])"
    using inj by (auto simp: distinct_conv_nth)
  ultimately show ?thesis by blast
qed

lemma accepted_exclusive:
  assumes acc: "to_internal_value rv z partial ae hp known (PyList items) = Inr vs"
    and K: "cname_exclusive (ikeys z)"
  shows "cname_exclusive (keys_after (ikeys z) items)"
proof -
  have new: "(t = Some ''CNAME'') = (u = Some ''CNAME'')"
    if n: "item \<in> set items" "item_key item = Inr (s, t)" "\<not> records_empty item"
      and u: "(s, u) \<in> keys_after (ikeys z) items" for item s t u
  proof (rule ccontr)
    assume ne: "(t = Some ''CNAME'') \<noteq> (u = Some ''CNAME'')"
    from n(1) obtain i where i: "i < length items" "items ! i = item" by (auto simp: in_set_conv_nth)
    with n have p: "(i, s, t) \<in> positions items" by (simp add: positions_def)
    from to_internal_value_checks [OF acc i(1)] i n
    have "check_item (indices z items) (collapsed_indices z items) i item (s, t) = Inr ()" by auto
    from check_item_Inr(2) [OF this n(3)] ne
    have none: "row_get (index_get (collapsed_indices z items) s) u = {}" by blast
    show False
    proof (cases "\<exists>item' \<in> set items. item_key item' = Inr (s, u) \<and> \<not> records_empty item'")
      case True
      then obtain j where j: "j < length items" "item_key (items ! j) = Inr (s, u)"
        "\<not> records_empty (items ! j)" by (auto simp: in_set_conv_nth)
      then have "Some j \<in> row_get (index_get (indices z items) s) u"
        "(j, s, u) \<notin> empties items"
        by (auto simp: indices_get [OF p] positions_def empties_def)
      then have "Some j \<in> row_get (index_get (collapsed_indices z items) s) u"
        by (auto simp: collapsed_get)
      with none show False by simp
    next
      case False
      with u have db: "(s, u) \<in> ikeys z"
        and ne: "\<not> (\<exists>item \<in> set items. item_key item = Inr (s, u) \<and> records_empty item)"
        by (auto simp: keys_after_def)
      from db have "None \<in> row_get (index_get (indices z items) s) u"
        by (simp add: indices_get [OF p])
      moreover have "(j, s, u) \<notin> empties items" for j
        using ne by (auto simp: empties_def positions_def)
      ultimately have "None \<in> row_get (index_get (collapsed_indices z items) s) u"
        by (auto simp: collapsed_get)
      with none show False by simp
    qed
  qed
  show ?thesis
    unfolding cname_exclusive_def
  proof (intro allI impI)
    fix s t u assume t: "(s, t) \<in> keys_after (ikeys z) items" and u: "(s, u) \<in> keys_after (ikeys z) items"
    show "(t = Some ''CNAME'') = (u = Some ''CNAME'')"
    proof (cases "(s, t) \<in> ikeys z \<and> (s, u) \<in> ikeys z")
      case True
      with K show ?thesis by (auto simp: cname_exclusive_def)
    next
      case False
      with t u consider item where "item \<in> set items" "item_key item = Inr (s, t)" "\<not> records_empty item"
        | item where "item \<in> set items" "item_key item = Inr (s, u)" "\<not> records_empty item"
        by (auto simp: keys_after_def)
      then show ?thesis using new t u by cases metis+
    qed
  qed
qed

text \<open>C11: The list serializer accepts only data whose items are objects with string keys, no two of
  them for the same subname and type, and such that after applying them no subname has a CNAME
  RRset beside another one, counting the rows that stay and leaving out those the data delete,
  provided the table had none before.\<close>

theorem accepted_data_consistent:
  assumes "to_internal_value run_validation z partial allow_empty has_parent known (PyList items) = Inr vs"
    and "cname_exclusive (ikeys z)"
  shows "(\<exists>ks. map item_key items = map Inr ks \<and> distinct ks) \<and>
    cname_exclusive (keys_after (ikeys z) items)"
  using accepted_keys [OF assms(1)] accepted_exclusive [OF assms] by blast

lemmas list_defs = to_internal_value_def Let_def indices_def collapsed_indices_def good_items_def
  item_key_def index_item_def collapse_item_def index_get_def row_get_def db_row_def records_empty_def
  validate_item_def check_item_def conflicting_row_def known_key_def item_errors_def item_values_def

text \<open>A field parser that takes every item as it is, for the examples.\<close>

definition parse_item :: "bool \<Rightarrow> rrkey option \<Rightarrow> pyval \<Rightarrow> (verr, vitem) result" where
  "parse_item partial inst item =
     (case (item_get item ''type'', item_get item ''subname'') of
        (PyStr t, PyStr s) \<Rightarrow>
          Inr \<lparr>v_type = t, v_subname = s, v_ttl = None,
               v_records = (if records_empty item then Some [] else None)\<rparr>
      | _ \<Rightarrow> Inl (Invalid [(nfe, ''This field is required.'')]))"

definition swap_items :: "pyval list" where
  "swap_items =
     [PyDict [(''subname'', PyStr ''w''), (''type'', PyStr ''A''), (''records'', PyList [])],
      PyDict [(''subname'', PyStr ''w''), (''type'', PyStr ''CNAME''), (''records'', PyList [PyStr ''x.''])]]"

theorem accepted_data_consistent_witness:
  "cname_exclusive (keys_after (ikeys [((''A'', ''w''), \<lparr>ttl = 60, records = [''192.0.2.1'']\<rparr>)]) swap_items)"
proof -
  let ?z = "[((''A'', ''w''), \<lparr>ttl = 60, records = [''192.0.2.1'']\<rparr>)]"
  have run: "to_internal_value parse_item ?z True True False {(''A'', ''w'')} (PyList swap_items) =
      Inr [\<lparr>v_type = ''A'', v_subname = ''w'', v_ttl = None, v_records = Some []\<rparr>,
           \<lparr>v_type = ''CNAME'', v_subname = ''w'', v_ttl = None, v_records = None\<rparr>]"
    by (simp add: swap_items_def list_defs parse_item_def)
  have "cname_exclusive (ikeys ?z)" by (simp add: cname_exclusive_def ikeys_def)
  from accepted_data_consistent [OF run this] show ?thesis by blast
qed

section \<open>Inputs the checks do not handle\<close>

text \<open>An item without a type beside a CNAME at the same subname: building the message joins a list
  that contains \<open>None\<close>, and the request ends in a \<open>TypeError\<close> instead of a validation error.\<close>

lemma missing_type_crashes:
  "to_internal_value parse_item [] False True False {}
     (PyList [PyDict [(''subname'', PyStr ''x''), (''type'', PyStr ''CNAME''), (''records'', PyList [PyStr ''a.''])],
              PyDict [(''subname'', PyStr ''x'')]]) = Inl (ListCrash ''TypeError'')"
  by (simp add: list_defs types_by_position_string_def types_at_def)

text \<open>Deleting an NS RRset that does not exist, of a locally registrable domain, in a list: the
  default of \<open>attrs.get\<close> reads the subname of an instance that is \<open>None\<close>.\<close>

lemma absent_ns_deletion_crashes:
  "x_registrable X \<Longrightarrow> \<not> length (construct_name s (x_domain X)) > 65247 \<Longrightarrow>
   validate X None \<lparr>a_subname = Some s, a_type = Some ''NS'', a_ttl = t, a_records = Some []\<rparr> =
     Inl (Crash ''AttributeError'')"
  by (simp add: validate_def validate_canonical_presentation_def validate_ci_uniqueness_def
      validate_length_def conservative_total_length_def validate_blocked_content_def validate_ns_def Let_def)

section \<open>One RRset\<close>

text \<open>C18: The attributes the RRset serializer accepts, with the type of the request or, on the endpoint for one
  RRset, that of the instance: their records are in canonical form, no two equal on the wire, within
  the limit on the total length of an answer, and none in a blocked subnet when it is an A record of
  a locally registrable domain; NS records of such a domain are never set, and only deleted below the
  apex. Nothing else of the attributes is changed.\<close>

theorem validate_sound:
  assumes "validate X inst a = Inr b"
  shows "\<exists>ty. (if a_type a = None \<or> a_type a = Some [] then map_option fst inst = Some ty else a_type a = Some ty) \<and>
    (a_records a = None \<longrightarrow> b = a) \<and>
    (\<forall>rs. a_records a = Some rs \<longrightarrow> (\<exists>cs. b = a\<lparr>a_records := Some cs\<rparr> \<and>
       list_all2 (canonical_form (x_codec X) ty) rs cs \<and>
       (1 < length cs \<longrightarrow> (\<exists>ws. list_all2 (\<lambda>c w. wire (x_codec X) ty c True = Inr w) cs ws \<and> distinct ws)) \<and>
       32 + length (construct_name (case a_subname a of None \<Rightarrow> [] | Some s \<Rightarrow> s) (x_domain X)) +
         (\<Sum>c\<leftarrow>cs. 12 + length c) + 256 \<le> 65535 \<and>
       (ty = ''A'' \<longrightarrow> x_registrable X \<longrightarrow> (\<forall>c \<in> set cs. \<not> blocked X c)))) \<and>
    (ty = ''NS'' \<longrightarrow> x_registrable X \<longrightarrow> a_records b = Some [] \<and>
      (\<exists>k. inst = Some k \<and> (case a_subname a of None \<Rightarrow> snd k | Some s \<Rightarrow> s) \<noteq> []))"
proof -
  let ?type = "\<lambda>ty. if a_type a = None \<or> a_type a = Some [] then map_option fst inst = Some ty else a_type a = Some ty"
  let ?t = "case a_type a of
              Some ty \<Rightarrow> if ty \<noteq> [] then Inr ty
                         else (case inst of None \<Rightarrow> Inl (Crash ''AttributeError'') | Some k \<Rightarrow> Inr (fst k))
            | None \<Rightarrow> (case inst of None \<Rightarrow> Inl (Crash ''AttributeError'') | Some k \<Rightarrow> Inr (fst k))"
  from assms obtain ty where t: "?t = Inr ty" unfolding validate_def rbind_Inr_iff by blast
  then have ty: "?type ty" by (auto split: option.splits if_splits)
  from assms t obtain a' where recs: "(case a_records a of None \<Rightarrow> Inr a
        | Some rs \<Rightarrow>
            rbind (validate_canonical_presentation X rs ty) (\<lambda>cs.
            rbind (validate_ci_uniqueness X cs ty) (\<lambda>_.
            rbind (validate_length X (a_subname a) cs) (\<lambda>_.
            rbind (validate_blocked_content X cs ty) (\<lambda>_. Inr (a\<lparr>a_records := Some cs\<rparr>)))))) = Inr a'"
    and rest: "rbind (validate_ns X inst a' ty) (\<lambda>_. Inr a') = Inr b"
    unfolding validate_def by (simp only: rbind_Inr_iff sum.inject) blast
  from rest have ns: "validate_ns X inst a' ty = Inr ()" and b: "b = a'" by (auto simp: rbind_Inr_iff)
  have records: "\<exists>cs. b = a\<lparr>a_records := Some cs\<rparr> \<and> list_all2 (canonical_form (x_codec X) ty) rs cs \<and>
       (1 < length cs \<longrightarrow> (\<exists>ws. list_all2 (\<lambda>c w. wire (x_codec X) ty c True = Inr w) cs ws \<and> distinct ws)) \<and>
       32 + length (construct_name (case a_subname a of None \<Rightarrow> [] | Some s \<Rightarrow> s) (x_domain X)) +
         (\<Sum>c\<leftarrow>cs. 12 + length c) + 256 \<le> 65535 \<and>
       (ty = ''A'' \<longrightarrow> x_registrable X \<longrightarrow> (\<forall>c \<in> set cs. \<not> blocked X c))"
    if rs: "a_records a = Some rs" for rs
  proof -
    from recs rs obtain cs where c: "validate_canonical_presentation X rs ty = Inr cs"
      "validate_ci_uniqueness X cs ty = Inr ()" "validate_length X (a_subname a) cs = Inr ()"
      "validate_blocked_content X cs ty = Inr ()" "a' = a\<lparr>a_records := Some cs\<rparr>"
      by (auto simp: rbind_Inr_iff)
    have "rmap (\<lambda>r. canonical_presentation_format (x_codec X) r ty) rs = Inr cs"
      using c(1) by (auto simp: validate_canonical_presentation_def invalid_def split: sum.splits rec_error.splits)
    then have "list_all2 (canonical_form (x_codec X) ty) rs cs" by (simp add: rmap_Inr_list canonical_form_iff)
    moreover have "\<exists>ws. list_all2 (\<lambda>c w. wire (x_codec X) ty c True = Inr w) cs ws \<and> distinct ws" if "1 < length cs"
    proof -
      from c(2) that obtain ts where ts: "rmap (\<lambda>r. to_wire (x_codec X) ty r True) cs = Inr ts"
        "length cs = card (set ts)"
        by (auto simp: validate_ci_uniqueness_def invalid_def split: sum.splits if_splits)
      from ts(1) have l: "list_all2 (\<lambda>r t. to_wire (x_codec X) ty r True = Inr t) cs ts" by (simp add: rmap_Inr_list)
      then have w: "list_all2 (\<lambda>r t. wire (x_codec X) ty r True = Inr (snd t) \<and> fst t = ty) cs ts"
        by (rule list_all2_mono) (auto simp: to_wire_def rbind_Inr_iff)
      have "distinct ts" using ts(2) list_all2_lengthD [OF l] by (simp add: card_distinct)
      moreover have "\<forall>t \<in> set ts. fst t = ty"
        using w by (auto simp: list_all2_conv_all_nth in_set_conv_nth) (metis fst_conv)
      ultimately have "distinct (map snd ts)" by (auto simp: distinct_map inj_on_def prod_eq_iff)
      moreover have "list_all2 (\<lambda>c w. wire (x_codec X) ty c True = Inr w) cs (map snd ts)"
        using w by (auto simp: list_all2_conv_all_nth)
      ultimately show ?thesis by blast
    qed
    moreover have "32 + length (construct_name (case a_subname a of None \<Rightarrow> [] | Some s \<Rightarrow> s) (x_domain X)) +
         (\<Sum>c\<leftarrow>cs. 12 + length c) + 256 \<le> 65535"
      using c(3) by (auto simp: validate_length_def conservative_total_length_def Let_def invalid_def split: if_splits)
    moreover have "\<forall>c \<in> set cs. \<not> blocked X c" if "ty = ''A''" "x_registrable X"
    proof -
      have "rfold (\<lambda>r _. if blocked X r then invalid (''IP address '' @ r @ '' not allowed.'') else Inr ()) cs () = Inr ()"
        using c(4) that by (simp add: validate_blocked_content_def)
      then show ?thesis by (induction cs) (auto simp: invalid_def split: if_splits)
    qed
    ultimately show ?thesis using c(5) b by blast
  qed
  have "a_records b = Some [] \<and> (\<exists>k. inst = Some k \<and> (case a_subname a of None \<Rightarrow> snd k | Some s \<Rightarrow> s) \<noteq> [])"
    if "ty = ''NS''" "x_registrable X"
  proof -
    have "a_subname a' = a_subname a" using recs by (auto simp: rbind_Inr_iff split: option.splits)
    with ns that b show ?thesis by (auto simp: validate_ns_def Let_def split: if_splits option.splits)
  qed
  moreover have "a_records a = None \<longrightarrow> b = a" using recs b by auto
  ultimately show ?thesis using ty records by (intro exI [of _ ty] conjI) blast+
qed

definition example_ctx :: ctx where
  "example_ctx = \<lparr>x_domain = ''d'', x_registrable = False, x_minimum_ttl = 60, x_codec = plain_codec,
     x_dnspython = {}, name_too_long = (\<lambda>_ _. False), blocked = (\<lambda>_. False)\<rparr>"

text \<open>Once with the type in the request, and once on the endpoint for an RRset that exists.\<close>

theorem validate_sound_witness:
  "(\<exists>cs. validate example_ctx None \<lparr>a_subname = Some ''w'', a_type = Some ''A'', a_ttl = Some 60,
       a_records = Some [''192.0.2.1'']\<rparr> =
     Inr \<lparr>a_subname = Some ''w'', a_type = Some ''A'', a_ttl = Some 60, a_records = Some cs\<rparr> \<and>
     list_all2 (canonical_form plain_codec ''A'') [''192.0.2.1''] cs) \<and>
   (\<exists>cs. validate example_ctx (Some (''A'', ''w'')) \<lparr>a_subname = None, a_type = None, a_ttl = Some 60,
       a_records = Some [''192.0.2.1'']\<rparr> =
     Inr \<lparr>a_subname = None, a_type = None, a_ttl = Some 60, a_records = Some cs\<rparr> \<and>
     list_all2 (canonical_form plain_codec ''A'') [''192.0.2.1''] cs)"
proof -
  note defs = validate_def validate_canonical_presentation_def validate_ci_uniqueness_def validate_length_def
    conservative_total_length_def construct_name_def validate_blocked_content_def validate_ns_def Let_def
    example_ctx_def plain_canonical
  have run: "validate example_ctx None \<lparr>a_subname = Some ''w'', a_type = Some ''A'', a_ttl = Some 60,
       a_records = Some [''192.0.2.1'']\<rparr> =
     Inr \<lparr>a_subname = Some ''w'', a_type = Some ''A'', a_ttl = Some 60, a_records = Some [''192.0.2.1'']\<rparr>"
    by (simp add: defs)
  have run': "validate example_ctx (Some (''A'', ''w'')) \<lparr>a_subname = None, a_type = None, a_ttl = Some 60,
       a_records = Some [''192.0.2.1'']\<rparr> =
     Inr \<lparr>a_subname = None, a_type = None, a_ttl = Some 60, a_records = Some [''192.0.2.1'']\<rparr>"
    by (simp add: defs)
  have X: "x_codec example_ctx = plain_codec" by (simp add: example_ctx_def)
  show ?thesis using validate_sound [OF run] run validate_sound [OF run'] run' by (intro conjI) (auto simp: X)
qed

end
