(* ===== verification/BulkApply.thy ===== *)
theory BulkApply
  imports BulkCorrect
begin

text \<open>
  Applying validated data to a zone: the list serializer's update succeeds and does to each RRset
  what the data say, without ever running into a constraint of the tables.
\<close>

declare split_paired_All [simp del] split_paired_Ex [simp del]

section \<open>Specification\<close>

text \<open>What one item does to its RRset.\<close>

definition applied :: "ctx \<Rightarrow> vitem \<Rightarrow> rrset option \<Rightarrow> rrset option \<Rightarrow> bool" where
  "applied X v old new =
     (if is_empty v then new = None
      else \<exists>r. new = Some r \<and> distinct (records r) \<and>
        (case v_records v of
           None \<Rightarrow> (\<exists>r0. old = Some r0 \<and> records r = records r0)
         | Some rs \<Rightarrow> clean_records (x_codec X) (x_domain X) (vkey v) rs = Inr (set (records r))) \<and>
        (case old of
           None \<Rightarrow> v_ttl v = Some (ttl r)
         | Some r0 \<Rightarrow> ttl r = (case v_ttl v of None \<Rightarrow> ttl r0 | Some n \<Rightarrow> if n = 0 then ttl r0 else n)))"

definition zone_exclusive :: "rrkey set \<Rightarrow> bool" where
  "zone_exclusive K \<longleftrightarrow>
     (\<forall>j \<in> K. \<forall>k \<in> K. snd j = snd k \<longrightarrow> (fst j = ''CNAME'' \<longleftrightarrow> fst k = ''CNAME''))"

text \<open>The state of the loops: \<open>F\<close> bounds the keys of the zone.\<close>

definition loop_inv :: "ctx \<Rightarrow> rrkey set \<Rightarrow> tracked \<Rightarrow> bool" where
  "loop_inv X F S \<longleftrightarrow> tracked_inv S \<and> zones (fst S) (x_domain X) \<noteq> None \<and>
     (\<forall>k r. lookup_rrset (fst S) (x_domain X) k = Some r \<longrightarrow> k \<in> F \<and> distinct (records r))"

section \<open>The three steps\<close>

lemma loop_inv_zone:
  assumes "loop_inv X F (D, t)"
  obtains z where "zones D (x_domain X) = Some z" and "lookup_rrset D (x_domain X) = map_of z"
    and "keys z \<subseteq> F"
proof -
  from assms obtain z where z: "zones D (x_domain X) = Some z" by (auto simp: loop_inv_def)
  moreover have l: "lookup_rrset D (x_domain X) = map_of z" using z by (rule lookup_Some)
  moreover have "keys z \<subseteq> F"
  proof
    fix k assume "k \<in> keys z"
    then obtain r where "map_of z k = Some r" by (auto simp: keys_map_of)
    with l have "lookup_rrset D (x_domain X) k = Some r" by simp
    with assms show "k \<in> F" by (auto simp: loop_inv_def)
  qed
  ultimately show ?thesis by (rule that)
qed

lemma delete_item:
  assumes inv: "loop_inv X F (D, t)" and k: "lookup_rrset D (x_domain X) k \<noteq> None"
  shows "\<exists>S'. rrset_delete X k (D, t) = Inr S' \<and> loop_inv X F S' \<and>
    lookup_rrset (fst S') (x_domain X) k = None \<and>
    (\<forall>j. j \<noteq> k \<longrightarrow> lookup_rrset (fst S') (x_domain X) j = lookup_rrset D (x_domain X) j)"
proof -
  from inv obtain z where z: "zones D (x_domain X) = Some z" by (rule loop_inv_zone)
  from k obtain r where "lookup_rrset D (x_domain X) k = Some r" by blast
  then have "rrset_of D (x_domain X) k = Inr r" by (simp add: rrset_of_lookup)
  from rrset_delete_good [OF _ this, of t] inv obtain t'
    where t': "rrset_delete_step (x_domain X) k (D, t) = Inr (drop_rrset (x_domain X) k D, t')"
      "tracked_inv (drop_rrset (x_domain X) k D, t')" by (auto simp: loop_inv_def)
  then have "rrset_delete X k (D, t) = Inr (drop_rrset (x_domain X) k D, t')"
    by (simp add: rrset_delete_def in_db_def)
  moreover have "loop_inv X F (drop_rrset (x_domain X) k D, t')"
    using inv t'(2) z lookup_drop_rrset [OF z, of k "x_domain X"]
    by (auto simp: loop_inv_def drop_rrset_Some split: if_splits)
  ultimately show ?thesis using lookup_drop_rrset [OF z, of k "x_domain X"] by auto
qed

lemma save_item:
  assumes inv: "loop_inv X F (D, t)" and r: "lookup_rrset D (x_domain X) k = Some r"
    and new: "clean_records (x_codec X) (x_domain X) k rs = Inr new" and so: "lawful_list so"
  shows "\<exists>S' r'. set_all_record_contents X so k rs (D, t) = Inr S' \<and> loop_inv X F S' \<and>
    lookup_rrset (fst S') (x_domain X) k = Some r' \<and> set (records r') = new \<and> distinct (records r') \<and>
    ttl r' = ttl r \<and>
    (\<forall>j. j \<noteq> k \<longrightarrow> lookup_rrset (fst S') (x_domain X) j = lookup_rrset D (x_domain X) j)"
proof -
  from inv r have "tracked_inv (D, t)" "distinct (records r)" "k \<in> F" by (auto simp: loop_inv_def)
  from save_records_ok [OF this(1) r this(2) new so] obtain D' t' r'
    where s: "save_records (x_codec X) so (x_domain X) k rs (D, t) = Inr (D', t')" "tracked_inv (D', t')"
      "lookup_rrset D' (x_domain X) k = Some r'" "set (records r') = new" "distinct (records r')"
      "ttl r' = ttl r" "\<forall>e j. (e, j) \<noteq> (x_domain X, k) \<longrightarrow> lookup_rrset D' e j = lookup_rrset D e j"
    by blast
  have other: "\<forall>j. j \<noteq> k \<longrightarrow> lookup_rrset D' (x_domain X) j = lookup_rrset D (x_domain X) j"
    using s(7) by blast
  have "zones D' (x_domain X) \<noteq> None" using s(3) by (auto simp: lookup_rrset_def split: option.splits)
  moreover have "j \<in> F \<and> distinct (records q)" if "lookup_rrset D' (x_domain X) j = Some q" for j q
    using that other s(3,5) \<open>k \<in> F\<close> inv by (cases "j = k") (auto simp: loop_inv_def)
  ultimately have "loop_inv X F (D', t')" using s(2) by (simp add: loop_inv_def)
  moreover have "set_all_record_contents X so k rs (D, t) = Inr (D', t')"
    using s(1) by (simp add: set_all_record_contents_def)
  ultimately show ?thesis using s(3-6) other by (intro exI [of _ "(D', t')"] exI [of _ r']) simp
qed

lemma create_item:
  assumes inv: "loop_inv X F (D, t)" and none: "lookup_rrset D (x_domain X) (vkey v) = None"
    and F: "zone_exclusive F" "vkey v \<in> F"
    and v: "v_records v = Some rs" "v_ttl v = Some n" "rrset_full_clean (vkey v)"
    and new: "clean_records (x_codec X) (x_domain X) (vkey v) rs = Inr new" and so: "lawful_list so"
  shows "\<exists>S' r'. rrset_create X so v (D, t) = Inr S' \<and> loop_inv X F S' \<and>
    lookup_rrset (fst S') (x_domain X) (vkey v) = Some r' \<and> set (records r') = new \<and>
    distinct (records r') \<and> ttl r' = n \<and>
    (\<forall>j. j \<noteq> vkey v \<longrightarrow> lookup_rrset (fst S') (x_domain X) j = lookup_rrset D (x_domain X) j)"
proof -
  from inv obtain z where z: "zones D (x_domain X) = Some z" "lookup_rrset D (x_domain X) = map_of z"
    "keys z \<subseteq> F" by (rule loop_inv_zone)
  let ?r = "\<lparr>ttl = n, records = []\<rparr>"
  let ?D = "put_rrset (x_domain X) (vkey v) ?r D"
  have k: "vkey v \<notin> keys z" using none z(2) by (simp add: keys_map_of)
  have c: "\<not> cname_conflict z (vkey v)"
    using F z(3) unfolding cname_conflict_def zone_exclusive_def by blast
  from inv have "tracked_inv (D, t)" by (simp add: loop_inv_def)
  from good_created [OF this z(1) k, of ?r] obtain t'
    where t': "on_rr_set_post_save (x_domain X) (vkey v) True t = Inr t'" "tracked_inv (?D, t')" by blast
  note l = lookup_put_rrset [OF z(1), of "vkey v" ?r "x_domain X", simplified]
  have inv': "loop_inv X F (?D, t')"
    using inv t'(2) z(1) F(2) l by (auto simp: loop_inv_def put_rrset_Some split: if_splits)
  have "lookup_rrset ?D (x_domain X) (vkey v) = Some ?r" using l by simp
  from save_item [OF inv' this new so] obtain S' r'
    where S': "set_all_record_contents X so (vkey v) rs (?D, t') = Inr S'" "loop_inv X F S'"
      "lookup_rrset (fst S') (x_domain X) (vkey v) = Some r'" "set (records r') = new"
      "distinct (records r')" "ttl r' = ttl ?r"
      "\<forall>j. j \<noteq> vkey v \<longrightarrow> lookup_rrset (fst S') (x_domain X) j = lookup_rrset ?D (x_domain X) j"
    by blast
  have "db_step (OpRRsetCreate (x_domain X) (vkey v) n) (D, t) = Inr (?D, t')"
    using z(1) k c t'(1) by (simp add: zone_of_def del: on_rr_set_post_save_False)
  with v S'(1) have "rrset_create X so v (D, t) = Inr S'"
    by (simp add: rrset_create_def in_db_def del: db_step.simps)
  with S' l show ?thesis by auto
qed

lemma update_item:
  assumes inv: "loop_inv X F (D, t)" and r: "lookup_rrset D (x_domain X) (vkey v) = Some r"
    and new: "\<And>rs. v_records v = Some rs \<Longrightarrow>
      \<exists>new. clean_records (x_codec X) (x_domain X) (vkey v) rs = Inr new"
    and so: "lawful_list so" and ne: "\<not> is_empty v"
  shows "\<exists>S'. rrset_update X so (vkey v) v (D, t) = Inr S' \<and> loop_inv X F S' \<and>
    applied X v (Some r) (lookup_rrset (fst S') (x_domain X) (vkey v)) \<and>
    (\<forall>j. j \<noteq> vkey v \<longrightarrow> lookup_rrset (fst S') (x_domain X) j = lookup_rrset D (x_domain X) j)"
proof -
  let ?d = "x_domain X" and ?k = "vkey v"
  have "\<exists>D1 t1 r1. (case v_records v of None \<Rightarrow> Inr (D, t)
        | Some rs \<Rightarrow> set_all_record_contents X so ?k rs (D, t)) = Inr (D1, t1) \<and>
      loop_inv X F (D1, t1) \<and> lookup_rrset D1 ?d ?k = Some r1 \<and> distinct (records r1) \<and> ttl r1 = ttl r \<and>
      (case v_records v of None \<Rightarrow> records r1 = records r
       | Some rs \<Rightarrow> clean_records (x_codec X) ?d ?k rs = Inr (set (records r1))) \<and>
      (\<forall>j. j \<noteq> ?k \<longrightarrow> lookup_rrset D1 ?d j = lookup_rrset D ?d j)"
  proof (cases "v_records v")
    case None
    with inv r show ?thesis by (auto simp: loop_inv_def)
  next
    case (Some rs)
    from new [OF this] obtain new where n: "clean_records (x_codec X) ?d ?k rs = Inr new" by blast
    from save_item [OF inv r n so] n Some show ?thesis by fastforce
  qed
  then obtain D1 t1 r1 where
    S1: "(case v_records v of None \<Rightarrow> Inr (D, t)
        | Some rs \<Rightarrow> set_all_record_contents X so ?k rs (D, t)) = Inr (D1, t1)"
    and inv1: "loop_inv X F (D1, t1)" and r1: "lookup_rrset D1 ?d ?k = Some r1"
    and d1: "distinct (records r1)" "ttl r1 = ttl r"
      "case v_records v of None \<Rightarrow> records r1 = records r
       | Some rs \<Rightarrow> clean_records (x_codec X) ?d ?k rs = Inr (set (records r1))"
      "\<forall>j. j \<noteq> ?k \<longrightarrow> lookup_rrset D1 ?d j = lookup_rrset D ?d j" by blast
  have rr1: "rrset_of D1 ?d ?k = Inr r1" using r1 by (simp add: rrset_of_lookup)
  show ?thesis
  proof (cases "\<exists>n. v_ttl v = Some n \<and> n \<noteq> 0 \<and> ttl r1 \<noteq> n")
    case False
    then have "rrset_update X so ?k v (D, t) = Inr (D1, t1)"
      unfolding rrset_update_def S1 using rr1 by (auto split: option.splits)
    moreover have "applied X v (Some r) (lookup_rrset D1 ?d ?k)"
      using False ne r1 d1 by (auto simp: applied_def split: option.splits)
    ultimately show ?thesis using inv1 d1(4) by auto
  next
    case True
    then obtain n where n: "v_ttl v = Some n" "n \<noteq> 0" "ttl r1 \<noteq> n" by blast
    from inv1 obtain z where z: "zones D1 ?d = Some z" "lookup_rrset D1 ?d = map_of z" "keys z \<subseteq> F"
      by (rule loop_inv_zone)
    have kz: "?k \<in> keys z" using r1 z(2) by (simp add: keys_map_of)
    let ?r2 = "r1\<lparr>ttl := n\<rparr>"
    let ?D2 = "put_rrset ?d ?k ?r2 D1"
    from inv1 have "tracked_inv (D1, t1)" by (simp add: loop_inv_def)
    from good_modified1 [OF this z(1) kz, of ?r2] obtain t2
      where t2: "on_rr_post_save ?d ?k t1 = Inr t2" "tracked_inv (?D2, t2)" by blast
    note l = lookup_put_rrset [OF z(1), of ?k ?r2 ?d, simplified]
    have "loop_inv X F (?D2, t2)"
      using inv1 t2(2) z(1) kz z(3) l d1(1) by (auto simp: loop_inv_def put_rrset_Some split: if_splits)
    moreover have "rrset_update X so ?k v (D, t) = Inr (?D2, t2)"
      unfolding rrset_update_def S1 using rr1 n t2(1) by (simp add: in_db_def)
    moreover have "applied X v (Some r) (Some ?r2)"
      using n ne d1 by (auto simp: applied_def split: option.splits)
    ultimately show ?thesis using l d1(4) by auto
  qed
qed

section \<open>The whole list\<close>

lemma data_index_Some:
  assumes "distinct (map vkey vs)"
  shows "data_index vs k = Some v \<longleftrightarrow> v \<in> set vs \<and> vkey v = k"
proof -
  have "distinct (map fst (rev (map (\<lambda>v. (vkey v, v)) vs)))"
    using assms by (simp add: rev_map [symmetric] comp_def)
  from map_of_eq_Some_iff [OF this] show ?thesis by (auto simp: data_index_def)
qed

lemma data_index_None: "data_index vs k = None \<longleftrightarrow> k \<notin> vkey ` set vs"
  by (force simp: data_index_def map_of_eq_None_iff)

definition item_ok :: "ctx \<Rightarrow> rrkey set \<Rightarrow> vitem \<Rightarrow> bool" where
  "item_ok X K v \<longleftrightarrow> is_empty v \<or>
     (\<forall>rs. v_records v = Some rs \<longrightarrow>
        (\<exists>new. clean_records (x_codec X) (x_domain X) (vkey v) rs = Inr new)) \<and>
     (vkey v \<in> K \<or> v_records v \<noteq> None \<and> v_ttl v \<noteq> None \<and> rrset_full_clean (vkey v))"

definition lawful_keys :: "(rrkey set \<Rightarrow> rrkey list) \<Rightarrow> bool" where
  "lawful_keys ko \<longleftrightarrow> (\<forall>K. finite K \<longrightarrow> set (ko K) = K \<and> distinct (ko K))"

text \<open>The keys of the zone after the data.\<close>

definition zone_after :: "rrkey set \<Rightarrow> vitem list \<Rightarrow> rrkey set" where
  "zone_after K vs = (K - vkey ` set (filter is_empty vs)) \<union> vkey ` set (filter (\<lambda>v. \<not> is_empty v) vs)"

lemma rrsets_update_ok:
  assumes inv: "tracked_inv (D, t)" and z: "zones D (x_domain X) = Some z"
    and rec: "\<And>k r. lookup_rrset D (x_domain X) k = Some r \<Longrightarrow> distinct (records r)"
    and dist: "distinct (map vkey vs)" and excl: "zone_exclusive (zone_after (keys z) vs)"
    and ok: "\<And>v. v \<in> set vs \<Longrightarrow> item_ok X (keys z) v"
    and so: "lawful_list so" and ko: "lawful_keys ko"
  shows "\<exists>S'. rrsets_update X so ko (keys z) vs (D, t) = Inr S' \<and>
    loop_inv X (zone_after (keys z) vs) S' \<and>
    (\<forall>k. case data_index vs k of
        None \<Rightarrow> lookup_rrset (fst S') (x_domain X) k = lookup_rrset D (x_domain X) k
      | Some v \<Rightarrow> applied X v (lookup_rrset D (x_domain X) k) (lookup_rrset (fst S') (x_domain X) k))"
proof -
  let ?d = "x_domain X"
  define L where "L S k = lookup_rrset (fst S) ?d k" for S :: tracked and k
  define F where "F = zone_after (keys z) vs"
  define data where "data = vkey ` set vs"
  define empty where "empty = vkey ` set (filter is_empty vs)"
  define known where "known = keys z \<inter> data"
  have fin: "finite data" "finite empty" by (simp_all add: data_def empty_def)
  have L0: "L (D, t) k \<noteq> None \<longleftrightarrow> k \<in> keys z" for k
    using z by (simp add: L_def lookup_Some keys_map_of)
  have idx: "data_index vs k = Some v \<longleftrightarrow> v \<in> set vs \<and> vkey v = k" for k v
    by (rule data_index_Some [OF dist])
  have emp: "vkey v \<in> empty \<longleftrightarrow> is_empty v" if "v \<in> set vs" for v
  proof
    assume "vkey v \<in> empty"
    then obtain w where "w \<in> set vs" "is_empty w" "vkey w = vkey v" by (auto simp: empty_def)
    with idx that show "is_empty v" by (metis option.inject)
  qed (use that in \<open>auto simp: empty_def\<close>)
  have ko': "set (ko K) = K" "distinct (ko K)" if "K \<subseteq> data" for K
    using ko that fin(1) finite_subset by (auto simp: lawful_keys_def)
  have sub: "known \<inter> empty \<subseteq> data" "known - empty \<subseteq> data" "(data - known) - empty \<subseteq> data"
    by (auto simp: known_def)
  note k1 = ko' [OF sub(1)] and k2 = ko' [OF sub(3)] and k3 = ko' [OF sub(2)]
  have inv0: "loop_inv X UNIV (D, t)" using inv z rec by (auto simp: loop_inv_def)
  have "\<exists>S1. rfold (rrset_delete X) (ko (known \<inter> empty)) (D, t) = Inr S1 \<and> loop_inv X UNIV S1 \<and>
      (\<forall>k \<in> set (ko (known \<inter> empty)). L S1 k = None) \<and>
      (\<forall>k. k \<notin> set (ko (known \<inter> empty)) \<longrightarrow> L S1 k = L (D, t) k)"
  proof (rule keyed_fold [where L = L and s0 = "(D, t)" and Q = "\<lambda>k old new. new = None"])
    fix k S assume k: "k \<in> set (ko (known \<inter> empty))" and I: "loop_inv X UNIV S" and l: "L S k = L (D, t) k"
    obtain D1 t1 where S: "S = (D1, t1)" by (cases S)
    have "k \<in> keys z" using k k1(1) by (auto simp: known_def)
    then have "lookup_rrset D1 ?d k \<noteq> None" using l L0 [of k] S by (simp add: L_def)
    from delete_item [OF I [unfolded S] this] S
    show "\<exists>S'. rrset_delete X k S = Inr S' \<and> loop_inv X UNIV S' \<and> L S' k = None \<and>
        (\<forall>j. j \<noteq> k \<longrightarrow> L S' j = L S j)" by (simp add: L_def)
  qed (use k1 inv0 in simp_all)
  then obtain S1 where S1: "rfold (rrset_delete X) (ko (known \<inter> empty)) (D, t) = Inr S1"
    "loop_inv X UNIV S1" "\<And>k. L S1 k = (if k \<in> known \<inter> empty then None else L (D, t) k)"
    using k1(1) by auto
  have F: "known - empty \<subseteq> F" "(data - known) - empty \<subseteq> F" "keys z - empty \<subseteq> F"
    unfolding F_def zone_after_def known_def data_def empty_def by auto
  have inv1: "loop_inv X F S1"
  proof -
    have "k \<in> F" if "L S1 k = Some r" for k r
    proof -
      have "k \<in> keys z" "k \<notin> known \<inter> empty" using that L0 [of k] S1(3) [of k] by (auto split: if_splits)
      then have "k \<in> keys z - empty" by (auto simp: known_def empty_def data_def)
      then show ?thesis using F(3) by blast
    qed
    with S1(2) show ?thesis by (simp add: loop_inv_def L_def)
  qed
  have item: "\<exists>v. data_index vs k = Some v \<and> v \<in> set vs \<and> vkey v = k \<and> \<not> is_empty v"
    if k: "k \<in> data" "k \<notin> empty" for k
  proof -
    from k(1) obtain v where "v \<in> set vs" "vkey v = k" by (auto simp: data_def)
    with emp [of v] idx [of k v] k(2) show ?thesis by blast
  qed
  let ?create = "\<lambda>k. with_item vs k (rrset_create X so)"
  have "\<exists>S2. rfold ?create (ko (data - known - empty)) S1 = Inr S2 \<and> loop_inv X F S2 \<and>
      (\<forall>k \<in> set (ko (data - known - empty)). applied X (the (data_index vs k)) (L S1 k) (L S2 k)) \<and>
      (\<forall>k. k \<notin> set (ko (data - known - empty)) \<longrightarrow> L S2 k = L S1 k)"
  proof (rule keyed_fold [where L = L and s0 = S1 and
        Q = "\<lambda>k old new. applied X (the (data_index vs k)) old new"])
    fix k S assume k: "k \<in> set (ko (data - known - empty))" and I: "loop_inv X F S" and l: "L S k = L S1 k"
    obtain D1 t1 where S: "S = (D1, t1)" by (cases S)
    from k k2(1) have k': "k \<in> data" "k \<notin> known" "k \<notin> empty" by auto
    from item [OF this(1,3)] obtain v where v: "data_index vs k = Some v" "v \<in> set vs" "vkey v = k"
      "\<not> is_empty v" by blast
    have old: "k \<notin> keys z" using k' by (auto simp: known_def)
    have none: "L S1 k = None" using old L0 [of k] S1(3) [of k] by auto
    then have none': "lookup_rrset D1 ?d (vkey v) = None" using l S v(3) by (simp add: L_def)
    from ok [OF v(2)] v old obtain rs n new where w: "v_records v = Some rs" "v_ttl v = Some n"
      "rrset_full_clean (vkey v)" "clean_records (x_codec X) ?d (vkey v) rs = Inr new"
      unfolding item_ok_def by blast
    have kF: "vkey v \<in> F" using F(2) k' v(3) by auto
    from create_item [OF I [unfolded S] none' excl [folded F_def] kF w so] v(1,3,4) w none
    show "\<exists>S'. ?create k S = Inr S' \<and> loop_inv X F S' \<and>
        applied X (the (data_index vs k)) (L S1 k) (L S' k) \<and> (\<forall>j. j \<noteq> k \<longrightarrow> L S' j = L S j)"
      unfolding S with_item_def by (auto simp: applied_def L_def)
  qed (use k2 inv1 in simp_all)
  then obtain S2 where S2: "rfold ?create (ko (data - known - empty)) S1 = Inr S2" "loop_inv X F S2"
    "\<forall>k \<in> data - known - empty. applied X (the (data_index vs k)) (L S1 k) (L S2 k)"
    "\<forall>k. k \<notin> data - known - empty \<longrightarrow> L S2 k = L S1 k"
    using k2(1) by auto
  let ?update = "\<lambda>k. with_item vs k (rrset_update X so k)"
  have "\<exists>S3. rfold ?update (ko (known - empty)) S2 = Inr S3 \<and> loop_inv X F S3 \<and>
      (\<forall>k \<in> set (ko (known - empty)). applied X (the (data_index vs k)) (L S2 k) (L S3 k)) \<and>
      (\<forall>k. k \<notin> set (ko (known - empty)) \<longrightarrow> L S3 k = L S2 k)"
  proof (rule keyed_fold [where L = L and s0 = S2 and
        Q = "\<lambda>k old new. applied X (the (data_index vs k)) old new"])
    fix k S assume k: "k \<in> set (ko (known - empty))" and I: "loop_inv X F S" and l: "L S k = L S2 k"
    obtain D1 t1 where S: "S = (D1, t1)" by (cases S)
    from k k3(1) have k': "k \<in> data" "k \<in> known" "k \<notin> empty" by (auto simp: known_def)
    from item [OF this(1,3)] obtain v where v: "data_index vs k = Some v" "v \<in> set vs" "vkey v = k"
      "\<not> is_empty v" by blast
    have "L S2 k = L (D, t) k" using S2(4) S1(3) [of k] k' by auto
    moreover have "k \<in> keys z" using k' by (auto simp: known_def)
    ultimately obtain r where r: "L S2 k = Some r" using L0 [of k] by auto
    then have r': "lookup_rrset D1 ?d (vkey v) = Some r" using l S v(3) by (simp add: L_def)
    have "\<exists>new. clean_records (x_codec X) ?d (vkey v) rs = Inr new" if "v_records v = Some rs" for rs
      using ok [OF v(2)] v(4) that unfolding item_ok_def by blast
    from update_item [OF I [unfolded S] r' this so v(4)] v r
    show "\<exists>S'. ?update k S = Inr S' \<and> loop_inv X F S' \<and>
        applied X (the (data_index vs k)) (L S2 k) (L S' k) \<and> (\<forall>j. j \<noteq> k \<longrightarrow> L S' j = L S j)"
      unfolding S with_item_def by (auto simp: L_def)
  qed (use k3 S2(2) in simp_all)
  then obtain S3 where S3: "rfold ?update (ko (known - empty)) S2 = Inr S3" "loop_inv X F S3"
    "\<forall>k \<in> known - empty. applied X (the (data_index vs k)) (L S2 k) (L S3 k)"
    "\<forall>k. k \<notin> known - empty \<longrightarrow> L S3 k = L S2 k"
    using k3(1) by auto
  have sets: "{k \<in> keys z. k \<in> data} = known" "known \<subseteq> data" "known \<union> data = data"
    "known \<inter> (data - empty) = known - empty" "(data - known) \<inter> (data - empty) = data - known - empty"
    by (auto simp: known_def)
  have "rrsets_update X so ko (keys z) vs (D, t) = Inr S3"
    unfolding rrsets_update_def Let_def set_map data_def [symmetric] empty_def [symmetric] sets
    using sets(2) S1(1) S2(1) S3(1) by simp
  moreover have "case data_index vs k of None \<Rightarrow> L S3 k = L (D, t) k
      | Some v \<Rightarrow> applied X v (L (D, t) k) (L S3 k)" for k
  proof (cases "data_index vs k")
    case None
    then have "k \<notin> data" by (simp add: data_index_None data_def)
    then show ?thesis using None S1(3) [of k] S2(4) S3(4) by (auto simp: known_def)
  next
    case (Some v)
    with idx have v: "v \<in> set vs" "vkey v = k" by auto
    then have kd: "k \<in> data" by (auto simp: data_def)
    consider "k \<in> empty" | "k \<notin> empty" "k \<in> known" | "k \<notin> empty" "k \<notin> known" by blast
    then show ?thesis
    proof cases
      case 1
      have "L S3 k = L S1 k" using S2(4) S3(4) 1 by auto
      moreover have "L S1 k = None" using S1(3) [of k] 1 L0 [of k] kd by (auto simp: known_def)
      ultimately show ?thesis using Some emp [OF v(1)] v(2) 1 by (simp add: applied_def)
    next
      case 2
      have "L S2 k = L (D, t) k" using S2(4) S1(3) [of k] 2 by auto
      moreover have "applied X (the (data_index vs k)) (L S2 k) (L S3 k)" using S3(3) 2 by blast
      ultimately show ?thesis using Some by simp
    next
      case 3
      have "L S3 k = L S2 k" using S3(4) 3 by auto
      moreover have "L S1 k = L (D, t) k" using S1(3) [of k] 3 by auto
      moreover have "applied X (the (data_index vs k)) (L S1 k) (L S2 k)" using S2(3) 3 kd by blast
      ultimately show ?thesis using Some by simp
    qed
  qed
  ultimately show ?thesis using S3(2) unfolding F_def L_def fst_conv by blast
qed

text \<open>C9: Applying a list of validated RRsets never fails: no constraint of the tables is violated in
  any order of the operations, and afterwards each RRset named in the list is what its item says
  (absent for empty records, otherwise with exactly the canonical records and the given TTL, or the
  old ones where the item is silent) and every other RRset of the zone is as before.\<close>

theorem rrsets_update_applies:
  assumes "tracked_inv (D, t)" and "zones D (x_domain X) = Some z"
    and "\<And>k r. lookup_rrset D (x_domain X) k = Some r \<Longrightarrow> distinct (records r)"
    and "distinct (map vkey vs)" and "zone_exclusive (zone_after (keys z) vs)"
    and "\<And>v. v \<in> set vs \<Longrightarrow> item_ok X (keys z) v"
    and "lawful_list so" and "lawful_keys ko"
  shows "\<exists>S'. rrsets_update X so ko (keys z) vs (D, t) = Inr S' \<and>
    (\<forall>k. case data_index vs k of
        None \<Rightarrow> lookup_rrset (fst S') (x_domain X) k = lookup_rrset D (x_domain X) k
      | Some v \<Rightarrow> applied X v (lookup_rrset D (x_domain X) k) (lookup_rrset (fst S') (x_domain X) k))"
  using rrsets_update_ok [of D t X z vs so ko] assms by blast

lemma lawful_sorted_keys: "lawful_keys sorted_list_of_set"
  by (simp add: lawful_keys_def)

text \<open>Replacing the A records at \<open>www\<close> of the example zone by a CNAME, in one request.\<close>

theorem rrsets_update_applies_witness:
  "\<exists>S' r. rrsets_update example_ctx sorted_list_of_set sorted_list_of_set {(''A'', ''w'')}
       [\<lparr>v_type = ''CNAME'', v_subname = ''w'', v_ttl = Some 300, v_records = Some [''x.example.'']\<rparr>,
        \<lparr>v_type = ''A'', v_subname = ''w'', v_ttl = None, v_records = Some []\<rparr>]
       (example_db, new_tracker) = Inr S' \<and>
     lookup_rrset (fst S') ''d'' (''A'', ''w'') = None \<and>
     lookup_rrset (fst S') ''d'' (''CNAME'', ''w'') = Some r \<and> ttl r = 300"
proof -
  let ?vs = "[\<lparr>v_type = ''CNAME'', v_subname = ''w'', v_ttl = Some 300, v_records = Some [''x.example.'']\<rparr>,
        \<lparr>v_type = ''A'', v_subname = ''w'', v_ttl = None, v_records = Some []\<rparr>]"
  let ?z = "[((''A'', ''w''), \<lparr>ttl = 60, records = [''192.0.2.1'']\<rparr>)]"
  have z: "zones example_db (x_domain example_ctx) = Some ?z" by (simp add: example_db_def example_ctx_def)
  have "distinct (records r)" if "lookup_rrset example_db (x_domain example_ctx) k = Some r" for k r
    using that by (auto simp: lookup_rrset_def example_db_def example_ctx_def split: if_splits)
  moreover have "distinct (map vkey ?vs)" by (simp add: vkey_def)
  moreover have "zone_exclusive (zone_after (keys ?z) ?vs)"
    by (simp add: zone_exclusive_def zone_after_def vkey_def is_empty_def)
  moreover have "rrset_full_clean (''CNAME'', ''w'')"
    by (simp add: rrset_full_clean_def) code_simp
  moreover have "clean_records plain_codec ''d'' (''CNAME'', ''w'') [''x.example.''] = Inr {''x.example.''}"
    by (simp add: clean_records_def plain_canonical rrset_shape_errors_def)
  ultimately have "\<exists>S'. rrsets_update example_ctx sorted_list_of_set sorted_list_of_set (keys ?z) ?vs
       (example_db, new_tracker) = Inr S' \<and>
    (\<forall>k. case data_index ?vs k of
        None \<Rightarrow> lookup_rrset (fst S') (x_domain example_ctx) k = lookup_rrset example_db (x_domain example_ctx) k
      | Some v \<Rightarrow> applied example_ctx v (lookup_rrset example_db (x_domain example_ctx) k)
          (lookup_rrset (fst S') (x_domain example_ctx) k))"
    by (intro rrsets_update_applies [OF tracked_inv_start [OF example_db_wf] z _ _ _ _ lawful_sorted_list
          lawful_sorted_keys])
      (auto simp: item_ok_def is_empty_def vkey_def example_ctx_def)
  then obtain S' where S': "rrsets_update example_ctx sorted_list_of_set sorted_list_of_set {(''A'', ''w'')} ?vs
       (example_db, new_tracker) = Inr S'"
    and all: "\<And>k. case data_index ?vs k of
        None \<Rightarrow> lookup_rrset (fst S') (x_domain example_ctx) k = lookup_rrset example_db (x_domain example_ctx) k
      | Some v \<Rightarrow> applied example_ctx v (lookup_rrset example_db (x_domain example_ctx) k)
          (lookup_rrset (fst S') (x_domain example_ctx) k)" by auto
  from all [of "(''A'', ''w'')"] all [of "(''CNAME'', ''w'')"] S' show ?thesis
    by (auto simp: data_index_def vkey_def applied_def is_empty_def example_ctx_def lookup_rrset_def
        example_db_def)
qed

end
