(* ===== verification/Users.thy ===== *)
theory Users
  imports Domains
begin

text \<open>
  User accounts, authentication factors and captchas (\<open>models/users.py\<close>, \<open>models/mfa.py\<close>,
  \<open>models/captcha.py\<close>, \<open>serializers/captcha.py\<close>, \<open>views/mfa.py\<close>, \<open>views/users.py\<close>) as functions on
  the store of accounts. Identifiers are numbers; the encoding of passwords and the one-time
  passwords of a secret are parameters. A mail that is queued is an entry of \<open>outbox\<close>.
\<close>

section \<open>The store\<close>

record account =
  ac_id :: nat
  ac_email :: string
  ac_email_verified :: "int option"
  ac_is_active :: "bool option"
  ac_credentials_changed :: int
  ac_needs_captcha :: bool
  ac_outreach :: bool
  ac_password :: string
  ac_limit_domains :: "nat option"

record factor =
  f_id :: nat
  f_user :: nat
  f_name :: string
  f_last_used :: "int option"
  f_secret :: string
  f_last_timestep :: int

record captcha =
  c_id :: nat
  c_created :: int
  c_content :: string

record adomain = domain +
  d_id :: nat
  d_renewal_state :: renewal_state
  d_renewal_changed :: int

record store =
  users :: "nat \<rightharpoonup> account"
  factors :: "factor list"
  captchas :: "captcha list"
  udomains :: "adomain list"
  utokens :: "nat \<rightharpoonup> token"
  token_names :: "nat \<Rightarrow> string"
  outbox :: "(string \<times> string) list"

datatype store_error =
  UserDoesNotExist
| FactorDoesNotExist
| FactorNameTaken
| EmailTaken
| ProtectedError
| BadReason string
| NoEmail
| TokenError token_error

section \<open>models/users.py\<close>

definition get_user :: "nat \<Rightarrow> store \<Rightarrow> (store_error, account) result" where
  "get_user u S = (case users S u of None \<Rightarrow> Inl UserDoesNotExist | Some a \<Rightarrow> Inr a)"

definition put_user :: "account \<Rightarrow> store \<Rightarrow> store" where
  "put_user a S = S\<lparr>users := (users S)(ac_id a \<mapsto> a)\<rparr>"

definition lanes :: "(string \<times> string) list" where
  "lanes =
     [(''activate-account'', ''email_slow_lane''), (''activate-account-with-override-token'', ''email_fast_lane''),
      (''change-email'', ''email_slow_lane''), (''change-email-confirmation-old-email'', ''email_fast_lane''),
      (''change-outreach-preference'', ''email_slow_lane''), (''confirm-account'', ''email_slow_lane''),
      (''create-totp'', ''email_fast_lane''), (''password-change-confirmation'', ''email_fast_lane''),
      (''reset-password'', ''email_fast_lane''), (''delete-account'', ''email_fast_lane''),
      (''domain-dyndns'', ''email_fast_lane''), (''renew-domain'', ''email_immediate_lane'')]"

text \<open>\<open>send_email\<close>; \<open>recipient or self.email\<close>.\<close>

definition send_email :: "account \<Rightarrow> string \<Rightarrow> string option \<Rightarrow> store \<Rightarrow> (store_error, store) result" where
  "send_email a reason recipient S =
     (if map_of lanes reason = None then Inl (BadReason reason)
      else let to = (case recipient of None \<Rightarrow> ac_email a | Some r \<Rightarrow> if r = [] then ac_email a else r)
           in Inr (S\<lparr>outbox := outbox S @ [(reason, to)]\<rparr>))"

definition mfa_enabled :: "store \<Rightarrow> nat \<Rightarrow> bool" where
  "mfa_enabled S u \<longleftrightarrow> (\<exists>f \<in> set (factors S). f_user f = u \<and> f_last_used f \<noteq> None)"

definition activate :: "nat \<Rightarrow> store \<Rightarrow> (store_error, store) result" where
  "activate u S =
     rbind (get_user u S) (\<lambda>a. Inr (put_user (a\<lparr>ac_is_active := Some True, ac_needs_captcha := False\<rparr>) S))"

text \<open>Addresses are compared without case, by the collation of the column.\<close>

definition email_taken :: "store \<Rightarrow> nat \<Rightarrow> string \<Rightarrow> bool" where
  "email_taken S u email \<longleftrightarrow> (\<exists>v \<in> dom (users S). v \<noteq> u \<and>
     (case users S v of None \<Rightarrow> False | Some b \<Rightarrow> lower (ac_email b) = lower email))"

definition change_email :: "int \<Rightarrow> nat \<Rightarrow> string \<Rightarrow> store \<Rightarrow> (store_error, store) result" where
  "change_email now u email S =
     rbind (get_user u S) (\<lambda>a.
       let a' = a\<lparr>ac_email := email, ac_credentials_changed := now\<rparr> in
       if email_taken S u email then Inl EmailTaken
       else send_email a' ''change-email-confirmation-old-email'' (Some (ac_email a)) (put_user a' S))"

definition change_password ::
  "(string \<Rightarrow> string) \<Rightarrow> int \<Rightarrow> nat \<Rightarrow> string \<Rightarrow> store \<Rightarrow> (store_error, store) result" where
  "change_password make_password now u raw S =
     rbind (get_user u S) (\<lambda>a.
       let a' = a\<lparr>ac_password := make_password raw, ac_credentials_changed := now\<rparr> in
       send_email a' ''password-change-confirmation'' None (put_user a' S))"

text \<open>\<open>delete\<close>: domains protect their owner; tokens and factors go with the user.\<close>

definition delete_user :: "nat \<Rightarrow> store \<Rightarrow> (store_error, store) result" where
  "delete_user u S =
     (if \<exists>d \<in> set (udomains S). m_owner d = u then Inl ProtectedError
      else Inr (S\<lparr>users := (users S)(u := None),
             factors := filter (\<lambda>f. f_user f \<noteq> u) (factors S),
             utokens := (\<lambda>i. case utokens S i of None \<Rightarrow> None
               | Some t \<Rightarrow> if t_owner t = u \<or> t_user_override t = Some u then None else Some t)\<rparr>))"

definition touch_credentials :: "int \<Rightarrow> nat \<Rightarrow> store \<Rightarrow> (store_error, store) result" where
  "touch_credentials now u S =
     rbind (get_user u S) (\<lambda>a. Inr (put_user (a\<lparr>ac_credentials_changed := now\<rparr>) S))"

definition create_user :: "(string \<Rightarrow> string) \<Rightarrow> (string \<Rightarrow> string) \<Rightarrow> account \<Rightarrow> string \<Rightarrow> store \<Rightarrow>
    (store_error, store) result" where
  "create_user normalize_email make_password a raw S =
     (if ac_email a = [] then Inl NoEmail
      else let a' = a\<lparr>ac_email := normalize_email (ac_email a), ac_password := make_password raw\<rparr> in
           if email_taken S (ac_id a') (ac_email a') then Inl EmailTaken else Inr (put_user a' S))"

section \<open>models/mfa.py\<close>

definition put_factor :: "factor \<Rightarrow> store \<Rightarrow> store" where
  "put_factor f S = S\<lparr>factors := f # filter (\<lambda>g. f_id g \<noteq> f_id f) (factors S)\<rparr>"

text \<open>\<open>BaseFactor.save\<close>; the unique constraint is on user and name.\<close>

definition factor_save :: "int \<Rightarrow> factor \<Rightarrow> store \<Rightarrow> (store_error, store) result" where
  "factor_save now f S =
     rbind (if mfa_enabled S (f_user f) then Inr S else touch_credentials now (f_user f) S) (\<lambda>S'.
       if \<exists>g \<in> set (factors S'). f_id g \<noteq> f_id f \<and> f_user g = f_user f \<and> f_name g = f_name f
       then Inl FactorNameTaken else Inr (put_factor f S'))"

definition factor_delete :: "int \<Rightarrow> factor \<Rightarrow> store \<Rightarrow> (store_error, store) result" where
  "factor_delete now f S =
     rbind (if f_last_used f \<noteq> None then touch_credentials now (f_user f) S else Inr S) (\<lambda>S'.
       Inr (S'\<lparr>factors := filter (\<lambda>g. f_id g \<noteq> f_id f) (factors S')\<rparr>))"

text \<open>\<open>TOTPFactor.verify\<close>: \<open>otp secret timestep\<close> is the one-time password, \<open>timestep_now\<close> the current
  step.\<close>

fun verify_steps :: "(string \<Rightarrow> int \<Rightarrow> string) \<Rightarrow> factor \<Rightarrow> int \<Rightarrow> string \<Rightarrow> int list \<Rightarrow> int option" where
  "verify_steps otp f timestep_now code [] = None"
| "verify_steps otp f timestep_now code (offset # offsets) =
     (let timestep = timestep_now + offset in
      if \<not> f_last_timestep f < timestep then verify_steps otp f timestep_now code offsets
      else if code = otp (f_secret f) timestep then Some timestep
      else verify_steps otp f timestep_now code offsets)"

definition factor_verify ::
  "(string \<Rightarrow> int \<Rightarrow> string) \<Rightarrow> int \<Rightarrow> int \<Rightarrow> factor \<Rightarrow> string \<Rightarrow> store \<Rightarrow> (store_error, bool \<times> factor \<times> store) result" where
  "factor_verify otp now timestep_now f code S =
     (case verify_steps otp f timestep_now code [-1, 0, 1] of
        None \<Rightarrow> Inr (False, f, S)
      | Some timestep \<Rightarrow>
          let f' = f\<lparr>f_last_used := Some now, f_last_timestep := timestep\<rparr> in
          rbind (factor_save now f' S) (\<lambda>S'. Inr (True, f', S')))"

section \<open>Captchas\<close>

text \<open>\<open>Captcha.verify\<close>: the captcha is gone whatever the outcome.\<close>

definition captcha_verify :: "int \<Rightarrow> int \<Rightarrow> captcha \<Rightarrow> string \<Rightarrow> store \<Rightarrow> bool \<times> store" where
  "captcha_verify validity now c solution S =
     (strip (upper solution) = c_content c \<and> now - c_created c \<le> validity,
      S\<lparr>captchas := filter (\<lambda>d. c_id d \<noteq> c_id c) (captchas S)\<rparr>)"

datatype captcha_error = CaptchaUnknown | CaptchaWrong

text \<open>\<open>CaptchaSolutionSerializer\<close>: the deletion stays when validation fails.\<close>

definition captcha_validate ::
  "int \<Rightarrow> int \<Rightarrow> nat \<Rightarrow> string \<Rightarrow> store \<Rightarrow> (captcha_error, unit) result \<times> store" where
  "captcha_validate validity now i solution S =
     (case find (\<lambda>c. c_id c = i) (captchas S) of
        None \<Rightarrow> (Inl CaptchaUnknown, S)
      | Some c \<Rightarrow> (case captcha_verify validity now c solution S of
                   (valid, S') \<Rightarrow> (if valid then Inr () else Inl CaptchaWrong, S')))"

datatype captcha_kind = IMAGE | AUDIO

definition captcha_alphabet :: "captcha_kind \<Rightarrow> string" where
  "captcha_alphabet kind =
     (case kind of IMAGE \<Rightarrow> ''ABCDEFGHJKLMNPQRSTUVWXYZ123456789'' | AUDIO \<Rightarrow> ''0123456789'')"

definition captcha_length :: "captcha_kind \<Rightarrow> nat" where
  "captcha_length kind = (case kind of IMAGE \<Rightarrow> 5 | AUDIO \<Rightarrow> 8)"

text \<open>\<open>captcha_default_content\<close>: \<open>choices\<close> are the numbers of the random generator.\<close>

definition captcha_default_content :: "captcha_kind \<Rightarrow> (nat \<Rightarrow> nat) \<Rightarrow> string" where
  "captcha_default_content kind choices =
     map (\<lambda>i. captcha_alphabet kind ! (choices i mod length (captcha_alphabet kind))) [0..<captcha_length kind]"

section \<open>views/mfa.py\<close>

datatype mfa_action = MfaVerify | MfaSafe | MfaUnsafe

definition totp_view_allowed :: "request option \<Rightarrow> mfa_action \<Rightarrow> bool" where
  "totp_view_allowed r a =
     (case a of
        MfaVerify \<Rightarrow> True
      | MfaUnsafe \<Rightarrow> (case r of None \<Rightarrow> False | Some q \<Rightarrow>
          is_authenticated q \<and> has_manage_tokens_permission q \<and> mfa_required_if_enabled q)
      | MfaSafe \<Rightarrow> (case r of None \<Rightarrow> False | Some q \<Rightarrow>
          is_authenticated q \<and> has_manage_tokens_permission q \<and> is_login_token q))"

definition totp_queryset :: "request option \<Rightarrow> mfa_action \<Rightarrow> store \<Rightarrow> factor list" where
  "totp_queryset r a S =
     (if a = MfaVerify then factors S
      else filter (\<lambda>f. (case r of None \<Rightarrow> None | Some q \<Rightarrow> map_option u_id (r_user q)) = Some (f_user f)) (factors S))"

datatype totp_error = TotpNotFound | NotAuthenticated | InvalidCode | TotpStore store_error

text \<open>\<open>verify\<close>: \<open>auth\<close> is the token of the request if it is authenticated; the result says whether a
  factor was activated.\<close>

definition totp_verify ::
  "(string \<Rightarrow> int \<Rightarrow> string) \<Rightarrow> int \<Rightarrow> int \<Rightarrow> request option \<Rightarrow> nat \<Rightarrow> string \<Rightarrow> store \<Rightarrow>
   (totp_error, bool \<times> store) result" where
  "totp_verify otp now timestep_now r i code S =
     (case find (\<lambda>f. f_id f = i) (totp_queryset r MfaVerify S) of
        None \<Rightarrow> Inl TotpNotFound
      | Some f \<Rightarrow>
          let new = (f_last_used f = None);
              authenticated = (case r of None \<Rightarrow> False | Some q \<Rightarrow> is_authenticated q) in
          if \<not> new \<and> \<not> authenticated then Inl NotAuthenticated
          else (case factor_verify otp now timestep_now f code S of
                  Inl e \<Rightarrow> Inl (TotpStore e)
                | Inr (correct, f', S') \<Rightarrow>
                    if \<not> correct then Inl InvalidCode
                    else (case r of
                            None \<Rightarrow> Inr (new, S')
                          | Some q \<Rightarrow>
                              if authenticated \<and> \<not> new then
                                (case token_step (SaveToken ((r_auth q)\<lparr>t_mfa := Some True\<rparr>) 0) (r_auth q) of
                                   Inl e \<Rightarrow> Inl (TotpStore (TokenError e))
                                 | Inr t \<Rightarrow> Inr (new, S'\<lparr>utokens := (utokens S')(t_id t \<mapsto> t)\<rparr>))
                              else Inr (new, S'))))"

section \<open>views/users.py\<close>

text \<open>Signing in: the expired login tokens of the user go, and a fresh one is made.\<close>

definition login_token :: "nat \<Rightarrow> nat \<Rightarrow> int \<Rightarrow> token" where
  "login_token new u now =
     \<lparr>t_id = new, t_owner = u, t_user_override = None, t_created = now, t_last_used = None,
      t_max_age = Some (7 * 86400), t_max_unused = Some 3600, t_mfa = Some False,
      perm_create_domain = True, perm_delete_domain = True, perm_manage_tokens = True,
      auto_policy = False, policies = []\<rparr>"

definition login :: "nat \<Rightarrow> nat \<Rightarrow> int \<Rightarrow> store \<Rightarrow> store" where
  "login new u now S =
     S\<lparr>utokens := (\<lambda>i. case utokens S i of
           None \<Rightarrow> None
         | Some t \<Rightarrow> if t_owner t = u \<and> t_user_override t = None \<and> t_mfa t \<noteq> None \<and> \<not> is_valid now t
                     then None else Some t)(new \<mapsto> login_token new u now)\<rparr>"

definition logout :: "token \<Rightarrow> store \<Rightarrow> store" where
  "logout t S = S\<lparr>utokens := (utokens S)(t_id t := None)\<rparr>"

text \<open>Registration hides whether an address is known: errors are \<open>(field, code)\<close> pairs.\<close>

definition visible_errors :: "(string \<times> string) list \<Rightarrow> (string \<times> string) list" where
  "visible_errors errs =
     filter (\<lambda>(field, code). field \<noteq> ''email'') errs @
     filter (\<lambda>(field, code). field = ''email'' \<and> code \<noteq> ''unique'') errs"

datatype 'a answer = Accepted | Refused 'a

definition register_answer :: "(string \<times> string) list \<Rightarrow> (string \<times> string) list answer" where
  "register_answer errs = (if visible_errors errs \<noteq> [] then Refused (visible_errors errs) else Accepted)"

text \<open>The account exists only if validation succeeded; the activation mail is sent if a domain was
  asked for or activation is required.\<close>

definition register ::
  "(string \<Rightarrow> string) \<Rightarrow> (string \<Rightarrow> string) \<Rightarrow> bool \<Rightarrow> (string \<times> string) list \<Rightarrow> account \<Rightarrow> string \<Rightarrow> bool \<Rightarrow> bool \<Rightarrow>
   store \<Rightarrow> (store_error, store \<times> (string \<times> string) list answer) result" where
  "register normalize_email make_password activation_required errs a raw captcha has_domain S =
     (if errs \<noteq> [] then Inr (S, register_answer errs)
      else
        let a' = a\<lparr>ac_is_active := (if activation_required then None else Some True),
                   ac_needs_captcha := (if captcha then False else ac_needs_captcha a)\<rparr> in
        rbind (create_user normalize_email make_password a' raw S) (\<lambda>S'.
        rbind (get_user (ac_id a) S') (\<lambda>b.
        rbind (if has_domain \<or> activation_required then send_email b ''activate-account'' None S' else Inr S')
          (\<lambda>S''. Inr (S'', Accepted)))))"

text \<open>\<open>AccountResetPasswordView\<close>: silent for addresses that are unknown or not active.\<close>

definition reset_password_request :: "string \<Rightarrow> store \<Rightarrow> (store_error, store) result" where
  "reset_password_request email S =
     (case filter (\<lambda>u. (case users S u of None \<Rightarrow> False
             | Some a \<Rightarrow> lower (ac_email a) = lower email \<and> ac_is_active a = Some True))
           (sorted_list_of_set (dom (users S))) of
        [] \<Rightarrow> Inr S
      | u # _ \<Rightarrow> rbind (get_user u S) (\<lambda>a. send_email a ''reset-password'' None S))"

definition account_delete_request :: "account \<Rightarrow> store \<Rightarrow> (store_error, store option) result" where
  "account_delete_request a S =
     (if \<exists>d \<in> set (udomains S). m_owner d = ac_id a then Inr None
      else rbind (send_email a ''delete-account'' None S) (\<lambda>S'. Inr (Some S')))"

text \<open>\<open>validate_new_email\<close>\<close>

definition validate_new_email :: "account \<Rightarrow> string \<Rightarrow> (verror, string) result" where
  "validate_new_email a value =
     (if value = ac_email a then Inl (VError ''Email address unchanged.'') else Inr value)"

end
