(* ===== verification/JsonDecode.thy ===== *)
theory JsonDecode
  imports Json "HOL-Library.AList"
begin

text \<open>
  \<open>json.loads\<close> for documents whose numbers are integers and whose characters are below 256, and
  its agreement with \<open>json.dumps\<close>: reading what was written gives the same value back.
\<close>

section \<open>Strings\<close>

definition hex_value :: "char \<Rightarrow> nat option" where
  "hex_value c =
     (let n = (of_char c :: nat) in
      if 48 \<le> n \<and> n \<le> 57 then Some (n - 48)
      else if 97 \<le> n \<and> n \<le> 102 then Some (n - 87)
      else if 65 \<le> n \<and> n \<le> 70 then Some (n - 55)
      else None)"

definition escapes :: "(char \<times> char) list" where
  "escapes =
     [(CHR 0x22, CHR 0x22), (CHR 0x5C, CHR 0x5C), (CHR ''/'', CHR ''/''), (CHR ''b'', CHR 0x08),
      (CHR ''f'', CHR 0x0C), (CHR ''n'', CHR 0x0A), (CHR ''r'', CHR 0x0D), (CHR ''t'', CHR 0x09)]"

text \<open>The four hexadecimal digits after \<open>u\<close>; only characters below 256 are represented.\<close>

fun unicode_escape :: "string \<Rightarrow> char option" where
  "unicode_escape (a # b # c # d # _) =
     (case (hex_value a, hex_value b, hex_value c, hex_value d) of
        (Some 0, Some 0, Some x, Some y) \<Rightarrow> Some (char_of (16 * x + y))
      | _ \<Rightarrow> None)"
| "unicode_escape _ = None"

text \<open>The character at the start of \<open>c # s\<close> in a string literal, and how much of \<open>s\<close> belongs to it.\<close>

definition unescape :: "char \<Rightarrow> string \<Rightarrow> (char \<times> nat) option" where
  "unescape c s =
     (if c \<noteq> CHR 0x5C then (if (of_char c :: nat) < 32 then None else Some (c, 0))
      else case s of
        [] \<Rightarrow> None
      | e # t \<Rightarrow>
          if e = CHR ''u'' then map_option (\<lambda>x. (x, 5)) (unicode_escape t)
          else map_option (\<lambda>x. (x, 1)) (map_of escapes e))"

fun scan_str :: "string \<Rightarrow> (string \<times> string) option" where
  "scan_str [] = None"
| "scan_str (c # s) =
     (if c = CHR 0x22 then Some ([], s)
      else case unescape c s of
        None \<Rightarrow> None
      | Some (x, n) \<Rightarrow> map_option (\<lambda>(y, u). (x # y, u)) (scan_str (drop n s)))"

section \<open>Integers\<close>

definition is_digit :: "char \<Rightarrow> bool" where
  "is_digit c \<longleftrightarrow> 48 \<le> (of_char c :: nat) \<and> (of_char c :: nat) \<le> 57"

definition digit_value :: "char \<Rightarrow> nat" where
  "digit_value c = of_char c - 48"

definition read_nat :: "string \<Rightarrow> nat" where
  "read_nat s = foldl (\<lambda>n c. 10 * n + digit_value c) 0 s"

text \<open>A leading zero stands alone. A fraction or an exponent would make it a float.\<close>

definition scan_nat :: "string \<Rightarrow> (nat \<times> string) option" where
  "scan_nat s =
     (let ds = (case takeWhile is_digit s of [] \<Rightarrow> [] | d # ds \<Rightarrow> if d = CHR ''0'' then [d] else d # ds);
          u = drop (length ds) s in
      if ds = [] \<or> (case u of [] \<Rightarrow> False | c # _ \<Rightarrow> c \<in> {CHR ''.'', CHR ''e'', CHR ''E''}) then None
      else Some (read_nat ds, u))"

definition scan_int :: "string \<Rightarrow> (int \<times> string) option" where
  "scan_int s =
     (case s of
        c # t \<Rightarrow> if c = CHR ''-'' then map_option (\<lambda>(n, u). (- int n, u)) (scan_nat t)
                 else map_option (\<lambda>(n, u). (int n, u)) (scan_nat s)
      | [] \<Rightarrow> None)"

section \<open>Values\<close>

definition json_space :: "char \<Rightarrow> bool" where
  "json_space c \<longleftrightarrow> c \<in> {CHR '' '', CHR 0x09, CHR 0x0A, CHR 0x0D}"

definition skip :: "string \<Rightarrow> string" where
  "skip s = dropWhile json_space s"

definition scan_word :: "string \<Rightarrow> pyval \<Rightarrow> string \<Rightarrow> (pyval \<times> string) option" where
  "scan_word w v s = (if starts_with s w then Some (v, drop (length w) s) else None)"

text \<open>The first argument bounds the number of steps; \<open>parse_enough\<close> says how much is enough. Of two
  entries with the same key the later one counts.\<close>

fun parse :: "nat \<Rightarrow> string \<Rightarrow> (pyval \<times> string) option"
  and parse_elems :: "nat \<Rightarrow> string \<Rightarrow> (pyval list \<times> string) option"
  and parse_pairs :: "nat \<Rightarrow> (string \<times> pyval) list \<Rightarrow> string \<Rightarrow> ((string \<times> pyval) list \<times> string) option" where
  "parse 0 s = None"
| "parse (Suc n) s =
     (case s of
        [] \<Rightarrow> None
      | c # t \<Rightarrow>
          if c = CHR 0x22 then map_option (\<lambda>(y, u). (PyStr y, u)) (scan_str t)
          else if c = CHR ''['' then
            (if skip t \<noteq> [] \<and> hd (skip t) = CHR '']'' then Some (PyList [], tl (skip t))
             else map_option (\<lambda>(vs, u). (PyList vs, u)) (parse_elems n (skip t)))
          else if c = CHR ''{'' then
            (if skip t \<noteq> [] \<and> hd (skip t) = CHR ''}'' then Some (PyDict [], tl (skip t))
             else map_option (\<lambda>(kvs, u). (PyDict kvs, u)) (parse_pairs n [] (skip t)))
          else if c = CHR ''n'' then scan_word ''null'' PyNone s
          else if c = CHR ''t'' then scan_word ''true'' (PyBool True) s
          else if c = CHR ''f'' then scan_word ''false'' (PyBool False) s
          else map_option (\<lambda>(i, u). (PyInt i, u)) (scan_int s))"
| "parse_elems 0 s = None"
| "parse_elems (Suc n) s =
     (case parse n s of
        None \<Rightarrow> None
      | Some (v, u) \<Rightarrow>
          (case skip u of
             [] \<Rightarrow> None
           | c # t \<Rightarrow>
               if c = CHR '']'' then Some ([v], t)
               else if c = CHR '','' then map_option (\<lambda>(vs, w). (v # vs, w)) (parse_elems n (skip t))
               else None))"
| "parse_pairs 0 acc s = None"
| "parse_pairs (Suc n) acc s =
     (case s of
        [] \<Rightarrow> None
      | q # s1 \<Rightarrow>
          if q \<noteq> CHR 0x22 then None
          else case scan_str s1 of
            None \<Rightarrow> None
          | Some (k, s2) \<Rightarrow>
              if skip s2 = [] \<or> hd (skip s2) \<noteq> CHR '':'' then None
              else case parse n (skip (tl (skip s2))) of
                None \<Rightarrow> None
              | Some (v, u) \<Rightarrow>
                  (case skip u of
                     [] \<Rightarrow> None
                   | c # t \<Rightarrow>
                       if c = CHR ''}'' then Some (AList.update k v acc, t)
                       else if c = CHR '','' then parse_pairs n (AList.update k v acc) (skip t)
                       else None))"

definition loads :: "string \<Rightarrow> pyval option" where
  "loads s =
     (case parse (2 * length (skip s)) (skip s) of
        None \<Rightarrow> None
      | Some (v, u) \<Rightarrow> if skip u = [] then Some v else None)"

section \<open>Reading what was written: strings and integers\<close>

lemma hex_value_digit: "d < 16 \<Longrightarrow> hex_value (hex_digit d) = Some d"
  by (auto simp: hex_value_def hex_digit_def Let_def)

lemma hex_value_zero: "hex_value CHR ''0'' = Some 0"
  by (simp add: hex_value_def)

lemma char_iff: "c = d \<longleftrightarrow> (of_char c :: nat) = of_char d"
  by simp

lemma scan_escape_special:
  "c \<in> {CHR 0x22, CHR 0x5C, CHR 0x0A, CHR 0x0D, CHR 0x09, CHR 0x08, CHR 0x0C} \<Longrightarrow>
   scan_str (escape_char c @ s) = map_option (\<lambda>(y, u). (c # y, u)) (scan_str s)"
  by (elim insertE emptyE) (simp_all add: escape_char_def unescape_def escapes_def)

lemma scan_escape: "scan_str (escape_char c @ s) = map_option (\<lambda>(y, u). (c # y, u)) (scan_str s)"
proof -
  let ?n = "of_char c :: nat"
  have lt: "?n < 256" by simp
  consider (special) "?n \<in> {34, 92, 10, 13, 9, 8, 12}"
    | (plain) "?n \<notin> {34, 92}" "32 \<le> ?n" "?n \<le> 126"
    | (hex) "?n \<notin> {34, 92, 10, 13, 9, 8, 12}" "\<not> (32 \<le> ?n \<and> ?n \<le> 126)"
    by fastforce
  then show ?thesis
  proof cases
    case special
    then have "c \<in> {CHR 0x22, CHR 0x5C, CHR 0x0A, CHR 0x0D, CHR 0x09, CHR 0x08, CHR 0x0C}"
      by (simp only: insert_iff empty_iff char_iff) simp
    then show ?thesis by (rule scan_escape_special)
  next
    case plain
    then have "escape_char c = [c]" "c \<noteq> CHR 0x22" "c \<noteq> CHR 0x5C"
      by (simp_all only: char_iff) (simp_all add: escape_char_def Let_def)
    with plain show ?thesis by (simp add: unescape_def)
  next
    case hex
    then have e: "escape_char c =
        [CHR 0x5C, CHR ''u'', CHR ''0'', CHR ''0'', hex_digit (?n div 16), hex_digit (?n mod 16)]"
      by (auto simp: escape_char_def Let_def)
    have "?n div 16 < 16" using lt by (simp add: less_mult_imp_div_less)
    then have "unicode_escape (CHR ''0'' # CHR ''0'' # hex_digit (?n div 16) # hex_digit (?n mod 16) # s) = Some c"
      by (simp add: hex_value_zero hex_value_digit)
    then show ?thesis unfolding e by (simp add: unescape_def)
  qed
qed

lemma scan_dumps_str: "scan_str (concat (map escape_char y) @ CHR 0x22 # s) = Some (y, s)"
  by (induction y) (simp_all add: scan_escape)

lemma digit_char_facts:
  assumes "d < 10"
  shows "is_digit (digit_char d)" "digit_value (digit_char d) = d" "digit_char d = CHR ''0'' \<longleftrightarrow> d = 0"
proof -
  have o: "of_char (digit_char d) = 48 + d" using assms by (simp add: digit_char_def)
  then show "is_digit (digit_char d)" "digit_value (digit_char d) = d"
    using assms by (simp_all add: is_digit_def digit_value_def)
  show "digit_char d = CHR ''0'' \<longleftrightarrow> d = 0"
    unfolding char_iff o by simp
qed

lemma read_nat_snoc: "read_nat (s @ [c]) = 10 * read_nat s + digit_value c"
  by (simp add: read_nat_def)

lemma show_nat_digits:
  "(\<forall>c \<in> set (show_nat n). is_digit c) \<and> read_nat (show_nat n) = n \<and> show_nat n \<noteq> [] \<and>
   (hd (show_nat n) = CHR ''0'' \<longrightarrow> show_nat n = ''0'')"
proof (induction n rule: show_nat.induct)
  case (1 n)
  show ?case
  proof (cases "n < 10")
    case True
    then show ?thesis
      by (subst (1 2 3 4 5) show_nat.simps) (use True digit_char_facts in \<open>auto simp: read_nat_def\<close>)
  next
    case False
    note IH = 1 [OF False]
    have s: "show_nat n = show_nat (n div 10) @ [digit_char (n mod 10)]"
      using False by (subst show_nat.simps) simp
    have "hd (show_nat (n div 10)) \<noteq> CHR ''0''"
    proof
      assume "hd (show_nat (n div 10)) = CHR ''0''"
      then have "show_nat (n div 10) = ''0''" using IH by blast
      then have "read_nat (show_nat (n div 10)) = 0" by (simp add: read_nat_def digit_value_def)
      then show False using IH False by simp
    qed
    then show ?thesis unfolding s using IH digit_char_facts [of "n mod 10"] by (auto simp: read_nat_snoc)
  qed
qed

text \<open>What may follow an integer so that it ends there.\<close>

definition ends_int :: "string \<Rightarrow> bool" where
  "ends_int s \<longleftrightarrow> s = [] \<or> (\<not> is_digit (hd s) \<and> hd s \<notin> {CHR ''.'', CHR ''e'', CHR ''E''})"

lemma scan_nat_show:
  assumes "ends_int s"
  shows "scan_nat (show_nat n @ s) = Some (n, s)"
proof -
  note d = show_nat_digits [of n]
  have t: "takeWhile is_digit (show_nat n @ s) = show_nat n"
    using d assms by (cases s) (auto simp: takeWhile_append2 ends_int_def)
  have c: "(case show_nat n of [] \<Rightarrow> [] | d # ds \<Rightarrow> if d = CHR ''0'' then [d] else d # ds) = show_nat n"
    using d by (cases "show_nat n") auto
  show ?thesis unfolding scan_nat_def t c Let_def using d assms by (cases s) (auto simp: ends_int_def)
qed

lemma show_nat_hd: "is_digit (hd (show_nat n)) \<and> show_nat n \<noteq> []"
  using show_nat_digits [of n] by (cases "show_nat n") auto

lemma scan_int_show:
  assumes "ends_int s"
  shows "scan_int (show_int i @ s) = Some (i, s)"
proof (cases "i < 0")
  case True
  then show ?thesis using scan_nat_show [OF assms] by (simp add: scan_int_def show_int_def)
next
  case False
  obtain c t where "show_nat (nat i) = c # t" using show_nat_hd by (cases "show_nat (nat i)") auto
  moreover have "c \<noteq> CHR ''-''" using calculation show_nat_hd [of "nat i"] by (auto simp: is_digit_def)
  ultimately show ?thesis using False scan_nat_show [OF assms, of "nat i"] by (simp add: scan_int_def show_int_def)
qed

section \<open>Reading what was written: values\<close>

text \<open>Dictionaries have each key once.\<close>

fun distinct_keys :: "pyval \<Rightarrow> bool" where
  "distinct_keys (PyList vs) = list_all distinct_keys vs"
| "distinct_keys (PyDict kvs) = (distinct (map fst kvs) \<and> list_all (\<lambda>(k, v). distinct_keys v) kvs)"
| "distinct_keys _ = True"

lemma digit_facts: "is_digit c \<Longrightarrow> \<not> json_space c \<and> c \<notin> {CHR 0x22, CHR ''['', CHR '']'', CHR ''{'', CHR ''}'', CHR ''n'', CHR ''t'', CHR ''f''}"
  by (auto simp: is_digit_def json_space_def)

lemma show_int_hd:
  "show_int i \<noteq> [] \<and> \<not> json_space (hd (show_int i)) \<and>
   hd (show_int i) \<notin> {CHR 0x22, CHR ''['', CHR '']'', CHR ''{'', CHR ''}'', CHR ''n'', CHR ''t'', CHR ''f''}"
proof (cases "i < 0")
  case True
  then show ?thesis by (simp add: show_int_def json_space_def)
next
  case False
  then show ?thesis using show_nat_hd [of "nat i"] digit_facts by (auto simp: show_int_def)
qed

lemma dumps_hd:
  assumes "dumps v = Inr s"
  shows "s \<noteq> [] \<and> \<not> json_space (hd s) \<and> hd s \<noteq> CHR '']''"
  using assms show_int_hd
  by (cases v) (auto simp: result_simps dumps_str_def json_space_def split: if_split_asm)

lemma skip_id: "s \<noteq> [] \<Longrightarrow> \<not> json_space (hd s) \<Longrightarrow> skip (s @ r) = s @ r"
  by (cases s) (simp_all add: skip_def)

lemma skip_close [simp]: "skip (CHR '']'' # r) = CHR '']'' # r" "skip (CHR ''}'' # r) = CHR ''}'' # r"
  "skip (CHR '','' # r) = CHR '','' # r" "skip (CHR '':'' # r) = CHR '':'' # r"
  "skip (CHR 0x22 # r) = CHR 0x22 # r" "skip (CHR '' '' # r) = skip r"
  by (simp_all add: skip_def json_space_def)

lemma ends_int_close: "ends_int (CHR '']'' # r)" "ends_int (CHR ''}'' # r)" "ends_int (CHR '','' # r)"
  by (simp_all add: ends_int_def is_digit_def)

lemma update_fresh: "k \<notin> fst ` set acc \<Longrightarrow> AList.update k v acc = acc @ [(k, v)]"
  by (induction acc) auto

lemma parse_dumps:
  "dumps v = Inr s \<Longrightarrow> distinct_keys v \<Longrightarrow> ends_int r \<Longrightarrow> length s \<le> n \<Longrightarrow> parse n (s @ r) = Some (v, r)"
  "dumps_list vs = Inr ss \<Longrightarrow> list_all distinct_keys vs \<Longrightarrow> vs \<noteq> [] \<Longrightarrow> length (join '', '' ss) < n \<Longrightarrow>
     parse_elems n (join '', '' ss @ CHR '']'' # r) = Some (vs, r)"
  "dumps_dict kvs = Inr ss \<Longrightarrow> list_all (\<lambda>(k, v). distinct_keys v) kvs \<Longrightarrow> kvs \<noteq> [] \<Longrightarrow>
     distinct (map fst (acc @ kvs)) \<Longrightarrow> length (join '', '' ss) < n \<Longrightarrow>
     parse_pairs n acc (join '', '' ss @ CHR ''}'' # r) = Some (acc @ kvs, r)"
proof (induction v and vs and kvs arbitrary: s r n and ss r n and ss r n acc rule: dumps_dumps_list_dumps_dict.induct)
  case (3 i)
  obtain c t where s: "show_int i = c # t" using show_int_hd [of i] by (cases "show_int i") auto
  with show_int_hd [of i] have c: "c \<notin> {CHR 0x22, CHR ''['', CHR ''{'', CHR ''n'', CHR ''t'', CHR ''f''}" by auto
  from 3 s obtain m where "n = Suc m" by (cases n) auto
  moreover from 3 s have "s = c # t" by simp
  ultimately show ?case using c scan_int_show [OF 3(3), of i] s by simp
next
  case (4 y)
  then obtain m where "n = Suc m" by (cases n) (auto simp: dumps_str_def)
  with 4 show ?case by (auto simp: dumps_str_def scan_dumps_str)
next
  case (5 vs)
  from 5(2) obtain ss where ss: "dumps_list vs = Inr ss" and s: "s = ''['' @ join '', '' ss @ '']''"
    by (auto simp: result_simps)
  from 5(5) s obtain m where n: "n = Suc m" "length (join '', '' ss) < m" by (cases n) auto
  show ?case
  proof (cases vs)
    case Nil
    with ss s n show ?thesis by simp
  next
    case (Cons w ws)
    with ss obtain x xs where x: "ss = x # xs" "dumps w = Inr x" by (auto simp: result_simps)
    have h: "join '', '' ss \<noteq> []" "\<not> json_space (hd (join '', '' ss))" "hd (join '', '' ss) \<noteq> CHR '']''"
      using dumps_hd [OF x(2)] x(1) by (cases xs; simp)+
    have "parse_elems m (join '', '' ss @ CHR '']'' # r) = Some (vs, r)"
      by (rule 5(1)) (use ss 5(3) Cons n in auto)
    then show ?thesis using s n(1) h skip_id [OF h(1,2), of "CHR '']'' # r"] by simp
  qed
next
  case (6 kvs)
  from 6(2) obtain ss where ss: "dumps_dict kvs = Inr ss" and s: "s = ''{'' @ join '', '' ss @ ''}''"
    by (auto simp: result_simps)
  from 6(5) s obtain m where n: "n = Suc m" "length (join '', '' ss) < m" by (cases n) auto
  show ?case
  proof (cases kvs)
    case Nil
    with ss s n show ?thesis by simp
  next
    case (Cons w ws)
    with ss obtain x xs where x: "ss = x # xs" "hd x = CHR 0x22" "x \<noteq> []"
      by (cases w) (auto simp: result_simps dumps_str_def)
    have h: "join '', '' ss \<noteq> []" "hd (join '', '' ss) = CHR 0x22" using x by (cases xs; simp)+
    have "parse_pairs m [] (join '', '' ss @ CHR ''}'' # r) = Some ([] @ kvs, r)"
      by (rule 6(1)) (use ss 6(3) Cons n in auto)
    then show ?thesis using s n(1) h skip_id [OF h(1), of "CHR ''}'' # r"] by (simp add: json_space_def)
  qed
next
  case (9 v vs)
  from 9(3) obtain x xs where x: "dumps v = Inr x" "dumps_list vs = Inr xs" "ss = x # xs"
    by (auto simp: result_simps)
  show ?case
  proof (cases vs)
    case Nil
    with x have ss: "ss = [x]" by simp
    with 9(6) obtain m where n: "n = Suc m" "length x \<le> m" by (cases n) auto
    have "parse m (x @ CHR '']'' # r) = Some (v, CHR '']'' # r)"
      by (rule 9(1)) (use x 9(4) n ends_int_close in auto)
    then show ?thesis using n ss Nil by simp
  next
    case (Cons w ws)
    with x(2) obtain y ys where y: "xs = y # ys" "dumps w = Inr y" by (auto simp: result_simps)
    with x have j: "join '', '' ss = x @ '', '' @ join '', '' xs" by simp
    with 9(6) obtain m where n: "n = Suc m" "length x \<le> m" "length (join '', '' xs) < m" by (cases n) auto
    have 1: "parse m (x @ CHR '','' # CHR '' '' # join '', '' xs @ CHR '']'' # r) =
        Some (v, CHR '','' # CHR '' '' # join '', '' xs @ CHR '']'' # r)"
      by (rule 9(1)) (use x 9(4) n ends_int_close in auto)
    have 2: "parse_elems m (join '', '' xs @ CHR '']'' # r) = Some (vs, r)"
      by (rule 9(2)) (use x 9(4) n Cons in auto)
    have h: "join '', '' xs \<noteq> []" "\<not> json_space (hd (join '', '' xs))"
      using dumps_hd [OF y(2)] y(1) by (cases ys; simp)+
    show ?thesis using 1 2 n(1) j skip_id [OF h, of "CHR '']'' # r"] by simp
  qed
next
  case (11 k v kvs)
  from 11(3) obtain x xs where x: "dumps v = Inr x" "dumps_dict kvs = Inr xs"
    "ss = (dumps_str k @ '': '' @ x) # xs" by (auto simp: result_simps)
  have q: "dumps_str k = CHR 0x22 # concat (map escape_char k) @ [CHR 0x22]" by (simp add: dumps_str_def)
  have u: "AList.update k v acc = acc @ [(k, v)]"
    using 11(6) by (auto intro: update_fresh)
  note hx = dumps_hd [OF x(1)]
  show ?case
  proof (cases kvs)
    case Nil
    with x have ss: "ss = [dumps_str k @ '': '' @ x]" by simp
    with 11(7) obtain m where n: "n = Suc m" "length x \<le> m" by (cases n) auto
    have "parse m (x @ CHR ''}'' # r) = Some (v, CHR ''}'' # r)"
      by (rule 11(1)) (use x 11(4) n ends_int_close in auto)
    then show ?thesis using n ss Nil u skip_id [of x "CHR ''}'' # r"] hx
      by (simp add: q scan_dumps_str)
  next
    case (Cons w ws)
    with x(2) obtain y ys where y: "xs = y # ys" "hd y = CHR 0x22" "y \<noteq> []"
      by (cases w) (auto simp: result_simps dumps_str_def)
    with x have j: "join '', '' ss = dumps_str k @ '': '' @ x @ '', '' @ join '', '' xs" by simp
    with 11(7) obtain m where n: "n = Suc m" "length x \<le> m" "length (join '', '' xs) < m" by (cases n) auto
    let ?r = "CHR '','' # CHR '' '' # join '', '' xs @ CHR ''}'' # r"
    have 1: "parse m (x @ ?r) = Some (v, ?r)"
      by (rule 11(1)) (use x 11(4) n ends_int_close in auto)
    have 2: "parse_pairs m (acc @ [(k, v)]) (join '', '' xs @ CHR ''}'' # r) = Some ((acc @ [(k, v)]) @ kvs, r)"
      by (rule 11(2)) (use x 11(4,6) n Cons in auto)
    have h: "join '', '' xs \<noteq> []" "\<not> json_space (hd (join '', '' xs))"
      using y by (cases ys; simp add: json_space_def)+
    show ?thesis using 1 2 n(1) j u skip_id [OF h, of "CHR ''}'' # r"] skip_id [of x ?r] hx
      by (simp add: q scan_dumps_str)
  qed
next
  case 1
  then show ?case by (cases n) (auto simp: scan_word_def starts_with_code)
next
  case (2 b)
  then show ?case by (cases n; cases b) (auto simp: scan_word_def starts_with_code)
qed (auto simp: result_simps)

lemma loads_dumps:
  assumes "dumps v = Inr s" and "distinct_keys v"
  shows "loads s = Some v"
proof -
  note h = dumps_hd [OF assms(1)]
  have "skip s = s" using h skip_id [of s "[]"] by simp
  moreover have "parse (2 * length s) s = Some (v, [])"
    using parse_dumps(1) [OF assms, of "[]" "2 * length s"] by (simp add: ends_int_def)
  ultimately show ?thesis by (simp add: loads_def skip_def)
qed

section \<open>The bound on the steps\<close>

lemma skip_length: "length (skip s) \<le> length s"
  by (simp add: skip_def length_dropWhile_le)

lemma scan_str_shorter: "scan_str s = Some (y, u) \<Longrightarrow> length u < length s"
proof (induction s arbitrary: y rule: scan_str.induct)
  case (2 c s)
  show ?case
  proof (cases "c = CHR 0x22")
    case False
    with 2(2) obtain x n z where "unescape c s = Some (x, n)" "scan_str (drop n s) = Some (z, u)"
      by (auto split: option.split_asm)
    with 2(1) [OF False] have "length u < length (drop n s)" by metis
    then show ?thesis by simp
  qed (use 2 in simp)
qed simp

lemma scan_nat_shorter:
  assumes "scan_nat s = Some (n, u)"
  shows "length u < length s"
proof -
  define ds where "ds = (case takeWhile is_digit s of [] \<Rightarrow> [] | d # ds \<Rightarrow> if d = CHR ''0'' then [d] else d # ds)"
  from assms have "ds \<noteq> []" "u = drop (length ds) s"
    by (auto simp: scan_nat_def ds_def [symmetric] Let_def split: if_split_asm)
  moreover from this(1) have "s \<noteq> []" by (auto simp: ds_def)
  ultimately show ?thesis by auto
qed

lemma scan_int_shorter: "scan_int s = Some (i, u) \<Longrightarrow> length u < length s"
  using scan_nat_shorter by (fastforce simp: scan_int_def split: list.split_asm if_split_asm)

lemma scan_word_shorter: "scan_word w v s = Some (v', u) \<Longrightarrow> w \<noteq> [] \<Longrightarrow> length u < length s"
  by (auto simp: scan_word_def starts_with_def prefix_def split: if_split_asm)

lemma tl_skip_shorter: "length (tl (skip s)) \<le> length s"
  using skip_length [of s] by simp

lemma skip_Cons_shorter: "skip s = c # t \<Longrightarrow> length t < length s"
  using skip_length [of s] by simp

lemma parse_shorter:
  "parse n s = Some (v, u) \<Longrightarrow> length u < length s"
  "parse_elems n s = Some (vs, u) \<Longrightarrow> length u < length s"
  "parse_pairs n acc s = Some (kvs, u) \<Longrightarrow> length u < length s"
proof (induction n s and n s and n acc s arbitrary: v u and vs u and kvs u rule: parse_parse_elems_parse_pairs.induct)
  case (2 n s)
  from 2(3) obtain c t where s: "s = c # t" by (auto split: list.split_asm)
  have A: "length w < length (c # t)" if "parse_elems n (skip t) = Some (x, w)"
    "c \<noteq> CHR 0x22" "c = CHR ''[''" "\<not> (skip t \<noteq> [] \<and> hd (skip t) = CHR '']'')" for x w
    using 2(1) [OF s that(2,3,4) that(1)] skip_length [of t] by simp
  have B: "length w < length (c # t)" if "parse_pairs n [] (skip t) = Some (x, w)"
    "c \<noteq> CHR 0x22" "c \<noteq> CHR ''[''" "c = CHR ''{''" "\<not> (skip t \<noteq> [] \<and> hd (skip t) = CHR ''}'')" for x w
    using 2(2) [OF s that(2,3,4,5) that(1)] skip_length [of t] by simp
  show ?case using 2(3) A B tl_skip_shorter [of t]
    by (auto simp: s le_imp_less_Suc less_Suc_eq dest: scan_str_shorter scan_word_shorter scan_int_shorter split: if_split_asm)
next
  case (4 n s)
  from 4(3) obtain w x where p: "parse n s = Some (w, x)" by (auto split: option.split_asm)
  have "length x < length s" by (rule 4(1) [OF p])
  moreover from 4(3) p obtain c t where c: "skip x = c # t" by (auto split: list.split_asm)
  moreover have "length u < length (skip t)" if "parse_elems n (skip t) = Some (z, u)" "c \<noteq> CHR '']''" "c = CHR '',''" for z
    using 4(2) [OF p _ c that(2,3,1)] by simp
  ultimately show ?case using 4(3) p skip_Cons_shorter [OF c] skip_length [of t]
    by (fastforce split: if_split_asm)
next
  case (6 n acc s)
  from 6(3) obtain s1 k s2 w x c t where s: "s = CHR 0x22 # s1" and k: "scan_str s1 = Some (k, s2)"
    and h: "\<not> (skip s2 = [] \<or> hd (skip s2) \<noteq> CHR '':'')"
    and p: "parse n (skip (tl (skip s2))) = Some (w, x)" and c: "skip x = c # t"
    by (auto split: list.split_asm option.split_asm if_split_asm)
  have "length x < length (skip (tl (skip s2)))" using 6(1) [OF s _ k _ h p] by simp
  moreover have "length u < length (skip t)" if "parse_pairs n (AList.update k w acc) (skip t) = Some (kvs, u)"
    "c \<noteq> CHR ''}''" "c = CHR '',''"
    using 6(2) [OF s _ k _ h p _ c that(2,3,1)] by simp
  ultimately show ?case using 6(3) s k h p c skip_Cons_shorter [OF c] skip_length [of t]
      scan_str_shorter [OF k] skip_length [of "tl (skip s2)"] tl_skip_shorter [of s2]
    by (auto split: if_split_asm)
qed simp_all

lemma parse_enough:
  "parse n s = Some p \<Longrightarrow> 2 * length s \<le> m \<Longrightarrow> parse m s = Some p"
  "parse_elems n s = Some ps \<Longrightarrow> 2 * length s < m \<Longrightarrow> parse_elems m s = Some ps"
  "parse_pairs n acc s = Some qs \<Longrightarrow> 2 * length s < m \<Longrightarrow> parse_pairs m acc s = Some qs"
proof (induction n s and n s and n acc s arbitrary: p m and ps m and qs m rule: parse_parse_elems_parse_pairs.induct)
  case (2 n s)
  from 2(3) obtain c t where s: "s = c # t" by (auto split: list.split_asm)
  with 2(4) obtain k where m: "m = Suc k" "2 * length t < k" by (cases m) auto
  then have len: "2 * length (skip t) < k" using skip_length [of t] by simp
  show ?case
  proof (cases "c = CHR ''['' \<and> \<not> (skip t \<noteq> [] \<and> hd (skip t) = CHR '']'')")
    case True
    with 2(3) s obtain q where q: "parse_elems n (skip t) = Some q" by auto
    have "parse_elems k (skip t) = Some q" by (rule 2(1) [OF s _ _ _ q len]) (use True in auto)
    with True 2(3) s m q show ?thesis by (auto split: if_split_asm)
  next
    case F: False
    show ?thesis
    proof (cases "c = CHR ''{'' \<and> \<not> (skip t \<noteq> [] \<and> hd (skip t) = CHR ''}'')")
      case True
      with 2(3) s obtain q where q: "parse_pairs n [] (skip t) = Some q" by auto
      have "parse_pairs k [] (skip t) = Some q" by (rule 2(2) [OF s _ _ _ _ q len]) (use True in auto)
      with True 2(3) s m q show ?thesis by (auto split: if_split_asm)
    next
      case False
      with F have "parse (Suc k) s = parse (Suc n) s"
        by (cases "c = CHR ''[''"; cases "c = CHR ''{''") (simp_all add: s)
      with 2(3) m show ?thesis by simp
    qed
  qed
next
  case (4 n s)
  from 4(4) obtain k where m: "m = Suc k" "2 * length s \<le> k" by (cases m) auto
  from 4(3) obtain w x c t where p: "parse n s = Some (w, x)" and c: "skip x = c # t"
    by (auto split: option.split_asm list.split_asm)
  have 1: "parse k s = Some (w, x)" by (rule 4(1) [OF p m(2)])
  show ?case
  proof (cases "c = CHR '']''")
    case False
    with 4(3) p c have c': "c = CHR '',''" by (auto split: if_split_asm)
    with 4(3) p c obtain q where q: "parse_elems n (skip t) = Some q" by auto
    have "2 * length (skip t) < k"
      using m(2) parse_shorter(1) [OF p] skip_Cons_shorter [OF c] skip_length [of t] by simp
    from 4(2) [OF p _ c False c' q this] 4(3) 1 p c c' q m show ?thesis by simp
  qed (use 4(3) 1 p c m in simp)
next
  case (6 n acc s)
  from 6(4) obtain j where m: "m = Suc j" "2 * length s \<le> j" by (cases m) auto
  from 6(3) obtain s1 k s2 w x c t where s: "s = CHR 0x22 # s1" and k: "scan_str s1 = Some (k, s2)"
    and h: "\<not> (skip s2 = [] \<or> hd (skip s2) \<noteq> CHR '':'')"
    and p: "parse n (skip (tl (skip s2))) = Some (w, x)" and c: "skip x = c # t"
    by (auto split: list.split_asm option.split_asm if_split_asm)
  have len: "length (skip (tl (skip s2))) < length s"
    using s scan_str_shorter [OF k] skip_length [of "tl (skip s2)"] tl_skip_shorter [of s2] by simp
  have 1: "parse j (skip (tl (skip s2))) = Some (w, x)"
    by (rule 6(1) [OF s _ k _ h p]) (use len m in auto)
  show ?case
  proof (cases "c = CHR ''}''")
    case False
    with 6(3) s k h p c have c': "c = CHR '',''" by (auto split: if_split_asm)
    with 6(3) s k h p c obtain q where q: "parse_pairs n (AList.update k w acc) (skip t) = Some q" by auto
    have "2 * length (skip t) < j"
      using m(2) len parse_shorter(1) [OF p] skip_Cons_shorter [OF c] skip_length [of t] by simp
    from 6(2) [OF s _ k _ h p _ c False c' q this] 6(3) 1 s k h p c c' q m show ?thesis by simp
  qed (use 6(3) 1 s k h p c m in simp)
qed simp_all

text \<open>No larger bound would make \<open>loads\<close> accept more.\<close>

lemma loads_complete:
  assumes "parse n (skip s) = Some (v, u)" and "skip u = []"
  shows "loads s = Some v"
  using parse_enough(1) [OF assms(1), of "2 * length (skip s)"] assms(2) by (simp add: loads_def)

end
