(* ===== verification/AuthActions.thy ===== *)
theory AuthActions
  imports Users JsonDecode
begin

text \<open>
  Authenticated actions (\<open>models/authenticated_actions.py\<close>, \<open>serializers/authenticated_actions.py\<close>,
  \<open>views/authenticated_actions.py\<close> and the authentication by code in \<open>authentication.py\<close>): procedure
  calls that are handed out in a mail as an encrypted code and carried out if the state they were
  made for still holds. Encryption (Fernet), SHA-256 and the printing of dates
  and identifiers are parameters.
\<close>

section \<open>Actions\<close>

datatype auth_action =
  ChangeOutreachPreference nat bool
| ActivateUser nat "string option"
| ActivateUserWithOverrideToken nat bool nat
| ChangeEmail nat string
| CreateTOTPFactor nat string
| Noop nat
| ResetPassword nat string
| DeleteUser nat
| RenewDomain nat nat

primrec action_user :: "auth_action \<Rightarrow> nat" where
  "action_user (ChangeOutreachPreference u b) = u"
| "action_user (ActivateUser u d) = u"
| "action_user (ActivateUserWithOverrideToken u b i) = u"
| "action_user (ChangeEmail u e) = u"
| "action_user (CreateTOTPFactor u n) = u"
| "action_user (Noop u) = u"
| "action_user (ResetPassword u p) = u"
| "action_user (DeleteUser u) = u"
| "action_user (RenewDomain u d) = u"

primrec class_name :: "auth_action \<Rightarrow> string" where
  "class_name (ChangeOutreachPreference u b) = ''AuthenticatedChangeOutreachPreferenceUserAction''"
| "class_name (ActivateUser u d) = ''AuthenticatedActivateUserAction''"
| "class_name (ActivateUserWithOverrideToken u b i) = ''AuthenticatedActivateUserWithOverrideTokenAction''"
| "class_name (ChangeEmail u e) = ''AuthenticatedChangeEmailUserAction''"
| "class_name (CreateTOTPFactor u n) = ''AuthenticatedCreateTOTPFactorUserAction''"
| "class_name (Noop u) = ''AuthenticatedNoopUserAction''"
| "class_name (ResetPassword u p) = ''AuthenticatedResetPasswordUserAction''"
| "class_name (DeleteUser u) = ''AuthenticatedDeleteUserAction''"
| "class_name (RenewDomain u d) = ''AuthenticatedRenewDomainBasicUserAction''"

record lib =
  uuid_str :: "nat \<Rightarrow> string"
  isoformat :: "int \<Rightarrow> string"
  datetime_str :: "int \<Rightarrow> string"
  sha256 :: "string \<Rightarrow> string"
  encrypt :: "int \<Rightarrow> string \<Rightarrow> string"
  decrypt :: "int option \<Rightarrow> int \<Rightarrow> string \<Rightarrow> (int \<times> string) option"
  make_password :: "string \<Rightarrow> string"
  usable_password :: "string \<Rightarrow> bool"

datatype auth_error =
  InvalidCode
| FieldMissing string
| NoSuchObject string
| InvalidState
| StateNotVerified
| StateTypeError
| UserInactive
| NotActive
| StillHasDomains
| CaptchaRequired
| ActionFailed store_error

section \<open>State of an action\<close>

definition base_fields :: "auth_action \<Rightarrow> pyval list" where
  "base_fields a = [PyStr (''desecapi.models.authenticated_actions.'' @ class_name a)]"

definition basic_user_fields :: "lib \<Rightarrow> auth_action \<Rightarrow> account \<Rightarrow> pyval list" where
  "basic_user_fields L a u = base_fields a @ [PyStr (uuid_str L (ac_id u))]"

definition py_bool_option :: "bool option \<Rightarrow> pyval" where
  "py_bool_option b = (case b of None \<Rightarrow> PyNone | Some x \<Rightarrow> PyBool x)"

definition user_fields :: "lib \<Rightarrow> auth_action \<Rightarrow> account \<Rightarrow> pyval list" where
  "user_fields L a u =
     basic_user_fields L a u @
       [PyStr (isoformat L (ac_credentials_changed u)), py_bool_option (ac_is_active u)]"

definition py_timedelta :: "int option \<Rightarrow> pyval" where
  "py_timedelta x = (case x of None \<Rightarrow> PyNone | Some n \<Rightarrow> PyTimedelta n)"

definition find_domain :: "nat \<Rightarrow> store \<Rightarrow> adomain option" where
  "find_domain d S = find (\<lambda>x. d_id x = d) (udomains S)"

text \<open>\<open>_state_fields\<close>\<close>

definition state_fields :: "lib \<Rightarrow> store \<Rightarrow> auth_action \<Rightarrow> (auth_error, pyval list) result" where
  "state_fields L S a =
     (case users S (action_user a) of
        None \<Rightarrow> Inl (NoSuchObject ''user'')
      | Some u \<Rightarrow>
          (case a of
             ChangeOutreachPreference _ b \<Rightarrow> Inr (basic_user_fields L a u @ [PyStr (ac_email u)])
           | ActivateUser _ d \<Rightarrow> Inr (user_fields L a u @ [case d of None \<Rightarrow> PyNone | Some s \<Rightarrow> PyStr s])
           | ActivateUserWithOverrideToken _ b i \<Rightarrow>
               (case utokens S i of
                  None \<Rightarrow> Inl (NoSuchObject ''token'')
                | Some t \<Rightarrow> Inr (user_fields L a u @
                    [PyStr (uuid_str L (t_id t)), PyStr (uuid_str L (token_user t)),
                     (case t_user_override t of None \<Rightarrow> PyNone | Some o' \<Rightarrow> PyStr (uuid_str L o')),
                     PyStr (token_names S i), PyBool (perm_create_domain t), PyBool (perm_delete_domain t),
                     PyBool (auto_policy t), py_timedelta (t_max_age t), py_timedelta (t_max_unused t)]))
           | ChangeEmail _ e \<Rightarrow> Inr (user_fields L a u @ [PyStr e])
           | CreateTOTPFactor _ n \<Rightarrow> Inr (user_fields L a u)
           | Noop _ \<Rightarrow> Inr (basic_user_fields L a u)
           | ResetPassword _ p \<Rightarrow> Inr (user_fields L a u)
           | DeleteUser _ \<Rightarrow> Inr (user_fields L a u)
           | RenewDomain _ d \<Rightarrow>
               (case find_domain d S of
                  None \<Rightarrow> Inl (NoSuchObject ''domain'')
                | Some x \<Rightarrow> Inr (basic_user_fields L a u @
                    [PyStr (show_nat (d_id x)), PyStr (m_name x), PyStr (uuid_str L (m_owner x)),
                     PyStr (datetime_str L (d_renewal_changed x))]))))"

text \<open>\<open>state_of\<close>, \<open>state\<close>\<close>

definition state_of :: "lib \<Rightarrow> pyval list \<Rightarrow> (auth_error, string) result" where
  "state_of L vs = (case dumps (PyList vs) of Inl _ \<Rightarrow> Inl StateTypeError | Inr s \<Rightarrow> Inr (sha256 L s))"

definition state :: "lib \<Rightarrow> store \<Rightarrow> auth_action \<Rightarrow> (auth_error, string) result" where
  "state L S a = rbind (state_fields L S a) (state_of L)"

definition validate_state :: "lib \<Rightarrow> store \<Rightarrow> auth_action \<Rightarrow> string \<Rightarrow> (auth_error, bool) result" where
  "validate_state L S a value = rbind (state L S a) (\<lambda>s. Inr (value = s))"

text \<open>\<open>__init__\<close>: the action with its flag \<open>_validated\<close>.\<close>

definition instantiate :: "lib \<Rightarrow> store \<Rightarrow> auth_action \<Rightarrow> string option \<Rightarrow> (auth_error, auth_action \<times> bool) result" where
  "instantiate L S a value =
     (case value of
        None \<Rightarrow> Inr (a, False)
      | Some v \<Rightarrow> rbind (validate_state L S a v) (\<lambda>valid.
          if valid then Inr (a, True) else Inl InvalidState))"

section \<open>Carrying out an action\<close>

text \<open>A transaction on the store: an exception leaves the store as it was.\<close>

definition atomic :: "(store \<Rightarrow> (store_error, store) result) \<Rightarrow> (store, auth_error, unit) io" where
  "atomic f S = (case f S of Inl e \<Rightarrow> (Inl (ActionFailed e), S) | Inr S' \<Rightarrow> (Inr (), S'))"

definition set_outreach :: "nat \<Rightarrow> bool \<Rightarrow> store \<Rightarrow> (store_error, store) result" where
  "set_outreach u b S = rbind (get_user u S) (\<lambda>x. Inr (put_user (x\<lparr>ac_outreach := b\<rparr>) S))"

definition save_override :: "nat \<Rightarrow> nat \<Rightarrow> store \<Rightarrow> (store_error, store) result" where
  "save_override i u S =
     (case utokens S i of
        None \<Rightarrow> Inl UserDoesNotExist
      | Some t \<Rightarrow>
          (case token_step (SaveToken (t\<lparr>t_user_override := Some u\<rparr>) 0) t of
             Inl e \<Rightarrow> Inl (TokenError e)
           | Inr t' \<Rightarrow> Inr (S\<lparr>utokens := (utokens S)(i \<mapsto> t')\<rparr>)))"

text \<open>\<open>new_id\<close> is the key of a factor that is created.\<close>

fun act_unchecked :: "lib \<Rightarrow> int \<Rightarrow> nat \<Rightarrow> auth_action \<Rightarrow> (store, auth_error, unit) io" where
  "act_unchecked L now new_id (ChangeOutreachPreference u b) = atomic (set_outreach u b)"
| "act_unchecked L now new_id (ActivateUser u d) = atomic (activate u)"
| "act_unchecked L now new_id (ActivateUserWithOverrideToken u b i) =
     io_bind (atomic (\<lambda>S. rbind (set_outreach u b S) (activate u))) (\<lambda>_. atomic (save_override i u))"
| "act_unchecked L now new_id (ChangeEmail u e) = atomic (change_email now u e)"
| "act_unchecked L now new_id (CreateTOTPFactor u n) =
     atomic (factor_save now
       \<lparr>f_id = new_id, f_user = u, f_name = n, f_last_used = None, f_secret = [], f_last_timestep = 0\<rparr>)"
| "act_unchecked L now new_id (Noop u) = io_return ()"
| "act_unchecked L now new_id (ResetPassword u p) = atomic (change_password (make_password L) now u p)"
| "act_unchecked L now new_id (DeleteUser u) = atomic (delete_user u)"
| "act_unchecked L now new_id (RenewDomain u d) =
     atomic (\<lambda>S. Inr (S\<lparr>udomains :=
       map (\<lambda>x. if d_id x = d then x\<lparr>d_renewal_state := FRESH, d_renewal_changed := now\<rparr> else x) (udomains S)\<rparr>))"

definition act :: "lib \<Rightarrow> int \<Rightarrow> nat \<Rightarrow> auth_action \<times> bool \<Rightarrow> (store, auth_error, unit) io" where
  "act L now new_id av =
     (case av of (a, validated) \<Rightarrow> if \<not> validated then io_raise StateNotVerified else act_unchecked L now new_id a)"

section \<open>Codes\<close>

definition pack_code :: "lib \<Rightarrow> int \<Rightarrow> pyval \<Rightarrow> (auth_error, string) result" where
  "pack_code L now data =
     (case dumps data of
        Inl _ \<Rightarrow> Inl StateTypeError
      | Inr payload \<Rightarrow> Inr (rstrip_char CHR ''='' (encrypt L now payload)))"

text \<open>\<open>code += -len(code) % 4 * "="\<close>\<close>

definition pad_code :: "string \<Rightarrow> string" where
  "pad_code code = code @ replicate (nat (- int (length code) mod 4)) CHR ''=''"

definition unpack_code :: "lib \<Rightarrow> int option \<Rightarrow> int \<Rightarrow> string \<Rightarrow> (auth_error, int \<times> pyval) result" where
  "unpack_code L period now code =
     (case decrypt L period now (pad_code code) of
        None \<Rightarrow> Inl InvalidCode
      | Some (timestamp, payload) \<Rightarrow>
          (case loads payload of None \<Rightarrow> Inl InvalidCode | Some v \<Rightarrow> Inr (timestamp, v)))"

text \<open>The fields of the serializer that are not write-only: \<open>to_representation\<close>.\<close>

definition action_data :: "lib \<Rightarrow> string \<Rightarrow> auth_action \<Rightarrow> pyval" where
  "action_data L st a =
     PyDict ([(''state'', PyStr st), (''user'', PyStr (uuid_str L (action_user a)))] @
       (case a of
          ChangeOutreachPreference _ b \<Rightarrow> [(''outreach_preference'', PyBool b)]
        | ActivateUser _ d \<Rightarrow> [(''domain'', case d of None \<Rightarrow> PyNone | Some s \<Rightarrow> PyStr s)]
        | ActivateUserWithOverrideToken _ b i \<Rightarrow> [(''token'', PyStr (uuid_str L i))]
        | ChangeEmail _ e \<Rightarrow> [(''new_email'', PyStr e)]
        | CreateTOTPFactor _ n \<Rightarrow> [(''name'', PyStr n)]
        | RenewDomain _ d \<Rightarrow> [(''domain'', PyInt (int d))]
        | _ \<Rightarrow> []))"

text \<open>The code that is sent, for an action without a \<open>state\<close> argument.\<close>

definition action_code :: "lib \<Rightarrow> int \<Rightarrow> store \<Rightarrow> auth_action \<Rightarrow> (auth_error, string) result" where
  "action_code L now S a = rbind (state L S a) (\<lambda>st. pack_code L now (action_data L st a))"

text \<open>\<open>reason\<close> and \<open>save\<close> of the serializers: the mail with the code goes to the user, or to the new
  address.\<close>

primrec reason :: "auth_action \<Rightarrow> string" where
  "reason (ChangeOutreachPreference u b) = ''change-outreach-preference''"
| "reason (ActivateUser u d) = ''activate-account''"
| "reason (ActivateUserWithOverrideToken u b i) = ''activate-account-with-override-token''"
| "reason (ChangeEmail u e) = ''change-email''"
| "reason (CreateTOTPFactor u n) = ''create-totp''"
| "reason (Noop u) = ''confirm-account''"
| "reason (ResetPassword u p) = ''reset-password''"
| "reason (DeleteUser u) = ''delete-account''"
| "reason (RenewDomain u d) = ''renew-domain''"

definition recipient_of :: "auth_action \<Rightarrow> string option" where
  "recipient_of a = (case a of ChangeEmail u e \<Rightarrow> Some e | _ \<Rightarrow> None)"

definition build_and_save ::
  "lib \<Rightarrow> int \<Rightarrow> auth_action \<Rightarrow> store \<Rightarrow> (auth_error, string \<times> store) result" where
  "build_and_save L now a S =
     rbind (action_code L now S a) (\<lambda>code.
       case rbind (get_user (action_user a) S) (\<lambda>u. send_email u (reason a) (recipient_of a) S) of
         Inl e \<Rightarrow> Inl (ActionFailed e)
       | Inr S' \<Rightarrow> Inr (code, S'))"

text \<open>Several actions in one mail: they must belong to the same user.\<close>

definition list_action_user :: "auth_action list \<Rightarrow> nat option" where
  "list_action_user as =
     (case as of
        [] \<Rightarrow> None
      | a # _ \<Rightarrow> if \<exists>b \<in> set as. action_user b \<noteq> action_user a then None else Some (action_user a))"

section \<open>Reading an action from a request\<close>

datatype kind =
  KOutreach | KActivate | KActivateOverride | KChangeEmail | KConfirm | KCreateTOTP | KResetPassword | KDelete | KRenew

text \<open>\<open>validity_period\<close> in seconds; \<open>standard\<close> is the setting.\<close>

definition validity_period :: "int \<Rightarrow> kind \<Rightarrow> int option" where
  "validity_period standard k =
     (case k of
        KOutreach \<Rightarrow> None | KRenew \<Rightarrow> None
      | KConfirm \<Rightarrow> Some (14 * 86400) | KCreateTOTP \<Rightarrow> Some 3600
      | _ \<Rightarrow> Some standard)"

text \<open>\<open>{**data, **unpacked_data}\<close>\<close>

definition merged :: "(string \<times> pyval) list \<Rightarrow> pyval \<Rightarrow> string \<Rightarrow> pyval option" where
  "merged data unpacked k =
     (case (case unpacked of PyDict kvs \<Rightarrow> map_of kvs k | _ \<Rightarrow> None) of Some v \<Rightarrow> Some v | None \<Rightarrow> map_of data k)"

definition str_field :: "(string \<Rightarrow> pyval option) \<Rightarrow> string \<Rightarrow> (auth_error, string) result" where
  "str_field m k = (case m k of Some (PyStr s) \<Rightarrow> Inr s | _ \<Rightarrow> Inl (FieldMissing k))"

definition bool_field :: "(string \<Rightarrow> pyval option) \<Rightarrow> string \<Rightarrow> (auth_error, bool) result" where
  "bool_field m k = (case m k of Some (PyBool b) \<Rightarrow> Inr b | _ \<Rightarrow> Inl (FieldMissing k))"

definition user_field :: "lib \<Rightarrow> store \<Rightarrow> (string \<Rightarrow> pyval option) \<Rightarrow> (auth_error, nat) result" where
  "user_field L S m =
     rbind (str_field m ''user'') (\<lambda>s.
       case filter (\<lambda>u. uuid_str L u = s) (sorted_list_of_set (dom (users S))) of
         [] \<Rightarrow> Inl (NoSuchObject ''user'') | u # _ \<Rightarrow> Inr u)"

definition token_field :: "lib \<Rightarrow> store \<Rightarrow> (string \<Rightarrow> pyval option) \<Rightarrow> (auth_error, nat) result" where
  "token_field L S m =
     rbind (str_field m ''token'') (\<lambda>s.
       case filter (\<lambda>i. uuid_str L i = s) (sorted_list_of_set (dom (utokens S))) of
         [] \<Rightarrow> Inl (NoSuchObject ''token'') | i # _ \<Rightarrow> Inr i)"

definition domain_field :: "store \<Rightarrow> (string \<Rightarrow> pyval option) \<Rightarrow> (auth_error, nat) result" where
  "domain_field S m =
     (case m ''domain'' of
        Some (PyInt n) \<Rightarrow>
          if 0 \<le> n \<and> find_domain (nat n) S \<noteq> None then Inr (nat n) else Inl (NoSuchObject ''domain'')
      | _ \<Rightarrow> Inl (FieldMissing ''domain''))"

text \<open>The action a view of some kind builds; \<open>email_ok\<close> stands for the validators of the new address.\<close>

definition parse_action ::
  "lib \<Rightarrow> (string \<Rightarrow> bool) \<Rightarrow> store \<Rightarrow> kind \<Rightarrow> (string \<Rightarrow> pyval option) \<Rightarrow> (auth_error, auth_action) result" where
  "parse_action L email_ok S k m =
     rbind (user_field L S m) (\<lambda>u.
       case k of
         KOutreach \<Rightarrow> rbind (bool_field m ''outreach_preference'') (\<lambda>b. Inr (ChangeOutreachPreference u b))
       | KActivate \<Rightarrow>
           (case m ''domain'' of
              Some (PyStr s) \<Rightarrow> Inr (ActivateUser u (Some s))
            | Some PyNone \<Rightarrow> Inr (ActivateUser u None)
            | None \<Rightarrow> Inr (ActivateUser u None)
            | _ \<Rightarrow> Inl (FieldMissing ''domain''))
       | KActivateOverride \<Rightarrow>
           rbind (bool_field m ''outreach_preference'') (\<lambda>b.
           rbind (token_field L S m) (\<lambda>i. Inr (ActivateUserWithOverrideToken u b i)))
       | KChangeEmail \<Rightarrow>
           rbind (str_field m ''new_email'') (\<lambda>e.
             if email_ok e \<and> \<not> (\<exists>v \<in> dom (users S). case users S v of None \<Rightarrow> False | Some x \<Rightarrow> lower (ac_email x) = lower e)
             then Inr (ChangeEmail u e) else Inl (FieldMissing ''new_email''))
       | KConfirm \<Rightarrow> Inr (Noop u)
       | KCreateTOTP \<Rightarrow>
           (case m ''name'' of
              None \<Rightarrow> Inr (CreateTOTPFactor u [])
            | Some (PyStr n) \<Rightarrow> Inr (CreateTOTPFactor u n)
            | _ \<Rightarrow> Inl (FieldMissing ''name''))
       | KResetPassword \<Rightarrow> rbind (str_field m ''new_password'') (\<lambda>p. Inr (ResetPassword u p))
       | KDelete \<Rightarrow> Inr (DeleteUser u)
       | KRenew \<Rightarrow> rbind (domain_field S m) (\<lambda>d. Inr (RenewDomain u d)))"

section \<open>The views\<close>

text \<open>\<open>AuthenticatedBasicUserActionAuthentication\<close>\<close>

definition authenticate_code ::
  "lib \<Rightarrow> int option \<Rightarrow> int \<Rightarrow> string \<Rightarrow> (store, auth_error, nat) io" where
  "authenticate_code L period now code =
     io_bind (io_lift (unpack_code L period now code)) (\<lambda>(timestamp, v).
     io_bind (io_lift (str_field (merged [] v) ''state'')) (\<lambda>_ S.
       case user_field L S (merged [] v) of
         Inl e \<Rightarrow> (Inl e, S)
       | Inr u \<Rightarrow>
           (case users S u of
              None \<Rightarrow> (Inl (NoSuchObject ''user''), S)
            | Some x \<Rightarrow>
                let verified = max (case ac_email_verified x of None \<Rightarrow> timestamp | Some t \<Rightarrow> t) timestamp;
                    S' = put_user (x\<lparr>ac_email_verified := Some verified\<rparr>) S in
                if ac_is_active x = Some False then (Inl UserInactive, S') else (Inr u, S'))))"

definition activates :: "kind \<Rightarrow> bool" where
  "activates k \<longleftrightarrow> k \<in> {KActivate, KActivateOverride}"

text \<open>The captcha of the activation serializers; \<open>captcha\<close> is the outcome of its own validation, if
  one was given.\<close>

definition check_captcha :: "kind \<Rightarrow> bool option \<Rightarrow> nat \<Rightarrow> store \<Rightarrow> (auth_error, unit) result" where
  "check_captcha k captcha u S =
     (if \<not> activates k then Inr ()
      else case captcha of
             Some valid \<Rightarrow> if valid then Inr () else Inl CaptchaRequired
           | None \<Rightarrow> (case users S u of
                       None \<Rightarrow> Inl (NoSuchObject ''user'')
                     | Some x \<Rightarrow> if ac_needs_captcha x then Inl CaptchaRequired else Inr ()))"

text \<open>\<open>post\<close>: authentication, permission, validation, state, action. The deletion of an account with
  domains is refused before.\<close>

definition validated_action ::
  "lib \<Rightarrow> (string \<Rightarrow> bool) \<Rightarrow> int option \<Rightarrow> int \<Rightarrow> kind \<Rightarrow> string \<Rightarrow> (string \<times> pyval) list \<Rightarrow> bool option \<Rightarrow>
   store \<Rightarrow> (auth_error, auth_action \<times> bool) result" where
  "validated_action L email_ok period now k code data captcha S =
     rbind (unpack_code L period now code) (\<lambda>(timestamp, v).
     let m = merged data v in
     rbind (str_field m ''state'') (\<lambda>st.
     rbind (parse_action L email_ok S k m) (\<lambda>a.
     rbind (check_captcha k captcha (action_user a) S) (\<lambda>_.
       instantiate L S a (Some st)))))"

definition may_post :: "kind \<Rightarrow> nat \<Rightarrow> store \<Rightarrow> (auth_error, unit) result" where
  "may_post k u S =
     (if \<not> activates k \<and> \<not> (case users S u of None \<Rightarrow> False | Some x \<Rightarrow> ac_is_active x = Some True)
      then Inl NotActive
      else if k = KDelete \<and> (\<exists>d \<in> set (udomains S). m_owner d = u) then Inl StillHasDomains
      else Inr ())"

definition post_action ::
  "lib \<Rightarrow> (string \<Rightarrow> bool) \<Rightarrow> int \<Rightarrow> int \<Rightarrow> nat \<Rightarrow> kind \<Rightarrow> string \<Rightarrow> (string \<times> pyval) list \<Rightarrow> bool option \<Rightarrow>
   (store, auth_error, auth_action) io" where
  "post_action L email_ok standard now new_id k code data captcha =
     (let period = validity_period standard k in
      io_bind (authenticate_code L period now code) (\<lambda>u S.
        (case may_post k u S of
           Inl e \<Rightarrow> (Inl e, S)
         | Inr _ \<Rightarrow>
             (case validated_action L email_ok period now k code data captcha S of
                Inl e \<Rightarrow> (Inl e, S)
              | Inr av \<Rightarrow> io_bind (act L now new_id av) (\<lambda>_. io_return (fst av)) S))))"

text \<open>\<open>AuthenticatedActivateUserActionView.post\<close> after the action: without a domain, a mail to set a
  password if there is none.\<close>

definition finalize_without_domain :: "lib \<Rightarrow> nat \<Rightarrow> store \<Rightarrow> (store_error, store) result" where
  "finalize_without_domain L u S =
     rbind (get_user u S) (\<lambda>x.
       if usable_password L (ac_password x) then Inr S else send_email x ''reset-password'' None S)"

text \<open>\<open>_create_domain\<close>: a domain that is not available costs the new account; otherwise it is added.\<close>

definition create_requested_domain ::
  "bool \<Rightarrow> adomain \<Rightarrow> nat \<Rightarrow> store \<Rightarrow> (store_error, bool \<times> store) result" where
  "create_requested_domain available d u S =
     (if available then Inr (True, S\<lparr>udomains := d # udomains S\<rparr>)
      else rbind (delete_user u S) (\<lambda>S'. Inr (False, S')))"

text \<open>\<open>_finalize_with_domain\<close>: a token for domains under a local public suffix.\<close>

definition dyndns_token :: "nat \<Rightarrow> nat \<Rightarrow> int \<Rightarrow> token" where
  "dyndns_token new u now =
     \<lparr>t_id = new, t_owner = u, t_user_override = None, t_created = now, t_last_used = None,
      t_max_age = None, t_max_unused = None, t_mfa = None,
      perm_create_domain = False, perm_delete_domain = False, perm_manage_tokens = False,
      auto_policy = False, policies = []\<rparr>"

definition finalize_with_domain :: "string set \<Rightarrow> nat \<Rightarrow> int \<Rightarrow> adomain \<Rightarrow> store \<Rightarrow> store" where
  "finalize_with_domain lps new now d S =
     (if is_locally_registrable lps (m_name d)
      then S\<lparr>utokens := (utokens S)(new \<mapsto> dyndns_token new (m_owner d) now),
             token_names := (token_names S)(new := ''dyndns'')\<rparr>
      else S)"

text \<open>\<open>AuthenticatedActivateUserActionView.post\<close> as a whole; \<open>new_domain\<close> is the row for the requested
  domain, \<open>available\<close> what the domain serializer says of it, and the result names a refused domain.\<close>

definition activate_view ::
  "lib \<Rightarrow> string set \<Rightarrow> int \<Rightarrow> int \<Rightarrow> nat \<Rightarrow> string \<Rightarrow> bool option \<Rightarrow> (string \<Rightarrow> bool) \<Rightarrow> (string \<Rightarrow> nat \<Rightarrow> adomain) \<Rightarrow>
   (store, auth_error, string option) io" where
  "activate_view L lps standard now new_id code captcha available new_domain =
     io_bind (post_action L (\<lambda>_. False) standard now new_id KActivate code [] captcha) (\<lambda>a S.
       let u = action_user a in
       case a of
         ActivateUser _ (Some (c # cs)) \<Rightarrow>
           (case create_requested_domain (available (c # cs)) (new_domain (c # cs) u) u S of
              Inl e \<Rightarrow> (Inl (ActionFailed e), S)
            | Inr (True, S') \<Rightarrow> (Inr None, finalize_with_domain lps new_id now (new_domain (c # cs) u) S')
            | Inr (False, S') \<Rightarrow> (Inr (Some (c # cs)), S'))
       | _ \<Rightarrow>
           (case finalize_without_domain L u S of
              Inl e \<Rightarrow> (Inl (ActionFailed e), S) | Inr S' \<Rightarrow> (Inr None, S')))"

end
