(* ===== verification/Renewal.thy ===== *)
theory Renewal
  imports AuthActions
begin

text \<open>
  The renewal of dynamic domains (\<open>management/commands/scavenge-unused.py\<close>): domains under a local
  public suffix that see no activity are announced for deletion, warned about again and deleted
  with their zone; any activity starts over. Times are seconds, dates are days in UTC. Whether the
  mail to a user can be handed over and whether PowerDNS carries out a deletion are parameters.
\<close>

section \<open>Activity\<close>

text \<open>\<open>touched\<close> of the RRsets and \<open>published\<close> of the domain with a given key.\<close>

record activity =
  published_at :: "nat \<Rightarrow> int option"
  touched_at :: "nat \<Rightarrow> int list"

definition date_of :: "int \<Rightarrow> int" where
  "date_of t = t div 86400"

definition fresh_days :: int where "fresh_days = 183"

definition notice_days_notify :: int where "notice_days_notify = 28"

definition notice_days_warn :: int where "notice_days_warn = 7"

text \<open>\<open>Greatest(max_touched, "published")\<close>: PostgreSQL ignores nulls.\<close>

fun greatest :: "int option \<Rightarrow> int option \<Rightarrow> int option" where
  "greatest None b = b"
| "greatest (Some a) None = Some a"
| "greatest (Some a) (Some b) = Some (max a b)"

definition max_touched :: "activity \<Rightarrow> nat \<Rightarrow> int option" where
  "max_touched A i = (if touched_at A i = [] then None else Some (Max (set (touched_at A i))))"

definition last_active :: "activity \<Rightarrow> adomain \<Rightarrow> int option" where
  "last_active A d = greatest (max_touched A (d_id d)) (published_at A (d_id d))"

section \<open>The stages\<close>

text \<open>\<open>base_queryset\<close>\<close>

definition in_base :: "store \<Rightarrow> adomain \<Rightarrow> bool" where
  "in_base S d \<longleftrightarrow> d_renewal_state d \<noteq> IMMORTAL \<and>
     (case users S (m_owner d) of None \<Rightarrow> False | Some a \<Rightarrow> ac_is_active a = Some True)"

definition recently_active :: "int \<Rightarrow> activity \<Rightarrow> adomain \<Rightarrow> bool" where
  "recently_active now A d \<longleftrightarrow>
     (case last_active A d of
        None \<Rightarrow> False
      | Some t \<Rightarrow> date_of now - fresh_days \<le> date_of t \<and> d_renewal_changed d < t)"

definition renewed :: "activity \<Rightarrow> adomain \<Rightarrow> adomain" where
  "renewed A d =
     d\<lparr>d_renewal_state := FRESH,
       d_renewal_changed := (case last_active A d of None \<Rightarrow> d_renewal_changed d | Some t \<Rightarrow> t)\<rparr>"

definition renew_touched_domains :: "int \<Rightarrow> activity \<Rightarrow> store \<Rightarrow> store" where
  "renew_touched_domains now A S =
     S\<lparr>udomains := map (\<lambda>d. if in_base S d \<and> recently_active now A d then renewed A d else d) (udomains S)\<rparr>"

text \<open>\<open>renewal_state += 1\<close>; it is not applied to \<open>WARNED\<close>.\<close>

fun advance :: "renewal_state \<Rightarrow> renewal_state" where
  "advance IMMORTAL = FRESH"
| "advance FRESH = NOTIFIED"
| "advance NOTIFIED = WARNED"
| "advance WARNED = WARNED"

definition expiry_candidates :: "renewal_state \<Rightarrow> int \<Rightarrow> int \<Rightarrow> store \<Rightarrow> adomain list" where
  "expiry_candidates st inactive_days now S =
     sort_key m_name (filter (\<lambda>d. in_base S d \<and> d_renewal_state d = st \<and>
       date_of (d_renewal_changed d) \<le> date_of now - inactive_days) (udomains S))"

text \<open>\<open>domain_user_map\<close>: a dictionary keeps the order of insertion.\<close>

fun insert_by_owner :: "adomain \<Rightarrow> (nat \<times> adomain list) list \<Rightarrow> (nat \<times> adomain list) list" where
  "insert_by_owner d [] = [(m_owner d, [d])]"
| "insert_by_owner d ((u, ds) # m) =
     (if u = m_owner d then (u, ds @ [d]) # m else (u, ds) # insert_by_owner d m)"

definition domain_user_map :: "adomain list \<Rightarrow> (nat \<times> adomain list) list" where
  "domain_user_map ds = fold insert_by_owner ds []"

record faults =
  mail_fails :: "nat \<Rightarrow> bool"
  pdns_fails :: "nat \<Rightarrow> bool"

datatype scavenge_error = MailFailed | PdnsFailed | ScavengeStore store_error

definition save_renewal :: "int \<Rightarrow> adomain \<Rightarrow> store \<Rightarrow> store" where
  "save_renewal now d S =
     S\<lparr>udomains := map (\<lambda>e. if d_id e = d_id d
         then e\<lparr>d_renewal_state := advance (d_renewal_state d), d_renewal_changed := now\<rparr> else e) (udomains S)\<rparr>"

text \<open>The transaction for one user: the domains are updated and one mail is sent for all of them.\<close>

definition notify_user :: "faults \<Rightarrow> int \<Rightarrow> nat \<times> adomain list \<Rightarrow> (store, scavenge_error, unit) io" where
  "notify_user F now g S =
     (case g of (u, ds) \<Rightarrow>
        let S1 = fold (save_renewal now) ds S in
        if mail_fails F u then (Inl MailFailed, S)
        else (case rbind (get_user u S1) (\<lambda>a. send_email a ''renew-domain'' None S1) of
                Inl e \<Rightarrow> (Inl (ScavengeStore e), S)
              | Inr S2 \<Rightarrow> (Inr (), S2)))"

definition warn_domain_deletion ::
  "faults \<Rightarrow> int \<Rightarrow> renewal_state \<Rightarrow> int \<Rightarrow> (store, scavenge_error, unit) io" where
  "warn_domain_deletion F now st inactive_days S =
     io_iter (notify_user F now) (domain_user_map (expiry_candidates st inactive_days now S)) S"

definition expired_domains :: "int \<Rightarrow> int \<Rightarrow> activity \<Rightarrow> store \<Rightarrow> adomain list" where
  "expired_domains inactive_days now A S =
     filter (\<lambda>d. in_base S d \<and> d_renewal_state d = WARNED \<and>
       date_of (d_renewal_changed d) \<le> date_of now - notice_days_warn \<and>
       (case last_active A d of None \<Rightarrow> False | Some t \<Rightarrow> date_of t \<le> date_of now - inactive_days)) (udomains S)"

text \<open>The row goes, with the policies for the domain; a user without domains left goes as well.\<close>

definition drop_domain :: "adomain \<Rightarrow> store \<Rightarrow> store" where
  "drop_domain d S =
     S\<lparr>udomains := filter (\<lambda>e. d_id e \<noteq> d_id d) (udomains S),
       utokens := (\<lambda>i. map_option (\<lambda>t. t\<lparr>policies :=
         filter (\<lambda>p. p_domain p \<noteq> Some (m_name d)) (policies t)\<rparr>) (utokens S i))\<rparr>"

definition delete_expired :: "faults \<Rightarrow> adomain \<Rightarrow> (store, scavenge_error, unit) io" where
  "delete_expired F d S =
     (if pdns_fails F (d_id d) then (Inl PdnsFailed, S)
      else
        let S1 = drop_domain d S in
        if \<exists>e \<in> set (udomains S1). m_owner e = m_owner d then (Inr (), S1)
        else (case delete_user (m_owner d) S1 of
                Inl e \<Rightarrow> (Inl (ScavengeStore e), S1)
              | Inr S2 \<Rightarrow> (Inr (), S2)))"

text \<open>The second tracked block removes the delegations; \<open>delegations\<close> is its outcome.\<close>

definition remove_delegations ::
  "settings \<Rightarrow> adomain list \<Rightarrow> tracked \<Rightarrow> (delegation_error, tracked) result" where
  "remove_delegations cf ds = rfold (\<lambda>d. auto_delegate cf (m_name d) None) ds"

definition delete_domains ::
  "faults \<Rightarrow> bool \<Rightarrow> int \<Rightarrow> activity \<Rightarrow> int \<Rightarrow> (store, scavenge_error, unit) io" where
  "delete_domains F delegations now A inactive_days S =
     io_bind (io_iter (delete_expired F) (expired_domains inactive_days now A S))
       (\<lambda>_. if delegations then io_return () else io_raise PdnsFailed) S"

text \<open>\<open>handle\<close>: the result tells whether the administrators are told of an exception.\<close>

definition stages ::
  "faults \<Rightarrow> bool \<Rightarrow> int \<Rightarrow> activity \<Rightarrow> (store, scavenge_error, unit) io" where
  "stages F delegations now A S =
     io_bind (warn_domain_deletion F now FRESH fresh_days) (\<lambda>_.
     io_bind (warn_domain_deletion F now NOTIFIED (notice_days_notify - notice_days_warn)) (\<lambda>_.
       delete_domains F delegations now A (fresh_days + notice_days_notify)))
     (renew_touched_domains now A S)"

definition scavenge_handle ::
  "faults \<Rightarrow> bool \<Rightarrow> int \<Rightarrow> activity \<Rightarrow> store \<Rightarrow> bool \<times> store" where
  "scavenge_handle F delegations now A S =
     (case stages F delegations now A S of (Inl e, S') \<Rightarrow> (True, S') | (Inr _, S') \<Rightarrow> (False, S'))"

end
