(* ===== verification/RenewalCorrect.thy ===== *)
theory RenewalCorrect
  imports Renewal
begin

text \<open>
  What the stages of the renewal command do to the rows of the table, with any failures, and an
  invariant of whole histories: a domain in state NOTIFIED or WARNED has the notices behind it that
  justify the state.
\<close>

section \<open>Rows\<close>

definition distinct_ids :: "store \<Rightarrow> bool" where
  "distinct_ids S \<longleftrightarrow> distinct (map d_id (udomains S))"

lemma distinct_ids_eq:
  "distinct_ids S \<Longrightarrow> d \<in> set (udomains S) \<Longrightarrow> e \<in> set (udomains S) \<Longrightarrow> d_id d = d_id e \<Longrightarrow> d = e"
  by (auto simp: distinct_ids_def distinct_map inj_on_def)

lemma id_of_selection:
  assumes "distinct_ids S" and "e \<in> set (udomains S)" and "\<And>d. d \<in> set ds \<longleftrightarrow> d \<in> set (udomains S) \<and> P d"
  shows "d_id e \<in> d_id ` set ds \<longleftrightarrow> P e"
proof
  assume "d_id e \<in> d_id ` set ds"
  then obtain d where d: "d \<in> set ds" "d_id e = d_id d" by auto
  then have "d \<in> set (udomains S)" "P d" using assms(3) by simp_all
  with distinct_ids_eq [OF assms(1,2) _ d(2)] show "P e" by simp
next
  assume "P e"
  with assms(2,3) show "d_id e \<in> d_id ` set ds" by simp
qed

definition advanced :: "int \<Rightarrow> renewal_state \<Rightarrow> adomain \<Rightarrow> adomain" where
  "advanced now st d = d\<lparr>d_renewal_state := st, d_renewal_changed := now\<rparr>"

lemma advanced_simps [simp]:
  "d_id (advanced now st d) = d_id d" "m_owner (advanced now st d) = m_owner d" "m_name (advanced now st d) = m_name d"
  "d_renewal_state (advanced now st d) = st" "d_renewal_changed (advanced now st d) = now"
  "advanced now st (advanced now' st' d) = advanced now st d"
  by (simp_all add: advanced_def)

lemma renewed_simps [simp]:
  "d_id (renewed A d) = d_id d" "m_owner (renewed A d) = m_owner d" "d_renewal_state (renewed A d) = FRESH"
  by (simp_all add: renewed_def)

lemma date_of_mono: "s \<le> t \<Longrightarrow> date_of s \<le> date_of t"
  unfolding date_of_def by (rule zdiv_mono1) simp_all

section \<open>Grouping\<close>

lemma insert_by_owner_members:
  "(\<exists>(u, ds) \<in> set (insert_by_owner d m). e \<in> set ds) \<longleftrightarrow> e = d \<or> (\<exists>(u, ds) \<in> set m. e \<in> set ds)"
  by (induction d m rule: insert_by_owner.induct) auto

definition groups_ok :: "(nat \<times> adomain list) list \<Rightarrow> bool" where
  "groups_ok m \<longleftrightarrow> list_all (\<lambda>(u, ds). ds \<noteq> [] \<and> list_all (\<lambda>e. m_owner e = u) ds) m"

lemma insert_by_owner_ok: "groups_ok m \<Longrightarrow> groups_ok (insert_by_owner d m)"
  by (induction d m rule: insert_by_owner.induct) (auto simp: groups_ok_def)

lemma domain_user_map_members: "(\<exists>(u, es) \<in> set (domain_user_map ds). e \<in> set es) \<longleftrightarrow> e \<in> set ds"
proof -
  have "(\<exists>(u, es) \<in> set (fold insert_by_owner ds m). e \<in> set es) \<longleftrightarrow>
      e \<in> set ds \<or> (\<exists>(u, es) \<in> set m. e \<in> set es)" for m
  proof (induction ds arbitrary: m)
    case (Cons d ds)
    show ?case unfolding fold_simps Cons insert_by_owner_members by auto
  qed simp
  from this [of "[]"] show ?thesis by (simp add: domain_user_map_def)
qed

lemma domain_user_map_sub: "(u, es) \<in> set (domain_user_map ds) \<Longrightarrow> e \<in> set es \<Longrightarrow> e \<in> set ds"
  using domain_user_map_members [of ds e] by blast

lemma domain_user_map_ok: "groups_ok (domain_user_map ds)"
proof -
  have "groups_ok (fold insert_by_owner ds m)" if "groups_ok m" for m
    using that by (induction ds arbitrary: m) (auto intro: insert_by_owner_ok)
  from this [of "[]"] show ?thesis by (simp add: domain_user_map_def groups_ok_def)
qed

lemma domain_user_map_owner: "(u, es) \<in> set (domain_user_map ds) \<Longrightarrow> e \<in> set es \<Longrightarrow> m_owner e = u"
  using domain_user_map_ok [of ds] by (force simp: groups_ok_def list_all_iff)

lemma domain_user_map_nonempty: "(u, es) \<in> set (domain_user_map ds) \<Longrightarrow> es \<noteq> []"
  using domain_user_map_ok [of ds] by (auto simp: groups_ok_def list_all_iff)

section \<open>The notices\<close>

lemma fold_save_renewal:
  "udomains (fold (save_renewal now) ds S) =
     map (\<lambda>e. fold (\<lambda>d e. if d_id e = d_id d then advanced now (advance (d_renewal_state d)) e else e) ds e) (udomains S)"
  "users (fold (save_renewal now) ds S) = users S" "outbox (fold (save_renewal now) ds S) = outbox S"
  by (induction ds arbitrary: S) (simp_all add: save_renewal_def advanced_def o_def)

lemma fold_advanced:
  assumes "\<forall>d \<in> set ds. d_renewal_state d = st"
  shows "fold (\<lambda>d e. if d_id e = d_id d then advanced now (advance (d_renewal_state d)) e else e) ds e =
    (if d_id e \<in> d_id ` set ds then advanced now (advance st) e else e)"
  using assms by (induction ds arbitrary: e) auto

text \<open>What a notice does: either nothing, or the domains of the user advance and a mail is sent.\<close>

lemma notify_user_cases:
  assumes "notify_user F now (u, ds) S = (r, S')" and "\<forall>d \<in> set ds. d_renewal_state d = st"
  obtains "S' = S"
  | a where "r = Inr ()" "users S u = Some a" "users S' = users S" "outbox S' = outbox S @ [(''renew-domain'', ac_email a)]"
    "udomains S' = map (\<lambda>e. if d_id e \<in> d_id ` set ds then advanced now (advance st) e else e) (udomains S)"
proof (cases "S' = S")
  case False
  define S1 where "S1 = fold (save_renewal now) ds S"
  note S1 = fold_save_renewal [of now ds S, folded S1_def, unfolded fold_advanced [OF assms(2)]]
  from assms(1) False obtain a where a: "users S u = Some a" "\<not> mail_fails F u"
    by (auto simp: notify_user_def Let_def get_user_def S1(2) S1_def [symmetric] rbind_def
        split: if_splits option.splits sum.splits)
  have "map_of lanes ''renew-domain'' \<noteq> None" by (simp add: lanes_def)
  with a assms(1) have "r = Inr ()" "S' = S1\<lparr>outbox := outbox S1 @ [(''renew-domain'', ac_email a)]\<rparr>"
    by (auto simp: notify_user_def Let_def get_user_def S1(2) S1_def [symmetric] send_email_def)
  with a S1 show ?thesis by (intro that(2) [of a]) auto
qed (use that(1) in blast)

definition warn_due :: "renewal_state \<Rightarrow> int \<Rightarrow> int \<Rightarrow> store \<Rightarrow> adomain \<Rightarrow> bool" where
  "warn_due st inactive_days now S d \<longleftrightarrow>
     in_base S d \<and> d_renewal_state d = st \<and> date_of (d_renewal_changed d) \<le> date_of now - inactive_days"

lemma expiry_candidates_iff:
  "d \<in> set (expiry_candidates st n now S) \<longleftrightarrow> d \<in> set (udomains S) \<and> warn_due st n now S d"
  by (auto simp: expiry_candidates_def warn_due_def)

definition mailed :: "store \<Rightarrow> adomain \<Rightarrow> (string \<times> string) list \<Rightarrow> bool" where
  "mailed S d ms \<longleftrightarrow> (\<exists>a. users S (m_owner d) = Some a \<and> (''renew-domain'', ac_email a) \<in> set ms)"

text \<open>A row after a stage of notices: the row before, or that of a domain that was due, advanced, with a
  mail to its owner among the mails \<open>ms\<close> of the stage.\<close>

definition warn_row :: "renewal_state \<Rightarrow> int \<Rightarrow> int \<Rightarrow> store \<Rightarrow> (string \<times> string) list \<Rightarrow> adomain \<Rightarrow> bool" where
  "warn_row st n now S ms e \<longleftrightarrow> e \<in> set (udomains S) \<or>
     (\<exists>d \<in> set (udomains S). warn_due st n now S d \<and> e = advanced now (advance st) d \<and> mailed S d ms)"

definition warn_rel :: "renewal_state \<Rightarrow> int \<Rightarrow> int \<Rightarrow> store \<Rightarrow> store \<Rightarrow> bool" where
  "warn_rel st n now S S' \<longleftrightarrow> users S' = users S \<and> map d_id (udomains S') = map d_id (udomains S) \<and>
     (\<exists>ms. outbox S' = outbox S @ ms \<and> (\<forall>e \<in> set (udomains S'). warn_row st n now S ms e))"

lemma warn_rel_refl [simp]: "warn_rel st n now S S"
  by (simp add: warn_rel_def warn_row_def)

lemma warn_row_more: "warn_row st n now S ms e \<Longrightarrow> warn_row st n now S (ms @ ms') e"
  by (auto simp: warn_row_def mailed_def)

lemma warn_rel_step:
  assumes "distinct_ids S" and "warn_rel st n now S T" and g: "(u, ds) \<in> set (domain_user_map (expiry_candidates st n now S))"
    and step: "notify_user F now (u, ds) T = (r, T')"
  shows "warn_rel st n now S T'"
proof -
  have ds: "d \<in> set (udomains S)" "warn_due st n now S d" "m_owner d = u" if "d \<in> set ds" for d
    using domain_user_map_sub [OF g that] domain_user_map_owner [OF g that] by (auto simp: expiry_candidates_iff)
  then have "\<forall>d \<in> set ds. d_renewal_state d = st" by (simp add: warn_due_def)
  from step this show ?thesis
  proof (cases rule: notify_user_cases)
    case 1
    with assms(2) show ?thesis by simp
  next
    case (2 a)
    let ?m = "[(''renew-domain'', ac_email a)]"
    from assms(2) obtain ms where ms: "users T = users S" "map d_id (udomains T) = map d_id (udomains S)"
        "outbox T = outbox S @ ms" "\<And>e. e \<in> set (udomains T) \<Longrightarrow> warn_row st n now S ms e"
      by (auto simp: warn_rel_def)
    have row: "warn_row st n now S (ms @ ?m) (if d_id e \<in> d_id ` set ds then advanced now (advance st) e else e)"
      if e: "e \<in> set (udomains T)" for e
    proof (cases "d_id e \<in> d_id ` set ds")
      case True
      then obtain d where d: "d \<in> set ds" "d_id e = d_id d" by auto
      obtain d0 where d0: "d0 \<in> set (udomains S)" "d_id e = d_id d0" "e = d0 \<or> e = advanced now (advance st) d0"
        using ms(4) [OF e] by (auto simp: warn_row_def)
      then have "d0 = d" using distinct_ids_eq [OF assms(1) _ ds(1) [OF d(1)]] d by simp
      then have "advanced now (advance st) e = advanced now (advance st) d" using d0(3) by auto
      moreover have "mailed S d (ms @ ?m)" using 2(2) ms(1) ds(3) [OF d(1)] by (simp add: mailed_def)
      ultimately show ?thesis using True ds [OF d(1)] unfolding warn_row_def by auto
    qed (use ms(4) [OF e] warn_row_more in auto)
    have "\<forall>e \<in> set (udomains T'). warn_row st n now S (ms @ ?m) e"
      unfolding 2(5) list.set_map ball_simps(9) by (intro ballI row)
    moreover have "map d_id (udomains T') = map d_id (udomains S)"
      unfolding 2(5) ms(2) [symmetric] by simp
    moreover have "outbox T' = outbox S @ (ms @ ?m)" using 2(4) ms(3) by simp
    ultimately show ?thesis unfolding warn_rel_def 2(3) ms(1) by blast
  qed
qed

lemma warn_domain_deletion_rel:
  assumes "distinct_ids S" and "warn_domain_deletion F now st n S = (r, S')"
  shows "warn_rel st n now S S'"
  using assms(2) unfolding warn_domain_deletion_def
proof (rule io_iter_keeps)
  show "warn_rel st n now S S" by simp
next
  fix g T r T'
  assume "g \<in> set (domain_user_map (expiry_candidates st n now S))" "warn_rel st n now S T" "notify_user F now g T = (r, T')"
  with assms(1) show "warn_rel st n now S T'" by (cases g) (blast intro: warn_rel_step)
qed

lemma warn_rel_ids: "warn_rel st n now S S' \<Longrightarrow> distinct_ids S \<Longrightarrow> distinct_ids S'"
  by (simp add: warn_rel_def distinct_ids_def)

section \<open>Deletion\<close>

definition expired :: "int \<Rightarrow> int \<Rightarrow> activity \<Rightarrow> adomain \<Rightarrow> bool" where
  "expired n now A d \<longleftrightarrow> d_renewal_state d = WARNED \<and>
     date_of (d_renewal_changed d) \<le> date_of now - notice_days_warn \<and>
     (\<exists>t. last_active A d = Some t \<and> date_of t \<le> date_of now - n)"

lemma expired_domains_iff:
  "d \<in> set (expired_domains n now A S) \<longleftrightarrow> d \<in> set (udomains S) \<and> in_base S d \<and> expired n now A d"
  by (auto simp: expired_domains_def expired_def split: option.splits)

definition delete_rel :: "int \<Rightarrow> int \<Rightarrow> activity \<Rightarrow> store \<Rightarrow> store \<Rightarrow> bool" where
  "delete_rel n now A S S' \<longleftrightarrow> outbox S' = outbox S \<and> distinct_ids S' \<and> set (udomains S') \<subseteq> set (udomains S) \<and>
     (\<forall>d \<in> set (udomains S). d \<notin> set (udomains S') \<longrightarrow> in_base S d \<and> expired n now A d)"

lemma delete_user_keeps: "delete_user u S = Inr S' \<Longrightarrow> udomains S' = udomains S \<and> outbox S' = outbox S"
  by (auto simp: delete_user_def split: if_splits)

lemma delete_expired_cases:
  assumes "delete_expired F d S = (r, S')"
  obtains "S' = S" "r \<noteq> Inr ()"
  | "udomains S' = filter (\<lambda>e. d_id e \<noteq> d_id d) (udomains S)" "outbox S' = outbox S"
  using assms
  by (auto simp: delete_expired_def Let_def drop_domain_def dest!: delete_user_keeps split: if_splits sum.splits)

lemma delete_domains_rel:
  assumes "distinct_ids S" and "delete_domains F delegations now A n S = (r, S')"
  shows "delete_rel n now A S S'"
proof -
  obtain q where "io_iter (delete_expired F) (expired_domains n now A S) S = (q, S')"
    using assms(2) by (auto simp: delete_domains_def io_bind_def split: prod.splits sum.splits if_splits)
  then show ?thesis
  proof (rule io_iter_keeps)
    show "delete_rel n now A S S" using assms(1) by (simp add: delete_rel_def)
  next
    fix d T r T'
    assume d: "d \<in> set (expired_domains n now A S)" and rel: "delete_rel n now A S T" and step: "delete_expired F d T = (r, T')"
    from step show "delete_rel n now A S T'"
    proof (cases rule: delete_expired_cases)
      case 1
      with rel show ?thesis by simp
    next
      case 2
      have "e = d" if "e \<in> set (udomains T)" "d_id e = d_id d" for e
        using distinct_ids_eq [OF assms(1)] that rel d by (auto simp: delete_rel_def expired_domains_iff)
      with 2 rel d show ?thesis
        by (auto simp: delete_rel_def expired_domains_iff distinct_ids_def intro: distinct_map_filter)
    qed
  qed
qed

section \<open>One run of the command\<close>

lemma renew_touched_keeps:
  "users (renew_touched_domains now A S) = users S" "outbox (renew_touched_domains now A S) = outbox S"
  "map d_id (udomains (renew_touched_domains now A S)) = map d_id (udomains S)"
  by (auto simp: renew_touched_domains_def)

lemma renew_touched_rows:
  "e \<in> set (udomains (renew_touched_domains now A S)) \<Longrightarrow> e \<in> set (udomains S) \<or> d_renewal_state e = FRESH"
  by (auto simp: renew_touched_domains_def split: if_splits)

lemma scavenge_chain:
  assumes "distinct_ids S" and "scavenge_handle F delegations now A S = (b, S')"
  obtains S1 S2 S3 where "S1 = renew_touched_domains now A S" "warn_rel FRESH fresh_days now S1 S2"
    "warn_rel NOTIFIED (notice_days_notify - notice_days_warn) now S2 S3"
    "delete_rel (fresh_days + notice_days_notify) now A S3 S'"
proof -
  define S1 where "S1 = renew_touched_domains now A S"
  have d1: "distinct_ids S1" using assms(1) by (simp add: S1_def distinct_ids_def renew_touched_keeps(3))
  obtain r where st: "stages F delegations now A S = (r, S')"
    using assms(2) by (auto simp: scavenge_handle_def split: prod.splits sum.splits)
  obtain r2 S2 where w2: "warn_domain_deletion F now FRESH fresh_days S1 = (r2, S2)" by fastforce
  note rel2 = warn_domain_deletion_rel [OF d1 w2]
  note d2 = warn_rel_ids [OF rel2 d1]
  obtain r3 S3 where w3: "warn_domain_deletion F now NOTIFIED (notice_days_notify - notice_days_warn) S2 = (r3, S3)"
    by fastforce
  note rel3 = warn_domain_deletion_rel [OF d2 w3]
  note d3 = warn_rel_ids [OF rel3 d2]
  have refl: "delete_rel n now A T T" if "distinct_ids T" for n T using that by (simp add: delete_rel_def)
  show ?thesis
  proof (cases r2)
    case (Inl e)
    with st w2 have "S' = S2" by (simp add: stages_def S1_def io_bind_def)
    with that S1_def rel2 refl [OF d2] show ?thesis by (metis warn_rel_refl)
  next
    case r2: (Inr u)
    show ?thesis
    proof (cases r3)
      case (Inl e)
      with st w2 r2 w3 have "S' = S3" by (simp add: stages_def S1_def io_bind_def)
      with that S1_def rel2 rel3 refl [OF d3] show ?thesis by metis
    next
      case (Inr v)
      with st w2 r2 w3 have "delete_domains F delegations now A (fresh_days + notice_days_notify) S3 = (r, S')"
        by (simp add: stages_def S1_def io_bind_def)
      from that [OF S1_def rel2 rel3 delete_domains_rel [OF d3 this]] show ?thesis .
    qed
  qed
qed

text \<open>A row after the two stages of notices, and so after the command.\<close>

definition noticed :: "int \<Rightarrow> store \<Rightarrow> store \<Rightarrow> adomain \<Rightarrow> bool" where
  "noticed now S S' e \<longleftrightarrow> d_renewal_changed e = now \<and>
     (\<exists>ms. outbox S' = outbox S @ ms \<and> mailed S e ms) \<and>
     (d_renewal_state e = NOTIFIED \<or>
      d_renewal_state e = WARNED \<and> (\<exists>d \<in> set (udomains S). d_id d = d_id e \<and> d_renewal_state d = NOTIFIED \<and>
        date_of (d_renewal_changed d) + 21 \<le> date_of now))"

lemma warned_rows:
  assumes S1: "S1 = renew_touched_domains now A S" and w2: "warn_rel FRESH fresh_days now S1 S2"
    and w3: "warn_rel NOTIFIED (notice_days_notify - notice_days_warn) now S2 S3" and e: "e \<in> set (udomains S3)"
  shows "e \<in> set (udomains S) \<or> d_renewal_state e = FRESH \<or> noticed now S S3 e"
proof -
  note keeps = renew_touched_keeps [of now A S, folded S1]
  from w2 obtain ms2 where ms2: "users S2 = users S1" "outbox S2 = outbox S1 @ ms2"
    "\<And>e. e \<in> set (udomains S2) \<Longrightarrow> warn_row FRESH fresh_days now S1 ms2 e" by (auto simp: warn_rel_def)
  from w3 obtain ms3 where ms3: "users S3 = users S2" "outbox S3 = outbox S2 @ ms3"
    "\<And>e. e \<in> set (udomains S3) \<Longrightarrow>
      warn_row NOTIFIED (notice_days_notify - notice_days_warn) now S2 ms3 e" by (auto simp: warn_rel_def)
  have out: "outbox S3 = outbox S @ (ms2 @ ms3)" using ms2(2) ms3(2) keeps(2) by simp
  have usr: "users S2 = users S" "users S1 = users S" using ms2(1) keeps(1) by simp_all
  have two: "f \<in> set (udomains S) \<or> d_renewal_state f = FRESH \<or>
      (d_renewal_state f = NOTIFIED \<and> d_renewal_changed f = now \<and> mailed S f ms2)"
    if "f \<in> set (udomains S2)" for f
    using ms2(3) [OF that] renew_touched_rows [of f now A S, folded S1] usr
    by (auto simp: warn_row_def mailed_def)
  from ms3(3) [OF e] consider "e \<in> set (udomains S2)"
    | d where "d \<in> set (udomains S2)" "warn_due NOTIFIED (notice_days_notify - notice_days_warn) now S2 d"
      "e = advanced now WARNED d" "mailed S2 d ms3"
    by (auto simp: warn_row_def)
  then show ?thesis
  proof cases
    case 1
    with two [OF 1] out show ?thesis by (auto simp: noticed_def mailed_def)
  next
    case 2
    then have due: "d_renewal_state d = NOTIFIED" "date_of (d_renewal_changed d) \<le> date_of now - 21"
      by (simp_all add: warn_due_def notice_days_notify_def notice_days_warn_def)
    then have "d \<in> set (udomains S)" using two [OF 2(1)] by auto
    with 2 due out usr show ?thesis by (auto simp: noticed_def mailed_def)
  qed
qed

lemma scavenge_rows:
  assumes "distinct_ids S" and "scavenge_handle F delegations now A S = (b, S')" and "e \<in> set (udomains S')"
  shows "e \<in> set (udomains S) \<or> d_renewal_state e = FRESH \<or> noticed now S S' e"
proof -
  from scavenge_chain [OF assms(1,2)] obtain S1 S2 S3 where c: "S1 = renew_touched_domains now A S"
    "warn_rel FRESH fresh_days now S1 S2" "warn_rel NOTIFIED (notice_days_notify - notice_days_warn) now S2 S3"
    "delete_rel (fresh_days + notice_days_notify) now A S3 S'" by metis
  then have "e \<in> set (udomains S3)" "outbox S' = outbox S3" using assms(3) by (auto simp: delete_rel_def)
  with warned_rows [OF c(1-3)] show ?thesis by (simp add: noticed_def)
qed

lemma scavenge_distinct:
  "distinct_ids S \<Longrightarrow> scavenge_handle F delegations now A S = (b, S') \<Longrightarrow> distinct_ids S'"
  by (erule (1) scavenge_chain) (auto simp: delete_rel_def)

text \<open>What is deleted was warned before, for long enough, and inactive.\<close>

lemma scavenge_deletes:
  assumes "distinct_ids S" and "scavenge_handle F delegations now A S = (b, S')"
    and "d \<in> set (udomains S)" and "d_id d \<notin> d_id ` set (udomains S')"
  shows "in_base S d \<and> expired (fresh_days + notice_days_notify) now A d"
proof -
  from scavenge_chain [OF assms(1,2)] obtain S1 S2 S3 where c: "S1 = renew_touched_domains now A S"
    "warn_rel FRESH fresh_days now S1 S2" "warn_rel NOTIFIED (notice_days_notify - notice_days_warn) now S2 S3"
    "delete_rel (fresh_days + notice_days_notify) now A S3 S'" by metis
  have "map d_id (udomains S3) = map d_id (udomains S)"
    using c(2,3) renew_touched_keeps(3) [of now A S, folded c(1)] by (simp add: warn_rel_def)
  then have "d_id d \<in> set (map d_id (udomains S3))" using assms(3) by simp
  then obtain e where e: "e \<in> set (udomains S3)" "d_id e = d_id d" by auto
  then have "e \<notin> set (udomains S')" using assms(4) by (metis imageI)
  then have x: "in_base S3 e" "expired (fresh_days + notice_days_notify) now A e" using c(4) e(1) by (auto simp: delete_rel_def)
  then have "d_renewal_state e = WARNED" "d_renewal_changed e \<noteq> now" by (auto simp: expired_def notice_days_warn_def)
  then have "e \<in> set (udomains S)" using warned_rows [OF c(1-3) e(1)] by (auto simp: noticed_def)
  then have "e = d" using distinct_ids_eq [OF assms(1) _ assms(3) e(2)] by blast
  moreover have "users S3 = users S" using c(2,3) renew_touched_keeps(1) [of now A S, folded c(1)] by (simp add: warn_rel_def)
  ultimately show ?thesis using x by (simp add: in_base_def)
qed

section \<open>Histories\<close>

text \<open>\<open>renewal_run h now S\<close>: the store \<open>S\<close> at \<open>now\<close>, reached with the runs \<open>h\<close> of the command (newest
  first), each with the stores before and after. In between, renewal links are followed, domains are
  created, and everything else the API does leaves the renewal fields alone or deletes domains.\<close>

inductive renewal_run :: "(int \<times> store \<times> store) list \<Rightarrow> int \<Rightarrow> store \<Rightarrow> bool" where
  run_start: "distinct_ids S \<Longrightarrow> \<forall>d \<in> set (udomains S). d_renewal_state d \<in> {IMMORTAL, FRESH} \<Longrightarrow> renewal_run [] now S"
| run_scavenge: "renewal_run h now S \<Longrightarrow> now \<le> t \<Longrightarrow> scavenge_handle F delegations t A S = (b, S') \<Longrightarrow>
    renewal_run ((t, S, S') # h) t S'"
| run_renew: "renewal_run h now S \<Longrightarrow> now \<le> t \<Longrightarrow> act L t n (RenewDomain u i, validated) S = (r, S') \<Longrightarrow>
    renewal_run h t S'"
| run_create: "renewal_run h now S \<Longrightarrow> now \<le> t \<Longrightarrow> d_id d \<notin> d_id ` set (udomains S) \<Longrightarrow>
    d_renewal_state d = initial_renewal_state lps None (m_name d) \<Longrightarrow> udomains S' = d # udomains S \<Longrightarrow>
    renewal_run h t S'"
| run_other: "renewal_run h now S \<Longrightarrow> now \<le> t \<Longrightarrow> distinct_ids S' \<Longrightarrow> set (udomains S') \<subseteq> set (udomains S) \<Longrightarrow>
    renewal_run h t S'"

text \<open>A run at \<open>t\<close> put domain \<open>i\<close> into state \<open>st\<close> and sent a mail to its owner.\<close>

definition notice :: "(int \<times> store \<times> store) list \<Rightarrow> renewal_state \<Rightarrow> nat \<Rightarrow> int \<Rightarrow> bool" where
  "notice h st i t \<longleftrightarrow> (\<exists>S S' e. (t, S, S') \<in> set h \<and> e \<in> set (udomains S') \<and> d_id e = i \<and> d_renewal_state e = st \<and>
     d_renewal_changed e = t \<and> (\<exists>ms. outbox S' = outbox S @ ms \<and> mailed S e ms))"

definition announced :: "(int \<times> store \<times> store) list \<Rightarrow> adomain \<Rightarrow> bool" where
  "announced h d \<longleftrightarrow>
     (d_renewal_state d = NOTIFIED \<longrightarrow> notice h NOTIFIED (d_id d) (d_renewal_changed d)) \<and>
     (d_renewal_state d = WARNED \<longrightarrow> notice h WARNED (d_id d) (d_renewal_changed d) \<and>
       (\<exists>t. notice h NOTIFIED (d_id d) t \<and> date_of t + 21 \<le> date_of (d_renewal_changed d)))"

lemma notice_more: "notice h st i t \<Longrightarrow> notice (x # h) st i t"
  by (fastforce simp: notice_def)

lemma announced_more: "announced h d \<Longrightarrow> announced (x # h) d"
  by (auto simp: announced_def intro: notice_more)

lemma announced_unaffected: "d_renewal_state d \<in> {IMMORTAL, FRESH} \<Longrightarrow> announced h d"
  by (auto simp: announced_def)

lemma announced_noticed:
  assumes "noticed t S S' e" and "e \<in> set (udomains S')" and "\<forall>d \<in> set (udomains S). announced h d"
  shows "announced ((t, S, S') # h) e"
proof -
  have n: "notice ((t, S, S') # h) (d_renewal_state e) (d_id e) t"
    using assms(1,2) by (force simp: noticed_def notice_def)
  from assms(1) consider "d_renewal_state e = NOTIFIED"
    | d where "d_renewal_state e = WARNED" "d \<in> set (udomains S)" "d_id d = d_id e" "d_renewal_state d = NOTIFIED"
      "date_of (d_renewal_changed d) + 21 \<le> date_of t"
    by (auto simp: noticed_def)
  then show ?thesis
  proof cases
    case 1
    with n assms(1) show ?thesis by (simp add: announced_def noticed_def)
  next
    case 2
    then have "notice h NOTIFIED (d_id e) (d_renewal_changed d)" using assms(3) by (auto simp: announced_def)
    with n 2 assms(1) show ?thesis by (auto simp: announced_def noticed_def intro: notice_more)
  qed
qed

lemma renewal_run_announced:
  assumes "renewal_run h now S"
  shows "distinct_ids S \<and> (\<forall>d \<in> set (udomains S). announced h d)"
  using assms
proof induction
  case (run_scavenge h now S t F delegations A b S')
  have "announced ((t, S, S') # h) e" if "e \<in> set (udomains S')" for e
    using scavenge_rows [OF _ run_scavenge.hyps(3) that] run_scavenge.IH that
    by (auto intro: announced_more announced_noticed announced_unaffected)
  with scavenge_distinct run_scavenge show ?case by blast
next
  case (run_renew h now S t L n u i validated r S')
  then have "map d_id (udomains S') = map d_id (udomains S)"
    "\<And>e. e \<in> set (udomains S') \<Longrightarrow> e \<in> set (udomains S) \<or> d_renewal_state e = FRESH"
    by (auto simp: act_def atomic_def split: if_splits)
  with run_renew.IH show ?case by (metis announced_unaffected distinct_ids_def insertCI)
next
  case (run_create h now S t d lps S')
  then have "d_renewal_state d \<in> {IMMORTAL, FRESH}" by (simp add: initial_renewal_state_def)
  with run_create show ?case by (auto simp: distinct_ids_def intro: announced_unaffected)
qed (auto intro: announced_unaffected)

end
