(* ===== verification/RenewalLive.thy ===== *)
theory RenewalLive
  imports RenewalCorrect
begin

text \<open>
  Without failures the renewal command is a state machine on single domains: every domain of an active
  owner moves on its own, whatever the other domains and users do. From this follows that a domain
  without activity is deleted eventually. With any failures, no domain is deleted without notice.
\<close>

section \<open>The abstract machine\<close>

text \<open>One run at \<open>now\<close> for a domain that is not immortal and was last active at \<open>la\<close>, as state and time of its
  last change; \<open>None\<close> is deletion.\<close>

definition machine_renew :: "int \<Rightarrow> int option \<Rightarrow> renewal_state \<times> int \<Rightarrow> renewal_state \<times> int" where
  "machine_renew now la p =
     (case la of
        None \<Rightarrow> p
      | Some t \<Rightarrow> if date_of now - 183 \<le> date_of t \<and> snd p < t then (FRESH, t) else p)"

definition machine_age :: "int \<Rightarrow> int option \<Rightarrow> renewal_state \<times> int \<Rightarrow> (renewal_state \<times> int) option" where
  "machine_age now la p =
     (let age = date_of now - date_of (snd p)
      in case fst p of
           IMMORTAL \<Rightarrow> Some p
         | FRESH \<Rightarrow> Some (if 183 \<le> age then (NOTIFIED, now) else p)
         | NOTIFIED \<Rightarrow> Some (if 21 \<le> age then (WARNED, now) else p)
         | WARNED \<Rightarrow>
             if 7 \<le> age \<and> (\<exists>t. la = Some t \<and> 211 \<le> date_of now - date_of t) then None else Some p)"

definition machine_step :: "int \<Rightarrow> int option \<Rightarrow> renewal_state \<times> int \<Rightarrow> (renewal_state \<times> int) option" where
  "machine_step now la p = machine_age now la (machine_renew now la p)"

definition owner_active :: "store \<Rightarrow> adomain \<Rightarrow> bool" where
  "owner_active S d \<longleftrightarrow> (case users S (m_owner d) of None \<Rightarrow> False | Some a \<Rightarrow> ac_is_active a = Some True)"

definition domain_step :: "int \<Rightarrow> activity \<Rightarrow> store \<Rightarrow> adomain \<Rightarrow> adomain option" where
  "domain_step now A S d =
     (if d_renewal_state d = IMMORTAL \<or> \<not> owner_active S d then Some d
      else map_option (\<lambda>(st, changed). d\<lparr>d_renewal_state := st, d_renewal_changed := changed\<rparr>)
             (machine_step now (last_active A d) (d_renewal_state d, d_renewal_changed d)))"

section \<open>The stages without failures\<close>

definition no_faults :: faults where
  "no_faults = \<lparr>mail_fails = (\<lambda>u. False), pdns_fails = (\<lambda>i. False)\<rparr>"

lemma notify_no_faults:
  assumes "users S u = Some a"
  shows "\<exists>S'. notify_user no_faults now (u, ds) S = (Inr (), S') \<and> users S' = users S"
proof -
  have "map_of lanes ''renew-domain'' \<noteq> None" by (simp add: lanes_def)
  with assms show ?thesis
    by (simp add: notify_user_def Let_def no_faults_def get_user_def fold_save_renewal send_email_def)
qed

lemma notify_rows:
  assumes "notify_user F now (u, ds) S = (Inr (), S')" and "\<forall>d \<in> set ds. d_renewal_state d = st"
  shows "udomains S' = map (\<lambda>e. if d_id e \<in> d_id ` set ds then advanced now (advance st) e else e) (udomains S)"
  using assms(1)
  by (auto simp: notify_user_def Let_def rbind_def get_user_def send_email_def fold_save_renewal fold_advanced [OF assms(2)]
      split: if_split_asm sum.split_asm option.split_asm)

definition group_ids :: "(nat \<times> adomain list) list \<Rightarrow> nat set" where
  "group_ids gs = {d_id d |d u ds. (u, ds) \<in> set gs \<and> d \<in> set ds}"

lemma group_ids_simps [simp]: "group_ids [] = {}" "group_ids ((u, ds) # gs) = d_id ` set ds \<union> group_ids gs"
  by (auto simp: group_ids_def)

lemma notify_all:
  assumes "\<And>u ds. (u, ds) \<in> set gs \<Longrightarrow> users S u \<noteq> None \<and> (\<forall>d \<in> set ds. d_renewal_state d = st)"
  shows "\<exists>S'. io_iter (notify_user no_faults now) gs S = (Inr (), S') \<and> users S' = users S \<and>
    udomains S' = map (\<lambda>e. if d_id e \<in> group_ids gs then advanced now (advance st) e else e) (udomains S)"
  using assms
proof (induction gs arbitrary: S)
  case Nil
  then show ?case by simp
next
  case (Cons g gs)
  obtain u ds where g: "g = (u, ds)" by (cases g)
  with Cons.prems have p: "users S u \<noteq> None" "\<forall>d \<in> set ds. d_renewal_state d = st" by auto
  then obtain S1 where S1: "notify_user no_faults now (u, ds) S = (Inr (), S1)" "users S1 = users S"
    using notify_no_faults by blast
  have "\<And>v es. (v, es) \<in> set gs \<Longrightarrow> users S1 v \<noteq> None \<and> (\<forall>d \<in> set es. d_renewal_state d = st)"
    using Cons.prems S1(2) by (metis list.set_intros(2))
  from Cons.IH [OF this] obtain S2 where S2: "io_iter (notify_user no_faults now) gs S1 = (Inr (), S2)"
    "users S2 = users S1"
    "udomains S2 = map (\<lambda>e. if d_id e \<in> group_ids gs then advanced now (advance st) e else e) (udomains S1)" by blast
  have "udomains S2 = map (\<lambda>e. if d_id e \<in> group_ids (g # gs) then advanced now (advance st) e else e) (udomains S)"
    unfolding S2(3) notify_rows [OF S1(1) p(2)] g by auto
  with S1 S2 g show ?case by (simp add: io_bind_def)
qed

lemma group_ids_domain_user_map: "group_ids (domain_user_map ds) = d_id ` set ds"
  unfolding group_ids_def using domain_user_map_members [of ds] by blast

lemma warn_no_faults:
  assumes "distinct_ids S"
  shows "\<exists>S'. warn_domain_deletion no_faults now st n S = (Inr (), S') \<and> users S' = users S \<and>
    udomains S' = map (\<lambda>d. if warn_due st n now S d then advanced now (advance st) d else d) (udomains S)"
proof -
  let ?c = "expiry_candidates st n now S"
  have g: "users S u \<noteq> None \<and> (\<forall>d \<in> set ds. d_renewal_state d = st)" if "(u, ds) \<in> set (domain_user_map ?c)" for u ds
  proof -
    from domain_user_map_nonempty [OF that] obtain d where d: "d \<in> set ds" by (cases ds) auto
    have c: "warn_due st n now S e" "m_owner e = u" if e: "e \<in> set ds" for e
      using domain_user_map_sub [OF \<open>(u, ds) \<in> _\<close> e] domain_user_map_owner [OF \<open>(u, ds) \<in> _\<close> e]
      by (simp_all add: expiry_candidates_iff)
    from c [OF d] have "users S u \<noteq> None" by (auto simp: warn_due_def in_base_def split: option.splits)
    with c show ?thesis by (auto simp: warn_due_def)
  qed
  have "d_id e \<in> d_id ` set ?c \<longleftrightarrow> warn_due st n now S e" if "e \<in> set (udomains S)" for e
    using assms that expiry_candidates_iff by (rule id_of_selection)
  then have eq: "map (\<lambda>e. if d_id e \<in> d_id ` set ?c then advanced now (advance st) e else e) (udomains S) =
      map (\<lambda>d. if warn_due st n now S d then advanced now (advance st) d else d) (udomains S)" by simp
  show ?thesis
    using notify_all [of "domain_user_map ?c" S st now, OF g]
    unfolding warn_domain_deletion_def group_ids_domain_user_map eq by blast
qed

lemma delete_expired_no_faults:
  "\<exists>S'. delete_expired no_faults d S = (Inr (), S') \<and>
     udomains S' = filter (\<lambda>e. d_id e \<noteq> d_id d) (udomains S) \<and>
     (\<forall>e \<in> set (udomains S'). users S' (m_owner e) = users S (m_owner e))"
  by (auto simp: delete_expired_def no_faults_def Let_def drop_domain_def delete_user_def)

lemma delete_all:
  "\<exists>S'. io_iter (delete_expired no_faults) ds S = (Inr (), S') \<and>
     udomains S' = filter (\<lambda>e. d_id e \<notin> d_id ` set ds) (udomains S) \<and>
     (\<forall>e \<in> set (udomains S'). users S' (m_owner e) = users S (m_owner e))"
proof (induction ds arbitrary: S)
  case Nil
  then show ?case by simp
next
  case (Cons d ds)
  obtain S1 where S1: "delete_expired no_faults d S = (Inr (), S1)"
    "udomains S1 = filter (\<lambda>e. d_id e \<noteq> d_id d) (udomains S)"
    "\<forall>e \<in> set (udomains S1). users S1 (m_owner e) = users S (m_owner e)"
    using delete_expired_no_faults by blast
  obtain S2 where S2: "io_iter (delete_expired no_faults) ds S1 = (Inr (), S2)"
    "udomains S2 = filter (\<lambda>e. d_id e \<notin> d_id ` set ds) (udomains S1)"
    "\<forall>e \<in> set (udomains S2). users S2 (m_owner e) = users S1 (m_owner e)"
    using Cons.IH [of S1] by blast
  have "udomains S2 = filter (\<lambda>e. d_id e \<notin> d_id ` set (d # ds)) (udomains S)"
    unfolding S2(2) S1(2) filter_filter by (rule filter_cong) auto
  moreover have "\<forall>e \<in> set (udomains S2). users S2 (m_owner e) = users S (m_owner e)"
    using S2 S1(3) by auto
  ultimately show ?case using S1(1) S2(1) by (simp add: io_bind_def)
qed

lemma delete_no_faults:
  assumes "distinct_ids S"
  shows "\<exists>S'. delete_domains no_faults True now A n S = (Inr (), S') \<and>
    udomains S' = filter (\<lambda>d. \<not> (in_base S d \<and> expired n now A d)) (udomains S) \<and>
    (\<forall>d \<in> set (udomains S'). users S' (m_owner d) = users S (m_owner d))"
proof -
  obtain S' where S': "io_iter (delete_expired no_faults) (expired_domains n now A S) S = (Inr (), S')"
    "udomains S' = filter (\<lambda>e. d_id e \<notin> d_id ` set (expired_domains n now A S)) (udomains S)"
    "\<forall>e \<in> set (udomains S'). users S' (m_owner e) = users S (m_owner e)"
    using delete_all by blast
  have "d_id e \<in> d_id ` set (expired_domains n now A S) \<longleftrightarrow> in_base S e \<and> expired n now A e"
    if "e \<in> set (udomains S)" for e
    using assms that expired_domains_iff by (rule id_of_selection)
  then have "udomains S' = filter (\<lambda>d. \<not> (in_base S d \<and> expired n now A d)) (udomains S)"
    unfolding S'(2) by (intro filter_cong) auto
  with S' show ?thesis by (simp add: delete_domains_def io_bind_def)
qed

section \<open>The command refines the machine\<close>

lemma last_active_id: "d_id d = d_id e \<Longrightarrow> last_active A d = last_active A e"
  by (simp add: last_active_def)

text \<open>The four stages on one row.\<close>

definition staged :: "int \<Rightarrow> activity \<Rightarrow> store \<Rightarrow> adomain \<Rightarrow> adomain" where
  "staged now A S d =
     (let d1 = (if in_base S d \<and> recently_active now A d then renewed A d else d);
          d2 = (if warn_due FRESH 183 now S d1 then advanced now NOTIFIED d1 else d1)
      in if warn_due NOTIFIED 21 now S d2 then advanced now WARNED d2 else d2)"

lemma last_active_update [simp]:
  "last_active A (advanced now st d) = last_active A d" "last_active A (renewed A' d) = last_active A d"
  by (rule last_active_id, simp)+

lemma in_base_iff [simp]: "in_base S d \<longleftrightarrow> d_renewal_state d \<noteq> IMMORTAL \<and> owner_active S d"
  by (simp add: in_base_def owner_active_def)

lemma owner_active_update [simp]:
  "owner_active S (advanced now st d) = owner_active S d" "owner_active S (renewed A d) = owner_active S d"
  by (simp_all add: owner_active_def)

lemma staged_machine:
  "(if in_base S (staged now A S d) \<and> expired 211 now A (staged now A S d) then None else Some (staged now A S d)) =
     domain_step now A S d"
proof (cases "d_renewal_state d = IMMORTAL \<or> \<not> owner_active S d")
  case True
  then have "staged now A S d = d" by (auto simp: staged_def warn_due_def)
  with True show ?thesis by (auto simp: domain_step_def)
next
  case False
  then have b: "owner_active S d" "d_renewal_state d \<noteq> IMMORTAL" by simp_all
  define d1 where "d1 = (if recently_active now A d then renewed A d else d)"
  have d1: "owner_active S d1" "d_renewal_state d1 \<noteq> IMMORTAL" "last_active A d1 = last_active A d"
    using b by (auto simp: d1_def)
  have "domain_step now A S d = map_option (\<lambda>(st, changed). d1\<lparr>d_renewal_state := st, d_renewal_changed := changed\<rparr>)
      (machine_step now (last_active A d) (d_renewal_state d, d_renewal_changed d))"
    using b by (auto simp: domain_step_def d1_def renewed_def split: option.splits intro!: option.map_cong)
  moreover have "machine_renew now (last_active A d) (d_renewal_state d, d_renewal_changed d) =
      (d_renewal_state d1, d_renewal_changed d1)"
    by (simp add: d1_def recently_active_def renewed_def fresh_days_def machine_renew_def split: option.splits)
  moreover have "staged now A S d =
      (let d2 = (if warn_due FRESH 183 now S d1 then advanced now NOTIFIED d1 else d1)
       in if warn_due NOTIFIED 21 now S d2 then advanced now WARNED d2 else d2)"
    using b by (simp add: staged_def d1_def)
  ultimately show ?thesis using d1
    by (cases "d_renewal_state d1")
       (auto simp: machine_step_def machine_age_def Let_def warn_due_def expired_def notice_days_warn_def advanced_def)
qed

lemma filter_map_filter: "filter P (map f xs) = List.map_filter (\<lambda>x. if P (f x) then Some (f x) else None) xs"
  by (induction xs) (simp_all add: List.map_filter_simps)

lemma scavenge_refines:
  assumes "distinct_ids S"
  shows "\<exists>S'. scavenge_handle no_faults True now A S = (False, S') \<and>
    udomains S' = List.map_filter (domain_step now A S) (udomains S) \<and>
    (\<forall>d \<in> set (udomains S'). users S' (m_owner d) = users S (m_owner d))"
proof -
  define S1 where "S1 = renew_touched_domains now A S"
  have S1: "udomains S1 = map (\<lambda>d. if in_base S d \<and> recently_active now A d then renewed A d else d) (udomains S)"
    "users S1 = users S" "distinct_ids S1"
    using assms by (simp_all add: S1_def renew_touched_domains_def distinct_ids_def o_def if_distrib cong: if_cong)
  obtain S2 where S2: "warn_domain_deletion no_faults now FRESH fresh_days S1 = (Inr (), S2)" "users S2 = users S1"
    "udomains S2 = map (\<lambda>d. if warn_due FRESH fresh_days now S1 d then advanced now (advance FRESH) d else d) (udomains S1)"
    using warn_no_faults [OF S1(3)] by blast
  have d2: "distinct_ids S2" using warn_domain_deletion_rel [OF S1(3) S2(1)] S1(3) by (rule warn_rel_ids)
  obtain S3 where S3: "warn_domain_deletion no_faults now NOTIFIED 21 S2 = (Inr (), S3)" "users S3 = users S2"
    "udomains S3 = map (\<lambda>d. if warn_due NOTIFIED 21 now S2 d then advanced now (advance NOTIFIED) d else d) (udomains S2)"
    using warn_no_faults [OF d2] by blast
  have d3: "distinct_ids S3" using warn_domain_deletion_rel [OF d2 S3(1)] d2 by (rule warn_rel_ids)
  obtain S' where S': "delete_domains no_faults True now A 211 S3 = (Inr (), S')"
    "udomains S' = filter (\<lambda>d. \<not> (in_base S3 d \<and> expired 211 now A d)) (udomains S3)"
    "\<forall>d \<in> set (udomains S'). users S' (m_owner d) = users S3 (m_owner d)"
    using delete_no_faults [OF d3] by blast
  have w: "warn_due st n now S1 = warn_due st n now S" "warn_due st n now S2 = warn_due st n now S"
    "in_base S3 = in_base S" for st n
    using S1(2) S2(2) S3(2) by (simp_all add: warn_due_def in_base_def fun_eq_iff del: in_base_iff)
  have "udomains S3 = map (staged now A S) (udomains S)"
    unfolding S3(3) S2(3) S1(1) w by (simp add: staged_def fresh_days_def Let_def)
  then have "udomains S' = List.map_filter (domain_step now A S) (udomains S)"
    unfolding S'(2) w
    by (auto simp: filter_map_filter staged_machine [symmetric] intro!: arg_cong2 [where f = List.map_filter])
  moreover have "scavenge_handle no_faults True now A S = (False, S')"
    using S2(1) S3(1) S'(1)
    by (simp add: scavenge_handle_def stages_def io_bind_def S1_def notice_days_notify_def notice_days_warn_def fresh_days_def)
  ultimately show ?thesis using S'(3) S1(2) S2(2) S3(2) by auto
qed

text \<open>C34: If mail and PowerDNS work, the command succeeds, and its four stages with their queries, grouping by
  user and transactions amount to one step of the machine for every domain: the table afterwards is
  the table before with each row replaced by its next state, in place, and the expired rows removed.
  The users of the domains that remain are unchanged.\<close>

theorem scavenge_refines_machine:
  assumes "distinct_ids S"
  shows "\<exists>S'. scavenge_handle no_faults True now A S = (False, S') \<and>
    udomains S' = List.map_filter (domain_step now A S) (udomains S) \<and>
    (\<forall>d \<in> set (udomains S'). users S' (m_owner d) = users S (m_owner d))"
  using assms by (rule scavenge_refines)

section \<open>Inactive domains are deleted\<close>

fun machine_run :: "int option \<Rightarrow> int list \<Rightarrow> renewal_state \<times> int \<Rightarrow> (renewal_state \<times> int) option" where
  "machine_run la [] p = Some p"
| "machine_run la (t # ts) p = (case machine_step t la p of None \<Rightarrow> None | Some q \<Rightarrow> machine_run la ts q)"

lemma machine_run_append:
  "machine_run la (ts @ us) p = (case machine_run la ts p of None \<Rightarrow> None | Some q \<Rightarrow> machine_run la us q)"
  by (induction ts arbitrary: p) (auto split: option.splits)

lemma machine_run_keeps:
  assumes "machine_run la ts p = Some q" and "P p"
    and "\<And>t p q. t \<in> set ts \<Longrightarrow> P p \<Longrightarrow> machine_step t la p = Some q \<Longrightarrow> P q"
  shows "P q"
  using assms
proof (induction ts arbitrary: p)
  case (Cons t ts)
  then obtain r where "machine_step t la p = Some r" "machine_run la ts r = Some q" by (auto split: option.splits)
  with Cons.prems(2,3) Cons.IH [of r] show ?case by (metis list.set_intros)
qed simp

lemmas machine_defs = machine_step_def machine_age_def machine_renew_def Let_def

text \<open>Before \<open>t0\<close> the machine may be anywhere; from \<open>t0\<close> on it only goes forward.\<close>

lemma machine_dies:
  assumes le: "\<forall>u \<in> set us. a \<le> u \<and> u \<le> t0" "\<forall>v \<in> set vs. t0 \<le> v \<and> v \<le> t1" "\<forall>w \<in> set ws. t1 \<le> w"
    and p: "fst p \<noteq> IMMORTAL" "snd p \<le> t0" "date_of (snd p) + 183 \<le> date_of t0"
    and days: "date_of a + 183 < date_of t0" "date_of t0 + 21 \<le> date_of t1" "date_of t1 + 7 \<le> date_of t2"
  shows "machine_run (Some a) (us @ t0 # vs @ t1 # ws @ t2 # xs) p = None"
proof -
  let ?run = "machine_run (Some a)" and ?step = "\<lambda>t. machine_step t (Some a)"
  have mono: "date_of t0 \<le> date_of t" if "t0 \<le> t" for t using that by (rule date_of_mono)
  have a: "a < t0" using days(1) date_of_mono [of t0 a] by linarith
  define I0 where "I0 q \<longleftrightarrow> fst q \<noteq> IMMORTAL \<and> snd q \<le> t0 \<and> (fst q = FRESH \<longrightarrow> date_of (snd q) + 183 \<le> date_of t0)" for q
  define I1 where "I1 q \<longleftrightarrow> fst q \<in> {NOTIFIED, WARNED} \<and> snd q \<le> t1 \<and> (fst q = NOTIFIED \<longrightarrow> snd q \<le> t0)" for q
  define I2 where "I2 q \<longleftrightarrow> fst q = WARNED \<and> snd q \<le> t1" for q
  have t01: "t0 \<le> t1" using days(2) date_of_mono [of t1 t0] by linarith
  have t12: "t1 \<le> t2" using days(3) date_of_mono [of t2 t1] by linarith
  have s0: "I0 q'" if "u \<in> set us" "I0 q" "?step u q = Some q'" for u q q'
    using that le(1) days(1) a
    by (cases q; cases "fst q") (auto simp: I0_def machine_defs split: if_splits)
  have s1: "I1 q'" if "I0 q" "?step t0 q = Some q'" for q q'
    using that days(1) t01
    by (cases q; cases "fst q") (auto simp: I0_def I1_def machine_defs split: if_splits)
  have s1': "I1 q'" if "v \<in> set vs" "I1 q" "?step v q = Some q'" for v q q'
    using that le(2) days(1) mono [of v]
    by (cases q; cases "fst q") (auto simp: I1_def machine_defs split: if_splits)
  have s2: "I2 q'" if "I1 q" "?step t1 q = Some q'" for q q'
    using that days(1,2) date_of_mono [of "snd q" t0]
    by (cases q; cases "fst q") (auto simp: I1_def I2_def machine_defs split: if_splits)
  have s2': "I2 q'" if "w \<in> set ws" "I2 q" "?step w q = Some q'" for w q q'
    using that le(3) days(1,2) date_of_mono [of t1 w]
    by (cases q) (auto simp: I2_def machine_defs split: if_splits)
  have s3: "?step t2 q = None" if "I2 q" for q
    using that days date_of_mono [of "snd q" t1]
    by (cases q) (auto simp: I2_def machine_defs)
  have "I0 p" using p by (simp add: I0_def)
  show ?thesis
  proof (rule ccontr)
    assume "\<not> ?thesis"
    then obtain q0 q1 q2 q3 q4 q5 where q: "?run us p = Some q0" "?step t0 q0 = Some q1" "?run vs q1 = Some q2"
      "?step t1 q2 = Some q3" "?run ws q3 = Some q4" "?step t2 q4 = Some q5"
      by (auto simp: machine_run_append split: option.splits)
    have "I0 q0" by (rule machine_run_keeps [where P = I0, OF q(1) \<open>I0 p\<close>]) (rule s0)
    then have "I1 q1" using s1 q(2) by blast
    have "I1 q2" by (rule machine_run_keeps [where P = I1, OF q(3) \<open>I1 q1\<close>]) (rule s1')
    then have "I2 q3" using s2 q(4) by blast
    have "I2 q4" by (rule machine_run_keeps [where P = I2, OF q(5) \<open>I2 q3\<close>]) (rule s2')
    with s3 q(6) show False by simp
  qed
qed

text \<open>The command without failures at each of the given times; nothing else happens.\<close>

fun scavenges :: "int list \<Rightarrow> activity \<Rightarrow> store \<Rightarrow> store" where
  "scavenges [] A S = S"
| "scavenges (t # ts) A S = scavenges ts A (snd (scavenge_handle no_faults True t A S))"

lemma domain_step_id: "domain_step now A S d = Some e \<Longrightarrow> d_id e = d_id d \<and> m_owner e = m_owner d"
  by (auto simp: domain_step_def split: if_splits)

lemma map_filter_set: "set (List.map_filter f xs) = {y. \<exists>x \<in> set xs. f x = Some y}"
  by (force simp: List.map_filter_def)

lemma scavenge_once:
  assumes "distinct_ids S" and "d \<in> set (udomains S)" and "S' = snd (scavenge_handle no_faults True t A S)"
  shows "distinct_ids S' \<and> d_id ` set (udomains S') \<subseteq> d_id ` set (udomains S) \<and>
    (case domain_step t A S d of
       None \<Rightarrow> d_id d \<notin> d_id ` set (udomains S')
     | Some e \<Rightarrow> e \<in> set (udomains S') \<and> users S' (m_owner e) = users S (m_owner d))"
proof -
  note u = assms(3)
  from scavenge_refines [OF assms(1)] obtain T where T: "scavenge_handle no_faults True t A S = (False, T)"
    "udomains T = List.map_filter (domain_step t A S) (udomains S)"
    "\<forall>d \<in> set (udomains T). users T (m_owner d) = users S (m_owner d)" by blast
  with u have S': "S' = T" by simp
  have "distinct_ids S'" using scavenge_distinct [OF assms(1) T(1)] S' by simp
  moreover have "d_id ` set (udomains S') \<subseteq> d_id ` set (udomains S)"
    unfolding S' T(2) map_filter_set using domain_step_id by fastforce
  moreover have "case domain_step t A S d of None \<Rightarrow> d_id d \<notin> d_id ` set (udomains S')
     | Some e \<Rightarrow> e \<in> set (udomains S') \<and> users S' (m_owner e) = users S (m_owner d)"
  proof (cases "domain_step t A S d")
    case None
    have none: "False" if "e \<in> set (udomains S)" "domain_step t A S e = Some f" "d_id f = d_id d" for e f
      using that None distinct_ids_eq [OF assms(1) that(1) assms(2)] domain_step_id [OF that(2)] by auto
    have "d_id d \<notin> d_id ` set (udomains S')"
    proof
      assume "d_id d \<in> d_id ` set (udomains S')"
      then obtain f where f: "f \<in> set (udomains S')" "d_id f = d_id d" by auto
      then obtain e where "e \<in> set (udomains S)" "domain_step t A S e = Some f"
        unfolding S' T(2) map_filter_set by blast
      with none f(2) show False by blast
    qed
    with None show ?thesis by simp
  next
    case (Some e)
    then have in_S': "e \<in> set (udomains S')" unfolding S' T(2) map_filter_set using assms(2) by blast
    then have "users S' (m_owner e) = users S (m_owner e)" using T(3) unfolding S' by blast
    with Some in_S' domain_step_id [OF Some] show ?thesis by simp
  qed
  ultimately show ?thesis by blast
qed

lemma scavenges_gone:
  assumes "distinct_ids S" and "i \<notin> d_id ` set (udomains S)"
  shows "i \<notin> d_id ` set (udomains (scavenges ts A S))"
  using assms
proof (induction ts arbitrary: S)
  case (Cons t ts)
  let ?T = "snd (scavenge_handle no_faults True t A S)"
  from scavenge_refines [OF Cons.prems(1)] have d: "distinct_ids ?T"
    using scavenge_distinct [OF Cons.prems(1)] by (metis prod.collapse)
  have "i \<notin> d_id ` set (udomains ?T)"
    using scavenge_refines [OF Cons.prems(1), of t A] Cons.prems(2)
    by (auto simp: map_filter_set dest!: domain_step_id)
  from Cons.IH [OF d this] show ?case by simp
qed simp

lemma scavenges_machine:
  assumes "distinct_ids S" and "d \<in> set (udomains S)" and "owner_active S d" and "d_renewal_state d \<noteq> IMMORTAL"
    and "machine_run (last_active A d) ts (d_renewal_state d, d_renewal_changed d) = None"
  shows "d_id d \<notin> d_id ` set (udomains (scavenges ts A S))"
  using assms
proof (induction ts arbitrary: S d)
  case (Cons t ts)
  let ?T = "snd (scavenge_handle no_faults True t A S)"
  note once = scavenge_once [OF Cons.prems(1,2) refl, of t A]
  let ?m = "machine_step t (last_active A d) (d_renewal_state d, d_renewal_changed d)"
  have step: "domain_step t A S d = map_option (\<lambda>(st, changed). d\<lparr>d_renewal_state := st, d_renewal_changed := changed\<rparr>) ?m"
    using Cons.prems(3,4) by (simp add: domain_step_def)
  show ?case
  proof (cases ?m)
    case None
    with step once have "d_id d \<notin> d_id ` set (udomains ?T)" by simp
    with once scavenges_gone show ?thesis by simp
  next
    case (Some q)
    let ?e = "d\<lparr>d_renewal_state := fst q, d_renewal_changed := snd q\<rparr>"
    from Some step have e: "domain_step t A S d = Some ?e" by (simp add: split_beta)
    with once have in_T: "?e \<in> set (udomains ?T)" "users ?T (m_owner d) = users S (m_owner d)" by simp_all
    have st: "fst q \<noteq> IMMORTAL"
      using Some Cons.prems(4) by (auto simp: machine_defs split: if_splits option.splits renewal_state.splits)
    have "machine_run (last_active A ?e) ts (d_renewal_state ?e, d_renewal_changed ?e) = None"
      using Cons.prems(5) Some by (simp add: last_active_id [of ?e d])
    from Cons.IH [OF _ in_T(1) _ _ this] once in_T Cons.prems(3) st show ?thesis by (simp add: owner_active_def)
  qed
qed simp

text \<open>C35: Eventual deletion: take a domain of an active owner, last active at \<open>a\<close> and renewed at least 183 days before
  \<open>t0\<close>, with \<open>t0\<close> more than 183 days after \<open>a\<close>. If mail and PowerDNS work, and the command runs at \<open>t0\<close>, at least 21 days later at
  \<open>t1\<close> and at least 7 more days later at \<open>t2\<close>, and at any other times before, between and after, then
  the domain is gone at the end, whatever other domains there are.\<close>

theorem inactive_domain_deleted:
  assumes "distinct_ids S" and "d \<in> set (udomains S)" and "owner_active S d" and "d_renewal_state d \<noteq> IMMORTAL"
    and "last_active A d = Some a" and "sorted (a # us @ t0 # vs @ t1 # ws @ t2 # xs)"
    and "d_renewal_changed d \<le> t0" and "date_of (d_renewal_changed d) + 183 \<le> date_of t0"
    and "date_of a + 183 < date_of t0" and "date_of t0 + 21 \<le> date_of t1" and "date_of t1 + 7 \<le> date_of t2"
  shows "d_id d \<notin> d_id ` set (udomains (scavenges (us @ t0 # vs @ t1 # ws @ t2 # xs) A S))"
proof (rule scavenges_machine [OF assms(1-4)], unfold assms(5), rule machine_dies)
  show "\<forall>u \<in> set us. a \<le> u \<and> u \<le> t0" "\<forall>v \<in> set vs. t0 \<le> v \<and> v \<le> t1" "\<forall>w \<in> set ws. t1 \<le> w"
    using assms(6) by (auto simp: sorted_append)
qed (use assms in auto)

section \<open>No deletion without notice\<close>

text \<open>C33: Whatever happened before, in whatever order and with whatever failures of mail and PowerDNS: when the
  command deletes a domain, the domain is not immortal and its owner is active; it was last active
  at least 211 days ago; and its owner was sent two mails by earlier runs that put the domain into
  the states NOTIFIED and WARNED, the second at least 21 days after the first and at least 7 days
  ago.\<close>

theorem renewal_notice:
  assumes "renewal_run h now S" and "scavenge_handle F delegations t A S = (b, S')"
    and "d \<in> set (udomains S)" and "d_id d \<notin> d_id ` set (udomains S')"
  shows "d_renewal_state d \<noteq> IMMORTAL \<and> (\<exists>a. users S (m_owner d) = Some a \<and> ac_is_active a = Some True) \<and>
    (\<exists>la. last_active A d = Some la \<and> date_of la + 211 \<le> date_of t) \<and>
    (\<exists>t1 t2. notice h NOTIFIED (d_id d) t1 \<and> notice h WARNED (d_id d) t2 \<and>
      date_of t1 + 21 \<le> date_of t2 \<and> date_of t2 + 7 \<le> date_of t)"
proof -
  from renewal_run_announced [OF assms(1)] assms(3) have ids: "distinct_ids S" and an: "announced h d" by auto
  from scavenge_deletes [OF ids assms(2-4)] have b: "in_base S d" and x: "expired (fresh_days + notice_days_notify) t A d"
    by simp_all
  from b have "d_renewal_state d \<noteq> IMMORTAL" "\<exists>a. users S (m_owner d) = Some a \<and> ac_is_active a = Some True"
    by (auto simp: owner_active_def split: option.splits)
  moreover from x have "\<exists>la. last_active A d = Some la \<and> date_of la + 211 \<le> date_of t"
    by (auto simp: expired_def fresh_days_def notice_days_notify_def)
  moreover from x an obtain t1 where "notice h NOTIFIED (d_id d) t1" "notice h WARNED (d_id d) (d_renewal_changed d)"
      "date_of t1 + 21 \<le> date_of (d_renewal_changed d)" "date_of (d_renewal_changed d) + 7 \<le> date_of t"
    by (auto simp: expired_def announced_def notice_days_warn_def)
  ultimately show ?thesis by blast
qed

section \<open>An example\<close>

definition old_domain :: adomain where
  "old_domain = \<lparr>m_name = ''a.dedyn.io'', m_owner = 7, d_id = 1, d_renewal_state = FRESH, d_renewal_changed = 0\<rparr>"

definition old_store :: store where
  "old_store = \<lparr>users = [7 \<mapsto> \<lparr>ac_id = 7, ac_email = ''a@b.c'', ac_email_verified = None, ac_is_active = Some True,
       ac_credentials_changed = 0, ac_needs_captcha = False, ac_outreach = True, ac_password = [],
       ac_limit_domains = None\<rparr>],
     factors = [], captchas = [], udomains = [old_domain], utokens = Map.empty, token_names = (\<lambda>i. []), outbox = []\<rparr>"

definition old_activity :: activity where
  "old_activity = \<lparr>published_at = (\<lambda>i. Some 0), touched_at = (\<lambda>i. [])\<rparr>"

definition days :: "int \<Rightarrow> int" where
  "days n = 86400 * n"

lemma date_of_days [simp]: "date_of (days n) = n"
  by (simp add: date_of_def days_def)

lemma old_facts [simp]:
  "distinct_ids old_store" "old_domain \<in> set (udomains old_store)" "udomains old_store = [old_domain]"
  "owner_active old_store old_domain" "last_active old_activity d = Some 0" "d_renewal_state old_domain = FRESH"
  "d_renewal_changed old_domain = 0" "m_owner old_domain = 7" "d_id old_domain = 1" "date_of 0 = 0"
  by (simp_all add: distinct_ids_def old_store_def owner_active_def old_domain_def last_active_def max_touched_def
      old_activity_def date_of_def)

theorem scavenge_refines_machine_witness:
  "\<exists>S'. scavenge_handle no_faults True (days 190) old_activity old_store = (False, S') \<and>
     udomains S' = [advanced (days 190) NOTIFIED old_domain]"
proof -
  have "domain_step (days 190) old_activity old_store old_domain = Some (advanced (days 190) NOTIFIED old_domain)"
    by (simp add: domain_step_def machine_defs advanced_def)
  then have "List.map_filter (domain_step (days 190) old_activity old_store) (udomains old_store) =
      [advanced (days 190) NOTIFIED old_domain]" by (simp add: List.map_filter_simps)
  with scavenge_refines_machine [of old_store "days 190" old_activity] show ?thesis
    using old_facts(1) by metis
qed

theorem inactive_domain_deleted_witness:
  "1 \<notin> d_id ` set (udomains (scavenges [days 10, days 190, days 200, days 211, days 230] old_activity old_store))"
proof -
  have "sorted (0 # [days 10] @ days 190 # [days 200] @ days 211 # [] @ days 230 # [])"
    by (simp add: days_def)
  note gone = inactive_domain_deleted [OF old_facts(1,2,4) _ old_facts(5) this]
  have "d_id old_domain \<notin> d_id ` set (udomains
      (scavenges ([days 10] @ days 190 # [days 200] @ days 211 # [] @ days 230 # []) old_activity old_store))"
    by (rule gone) (simp_all, simp add: days_def)
  then show ?thesis by (simp del: scavenges.simps)
qed

text \<open>Three runs by one domain: the first two notify, the third deletes.\<close>

lemma lone_step:
  assumes "distinct_ids S" and "udomains S = [d]" and "scavenge_handle no_faults True t old_activity S = (b, S')"
  shows "udomains S' = (case domain_step t old_activity S d of None \<Rightarrow> [] | Some e \<Rightarrow> [e])"
    and "udomains S' \<noteq> [] \<Longrightarrow> users S' (m_owner d) = users S (m_owner d)"
proof -
  from scavenge_refines [OF assms(1), of t old_activity] assms(2,3)
  have u: "udomains S' = List.map_filter (domain_step t old_activity S) [d]"
    and k: "\<forall>d \<in> set (udomains S'). users S' (m_owner d) = users S (m_owner d)" by auto
  then show r: "udomains S' = (case domain_step t old_activity S d of None \<Rightarrow> [] | Some e \<Rightarrow> [e])"
    by (simp add: List.map_filter_simps split: option.splits)
  assume "udomains S' \<noteq> []"
  with r obtain e where e: "domain_step t old_activity S d = Some e" "udomains S' = [e]" by (auto split: option.splits)
  with k domain_step_id [OF e(1)] show "users S' (m_owner d) = users S (m_owner d)" by simp
qed

theorem renewal_notice_witness:
  "\<exists>h S d. renewal_run h (days 211) S \<and> udomains S = [d] \<and>
     udomains (snd (scavenge_handle no_faults True (days 218) old_activity S)) = [] \<and>
     (\<exists>t1 t2. notice h NOTIFIED (d_id d) t1 \<and> notice h WARNED (d_id d) t2 \<and> date_of t1 + 21 \<le> date_of t2)"
proof -
  let ?h = "\<lambda>t. scavenge_handle no_faults True t old_activity"
  obtain b1 S1 where 1: "?h (days 190) old_store = (b1, S1)" by fastforce
  obtain b2 S2 where 2: "?h (days 211) S1 = (b2, S2)" by fastforce
  obtain b3 S3 where 3: "?h (days 218) S2 = (b3, S3)" by fastforce
  have r0: "renewal_run [] 0 old_store" by (rule run_start) simp_all
  have r1: "renewal_run [(days 190, old_store, S1)] (days 190) S1"
    by (rule run_scavenge [OF r0 _ 1]) (simp add: days_def)
  have r2: "renewal_run [(days 211, S1, S2), (days 190, old_store, S1)] (days 211) S2"
    by (rule run_scavenge [OF r1 _ 2]) (simp add: days_def)
  let ?d1 = "advanced (days 190) NOTIFIED old_domain" and ?d2 = "advanced (days 211) WARNED old_domain"
  have u1: "udomains S1 = [?d1]" "users S1 7 = users old_store 7"
    using lone_step [OF _ _ 1, of old_domain] by (simp_all add: domain_step_def machine_defs advanced_def)
  then have a1: "owner_active S1 ?d1" using old_facts(4) by (simp add: owner_active_def)
  have i: "distinct_ids S1" "distinct_ids S2" using r1 r2 renewal_run_announced by blast+
  have u2: "udomains S2 = [?d2]" "users S2 7 = users old_store 7"
    using lone_step [OF i(1) u1(1) 2] a1 u1(2) by (simp_all add: domain_step_def machine_defs advanced_def)
  then have a2: "owner_active S2 ?d2" using old_facts(4) by (simp add: owner_active_def)
  have u3: "udomains S3 = []"
    using lone_step [OF i(2) u2(1) 3] a2 by (simp add: domain_step_def machine_defs advanced_def)
  from renewal_notice [OF r2 3, of ?d2] u2(1) u3 have "\<exists>t1 t2. notice [(days 211, S1, S2), (days 190, old_store, S1)] NOTIFIED (d_id ?d2) t1 \<and>
      notice [(days 211, S1, S2), (days 190, old_store, S1)] WARNED (d_id ?d2) t2 \<and> date_of t1 + 21 \<le> date_of t2"
    by auto
  moreover have "udomains (snd (?h (days 218) S2)) = []" using u3 3 by simp
  ultimately show ?thesis using r2 u2(1) by blast
qed

end
