(* ===== verification/DynDns.thy ===== *)
theory DynDns
  imports Domains Bulk
begin

text \<open>
  The dynDNS endpoint (\<open>views/dyndns.py\<close>): reading the names and the addresses from a request, the
  domain they belong to, and the RRset data that go to the list serializer. The parsers and the
  printer of Python's \<open>ipaddress\<close> and the decoding of HTTP basic credentials are parameters; a
  query string is a list of parameters with distinct names.
\<close>

section \<open>The environment of a request\<close>

record iplib =
  parse_network :: "string \<Rightarrow> (string, subnet) result"
  parse_address :: "string \<Rightarrow> ip option"
  show_address :: "ip \<Rightarrow> string"
  decode_credentials :: "string \<Rightarrow> string option"
  set_order :: "string set \<Rightarrow> string list"

record dyn_request =
  query_params :: "(string \<times> string) list"
  authorization :: string
  remote_addr :: string
  own_domains :: "domain list"

datatype dyn_error =
  DynInvalid string
| DomainUnspecified
| CrossDomainUpdate
| NoHost
| DomainDoesNotExist
| DynValueError

section \<open>Actions\<close>

datatype action = SetIPs "string list" | UpdateWithSubnet subnet | PreserveIPs

definition action_params :: "char \<Rightarrow> string \<Rightarrow> string list" where
  "action_params separator param_value =
     remdups (filter (\<lambda>param. separator \<in> set param \<or> param \<in> {'''', ''preserve''})
       (map strip (split_on CHR '','' param_value)))"

text \<open>\<open>_get_action_from_param\<close>; the set of parameters is the list without duplicates.\<close>

definition get_action_from_param ::
  "iplib \<Rightarrow> string \<Rightarrow> string \<Rightarrow> char \<Rightarrow> (dyn_error, action option) result" where
  "get_action_from_param L param_key param_value separator =
     (case action_params separator param_value of
        [] \<Rightarrow> Inr None
      | [param] \<Rightarrow>
          if param = [] then Inr (Some (SetIPs []))
          else if param = ''preserve'' then Inr (Some PreserveIPs)
          else if CHR ''/'' \<in> set param then
            (case parse_network L param of
               Inr s \<Rightarrow> Inr (Some (UpdateWithSubnet s))
             | Inl e \<Rightarrow> Inl (DynInvalid ''invalid-subnet''))
          else Inr (Some (SetIPs [param]))
      | params \<Rightarrow>
          if '''' \<in> set params \<or> ''preserve'' \<in> set params then Inl (DynInvalid ''inconsistent-parameter'')
          else if \<exists>param \<in> set params. CHR ''/'' \<in> set param then Inl (DynInvalid ''multiple-subnet'')
          else Inr (Some (SetIPs (set_order L (set params)))))"

text \<open>\<open>_find_action\<close>\<close>

primrec find_action :: "iplib \<Rightarrow> dyn_request \<Rightarrow> string list \<Rightarrow> char \<Rightarrow> (dyn_error, action) result" where
  "find_action L R [] separator =
     Inr (SetIPs (if separator \<in> set (remote_addr R) then [remote_addr R] else []))"
| "find_action L R (param_key # param_keys) separator =
     (case map_of (query_params R) param_key of
        None \<Rightarrow> find_action L R param_keys separator
      | Some param_value \<Rightarrow>
          rbind (get_action_from_param L param_key param_value separator) (\<lambda>a.
            case a of None \<Rightarrow> find_action L R param_keys separator | Some action \<Rightarrow> Inr action))"

section \<open>Names\<close>

definition sanitize_qnames :: "string \<Rightarrow> string list" where
  "sanitize_qnames qnames_str = remdups (map strip (split_on CHR '','' (lower qnames_str)))"

text \<open>The user name of basic credentials: the second word of the header, decoded, up to a colon.\<close>

definition basic_username :: "iplib \<Rightarrow> dyn_request \<Rightarrow> string option" where
  "basic_username L R =
     (case split_on CHR '' '' (authorization R) of
        _ # w # _ \<Rightarrow> map_option (\<lambda>c. hd (split_on CHR '':'' c)) (decode_credentials L w)
      | _ \<Rightarrow> None)"

definition only_domain :: "dyn_request \<Rightarrow> (dyn_error, string list) result" where
  "only_domain R =
     (case own_domains R of
        [d] \<Rightarrow> Inr [m_name d]
      | [] \<Rightarrow> Inl DomainDoesNotExist
      | _ \<Rightarrow> Inl DomainUnspecified)"

definition qnames :: "iplib \<Rightarrow> dyn_request \<Rightarrow> (dyn_error, string list) result" where
  "qnames L R =
     (let param = (\<lambda>k reserved. case map_of (query_params R) k of
              Some v \<Rightarrow> if v \<in> set reserved then None else Some v | None \<Rightarrow> None)
      in case param ''hostname'' ['''', ''YES''] of
           Some names \<Rightarrow> Inr (sanitize_qnames names)
         | None \<Rightarrow>
      case param ''host_id'' [] of
        Some names \<Rightarrow> Inr (sanitize_qnames names)
      | None \<Rightarrow>
      case basic_username L R of
        Some names \<Rightarrow>
          if names \<noteq> [] \<and> CHR ''@'' \<notin> set names then Inr (sanitize_qnames names)
          else (case param ''username'' [] of Some u \<Rightarrow> Inr (sanitize_qnames u) | None \<Rightarrow> only_domain R)
      | None \<Rightarrow> (case param ''username'' [] of Some u \<Rightarrow> Inr (sanitize_qnames u) | None \<Rightarrow> only_domain R))"

text \<open>\<open>extra_qname_params\<close>: per name the parameter value for each record type.\<close>

type_synonym extra = "(string \<times> (string \<times> string) list) list"

definition prefix_type :: "string \<Rightarrow> string option" where
  "prefix_type = map_of [(''myipv4'', ''A''), (''myipv6'', ''AAAA'')]"

definition add_extra :: "string \<Rightarrow> string \<Rightarrow> string \<Rightarrow> extra \<Rightarrow> extra" where
  "add_extra rtype value qname m =
     AList.update qname (AList.update rtype value (case map_of m qname of None \<Rightarrow> [] | Some d \<Rightarrow> d)) m"

definition extra_param :: "string \<times> string \<Rightarrow> extra \<Rightarrow> extra" where
  "extra_param p m =
     (case p of (param, value) \<Rightarrow>
        (case partition_on CHR '':'' param of
           (pre, sep, post) \<Rightarrow>
             if sep = [] then m
             else (case prefix_type pre of
                     None \<Rightarrow> m
                   | Some rtype \<Rightarrow> fold (add_extra rtype value) (sanitize_qnames post) m)))"

definition extra_qname_params :: "dyn_request \<Rightarrow> extra" where
  "extra_qname_params R = fold extra_param (query_params R) []"

text \<open>The domain: every name must have one, and all the same.\<close>

definition dyn_domain :: "dyn_request \<Rightarrow> string list \<Rightarrow> (dyn_error, domain) result" where
  "dyn_domain R qs =
     (let names = remdups (qs @ map fst (extra_qname_params R));
          domains = somes (map (responsible_domain (own_domains R)) names)
      in if length domains \<noteq> length names then Inl NoHost
         else if 1 < length (remdups (map m_name domains)) then Inl CrossDomainUpdate
         else case domains of [] \<Rightarrow> Inl NoHost | d # _ \<Rightarrow> Inr d)"

definition subname_of_qname :: "string \<Rightarrow> string \<Rightarrow> string" where
  "subname_of_qname dname qname = fst (rpartition (CHR ''.'' # dname) qname)"

definition extra_actions ::
  "iplib \<Rightarrow> dyn_request \<Rightarrow> string \<Rightarrow> (dyn_error, (rrkey \<times> action option) list) result" where
  "extra_actions L R dname =
     rmap (\<lambda>(qname, rtype, param_value).
         rbind (get_action_from_param L qname param_value (if rtype = ''A'' then CHR ''.'' else CHR '':''))
           (\<lambda>a. Inr ((rtype, subname_of_qname dname qname), a)))
       (concat (map (\<lambda>(qname, by_rtype). map (\<lambda>(t, v). (qname, t, v)) by_rtype) (extra_qname_params R)))"

section \<open>The update\<close>

definition replace_records :: "iplib \<Rightarrow> string list \<Rightarrow> subnet \<Rightarrow> (dyn_error, string list) result" where
  "replace_records L contents s =
     rbind (rmap (\<lambda>c. case parse_address L c of None \<Rightarrow> Inl DynValueError | Some a \<Rightarrow> Inr a) contents) (\<lambda>addrs.
       case replace_ip_subnet s addrs of
         Inl e \<Rightarrow> Inl DynValueError
       | Inr new \<Rightarrow> Inr (map (show_address L) new))"

text \<open>\<open>_get_records\<close>: \<open>None\<close> also for an action that is absent.\<close>

fun get_records :: "iplib \<Rightarrow> string list \<Rightarrow> action option \<Rightarrow> (dyn_error, string list option) result" where
  "get_records L contents (Some (SetIPs ips)) = Inr (Some ips)"
| "get_records L contents (Some (UpdateWithSubnet s)) =
     rbind (replace_records L contents s) (\<lambda>rs. Inr (Some rs))"
| "get_records L contents (Some PreserveIPs) = Inr None"
| "get_records L contents None = Inr None"

definition dyn_instances :: "zone \<Rightarrow> string list \<Rightarrow> zone" where
  "dyn_instances z subs = filter (\<lambda>(k, r). snd k \<in> set subs \<and> fst k \<in> {''A'', ''AAAA''}) z"

text \<open>The contents below a subname, of both types.\<close>

definition subname_records :: "zone \<Rightarrow> string \<Rightarrow> string list" where
  "subname_records insts sub = concat (map (\<lambda>(k, r). if snd k = sub then records r else []) insts)"

definition subname_actions ::
  "string list \<Rightarrow> action \<Rightarrow> action \<Rightarrow> (rrkey \<times> action option) list \<Rightarrow> (rrkey \<times> action option) list" where
  "subname_actions subs a aaaa extras =
     fold (\<lambda>(k, v). AList.update k v)
       (concat (map (\<lambda>s. [((''A'', s), Some a), ((''AAAA'', s), Some aaaa)]) subs) @ extras) []"

definition dyn_data ::
  "iplib \<Rightarrow> zone \<Rightarrow> (rrkey \<times> action option) list \<Rightarrow> (dyn_error, vitem list) result" where
  "dyn_data L insts actions =
     rbind (rmap (\<lambda>(k, a). rbind (get_records L (subname_records insts (snd k)) a) (\<lambda>rs.
         Inr (map_option (\<lambda>r. \<lparr>v_type = fst k, v_subname = snd k, v_ttl = Some 60, v_records = Some r\<rparr>) rs)))
       actions) (\<lambda>xs. Inr (somes xs))"

definition item_pyval :: "vitem \<Rightarrow> pyval" where
  "item_pyval v =
     PyDict [(''type'', PyStr (v_type v)), (''subname'', PyStr (v_subname v)),
       (''ttl'', case v_ttl v of None \<Rightarrow> PyNone | Some n \<Rightarrow> PyInt (int n)),
       (''records'', case v_records v of None \<Rightarrow> PyNone | Some rs \<Rightarrow> PyList (map PyStr rs))]"

text \<open>\<open>get\<close> up to the serializer: the domain, the instances and the data.\<close>

definition dyn_get ::
  "iplib \<Rightarrow> dyn_request \<Rightarrow> (string \<Rightarrow> zone) \<Rightarrow> (dyn_error, domain \<times> zone \<times> vitem list) result" where
  "dyn_get L R zones_of =
     rbind (qnames L R) (\<lambda>qs.
     rbind (dyn_domain R qs) (\<lambda>d.
     rbind (extra_actions L R (m_name d)) (\<lambda>extras.
     let subs = map (subname_of_qname (m_name d)) (set_order L (set qs));
         insts = dyn_instances (zones_of (m_name d)) (subs @ map (snd \<circ> fst) extras) in
     rbind (find_action L R [''myip'', ''myipv4'', ''ip''] CHR ''.'') (\<lambda>a.
     rbind (find_action L R [''myipv6'', ''ipv6'', ''myip'', ''ip''] CHR '':'') (\<lambda>aaaa.
     rbind (dyn_data L insts (subname_actions subs a aaaa extras)) (\<lambda>data.
       Inr (d, insts, data)))))))"

text \<open>A rejection because an RRset appeared in the meantime becomes \<open>ConcurrencyException\<close>.\<close>

datatype dyn_failure = DynFailed dyn_error | Concurrency | DynRejected list_error | DynBlock serr

definition unique_error :: "string \<times> string \<Rightarrow> bool" where
  "unique_error e \<longleftrightarrow> fst e = nfe \<and>
     snd e = ''Another RRset with the same subdomain and type exists for this domain. (Try modifying it.)''"

definition dyn_reject :: "list_error \<Rightarrow> dyn_failure" where
  "dyn_reject e =
     (case e of
        ItemErrors ess \<Rightarrow> if \<exists>es \<in> set ess. \<exists>x \<in> set es. unique_error x then Concurrency else DynRejected e
      | _ \<Rightarrow> DynRejected e)"

definition dyn_update ::
  "(bool \<Rightarrow> rrkey option \<Rightarrow> pyval \<Rightarrow> (verr, vitem) result) \<Rightarrow> ctx \<Rightarrow> (string set \<Rightarrow> string list) \<Rightarrow>
   (rrkey set \<Rightarrow> rrkey list) \<Rightarrow> zone \<Rightarrow> zone \<Rightarrow> vitem list \<Rightarrow> tracked \<Rightarrow> (dyn_failure, tracked) result" where
  "dyn_update run_validation X so ko z insts data S =
     (case to_internal_value run_validation z True False False (keys insts) (PyList (map item_pyval data)) of
        Inl e \<Rightarrow> Inl (dyn_reject e)
      | Inr vs \<Rightarrow>
          (case rrsets_update X so ko (keys insts) vs S of
             Inl e \<Rightarrow> Inl (DynBlock e) | Inr S' \<Rightarrow> Inr S'))"

end
