(* ===== verification/DynDnsCorrect.thy ===== *)
theory DynDnsCorrect
  imports DynDns DomainsCorrect
begin

text \<open>
  The dynDNS endpoint: how a parameter value becomes an action, that the subname cut out of a
  requested name puts that name together again, and what the data handed to the list serializer
  cover.
\<close>

declare split_paired_All [simp del] split_paired_Ex [simp del]

section \<open>Actions\<close>

definition lawful_iplib :: "iplib \<Rightarrow> bool" where
  "lawful_iplib L \<longleftrightarrow> (\<forall>X. finite X \<longrightarrow> set (set_order L X) = X \<and> distinct (set_order L X))"

text \<open>The pieces of a parameter value that count for one address family.\<close>

definition relevant :: "char \<Rightarrow> string \<Rightarrow> string set" where
  "relevant sep v = {p \<in> set (map strip (split_on CHR '','' v)). sep \<in> set p \<or> p = '''' \<or> p = ''preserve''}"

lemma set_action_params: "set (action_params sep v) = relevant sep v"
  by (auto simp: action_params_def relevant_def)

lemma distinct_action_params: "distinct (action_params sep v)"
  by (simp add: action_params_def)

text \<open>What each answer of \<open>_get_action_from_param\<close> says of the value.\<close>

fun action_spec :: "iplib \<Rightarrow> string set \<Rightarrow> (dyn_error, action option) result \<Rightarrow> bool" where
  "action_spec L P (Inr None) = (P = {})"
| "action_spec L P (Inr (Some PreserveIPs)) = (P = {''preserve''})"
| "action_spec L P (Inr (Some (UpdateWithSubnet s))) =
     (\<exists>p. P = {p} \<and> CHR ''/'' \<in> set p \<and> parse_network L p = Inr s)"
| "action_spec L P (Inr (Some (SetIPs ips))) =
     (P \<noteq> {} \<and> set ips = P - {''''} \<and> distinct ips \<and> ''preserve'' \<notin> P \<and> ('''' \<in> P \<longrightarrow> P = {''''}) \<and>
      (\<forall>p \<in> P. CHR ''/'' \<notin> set p))"
| "action_spec L P (Inl e) =
     ((P \<noteq> {''''} \<and> P \<noteq> {''preserve''}) \<and>
      ('''' \<in> P \<or> ''preserve'' \<in> P \<or>
       (\<exists>p \<in> P. CHR ''/'' \<in> set p \<and> (P \<noteq> {p} \<or> (\<nexists>s. parse_network L p = Inr s)))))"

lemma get_action_spec:
  assumes "lawful_iplib L"
  shows "action_spec L (relevant sep v) (get_action_from_param L k v sep)"
proof (cases "action_params sep v" rule: remdups_adj.cases)
  case 1
  then show ?thesis using set_action_params [of sep v] by (simp add: get_action_from_param_def)
next
  case (2 p)
  then have "relevant sep v = {p}" using set_action_params [of sep v] by simp
  with 2 show ?thesis by (auto simp: get_action_from_param_def split: sum.splits)
next
  case (3 p q ps)
  have P: "relevant sep v = set (p # q # ps)" using 3 set_action_params [of sep v] by simp
  have "p \<noteq> q" using distinct_action_params [of sep v] 3 by simp
  then have two: "relevant sep v \<noteq> {x}" for x using P by auto
  have "set (set_order L (set (p # q # ps))) = set (p # q # ps)"
    "distinct (set_order L (set (p # q # ps)))"
    using assms by (auto simp: lawful_iplib_def)
  with 3 P two show ?thesis by (auto simp: get_action_from_param_def)
qed

text \<open>How a query parameter becomes an action. Of its comma-separated pieces only those count that
  contain the separator of the address family, are empty or are the word \<open>preserve\<close>. Without any the
  parameter does not apply; one piece \<open>preserve\<close> keeps the records; one piece in subnet notation
  replaces the network part; otherwise the records become exactly the given addresses, none for an
  empty value. Mixing these, several pieces with a subnet among them, or a malformed subnet are errors.\<close>

lemma action_of_parameter:
  assumes "lawful_iplib L"
  shows "action_spec L (relevant sep v) (get_action_from_param L k v sep)"
  using assms by (rule get_action_spec)

section \<open>Names and subnames\<close>

lemma rcut_short:
  assumes "length s < length sep"
  shows "rcut sep s = None"
proof (rule ccontr)
  assume "rcut sep s \<noteq> None"
  then obtain h t where "rcut sep s = Some (h, t)" by auto
  then have "s = h @ sep @ t" by (rule rcut_Some)
  with assms show False by simp
qed

lemma subname_of_qname_construct:
  assumes q: "dotted_suffix dn q" and ok: "name_field_ok (lower (removeprefix q ''*.''))" and dn: "dn \<noteq> []"
  shows "construct_name (subname_of_qname dn q) dn = q @ ''.''"
proof (cases "q = dn")
  case True
  then have "rcut (CHR ''.'' # dn) q = None" by (intro rcut_short) simp
  with True dn show ?thesis by (simp add: subname_of_qname_def rpartition_def construct_name_def)
next
  case False
  with q proper_dotted_suffix have "ends_with q (CHR ''.'' # dn)" by blast
  then obtain p where p: "q = p @ CHR ''.'' # dn" by (auto dest: ends_withD)
  have "p \<noteq> []"
  proof
    assume "p = []"
    with p have "lower (removeprefix q ''*.'') = CHR ''.'' # lower dn"
      by (simp add: removeprefix_def starts_with_code lower_def lower_char_def)
    with ok valid_labels_nonempty [of "CHR ''.'' # lower dn"] show False
      by (simp add: name_field_ok_def)
  qed
  moreover have "rcut (CHR ''.'' # dn) q = Some (p, [])" unfolding p by (rule rcut_suffix) simp
  ultimately show ?thesis using p dn
    by (simp add: subname_of_qname_def rpartition_def construct_name_def)
qed

definition requested_names :: "dyn_request \<Rightarrow> string list \<Rightarrow> string set" where
  "requested_names R qs = set qs \<union> fst ` set (extra_qname_params R)"

lemma length_somes: "length (somes xs) = length xs \<longleftrightarrow> None \<notin> set xs"
proof (induction xs)
  case Nil
  then show ?case by (simp add: somes_def)
next
  case (Cons x xs)
  have "length (somes xs) \<le> length xs" by (induction xs) (auto simp: somes_def split: option.splits)
  with Cons show ?case by (cases x) (auto simp: somes_def)
qed

lemma set_somes: "y \<in> set (somes xs) \<longleftrightarrow> Some y \<in> set xs"
  by (induction xs) (auto simp: somes_def split: option.splits)

lemma one_name:
  assumes "\<not> 1 < length (remdups xs)" and "a \<in> set xs" and "b \<in> set xs"
  shows "a = b"
proof -
  from assms(1) obtain x where "set (remdups xs) \<subseteq> {x}"
    by (cases "remdups xs" rule: remdups_adj.cases) auto
  with assms(2,3) show ?thesis by auto
qed

lemma dyn_domain_Inr:
  assumes "dyn_domain R qs = Inr d"
  shows "d \<in> set (own_domains R)"
    "q \<in> requested_names R qs \<Longrightarrow> dotted_suffix (m_name d) q \<and> name_field_ok (lower (removeprefix q ''*.''))"
proof -
  let ?names = "remdups (qs @ map fst (extra_qname_params R))"
  let ?ds = "somes (map (responsible_domain (own_domains R)) ?names)"
  from assms have len: "length ?ds = length ?names" and one: "\<not> 1 < length (remdups (map m_name ?ds))"
    and hd: "d \<in> set ?ds"
    by (auto simp: dyn_domain_def Let_def split: if_splits list.splits)
  from hd obtain q' where "responsible_domain (own_domains R) q' = Some d" by (auto simp: set_somes)
  then show "d \<in> set (own_domains R)" by (rule responsible_domain_Some)
  assume "q \<in> requested_names R qs"
  then have q: "q \<in> set ?names" by (auto simp: requested_names_def)
  from len have "None \<notin> set (map (responsible_domain (own_domains R)) ?names)"
    unfolding length_somes [symmetric] length_map .
  with q obtain e where e: "responsible_domain (own_domains R) q = Some e"
    by (metis (no_types, lifting) image_eqI list.set_map not_Some_eq)
  then have "Some e \<in> set (map (responsible_domain (own_domains R)) ?names)"
    using q by (metis image_eqI list.set_map)
  then have "e \<in> set ?ds" by (simp add: set_somes)
  then have "m_name e = m_name d" using one_name [OF one] hd by auto
  moreover have "name_field_ok (lower (removeprefix q ''*.''))"
    using e by (cases "name_field_ok (lower (removeprefix q ''*.''))")
      (simp_all add: responsible_domain_def filter_qname_def)
  ultimately show "dotted_suffix (m_name d) q \<and> name_field_ok (lower (removeprefix q ''*.''))"
    using responsible_domain_Some(2) [OF e] by simp
qed

section \<open>The data of an update\<close>

lemma set_update: "x \<in> set (AList.update k v m) \<Longrightarrow> x = (k, v) \<or> x \<in> set m"
  by (induction m) (auto split: if_splits)

definition extra_ok :: "extra \<Rightarrow> bool" where
  "extra_ok m \<longleftrightarrow> (\<forall>p \<in> set m. fst ` set (snd p) \<subseteq> {''A'', ''AAAA''})"

lemma add_extra_ok:
  assumes "rt \<in> {''A'', ''AAAA''}" and "extra_ok m"
  shows "extra_ok (add_extra rt v q m)"
proof -
  have old: "fst ` set d \<subseteq> {''A'', ''AAAA''}" if "d = (case map_of m q of None \<Rightarrow> [] | Some d \<Rightarrow> d)" for d
  proof (cases "map_of m q")
    case (Some e)
    with that have "(q, d) \<in> set m" by (simp add: map_of_SomeD)
    with assms(2) show ?thesis unfolding extra_ok_def by (metis snd_conv)
  qed (use that in simp)
  show ?thesis
    using assms old [OF refl] unfolding add_extra_def extra_ok_def
    by (fastforce dest!: set_update)
qed

lemma extra_qname_params_ok: "extra_ok (extra_qname_params R)"
proof -
  have "extra_ok (fold (add_extra rt v) qs m)" if "rt \<in> {''A'', ''AAAA''}" "extra_ok m" for rt v qs m
    using that by (induction qs arbitrary: m) (auto intro: add_extra_ok)
  then have step: "extra_ok (extra_param p m)" if "extra_ok m" for p m
    using that by (auto simp: extra_param_def prefix_type_def split: prod.splits option.splits if_splits)
  have "extra_ok (fold extra_param ps m)" if "extra_ok m" for ps m
    using that by (induction ps arbitrary: m) (auto intro: step)
  from this [of "[]"] show ?thesis by (simp add: extra_qname_params_def) (simp add: extra_ok_def)
qed

lemma extra_actions_keys:
  assumes "extra_actions L R dn = Inr xs" and "x \<in> set xs"
  shows "fst (fst x) \<in> {''A'', ''AAAA''} \<and>
    (\<exists>q \<in> fst ` set (extra_qname_params R). snd (fst x) = subname_of_qname dn q)"
proof -
  let ?ys = "concat (map (\<lambda>(qname, by_rtype). map (\<lambda>(t, v). (qname, t, v)) by_rtype) (extra_qname_params R))"
  from assms(2) obtain i where i: "i < length xs" "x = xs ! i" by (auto simp: in_set_conv_nth)
  have len: "length xs = length ?ys" using rmap_Inr_length assms(1) by (auto simp: extra_actions_def)
  obtain q t v where y: "?ys ! i = (q, t, v)" by (cases "?ys ! i")
  have "?ys ! i \<in> set ?ys" using i len by (intro nth_mem) simp
  then obtain d where d: "(q, d) \<in> set (extra_qname_params R)" "(t, v) \<in> set d" using y by auto
  have "t \<in> {''A'', ''AAAA''}" using extra_qname_params_ok [of R] d unfolding extra_ok_def by fastforce
  moreover have "fst x = (t, subname_of_qname dn q)"
    using rmap_Inr_nth [OF assms(1) [unfolded extra_actions_def], of i] i len y
    by (auto simp: result_simps) (metis fst_conv)
  ultimately show ?thesis using d(1) by force
qed

lemma fold_update_keys:
  assumes "distinct (map fst m)"
  shows "distinct (map fst (fold (\<lambda>(k, v). AList.update k v) xs m)) \<and>
    fst ` set (fold (\<lambda>(k, v). AList.update k v) xs m) \<subseteq> fst ` set m \<union> fst ` set xs"
  using assms
proof (induction xs arbitrary: m)
  case Nil
  then show ?case by simp
next
  case (Cons x xs)
  obtain k v where x: "x = (k, v)" by (cases x)
  have "fst ` set (AList.update k v m) \<subseteq> insert k (fst ` set m)" by (auto dest!: set_update)
  moreover have "distinct (map fst (AList.update k v m))" using Cons.prems by (rule distinct_update)
  note Cons.IH [OF this]
  ultimately show ?case unfolding x by (simp, blast)
qed

lemma dyn_data_keys:
  assumes "dyn_data L insts acts = Inr data"
  shows "v \<in> set data \<Longrightarrow> vkey v \<in> fst ` set acts \<and> v_ttl v = Some 60"
    "distinct (map fst acts) \<Longrightarrow> distinct (map vkey data)"
proof -
  let ?f = "\<lambda>(k, a). rbind (get_records L (subname_records insts (snd k)) a) (\<lambda>rs.
         Inr (map_option (\<lambda>r. \<lparr>v_type = fst k, v_subname = snd k, v_ttl = Some 60, v_records = Some r\<rparr>) rs))"
  have "(\<forall>v \<in> set (somes xs). vkey v \<in> fst ` set acts \<and> v_ttl v = Some 60) \<and>
      (distinct (map fst acts) \<longrightarrow> distinct (map vkey (somes xs)))" if "rmap ?f acts = Inr xs" for xs
    using that
  proof (induction acts arbitrary: xs)
    case Nil
    then show ?case by (simp add: somes_def)
  next
    case (Cons a acts)
    obtain k b where a: "a = (k, b)" by (cases a)
    from Cons.prems a obtain rs ys where xs: "xs = map_option (\<lambda>r. \<lparr>v_type = fst k, v_subname = snd k,
          v_ttl = Some 60, v_records = Some r\<rparr>) rs # ys" and ys: "rmap ?f acts = Inr ys"
      by (auto simp: result_simps)
    from Cons.IH [OF ys] a show ?case
      by (cases rs) (auto simp: xs somes_def vkey_def)
  qed
  with assms show "v \<in> set data \<Longrightarrow> vkey v \<in> fst ` set acts \<and> v_ttl v = Some 60"
    "distinct (map fst acts) \<Longrightarrow> distinct (map vkey data)"
    by (auto simp: dyn_data_def result_simps)
qed

text \<open>C25: What a dynDNS request writes. The data address only one domain of the user, never the same RRset
  twice, only A and AAAA RRsets, with a TTL of 60 and at a name the request asked for. The instances
  passed along are exactly rows of that domain and include every existing row the data address.\<close>

theorem dyn_get_scope:
  assumes "dyn_get L R zones_of = Inr (d, insts, data)" and "qnames L R = Inr qs" and "lawful_iplib L"
    and "[] \<notin> m_name ` set (own_domains R)"
  shows "d \<in> set (own_domains R) \<and> distinct (map vkey data) \<and>
    (\<forall>v \<in> set data. v_type v \<in> {''A'', ''AAAA''} \<and> v_ttl v = Some 60 \<and>
       (\<exists>q \<in> requested_names R qs. construct_name (v_subname v) (m_name d) = q @ ''.'')) \<and>
    set insts \<subseteq> set (zones_of (m_name d)) \<and>
    (\<forall>v \<in> set data. \<forall>r. (vkey v, r) \<in> set (zones_of (m_name d)) \<longrightarrow> (vkey v, r) \<in> set insts)"
proof -
  let ?dn = "m_name d"
  let ?subs = "map (subname_of_qname ?dn) (set_order L (set qs))"
  from assms(1,2) obtain extras a aaaa where d: "dyn_domain R qs = Inr d"
    and ex: "extra_actions L R ?dn = Inr extras"
    and insts: "insts = dyn_instances (zones_of ?dn) (?subs @ map (snd \<circ> fst) extras)"
    and data: "dyn_data L insts (subname_actions ?subs a aaaa extras) = Inr data"
    by (auto simp: dyn_get_def result_simps Let_def)
  have order: "set (set_order L (set qs)) = set qs" using assms(3) by (simp add: lawful_iplib_def)
  note dom = dyn_domain_Inr [OF d]
  have dn: "?dn \<noteq> []" using dom(1) assms(4) by (metis imageI)
  let ?pairs = "concat (map (\<lambda>s. [((''A'', s), Some a), ((''AAAA'', s), Some aaaa)]) ?subs) @ extras"
  from fold_update_keys [of "[]" ?pairs]
  have acts: "distinct (map fst (subname_actions ?subs a aaaa extras))"
    "fst ` set (subname_actions ?subs a aaaa extras) \<subseteq> fst ` set ?pairs"
    by (auto simp: subname_actions_def)
  have key: "fst k \<in> {''A'', ''AAAA''} \<and> (\<exists>q \<in> requested_names R qs. snd k = subname_of_qname ?dn q) \<and>
      snd k \<in> set (?subs @ map (snd \<circ> fst) extras)"
    if "k \<in> fst ` set ?pairs" for k
  proof -
    from that obtain p where p: "p \<in> set ?pairs" "k = fst p" by blast
    from p(1) have "(\<exists>s \<in> set ?subs. p = ((''A'', s), Some a) \<or> p = ((''AAAA'', s), Some aaaa)) \<or> p \<in> set extras"
      by auto
    then consider s where "s \<in> set ?subs" "p \<in> {((''A'', s), Some a), ((''AAAA'', s), Some aaaa)}" | "p \<in> set extras"
      by blast
    then show ?thesis
    proof cases
      case 1
      then have "fst k \<in> {''A'', ''AAAA''}" "snd k = s" using p(2) by auto
      moreover have "\<exists>q \<in> requested_names R qs. s = subname_of_qname ?dn q"
        using 1(1) order unfolding requested_names_def by (metis UnI1 imageE set_map)
      ultimately show ?thesis using 1(1) by simp
    next
      case 2
      from extra_actions_keys [OF ex 2] p(2) 2 show ?thesis by (force simp: requested_names_def)
    qed
  qed
  have v: "v_type v \<in> {''A'', ''AAAA''} \<and> v_ttl v = Some 60 \<and>
      (\<exists>q \<in> requested_names R qs. construct_name (v_subname v) ?dn = q @ ''.'') \<and>
      v_subname v \<in> set (?subs @ map (snd \<circ> fst) extras)" if "v \<in> set data" for v
  proof -
    from dyn_data_keys(1) [OF data that] acts(2) have "vkey v \<in> fst ` set ?pairs" "v_ttl v = Some 60" by auto
    from key [OF this(1)] this(2) dom(2) subname_of_qname_construct [of ?dn, OF _ _ dn] show ?thesis
      by (auto simp: vkey_def)
  qed
  moreover have "distinct (map vkey data)" by (rule dyn_data_keys(2) [OF data acts(1)])
  moreover have "(vkey v, r) \<in> set insts" if "v \<in> set data" "(vkey v, r) \<in> set (zones_of ?dn)" for v r
    using v [OF that(1)] that(2) by (auto simp: insts dyn_instances_def vkey_def)
  moreover have "set insts \<subseteq> set (zones_of ?dn)" by (auto simp: insts dyn_instances_def)
  ultimately show ?thesis using dom(1) by blast
qed

section \<open>Examples\<close>

text \<open>The endpoint looks up the only domain of a user who names none, and does not expect a user
  without domains: the exception of the lookup is not handled.\<close>

lemma no_domain_crashes:
  "query_params R = [] \<Longrightarrow> authorization R = [] \<Longrightarrow> own_domains R = [] \<Longrightarrow> dyn_get L R z = Inl DomainDoesNotExist"
  by (simp add: dyn_get_def qnames_def basic_username_def only_domain_def)

definition plain_iplib :: iplib where
  "plain_iplib = \<lparr>parse_network = (\<lambda>s. Inr \<lparr>network_address = V4 0, prefixlen = 24\<rparr>),
     parse_address = (\<lambda>s. Some (V4 0)), show_address = (\<lambda>a. ''0.0.0.0''),
     decode_credentials = (\<lambda>s. None), set_order = sorted_list_of_set\<rparr>"

lemma lawful_plain_iplib: "lawful_iplib plain_iplib"
  by (simp add: lawful_iplib_def plain_iplib_def)

lemma action_of_parameter_witness:
  "relevant CHR ''.'' ''192.0.2.1, preserve'' = {''192.0.2.1'', ''preserve''} \<and>
   (\<exists>e. get_action_from_param plain_iplib ''myip'' ''192.0.2.1, preserve'' CHR ''.'' = Inl e)"
proof -
  have r: "relevant CHR ''.'' ''192.0.2.1, preserve'' = {''192.0.2.1'', ''preserve''}"
    unfolding set_action_params [symmetric] by code_simp
  have "\<not> action_spec plain_iplib {''192.0.2.1'', ''preserve''} (Inr a)" for a
    by (cases a; cases "the a") auto
  with action_of_parameter [OF lawful_plain_iplib, of "CHR ''.''" "''192.0.2.1, preserve''" "''myip''"] r
  have "get_action_from_param plain_iplib ''myip'' ''192.0.2.1, preserve'' CHR ''.'' \<noteq> Inr a" for a
    by (metis (no_types))
  with r show ?thesis by (metis sum.exhaust)
qed

definition example_request :: dyn_request where
  "example_request = \<lparr>query_params = [(''hostname'', ''www.a.dev''), (''myipv6'', ''preserve'')],
     authorization = [], remote_addr = ''192.0.2.7'', own_domains = [\<lparr>m_name = ''a.dev'', m_owner = 1\<rparr>]\<rparr>"

theorem dyn_get_scope_witness:
  "\<exists>data. dyn_get plain_iplib example_request (\<lambda>_. []) = Inr (\<lparr>m_name = ''a.dev'', m_owner = 1\<rparr>, [], data) \<and>
     map vkey data = [(''A'', ''www'')] \<and> distinct (map vkey data)"
proof -
  have q: "qnames plain_iplib example_request = Inr [''www.a.dev'']" by code_simp
  have d: "dyn_domain example_request [''www.a.dev''] = Inr \<lparr>m_name = ''a.dev'', m_owner = 1\<rparr>" by code_simp
  have e: "extra_actions plain_iplib example_request ''a.dev'' = Inr []" by code_simp
  have s: "subname_of_qname ''a.dev'' ''www.a.dev'' = ''www''" by code_simp
  have a: "find_action plain_iplib example_request [''myip'', ''myipv4'', ''ip''] CHR ''.'' = Inr (SetIPs [''192.0.2.7''])"
    by code_simp
  have a6: "find_action plain_iplib example_request [''myipv6'', ''ipv6'', ''myip'', ''ip''] CHR '':'' = Inr PreserveIPs"
    by code_simp
  have o: "set_order plain_iplib {''www.a.dev''} = [''www.a.dev'']" by (simp add: plain_iplib_def)
  have g: "dyn_get plain_iplib example_request (\<lambda>_. []) = Inr (\<lparr>m_name = ''a.dev'', m_owner = 1\<rparr>, [],
      [\<lparr>v_type = ''A'', v_subname = ''www'', v_ttl = Some 60, v_records = Some [''192.0.2.7'']\<rparr>])"
    unfolding dyn_get_def q by (simp add: rbind_simps d e a a6 o s dyn_instances_def subname_actions_def
        dyn_data_def somes_def del: find_action.simps)
  with dyn_get_scope [OF g q lawful_plain_iplib] show ?thesis by (simp add: example_request_def vkey_def)
qed

end
