(* ===== verification/UsersCorrect.thy ===== *)
theory UsersCorrect
  imports Users
begin

text \<open>
  One-time passwords are accepted once and only close to the present, captchas work once, and
  registration does not tell whether an address is known.
\<close>

section \<open>One-time passwords\<close>

lemma verify_steps_Some:
  assumes "verify_steps otp f timestep_now code offsets = Some ts"
  shows "\<exists>offset \<in> set offsets. ts = timestep_now + offset" "f_last_timestep f < ts" "code = otp (f_secret f) ts"
  using assms by (induction offsets) (auto simp: Let_def split: if_splits)

lemma factor_verify_True:
  assumes "factor_verify otp now timestep_now f code S = Inr (True, f', S')"
  shows "f_last_timestep f < f_last_timestep f'" "\<bar>f_last_timestep f' - timestep_now\<bar> \<le> 1"
    "code = otp (f_secret f) (f_last_timestep f')" "f_last_used f' = Some now" "f_id f' = f_id f"
    "f_secret f' = f_secret f"
proof -
  from assms obtain ts where ts: "verify_steps otp f timestep_now code [-1, 0, 1] = Some ts"
    and f': "f' = f\<lparr>f_last_used := Some now, f_last_timestep := ts\<rparr>"
    by (auto simp: factor_verify_def result_simps Let_def simp del: verify_steps.simps split: option.splits)
  from verify_steps_Some [OF ts] f' show "f_last_timestep f < f_last_timestep f'"
    "\<bar>f_last_timestep f' - timestep_now\<bar> \<le> 1" "code = otp (f_secret f) (f_last_timestep f')"
    "f_last_used f' = Some now" "f_id f' = f_id f" "f_secret f' = f_secret f" by auto
qed

lemma factor_verify_False:
  "factor_verify otp now timestep_now f code S = Inr (False, f', S') \<Longrightarrow> f' = f \<and> S' = S"
  by (auto simp: factor_verify_def result_simps Let_def simp del: verify_steps.simps split: option.splits)

text \<open>The factor in the store after a successful verification is the new one; the others stay.\<close>

lemma find_put_factor:
  "find (\<lambda>g. f_id g = i) (factors (put_factor f S)) =
     (if i = f_id f then Some f else find (\<lambda>g. f_id g = i) (factors S))"
proof -
  have "find (\<lambda>g. f_id g = i) (filter (\<lambda>g. f_id g \<noteq> f_id f) fs) = find (\<lambda>g. f_id g = i) fs" if "i \<noteq> f_id f" for fs
    using that by (induction fs) auto
  from this [of "factors S"] show ?thesis by (simp add: put_factor_def eq_commute)
qed

lemma factor_verify_stored:
  assumes "factor_verify otp now timestep_now f code S = Inr (True, f', S')"
  shows "find (\<lambda>g. f_id g = i) (factors S') =
    (if i = f_id f then Some f' else find (\<lambda>g. f_id g = i) (factors S))"
proof -
  from assms have "factor_save now f' S = Inr S'"
    by (auto simp: factor_verify_def result_simps Let_def simp del: verify_steps.simps split: option.splits)
  then have "factors S' = factors (put_factor f' S)"
    by (auto simp: factor_save_def touch_credentials_def put_user_def put_factor_def result_simps split: if_splits)
  with factor_verify_True(5) [OF assms] show ?thesis by (simp add: find_put_factor)
qed

text \<open>A sequence of attempts, each with the identifier of the factor tried, the time, the step of the clock
  and the code. Each attempt reads its factor from the store and leaves the store to the next one. The
  result lists, for those that succeed, the factor as it was read, the step of the clock, the code,
  and the last time step that the store has for the factor afterwards.\<close>

definition stored_step :: "nat \<Rightarrow> store \<Rightarrow> int option" where
  "stored_step i S = map_option f_last_timestep (find (\<lambda>f. f_id f = i) (factors S))"

fun accepted ::
  "(string \<Rightarrow> int \<Rightarrow> string) \<Rightarrow> store \<Rightarrow> (nat \<times> int \<times> int \<times> string) list \<Rightarrow> (factor \<times> int \<times> string \<times> int option) list" where
  "accepted otp S [] = []"
| "accepted otp S ((i, now, timestep_now, code) # attempts) =
     (case find (\<lambda>f. f_id f = i) (factors S) of
        None \<Rightarrow> accepted otp S attempts
      | Some f \<Rightarrow>
          (case factor_verify otp now timestep_now f code S of
             Inr (True, f', S') \<Rightarrow> (f, timestep_now, code, stored_step i S') # accepted otp S' attempts
           | Inr (False, f', S') \<Rightarrow> accepted otp S' attempts
           | Inl e \<Rightarrow> accepted otp S attempts))"

text \<open>One attempt: it succeeds with the factor the store has then, or changes nothing.\<close>

lemma accepted_Cons:
  "accepted otp S ((i, now, n, code) # attempts) = accepted otp S attempts \<or>
   (\<exists>f f' S'. find (\<lambda>f. f_id f = i) (factors S) = Some f \<and> f_id f = i \<and>
      factor_verify otp now n f code S = Inr (True, f', S') \<and>
      accepted otp S ((i, now, n, code) # attempts) = (f, n, code, stored_step i S') # accepted otp S' attempts)"
proof (cases "find (\<lambda>f. f_id f = i) (factors S)")
  case None
  then show ?thesis by simp
next
  case (Some f)
  then have f: "f_id f = i" by (auto simp: find_Some_iff)
  show ?thesis
  proof (cases "factor_verify otp now n f code S")
    case (Inl e)
    with Some show ?thesis by simp
  next
    case (Inr r)
    obtain b f' S' where r: "r = (b, f', S')" by (cases r) auto
    show ?thesis
    proof (cases b)
      case True
      with Some Inr r f show ?thesis by simp
    next
      case False
      with Some Inr r factor_verify_False [of otp now n f code S f' S'] show ?thesis by simp
    qed
  qed
qed

text \<open>The steps accepted for a factor from some store on are later than the one it has there.\<close>

lemma accepted_later:
  "(f, n, code, ts) \<in> set (accepted otp S attempts) \<Longrightarrow>
   \<exists>s0 s. stored_step (f_id f) S = Some s0 \<and> ts = Some s \<and> s0 \<le> f_last_timestep f \<and> f_last_timestep f < s"
proof (induction attempts arbitrary: S)
  case Nil
  then show ?case by simp
next
  case (Cons a attempts)
  obtain i now m c where a: "a = (i, now, m, c)" by (cases a) auto
  from accepted_Cons [of otp S i now m c attempts] show ?case
  proof (elim disjE exE conjE)
    assume "accepted otp S ((i, now, m, c) # attempts) = accepted otp S attempts"
    with Cons show ?thesis unfolding a by simp
  next
    fix g g' S'
    assume g: "find (\<lambda>f. f_id f = i) (factors S) = Some g" "f_id g = i"
      and v: "factor_verify otp now m g c S = Inr (True, g', S')"
      and acc: "accepted otp S ((i, now, m, c) # attempts) = (g, m, c, stored_step i S') # accepted otp S' attempts"
    note stored = factor_verify_stored [OF v] and g' = factor_verify_True [OF v]
    from Cons.prems acc consider (head) "f = g" "ts = stored_step i S'"
      | (tail) "(f, n, code, ts) \<in> set (accepted otp S' attempts)" unfolding a by auto
    then show ?thesis
    proof cases
      case head
      with g g' stored [of i] show ?thesis by (simp add: stored_step_def)
    next
      case tail
      from Cons.IH [OF this] g g' stored [of "f_id f"] show ?thesis
        by (auto simp: stored_step_def split: if_splits)
    qed
  qed
qed

text \<open>C31: Whatever sequence of attempts is made, on any factors in any order, the time steps at which a factor's
  codes are accepted strictly increase, so no time step of a factor, and no code of it, is accepted
  twice; each accepted code is the one-time password of its step, the step is later than the last one
  of the factor as stored and at most one away from the clock, and the store keeps it.\<close>

theorem otp_accepted_once:
  "sorted_wrt (\<lambda>(f, n, code, ts) (f', n', code', ts').
     f_id f = f_id f' \<longrightarrow> (\<exists>s s'. ts = Some s \<and> ts' = Some s' \<and> s < s')) (accepted otp S attempts) \<and>
   (\<forall>(f, n, code, ts) \<in> set (accepted otp S attempts).
      \<exists>s. ts = Some s \<and> f_last_timestep f < s \<and> \<bar>s - n\<bar> \<le> 1 \<and> code = otp (f_secret f) s)"
proof (induction attempts arbitrary: S)
  case Nil
  then show ?case by simp
next
  case (Cons a attempts)
  obtain i now m c where a: "a = (i, now, m, c)" by (cases a) auto
  from accepted_Cons [of otp S i now m c attempts] show ?case
  proof (elim disjE exE conjE)
    assume "accepted otp S ((i, now, m, c) # attempts) = accepted otp S attempts"
    with Cons show ?thesis unfolding a by simp
  next
    fix g g' S'
    assume g: "find (\<lambda>f. f_id f = i) (factors S) = Some g" "f_id g = i"
      and v: "factor_verify otp now m g c S = Inr (True, g', S')"
      and acc: "accepted otp S ((i, now, m, c) # attempts) = (g, m, c, stored_step i S') # accepted otp S' attempts"
    note g' = factor_verify_True [OF v]
    have step: "stored_step i S' = Some (f_last_timestep g')"
      using factor_verify_stored [OF v, of i] g by (simp add: stored_step_def)
    have "\<exists>s. ts = Some s \<and> f_last_timestep g' < s"
      if "(f, n, code, ts) \<in> set (accepted otp S' attempts)" "f_id f = i" for f n code ts
      using accepted_later [OF that(1)] that(2) step by auto
    then show ?thesis unfolding a acc using Cons.IH [of S'] g g' step by fastforce
  qed
qed

section \<open>The endpoint\<close>

text \<open>A request that steps up its token needs a code of some active factor, but the factor may belong to
  another user.\<close>

lemma foreign_factor_steps_up:
  assumes f: "factors S = [f]" "f_last_used f = Some t0" "f_last_timestep f < n"
    and foreign: "f_user f \<noteq> u" and user: "r_user q = Some v" "u_id v = u" "t_owner (r_auth q) = u"
    and login: "t_user_override (r_auth q) = None" "t_mfa (r_auth q) = Some False" "auto_policy (r_auth q) = False"
      "policies (r_auth q) = []"
  shows "\<exists>S'. totp_verify otp now n (Some q) (f_id f) (otp (f_secret f) n) S = Inr (False, S') \<and>
    utokens S' (t_id (r_auth q)) = Some ((r_auth q)\<lparr>t_mfa := Some True\<rparr>)"
proof -
  have "\<exists>ts. verify_steps otp f n (otp (f_secret f) n) [-1, 0, 1] = Some ts"
    using f(3) by (simp add: Let_def)
  then obtain ts where ts: "verify_steps otp f n (otp (f_secret f) n) [-1, 0, 1] = Some ts" by blast
  have m: "mfa_enabled S (f_user f)" using f(1,2) by (simp add: mfa_enabled_def)
  have tok: "token_step (SaveToken ((r_auth q)\<lparr>t_mfa := Some True\<rparr>) 0) (r_auth q) =
      Inr ((r_auth q)\<lparr>t_mfa := Some True\<rparr>)"
    using login by (simp add: token_save_def token_clean_def override_ok_def commit_ok_def Let_def)
  have "(r_auth q)\<lparr>t_mfa := Some True, policies := []\<rparr> = (r_auth q)\<lparr>t_mfa := Some True\<rparr>"
    using login(4) by simp
  then show ?thesis
    using f ts m user tok
    by (simp add: totp_verify_def totp_queryset_def factor_verify_def factor_save_def is_authenticated_def Let_def
        del: verify_steps.simps token_step.simps)
qed

section \<open>Captchas\<close>

text \<open>A captcha can be used once: whatever the first attempt answers, a second one with the same
  captcha finds none. The answer is positive only for the solution up to case and surrounding space
  and within the validity period.\<close>

lemma captcha_single_use:
  assumes "captcha_validate validity now i solution S = (r, S')"
  shows "fst (captcha_validate validity now' i solution' S') = Inl CaptchaUnknown \<and>
    (r = Inr () \<longrightarrow> (\<exists>c \<in> set (captchas S). c_id c = i \<and> strip (upper solution) = c_content c \<and>
       now \<le> c_created c + validity))"
proof (cases "find (\<lambda>c. c_id c = i) (captchas S)")
  case None
  with assms show ?thesis by (auto simp: captcha_validate_def)
next
  case (Some c)
  then have c: "c \<in> set (captchas S)" "c_id c = i" by (auto simp: find_Some_iff)
  have "find (\<lambda>c. c_id c = i) (filter (\<lambda>d. c_id d \<noteq> i) (captchas S)) = None"
    by (simp add: find_None_iff)
  with assms Some c show ?thesis
    by (auto simp: captcha_validate_def captcha_verify_def split: if_splits)
qed

section \<open>Registration\<close>

text \<open>Registration does not reveal whether an address is known: the answer is the same whether or not
  validation complained that the address is taken, and if that is the only complaint it is the
  answer a new address gets.\<close>

lemma registration_hides_accounts:
  assumes "errs' = filter (\<lambda>e. e \<noteq> (''email'', ''unique'')) errs" and "errs \<noteq> []"
    and "register norm mk act errs a raw captcha dn S = Inr (S1, answer)"
    and "register norm mk act errs' a raw captcha dn S = Inr (S2, answer')"
  shows "answer = answer' \<and> (errs' = [] \<longrightarrow> answer = Accepted \<and> S1 = S)"
proof -
  have v: "visible_errors errs = visible_errors errs'"
    unfolding assms(1) visible_errors_def filter_filter by (auto intro!: arg_cong2 [where f = append] filter_cong)
  have "answer = register_answer errs \<and> S1 = S" using assms(2,3) by (simp add: register_def)
  moreover have "answer' = register_answer errs'"
    using assms(4) by (cases "errs' = []")
      (auto simp: register_def register_answer_def visible_errors_def result_simps Let_def)
  ultimately show ?thesis using v by (auto simp: register_answer_def visible_errors_def)
qed

section \<open>Examples\<close>

definition example_user :: account where
  "example_user = \<lparr>ac_id = 1, ac_email = ''a@b.c'', ac_email_verified = None, ac_is_active = Some True,
     ac_credentials_changed = 3, ac_needs_captcha = False, ac_outreach = True, ac_password = [],
     ac_limit_domains = None\<rparr>"

definition small_store :: store where
  "small_store = \<lparr>users = [1 \<mapsto> example_user], factors = [], captchas = [\<lparr>c_id = 5, c_created = 100, c_content = ''AB1''\<rparr>],
     udomains = [], utokens = Map.empty, token_names = (\<lambda>i. []), outbox = []\<rparr>"

lemma captcha_single_use_witness:
  "\<exists>S'. captcha_validate 60 120 5 '' ab1'' small_store = (Inr (), S') \<and>
     fst (captcha_validate 60 121 5 '' ab1'' S') = Inl CaptchaUnknown"
proof -
  have s: "strip (upper '' ab1'') = ''AB1''" by code_simp
  obtain S' where v: "captcha_validate 60 120 5 '' ab1'' small_store = (Inr (), S')"
    by (simp add: captcha_validate_def captcha_verify_def small_store_def s)
  from captcha_single_use [OF v] v show ?thesis by blast
qed

lemma registration_hides_accounts_witness:
  "register (\<lambda>e. e) (\<lambda>p. p) True [(''email'', ''unique'')] (example_user\<lparr>ac_id := 2\<rparr>) ''pw'' True False small_store =
     Inr (small_store, Accepted)"
proof -
  let ?a = "example_user\<lparr>ac_id := 2, ac_email := ''x@y.z''\<rparr>"
  have "\<exists>S2 ans. register (\<lambda>e. e) (\<lambda>p. p) True [] ?a ''pw'' True False small_store = Inr (S2, ans)"
    by (simp add: register_def create_user_def email_taken_def get_user_def put_user_def send_email_def
        lanes_def small_store_def example_user_def Let_def lower_def lower_char_def)
  then obtain S2 ans where r2: "register (\<lambda>e. e) (\<lambda>p. p) True [] ?a ''pw'' True False small_store = Inr (S2, ans)"
    by blast
  obtain a1 where r1: "register (\<lambda>e. e) (\<lambda>p. p) True [(''email'', ''unique'')] ?a ''pw'' True False small_store =
      Inr (small_store, a1)" by (simp add: register_def)
  have "a1 = Accepted"
    using registration_hides_accounts [of "[]" "[(''email'', ''unique'')]", OF _ _ r1 r2] by force
  then show ?thesis using r1 by (simp add: register_def)
qed

definition small_factor :: factor where
  "small_factor = \<lparr>f_id = 2, f_user = 1, f_name = [], f_last_used = Some 0, f_secret = ''s'', f_last_timestep = 3\<rparr>"

text \<open>Two factors with the same secret, and the same code four times on one, once on the other in between:
  each accepts it the first time only.\<close>

definition factor_store :: store where
  "factor_store = small_store\<lparr>factors := [small_factor, small_factor\<lparr>f_id := 3, f_name := ''n''\<rparr>]\<rparr>"

definition small_attempts :: "(nat \<times> int \<times> int \<times> string) list" where
  "small_attempts =
     [(2, 100, 4, ''5''), (2, 101, 5, ''5''), (3, 110, 5, ''5''), (2, 130, 6, ''5''), (2, 160, 7, ''5'')]"

theorem otp_accepted_once_witness:
  "\<exists>f g. accepted (\<lambda>s n. show_nat (nat n)) factor_store small_attempts =
      [(f, 4, ''5'', Some 5), (g, 5, ''5'', Some 5)] \<and> f_id f = 2 \<and> f_id g = 3 \<and>
      f_last_timestep f < 5 \<and> f_last_timestep g < 5"
proof -
  have n: "show_nat 3 = ''3''" "show_nat 4 = ''4''" "show_nat 5 = ''5''" "show_nat 6 = ''6''"
    "show_nat 7 = ''7''" "show_nat 8 = ''8''" by code_simp+
  have "accepted (\<lambda>s n. show_nat (nat n)) factor_store small_attempts =
      [(small_factor, 4, ''5'', Some 5), (small_factor\<lparr>f_id := 3, f_name := ''n''\<rparr>, 5, ''5'', Some 5)]"
    by (simp add: small_attempts_def factor_store_def small_factor_def factor_verify_def factor_save_def
        mfa_enabled_def small_store_def put_factor_def stored_step_def Let_def n)
  with otp_accepted_once [of "\<lambda>s n. show_nat (nat n)" factor_store small_attempts] show ?thesis
    by (simp add: small_factor_def)
qed

end
