(* ===== verification/AuthActionsCorrect.thy ===== *)
theory AuthActionsCorrect
  imports AuthActions
begin

text \<open>
  Authenticated actions: the JSON text of a state determines its fields, so a validated action is
  the one its state was made for, and what it relies on agrees with the store it was made in; and
  packing codes loses nothing.
\<close>

section \<open>JSON text of flat lists\<close>

text \<open>The values in a state, but for the durations, which have no JSON text.\<close>

fun atom :: "pyval \<Rightarrow> bool" where
  "atom PyNone = True"
| "atom (PyBool b) = True"
| "atom (PyStr s) = True"
| "atom v = False"

lemma atom_keys: "atom v \<Longrightarrow> distinct_keys v"
  by (cases v) simp_all

lemma dumps_atoms_inj:
  assumes "list_all atom vs" and "list_all atom ws" and "dumps (PyList vs) = Inr s" and "dumps (PyList ws) = Inr s"
  shows "vs = ws"
proof -
  have "distinct_keys (PyList vs)" "distinct_keys (PyList ws)"
    using assms(1,2) atom_keys by (auto simp: list_all_iff)
  with loads_dumps [OF assms(3)] loads_dumps [OF assms(4)] show ?thesis by simp
qed

section \<open>What a state covers\<close>

lemma show_nat_inj: "show_nat m = show_nat n \<Longrightarrow> m = n"
  using show_nat_digits by metis

definition lawful_lib :: "lib \<Rightarrow> bool" where
  "lawful_lib L \<longleftrightarrow> inj (uuid_str L) \<and> inj (isoformat L) \<and> inj (datetime_str L) \<and> inj (sha256 L)"

definition wf_store :: "store \<Rightarrow> bool" where
  "wf_store S \<longleftrightarrow> (\<forall>u x. users S u = Some x \<longrightarrow> ac_id x = u) \<and> (\<forall>i t. utokens S i = Some t \<longrightarrow> t_id t = i)"

lemma find_domain_id: "find_domain d S = Some x \<Longrightarrow> d_id x = d"
  by (auto simp: find_domain_def find_Some_iff)

lemmas fields_defs = state_fields_def user_fields_def basic_user_fields_def base_fields_def

lemma field_kinds:
  assumes "state_fields L S a = Inr vs" and "v \<in> set vs"
  shows "atom v \<or> \<not> json_serializable v"
  using assms
  by (cases a) (auto simp: fields_defs py_bool_option_def py_timedelta_def split: option.splits)

lemma state_atoms:
  assumes "state L S a = Inr w"
  obtains vs s where "state_fields L S a = Inr vs" and "dumps (PyList vs) = Inr s" and "list_all atom vs"
    and "w = sha256 L s"
proof -
  from assms obtain vs where vs: "state_fields L S a = Inr vs" and "state_of L vs = Inr w"
    by (auto simp: state_def rbind_Inr_iff)
  then obtain s where s: "dumps (PyList vs) = Inr s" and w: "w = sha256 L s"
    by (cases "dumps (PyList vs)") (simp_all add: state_of_def del: dumps.simps)
  have "json_serializable (PyList vs)" using s dumps_ok_iff(1) by blast
  then have "list_all atom vs" using field_kinds [OF vs] by (auto simp: list_all_iff)
  with vs s w show ?thesis using that by blast
qed

text \<open>Equal states come from equal fields.\<close>

lemma state_eq_fields:
  assumes "inj (sha256 L)" and "state L S a = Inr w" and "state L S' a' = Inr w"
  shows "\<exists>vs. state_fields L S a = Inr vs \<and> state_fields L S' a' = Inr vs"
proof -
  from assms(2) obtain vs s where a: "state_fields L S a = Inr vs" "dumps (PyList vs) = Inr s"
    "list_all atom vs" "w = sha256 L s" by (rule state_atoms)
  from assms(3) obtain vs' s' where a': "state_fields L S' a' = Inr vs'" "dumps (PyList vs') = Inr s'"
    "list_all atom vs'" "w = sha256 L s'" by (rule state_atoms)
  from a(4) a'(4) assms(1) have "s = s'" by (simp add: inj_eq)
  with a a' dumps_atoms_inj show ?thesis by blast
qed

text \<open>The arguments of an action that its state covers; the others are chosen by the caller.\<close>

primrec covered :: "auth_action \<Rightarrow> auth_action" where
  "covered (ChangeOutreachPreference u b) = ChangeOutreachPreference u False"
| "covered (ActivateUser u d) = ActivateUser u d"
| "covered (ActivateUserWithOverrideToken u b i) = ActivateUserWithOverrideToken u False i"
| "covered (ChangeEmail u e) = ChangeEmail u e"
| "covered (CreateTOTPFactor u n) = CreateTOTPFactor u []"
| "covered (Noop u) = Noop u"
| "covered (ResetPassword u p) = ResetPassword u []"
| "covered (DeleteUser u) = DeleteUser u"
| "covered (RenewDomain u d) = RenewDomain u d"

primrec credential_bound :: "auth_action \<Rightarrow> bool" where
  "credential_bound (ChangeOutreachPreference u b) = False"
| "credential_bound (ActivateUser u d) = True"
| "credential_bound (ActivateUserWithOverrideToken u b i) = True"
| "credential_bound (ChangeEmail u e) = True"
| "credential_bound (CreateTOTPFactor u n) = True"
| "credential_bound (Noop u) = False"
| "credential_bound (ResetPassword u p) = True"
| "credential_bound (DeleteUser u) = True"
| "credential_bound (RenewDomain u d) = False"

lemma fields_user:
  assumes "state_fields L S a = Inr vs"
  obtains x where "users S (action_user a) = Some x" and "\<exists>r. vs = base_fields a @ PyStr (uuid_str L (ac_id x)) # r"
    and "credential_bound a \<longrightarrow> (\<exists>r. vs = base_fields a @ PyStr (uuid_str L (ac_id x)) #
      PyStr (isoformat L (ac_credentials_changed x)) # py_bool_option (ac_is_active x) # r)"
proof -
  from assms obtain x where x: "users S (action_user a) = Some x"
    by (auto simp: state_fields_def split: option.splits)
  with assms show ?thesis
    by (intro that [of x]; cases a) (auto simp: fields_defs split: option.splits)
qed

lemma py_bool_option_inj: "py_bool_option a = py_bool_option b \<longleftrightarrow> a = b"
  by (auto simp: py_bool_option_def split: option.splits)

lemma fields_cover:
  assumes L: "lawful_lib L" and wf: "wf_store S" "wf_store S'"
    and f: "state_fields L S a = Inr vs" "state_fields L S' a' = Inr vs"
  shows "covered a = covered a'"
    "credential_bound a \<Longrightarrow> users S (action_user a) = Some x \<Longrightarrow> users S' (action_user a) = Some y \<Longrightarrow>
       ac_credentials_changed x = ac_credentials_changed y \<and> ac_is_active x = ac_is_active y"
proof -
  from f(1) obtain x0 r where x: "users S (action_user a) = Some x0"
    and vs: "vs = base_fields a @ PyStr (uuid_str L (ac_id x0)) # r"
    and cb: "credential_bound a \<longrightarrow> (\<exists>r. vs = base_fields a @ PyStr (uuid_str L (ac_id x0)) #
      PyStr (isoformat L (ac_credentials_changed x0)) # py_bool_option (ac_is_active x0) # r)"
    by (rule fields_user) blast
  from f(2) obtain y0 r' where y: "users S' (action_user a') = Some y0"
    and vs': "vs = base_fields a' @ PyStr (uuid_str L (ac_id y0)) # r'"
    and cb': "credential_bound a' \<longrightarrow> (\<exists>r. vs = base_fields a' @ PyStr (uuid_str L (ac_id y0)) #
      PyStr (isoformat L (ac_credentials_changed y0)) # py_bool_option (ac_is_active y0) # r)"
    by (rule fields_user) blast
  have ids: "ac_id x0 = action_user a" "ac_id y0 = action_user a'" using wf x y by (auto simp: wf_store_def)
  have cls: "class_name a = class_name a'" using vs vs' by (simp add: base_fields_def)
  have u: "action_user a = action_user a'" using vs vs' ids L by (simp add: base_fields_def lawful_lib_def inj_eq)
  have tok: "utokens S i = Some t \<Longrightarrow> t_id t = i" "utokens S' i = Some t \<Longrightarrow> t_id t = i" for i t
    using wf by (auto simp: wf_store_def)
  show c: "covered a = covered a'"
    using cls u f x y L
    by (cases a; cases a')
      (auto simp: fields_defs lawful_lib_def inj_eq tok split: option.splits dest!: show_nat_inj find_domain_id)
  show "ac_credentials_changed x = ac_credentials_changed y \<and> ac_is_active x = ac_is_active y"
    if "credential_bound a" "users S (action_user a) = Some x" "users S' (action_user a) = Some y"
  proof -
    have "credential_bound a'" using that(1) c by (cases a; cases a') simp_all
    with cb cb' that(1) L have "ac_credentials_changed x0 = ac_credentials_changed y0 \<and> ac_is_active x0 = ac_is_active y0"
      using cls by (auto simp: base_fields_def lawful_lib_def inj_eq py_bool_option_inj)
    with that x y u show ?thesis by simp
  qed
qed

text \<open>What an action relies on is the same in two stores: the credentials and the activation of the user,
  for an outreach preference the address, for an override token its user, permissions and limits, for
  a renewal the domain and when its renewal state last changed.\<close>

definition same_user :: "(account \<Rightarrow> 'a) \<Rightarrow> store \<Rightarrow> store \<Rightarrow> nat \<Rightarrow> bool" where
  "same_user g S0 S u \<longleftrightarrow>
     (\<exists>x0 x. users S0 u = Some x0 \<and> users S u = Some x \<and> g x = g x0)"

definition credentials :: "account \<Rightarrow> int \<times> bool option" where
  "credentials x = (ac_credentials_changed x, ac_is_active x)"

definition token_data :: "token \<Rightarrow> nat \<times> nat option \<times> bool \<times> bool \<times> bool \<times> int option \<times> int option" where
  "token_data t = (token_user t, t_user_override t, perm_create_domain t, perm_delete_domain t, auto_policy t,
     t_max_age t, t_max_unused t)"

definition same_token :: "store \<Rightarrow> store \<Rightarrow> nat \<Rightarrow> bool" where
  "same_token S0 S i \<longleftrightarrow> token_names S i = token_names S0 i \<and>
     (\<exists>t0 t. utokens S0 i = Some t0 \<and> utokens S i = Some t \<and> token_data t = token_data t0)"

definition same_domain :: "store \<Rightarrow> store \<Rightarrow> nat \<Rightarrow> bool" where
  "same_domain S0 S d \<longleftrightarrow>
     (\<exists>x0 x. find_domain d S0 = Some x0 \<and> find_domain d S = Some x \<and>
        m_name x = m_name x0 \<and> m_owner x = m_owner x0 \<and> d_renewal_changed x = d_renewal_changed x0)"

primrec state_agrees :: "store \<Rightarrow> store \<Rightarrow> auth_action \<Rightarrow> bool" where
  "state_agrees S0 S (ChangeOutreachPreference u b) = same_user ac_email S0 S u"
| "state_agrees S0 S (ActivateUser u d) = same_user credentials S0 S u"
| "state_agrees S0 S (ActivateUserWithOverrideToken u b i) =
     (same_user credentials S0 S u \<and> same_token S0 S i)"
| "state_agrees S0 S (ChangeEmail u e) = same_user credentials S0 S u"
| "state_agrees S0 S (CreateTOTPFactor u n) = same_user credentials S0 S u"
| "state_agrees S0 S (Noop u) = same_user (\<lambda>_. ()) S0 S u"
| "state_agrees S0 S (ResetPassword u p) = same_user credentials S0 S u"
| "state_agrees S0 S (DeleteUser u) = same_user credentials S0 S u"
| "state_agrees S0 S (RenewDomain u d) = (same_user (\<lambda>_. ()) S0 S u \<and> same_domain S0 S d)"

lemma py_timedelta_inj: "py_timedelta a = py_timedelta b \<longleftrightarrow> a = b"
  by (auto simp: py_timedelta_def split: option.splits)

lemma py_option_str_inj:
  "(case a of None \<Rightarrow> PyNone | Some x \<Rightarrow> PyStr (g x)) = (case b of None \<Rightarrow> PyNone | Some x \<Rightarrow> PyStr (g x)) \<longleftrightarrow>
     map_option g a = map_option g b"
  by (auto split: option.splits)

lemma fields_token:
  assumes "state_fields L S (ActivateUserWithOverrideToken u b i) = Inr vs"
  obtains x t where "users S u = Some x" and "utokens S i = Some t"
    and "vs = user_fields L (ActivateUserWithOverrideToken u b i) x @
      [PyStr (uuid_str L (t_id t)), PyStr (uuid_str L (token_user t)),
       (case t_user_override t of None \<Rightarrow> PyNone | Some o' \<Rightarrow> PyStr (uuid_str L o')),
       PyStr (token_names S i), PyBool (perm_create_domain t), PyBool (perm_delete_domain t),
       PyBool (auto_policy t), py_timedelta (t_max_age t), py_timedelta (t_max_unused t)]"
  using assms by (auto simp: state_fields_def split: option.splits)

text \<open>Equal fields mean agreement.\<close>

lemma fields_agree:
  assumes L: "lawful_lib L" and wf: "wf_store S0" "wf_store S"
    and f: "state_fields L S0 a0 = Inr vs" "state_fields L S a = Inr vs"
  shows "state_agrees S0 S a0"
proof -
  note cov = fields_cover [OF L wf f]
  have u: "action_user a = action_user a0" using cov(1) by (cases a; cases a0) simp_all
  from f(1) obtain x0 where x0: "users S0 (action_user a0) = Some x0" by (rule fields_user) blast
  from f(2) obtain x where x: "users S (action_user a0) = Some x" unfolding u [symmetric] by (rule fields_user) blast
  have cred: "credential_bound a0 \<Longrightarrow> same_user credentials S0 S (action_user a0)"
    using cov(2) [OF _ x0 x] x0 x by (simp add: same_user_def credentials_def)
  show ?thesis
  proof (cases a0)
    case (ChangeOutreachPreference v b)
    with cov(1) obtain b' where "a = ChangeOutreachPreference v b'" by (cases a) simp_all
    with f x0 x ChangeOutreachPreference show ?thesis by (auto simp: fields_defs same_user_def)
  next
    case (ActivateUserWithOverrideToken v b i)
    with cov(1) obtain b' where a: "a = ActivateUserWithOverrideToken v b' i" by (cases a) simp_all
    from f(1) [unfolded ActivateUserWithOverrideToken] show ?thesis
    proof (rule fields_token)
      fix y0 t0
      assume y0: "users S0 v = Some y0" "utokens S0 i = Some t0"
        "vs = user_fields L (ActivateUserWithOverrideToken v b i) y0 @
          [PyStr (uuid_str L (t_id t0)), PyStr (uuid_str L (token_user t0)),
           (case t_user_override t0 of None \<Rightarrow> PyNone | Some o' \<Rightarrow> PyStr (uuid_str L o')),
           PyStr (token_names S0 i), PyBool (perm_create_domain t0), PyBool (perm_delete_domain t0),
           PyBool (auto_policy t0), py_timedelta (t_max_age t0), py_timedelta (t_max_unused t0)]"
      from f(2) [unfolded a] show ?thesis
      proof (rule fields_token)
        fix y t
        assume y: "users S v = Some y" "utokens S i = Some t"
          "vs = user_fields L (ActivateUserWithOverrideToken v b' i) y @
            [PyStr (uuid_str L (t_id t)), PyStr (uuid_str L (token_user t)),
             (case t_user_override t of None \<Rightarrow> PyNone | Some o' \<Rightarrow> PyStr (uuid_str L o')),
             PyStr (token_names S i), PyBool (perm_create_domain t), PyBool (perm_delete_domain t),
             PyBool (auto_policy t), py_timedelta (t_max_age t), py_timedelta (t_max_unused t)]"
        have "inj (uuid_str L)" using L by (simp add: lawful_lib_def)
        then have "token_data t = token_data t0 \<and> token_names S i = token_names S0 i"
          using y0(3) y(3) option.inj_map [of "uuid_str L"]
          by (auto simp: token_data_def py_option_str_inj py_timedelta_inj inj_eq)
        then have "same_token S0 S i" using y0(2) y(2) by (auto simp: same_token_def)
        with cred ActivateUserWithOverrideToken show ?thesis by simp
      qed
    qed
  next
    case (RenewDomain v d)
    with cov(1) have a: "a = RenewDomain v d" by (cases a) simp_all
    with f x0 x RenewDomain L show ?thesis
      by (auto simp: fields_defs same_user_def same_domain_def lawful_lib_def inj_eq split: option.splits)
  qed (use cred x0 x in \<open>auto simp: same_user_def\<close>)
qed

lemma instantiate_Inr:
  assumes "instantiate L S a (Some v) = Inr av"
  shows "av = (a, True) \<and> state L S a = Inr v"
  using assms by (auto simp: instantiate_def validate_state_def result_simps split: if_splits)

text \<open>An action that is instantiated with a state made earlier for some action is that very action: same
  class, same user and same arguments, but for those no state covers (a new password, the outreach
  preference, the name of a factor). If it rests on the credentials, the user's credentials have
  not been changed and the activation status is the same. Without a state an action is never
  carried out.\<close>

lemma validated_action_unaltered:
  assumes "lawful_lib L" and "wf_store S0" and "wf_store S"
    and "state L S0 a0 = Inr v" and "instantiate L S a (Some v) = Inr av"
  shows "av = (a, True) \<and> covered a = covered a0 \<and>
    (credential_bound a0 \<longrightarrow> (\<exists>x0 x. users S0 (action_user a0) = Some x0 \<and> users S (action_user a0) = Some x \<and>
       ac_credentials_changed x = ac_credentials_changed x0 \<and> ac_is_active x = ac_is_active x0)) \<and>
    act L now new_id (a, False) S = (Inl StateNotVerified, S)"
proof -
  from instantiate_Inr [OF assms(5)] have av: "av = (a, True)" and s: "state L S a = Inr v" by auto
  from state_eq_fields [OF _ assms(4) s] assms(1) obtain vs
    where f: "state_fields L S0 a0 = Inr vs" "state_fields L S a = Inr vs" by (auto simp: lawful_lib_def)
  note cover = fields_cover [OF assms(1-3) f]
  from f(1) obtain x0 where x0: "users S0 (action_user a0) = Some x0" by (rule fields_user) blast
  from f(2) obtain x where x: "users S (action_user a) = Some x" by (rule fields_user) blast
  have "action_user a = action_user a0" using cover(1) by (cases a; cases a0) simp_all
  with x0 x cover av show ?thesis by (auto simp: act_def)
qed

section \<open>The operations on the store\<close>

lemma atomic_Inr: "atomic f S = (Inr u, S') \<longleftrightarrow> f S = Inr S'"
  by (auto simp: atomic_def split: sum.splits)

lemma get_user_Inr [simp]: "get_user u S = Inr x \<longleftrightarrow> users S u = Some x"
  by (simp add: get_user_def split: option.splits)

lemma save_override_users: "save_override i u S = Inr S' \<Longrightarrow> users S' = users S"
  by (auto simp: save_override_def split: option.splits sum.splits)

lemma send_email_users: "send_email a r c S = Inr S' \<Longrightarrow> users S' = users S \<and> utokens S' = utokens S \<and> udomains S' = udomains S"
  by (auto simp: send_email_def Let_def split: if_splits)

lemma factor_save_users:
  assumes "factor_save now f S = Inr S'" and "wf_store S"
  shows "users S' = (if mfa_enabled S (f_user f) then users S
    else (users S)(f_user f \<mapsto> (the (users S (f_user f)))\<lparr>ac_credentials_changed := now\<rparr>))
    \<and> utokens S' = utokens S \<and> (mfa_enabled S (f_user f) \<or> users S (f_user f) \<noteq> None)"
  using assms
  by (auto simp: factor_save_def touch_credentials_def put_factor_def put_user_def result_simps wf_store_def
      split: if_splits)

lemmas act_defs = act_def atomic_Inr io_bind_Inr_iff set_outreach_def activate_def change_email_def
  change_password_def put_user_def

lemma token_step_id: "token_step (SaveToken t n) t0 = Inr t' \<Longrightarrow> t_id t' = t_id t"
  by (auto simp: token_save_def policy_create_def result_simps Let_def split: if_splits)

section \<open>Packing\<close>

text \<open>What base64 text looks like at the end.\<close>

definition base64_shape :: "string \<Rightarrow> bool" where
  "base64_shape c \<longleftrightarrow> length c mod 4 = 0 \<and>
     (\<exists>b k. c = b @ replicate k CHR ''='' \<and> k < 4 \<and> (b = [] \<or> last b \<noteq> CHR ''=''))"

lemma pad_rstrip:
  assumes "base64_shape c"
  shows "pad_code (rstrip_char CHR ''='' c) = c"
proof -
  from assms obtain b k where c: "c = b @ replicate k CHR ''=''" "k < 4" "b = [] \<or> last b \<noteq> CHR ''=''"
    and len: "length c mod 4 = 0" by (auto simp: base64_shape_def)
  have strip: "rstrip_char CHR ''='' c = b" unfolding c(1) by (rule rstrip_char_replicate [OF c(3)])
  have "(length b + k) mod 4 = 0" using len c(1) by simp
  then have "- int (length b) mod 4 = int k" using c(2) by presburger
  then show ?thesis using strip c(1) by (simp add: pad_code_def)
qed

text \<open>C32: A code can be read back: cutting the padding off the encrypted token and restoring it on the
  way in changes nothing, so within its validity the code unpacks to the data that were packed and
  the time they were packed at.\<close>

theorem unpack_pack_code:
  assumes "pack_code L t data = Inr code" and "dumps data = Inr payload"
    and "base64_shape (encrypt L t payload)"
    and "decrypt L period now (encrypt L t payload) = Some (t, payload)"
    and "distinct_keys data"
  shows "unpack_code L period now code = Inr (t, data)"
proof -
  have "code = rstrip_char CHR ''='' (encrypt L t payload)" using assms(1,2) by (simp add: pack_code_def)
  then have "pad_code code = encrypt L t payload" using pad_rstrip [OF assms(3)] by simp
  then show ?thesis using assms(4) loads_dumps [OF assms(2,5)] by (simp add: unpack_code_def)
qed

section \<open>A code does what it was made for\<close>

definition carries :: "lib \<Rightarrow> string \<Rightarrow> pyval \<Rightarrow> bool" where
  "carries L code data \<longleftrightarrow> (\<forall>period now t v. unpack_code L period now code = Inr (t, v) \<longrightarrow> v = data)"

text \<open>The arguments neither the state nor the code fix.\<close>

primrec in_code :: "auth_action \<Rightarrow> auth_action" where
  "in_code (ChangeOutreachPreference u b) = ChangeOutreachPreference u b"
| "in_code (ActivateUser u d) = ActivateUser u d"
| "in_code (ActivateUserWithOverrideToken u b i) = ActivateUserWithOverrideToken u False i"
| "in_code (ChangeEmail u e) = ChangeEmail u e"
| "in_code (CreateTOTPFactor u n) = CreateTOTPFactor u n"
| "in_code (Noop u) = Noop u"
| "in_code (ResetPassword u p) = ResetPassword u []"
| "in_code (DeleteUser u) = DeleteUser u"
| "in_code (RenewDomain u d) = RenewDomain u d"

lemma merged_code: "map_of kvs k = Some v \<Longrightarrow> merged data (PyDict kvs) k = Some v"
  by (simp add: merged_def)

lemma parse_outreach:
  "parse_action L email_ok S k m = Inr (ChangeOutreachPreference u b) \<Longrightarrow>
   bool_field m ''outreach_preference'' = Inr b"
  unfolding parse_action_def rbind_Inr_iff
  by (cases k) (simp_all add: rbind_Inr_iff split: option.split_asm pyval.split_asm if_split_asm, (metis pyval.exhaust)+)

lemma parse_totp:
  "parse_action L email_ok S k m = Inr (CreateTOTPFactor u n) \<Longrightarrow> m ''name'' = Some (PyStr n') \<Longrightarrow> n = n'"
  unfolding parse_action_def rbind_Inr_iff
  by (cases k) (simp_all add: rbind_Inr_iff split: option.split_asm pyval.split_asm if_split_asm, (metis pyval.exhaust)+)

lemma first_match: "(case xs of [] \<Rightarrow> Inl e | u # _ \<Rightarrow> Inr u) = Inr v \<Longrightarrow> v \<in> set xs"
  by (cases xs) auto

lemma user_field_Inr:
  assumes "user_field L S m = Inr u"
  shows "str_field m ''user'' = Inr (uuid_str L u)"
proof -
  from assms obtain s where s: "str_field m ''user'' = Inr s"
    and f: "(case filter (\<lambda>u. uuid_str L u = s) (sorted_list_of_set (dom (users S))) of
      [] \<Rightarrow> Inl (NoSuchObject ''user'') | u # _ \<Rightarrow> Inr u) = Inr u"
    using assms unfolding user_field_def rbind_Inr_iff by blast
  from first_match [OF f] have "uuid_str L u = s" unfolding set_filter by blast
  with s show ?thesis by simp
qed

lemma parse_from_code:
  assumes p: "parse_action L email_ok S k (merged data (action_data L st a0)) = Inr a"
    and c: "covered a = covered a0"
  shows "in_code a = in_code a0"
proof (cases a)
  case (ChangeOutreachPreference u b)
  with c obtain b' where a0: "a0 = ChangeOutreachPreference u b'" by (cases a0) simp_all
  have "merged data (action_data L st a0) ''outreach_preference'' = Some (PyBool b')"
    by (simp add: a0 action_data_def merged_def)
  then have "bool_field (merged data (action_data L st a0)) ''outreach_preference'' = Inr b'"
    by (simp add: bool_field_def)
  moreover have "bool_field (merged data (action_data L st a0)) ''outreach_preference'' = Inr b"
    using p ChangeOutreachPreference by (intro parse_outreach) simp
  ultimately have "b = b'" by simp
  with a0 ChangeOutreachPreference show ?thesis by simp
next
  case (CreateTOTPFactor u n)
  with c obtain n' where a0: "a0 = CreateTOTPFactor u n'" by (cases a0) simp_all
  have "merged data (action_data L st a0) ''name'' = Some (PyStr n')"
    by (simp add: a0 action_data_def merged_def)
  with p CreateTOTPFactor have "n = n'" by (auto intro: parse_totp)
  with a0 CreateTOTPFactor show ?thesis by simp
qed (use c in \<open>cases a0; simp\<close>)+

lemma authenticate_code_store:
  assumes "authenticate_code L period now code S = (r, S1)" and "wf_store S"
  shows "wf_store S1"
  using assms
  by (auto simp: authenticate_code_def io_bind_def Let_def wf_store_def put_user_def
      split: prod.splits sum.splits option.splits if_splits)

text \<open>The code is first used to authenticate, which changes nothing a state covers.\<close>

lemma agrees_verified:
  assumes "wf_store S" and "users S u = Some x"
  shows "state_agrees S0 (put_user (x\<lparr>ac_email_verified := verified\<rparr>) S) a \<Longrightarrow> state_agrees S0 S a"
  using assms
  by (cases a)
    (auto simp: same_user_def same_token_def same_domain_def put_user_def wf_store_def credentials_def find_domain_def
      split: if_splits)

lemma posted_code:
  assumes "lawful_lib L" and "wf_store S0" and "wf_store S"
    and "state L S0 a0 = Inr v" and "carries L code (action_data L v a0)"
    and post: "post_action L email_ok standard now new_id k code data captcha S = (Inr a, S')"
  obtains x where "in_code a = in_code a0" and "state_agrees S0 S a0"
    and "users S (action_user a0) = Some x" and "ac_is_active x \<noteq> Some False"
    and "\<not> activates k \<Longrightarrow> ac_is_active x = Some True"
    and "k = KDelete \<Longrightarrow> \<forall>d \<in> set (udomains S). m_owner d \<noteq> action_user a0"
proof -
  let ?p = "validity_period standard k"
  from post obtain u S1 where auth: "authenticate_code L ?p now code S = (Inr u, S1)"
    and body: "(case may_post k u S1 of Inl e \<Rightarrow> (Inl e, S1)
      | Inr _ \<Rightarrow> (case validated_action L email_ok ?p now k code data captcha S1 of
          Inl e \<Rightarrow> (Inl e, S1)
        | Inr av \<Rightarrow> io_bind (act L now new_id av) (\<lambda>_. io_return (fst av)) S1)) = (Inr a, S')"
    by (auto simp: post_action_def io_bind_Inr_iff Let_def)
  from body have may: "may_post k u S1 = Inr ()" by (cases "may_post k u S1") simp_all
  with body obtain av where val: "validated_action L email_ok ?p now k code data captcha S1 = Inr av"
    by (cases "validated_action L email_ok ?p now k code data captcha S1") simp_all
  have a: "a = fst av" using body may val by (auto simp: io_bind_Inr_iff)
  have wf1: "wf_store S1" using authenticate_code_store [OF auth assms(3)] .
  from val obtain t w where un: "unpack_code L ?p now code = Inr (t, w)" by (auto simp: validated_action_def result_simps)
  with assms(5) have w: "w = action_data L v a0" by (auto simp: carries_def)
  from val un w obtain st b where st: "str_field (merged data w) ''state'' = Inr st"
    and pa: "parse_action L email_ok S1 k (merged data w) = Inr b"
    and inst: "instantiate L S1 b (Some st) = Inr av"
    by (auto simp: validated_action_def result_simps Let_def)
  have "st = v" using st by (simp add: w action_data_def str_field_def merged_def)
  with inst have "av = (b, True)" and sb: "state L S1 b = Inr v" using instantiate_Inr by auto
  then have "a = b" using a by simp
  from state_eq_fields [OF _ assms(4) sb] assms(1) obtain vs
    where f: "state_fields L S0 a0 = Inr vs" "state_fields L S1 b = Inr vs" by (auto simp: lawful_lib_def)
  have cov: "covered b = covered a0" using fields_cover(1) [OF assms(1,2) wf1 f] by simp
  have ic: "in_code a = in_code a0" using parse_from_code [OF pa [unfolded w] cov] \<open>a = b\<close> by simp
  from auth un w obtain x verified where u: "user_field L S (merged [] w) = Inr u" "users S u = Some x"
    "ac_is_active x \<noteq> Some False" "S1 = put_user (x\<lparr>ac_email_verified := verified\<rparr>) S"
    by (auto simp: authenticate_code_def io_bind_def Let_def split: sum.splits option.splits if_splits)
  have agrees: "state_agrees S0 S a0"
    using fields_agree [OF assms(1,2) wf1 f] unfolding u(4) by (rule agrees_verified [OF assms(3) u(2)])
  have "uuid_str L u = uuid_str L (action_user a0)"
    using user_field_Inr [OF u(1)] by (simp add: w action_data_def str_field_def merged_def)
  then have "u = action_user a0" using assms(1) by (simp add: lawful_lib_def inj_eq)
  moreover have "users S1 u = Some (x\<lparr>ac_email_verified := verified\<rparr>)" "udomains S1 = udomains S"
    using u(2,4) assms(3) by (auto simp: put_user_def wf_store_def)
  ultimately show ?thesis
    using ic agrees u(2,3) may by (intro that [of x]) (auto simp: may_post_def split: if_splits)
qed

text \<open>C26: Whatever view a code is posted to, with whatever additional data: if the request succeeds, the
  action carried out is the one the code was made for, with the arguments it was made with (the new
  password and, on activation with a token, the outreach preference come from the request). What the
  action relies on is as it was when the code was made: for actions on an account the time of the
  last change of credentials and the activation status, for an outreach preference the address, for
  an override token its data, for a renewal the domain and the time of its last change of renewal
  state. The user is not deactivated, and is active unless the view is one of the two for activation.
  A user who still has domains is not deleted.\<close>

theorem code_only_for_its_action:
  assumes "lawful_lib L" and "wf_store S0" and "wf_store S"
    and "state L S0 a0 = Inr v" and "carries L code (action_data L v a0)"
    and "post_action L email_ok standard now new_id k code data captcha S = (Inr a, S')"
  shows "in_code a = in_code a0 \<and> state_agrees S0 S a0 \<and>
    (\<exists>x. users S (action_user a0) = Some x \<and> ac_is_active x \<noteq> Some False \<and>
       (\<not> activates k \<longrightarrow> ac_is_active x = Some True)) \<and>
    (k = KDelete \<longrightarrow> (\<forall>d \<in> set (udomains S). m_owner d \<noteq> action_user a0))"
  using assms by (rule posted_code) blast

text \<open>The state of an activation with a token that has a maximum age is not JSON: asking for it raises
  \<open>TypeError\<close>, so neither the mail nor the action can be made.\<close>

lemma max_age_blocks_activation:
  assumes "users S u = Some x" and "utokens S i = Some t" and "t_max_age t = Some n"
  shows "state L S (ActivateUserWithOverrideToken u b i) = Inl StateTypeError"
proof -
  obtain vs where f: "state_fields L S (ActivateUserWithOverrideToken u b i) = Inr vs"
    and "PyTimedelta n \<in> set vs"
    using assms by (auto simp: fields_defs py_timedelta_def)
  then have "dumps (PyList vs) = Inl JsonTypeError" by (intro dumps_list_fails) auto
  with f show ?thesis by (simp add: state_def state_of_def del: dumps.simps)
qed

section \<open>Examples\<close>

definition tally :: "int \<Rightarrow> string" where
  "tally t = (if t < 0 then CHR ''-'' # replicate (nat (- t)) CHR ''1'' else replicate (nat t) CHR ''1'')"

lemma inj_tally: "inj tally"
proof (rule injI)
  fix s t assume e: "tally s = tally t"
  then have "s < 0 \<longleftrightarrow> t < 0"
    by (cases "nat s"; cases "nat t") (auto simp: tally_def split: if_splits)
  with e show "s = t" by (auto simp: tally_def split: if_splits dest!: arg_cong [where f = length])
qed

text \<open>A library with one code, which carries \<open>data\<close>.\<close>

definition example_lib :: "pyval \<Rightarrow> lib" where
  "example_lib data = \<lparr>uuid_str = (\<lambda>n. replicate n CHR ''a''), isoformat = tally, datetime_str = tally,
     sha256 = (\<lambda>s. s), encrypt = (\<lambda>t p. ''token==x''), 
     decrypt = (\<lambda>ttl now c. Some (5, case dumps data of Inl _ \<Rightarrow> [] | Inr p \<Rightarrow> p)), make_password = (\<lambda>p. p), usable_password = (\<lambda>p. True)\<rparr>"

lemma lawful_example_lib: "lawful_lib (example_lib data)"
  using inj_tally by (auto simp: lawful_lib_def example_lib_def intro!: injI dest: arg_cong [where f = length])

lemma example_unpack:
  assumes "json_serializable data" and "distinct_keys data"
  shows "unpack_code (example_lib data) period now code = Inr (5, data)"
proof -
  from assms(1) obtain p where p: "dumps data = Inr p" by (metis dumps_ok_iff(1))
  with loads_dumps [OF this assms(2)] show ?thesis by (simp add: unpack_code_def example_lib_def)
qed

definition example_account :: account where
  "example_account = \<lparr>ac_id = 1, ac_email = ''a@b.c'', ac_email_verified = None, ac_is_active = Some True,
     ac_credentials_changed = 3, ac_needs_captcha = False, ac_outreach = True, ac_password = ''old'',
     ac_limit_domains = None\<rparr>"

definition example_store :: store where
  "example_store = \<lparr>users = [1 \<mapsto> example_account], factors = [], captchas = [], udomains = [],
     utokens = Map.empty, token_names = (\<lambda>i. []), outbox = []\<rparr>"

lemma wf_example_store: "wf_store example_store"
  by (simp add: wf_store_def example_store_def example_account_def)

definition example_reset :: auth_action where
  "example_reset = ResetPassword 1 ''new''"

lemma example_state: "\<exists>v. \<forall>data. state (example_lib data) example_store example_reset = Inr v"
  by (simp add: state_def fields_defs example_store_def example_reset_def example_lib_def example_account_def
      state_of_def py_bool_option_def result_simps)

lemma validated_action_unaltered_witness:
  "\<exists>v av. instantiate (example_lib PyNone) example_store example_reset (Some v) = Inr av \<and> av = (example_reset, True)"
proof -
  from example_state obtain v where v: "state (example_lib PyNone) example_store example_reset = Inr v" by blast
  then have i: "instantiate (example_lib PyNone) example_store example_reset (Some v) = Inr (example_reset, True)"
    by (simp add: instantiate_def validate_state_def)
  from validated_action_unaltered [OF lawful_example_lib wf_example_store wf_example_store v i] i show ?thesis by blast
qed

theorem unpack_pack_code_witness:
  "base64_shape ''YWI=YWI='' \<and>
   unpack_code ((example_lib (PyStr ''x''))\<lparr>encrypt := (\<lambda>t p. ''YWI=YWI=''), decrypt := (\<lambda>ttl now c. Some (5, [CHR 0x22, CHR ''x'', CHR 0x22]))\<rparr>)
     None 7 ''YWI=YWI'' = Inr (5, PyStr ''x'')"
proof -
  let ?L = "(example_lib (PyStr ''x''))\<lparr>encrypt := (\<lambda>t p. ''YWI=YWI=''),
    decrypt := (\<lambda>ttl now c. Some (5, [CHR 0x22, CHR ''x'', CHR 0x22]))\<rparr>"
  have b: "base64_shape ''YWI=YWI=''"
    unfolding base64_shape_def by (intro conjI exI [of _ "''YWI=YWI''"] exI [of _ 1]) simp_all
  have d: "dumps (PyStr ''x'') = Inr [CHR 0x22, CHR ''x'', CHR 0x22]" by code_simp
  have p: "pack_code ?L 5 (PyStr ''x'') = Inr ''YWI=YWI''"
    unfolding pack_code_def d by (simp add: rstrip_char_def)
  from unpack_pack_code [OF p d] b show ?thesis by (simp add: example_lib_def)
qed

theorem code_only_for_its_action_witness:
  "\<exists>v a S'. post_action (example_lib (action_data (example_lib PyNone) v example_reset)) (\<lambda>e. True) 3600 9 0 KResetPassword
     ''code'' [(''new_password'', PyStr ''other'')] None example_store = (Inr a, S') \<and>
     in_code a = ResetPassword 1 [] \<and> state_agrees example_store example_store example_reset"
proof -
  from example_state obtain v where v: "\<And>data. state (example_lib data) example_store example_reset = Inr v" by blast
  let ?d = "action_data (example_lib PyNone) v example_reset"
  let ?L = "example_lib ?d"
  have d: "?d = action_data ?L v example_reset" by (simp add: action_data_def example_reset_def example_lib_def)
  have un: "unpack_code ?L t n ''code'' = Inr (5, ?d)" for t n
    by (rule example_unpack) (simp_all add: action_data_def example_reset_def)
  then have c: "carries ?L ''code'' ?d" by (simp add: carries_def)
  have st: "state ?L (put_user (example_account\<lparr>ac_email_verified := Some 5\<rparr>) example_store) (ResetPassword 1 p) = Inr v" for p
    using v [of ?d] by (simp add: state_def fields_defs example_store_def example_reset_def example_account_def put_user_def)
  let ?S1 = "put_user (example_account\<lparr>ac_email_verified := Some 5\<rparr>) example_store"
  have m: "merged data ?d ''state'' = Some (PyStr v)" "merged data ?d ''user'' = Some (PyStr ''a'')"
    "merged data ?d ''new_password'' = map_of data ''new_password''" for data
    by (simp_all add: action_data_def example_reset_def merged_def example_lib_def)
  have us: "users example_store = [1 \<mapsto> example_account]" "users ?S1 = [1 \<mapsto> example_account\<lparr>ac_email_verified := Some 5\<rparr>]"
    by (simp_all add: example_store_def put_user_def example_account_def)
  have uf: "user_field ?L T (merged data ?d) = Inr 1" if "dom (users T) = {1}" for T data
    using that by (simp add: user_field_def str_field_def m) (simp add: example_lib_def)
  have auth: "authenticate_code ?L t n ''code'' example_store = (Inr 1, ?S1)" for t n
    by (simp add: authenticate_code_def un str_field_def m uf us io_bind_def)
      (simp add: example_account_def)
  have may: "may_post KResetPassword 1 ?S1 = Inr ()"
    by (simp add: may_post_def us) (simp add: example_account_def)
  have val: "validated_action ?L (\<lambda>e. True) t n KResetPassword ''code'' [(''new_password'', PyStr ''other'')] None ?S1 =
      Inr (ResetPassword 1 ''other'', True)" for t n
    by (simp add: validated_action_def un str_field_def m parse_action_def uf us check_captcha_def activates_def
        instantiate_def validate_state_def st [unfolded One_nat_def])
  obtain S' where "act ?L 9 0 (ResetPassword 1 ''other'', True) ?S1 = (Inr (), S')"
    by (simp add: act_def atomic_def change_password_def get_user_def us send_email_def lanes_def Let_def)
  with auth may val have "\<exists>a S'. post_action ?L (\<lambda>e. True) 3600 9 0 KResetPassword
     ''code'' [(''new_password'', PyStr ''other'')] None example_store = (Inr a, S')"
    by (simp add: post_action_def io_bind_def Let_def)
  then obtain a S' where post: "post_action ?L (\<lambda>e. True) 3600 9 0 KResetPassword
     ''code'' [(''new_password'', PyStr ''other'')] None example_store = (Inr a, S')" by blast
  from code_only_for_its_action [OF lawful_example_lib wf_example_store wf_example_store v _ post] c d post
  show ?thesis by (auto simp: example_reset_def)
qed

end
