(* ===== verification/CodesSpent.thy ===== *)
theory CodesSpent
  imports AuthActionsCorrect
begin

text \<open>
  Codes over time: the histories of an account under all operations of the model that reach it, what
  such a history leaves of its credentials, and that codes made before a change of credentials are
  never accepted after it.
\<close>

section \<open>What an operation leaves of an account\<close>

text \<open>An account is never made anew; its credentials are either as they were or changed at the time of
  the operation; and an active account stays active.\<close>

definition evolves :: "nat \<Rightarrow> int \<Rightarrow> store \<Rightarrow> store \<Rightarrow> bool" where
  "evolves u t S S' \<longleftrightarrow>
     (\<forall>y. users S' u = Some y \<longrightarrow> (\<exists>x. users S u = Some x \<and>
        (ac_credentials_changed y = ac_credentials_changed x \<or> ac_credentials_changed y = t) \<and>
        (ac_is_active x = Some True \<longrightarrow> ac_is_active y = Some True)))"

definition keeps :: "nat \<Rightarrow> int \<Rightarrow> store \<Rightarrow> store \<Rightarrow> bool" where
  "keeps u t S S' \<longleftrightarrow> wf_store S' \<and> evolves u t S S'"

lemma keeps_refl: "wf_store S \<Longrightarrow> keeps u t S S"
  by (auto simp: keeps_def evolves_def)

lemma keeps_trans: "keeps u t S S1 \<Longrightarrow> keeps u t S1 S2 \<Longrightarrow> keeps u t S S2"
  unfolding keeps_def evolves_def by metis

lemma keeps_put_user:
  assumes wf: "wf_store S" and x: "users S v = Some x"
    and y: "ac_id y = ac_id x" "ac_credentials_changed y = ac_credentials_changed x \<or> ac_credentials_changed y = t"
    "ac_is_active x = Some True \<longrightarrow> ac_is_active y = Some True"
  shows "keeps u t S (put_user y S)"
proof -
  have id: "ac_id y = v" using wf x y(1) by (simp add: wf_store_def)
  have "wf_store (put_user y S)" using wf id by (simp add: wf_store_def put_user_def)
  moreover have "evolves u t S (put_user y S)"
  proof (cases "u = v")
    case True
    with id x y(2,3) show ?thesis by (simp add: evolves_def put_user_def)
  next
    case False
    with id show ?thesis by (simp add: evolves_def put_user_def)
  qed
  ultimately show ?thesis by (simp add: keeps_def)
qed

lemma keeps_same_users:
  "keeps u t S S1 \<Longrightarrow> users S2 = users S1 \<Longrightarrow> (\<And>i s. utokens S2 i = Some s \<Longrightarrow> t_id s = i) \<Longrightarrow> keeps u t S S2"
  by (auto simp: keeps_def evolves_def wf_store_def)

lemma keeps_email:
  assumes "keeps u t S S1" and "send_email a r c S1 = Inr S2"
  shows "keeps u t S S2"
  using send_email_users [OF assms(2)] assms(1) by (intro keeps_same_users [OF assms(1)]) (auto simp: keeps_def wf_store_def)

lemma keeps_delete:
  assumes "wf_store S" and "delete_user v S = Inr S'"
  shows "keeps u t S S'"
  using assms by (auto simp: delete_user_def keeps_def evolves_def wf_store_def split: if_splits option.splits)

lemma keeps_factor_save:
  assumes "wf_store S" and "factor_save t f S = Inr S'"
  shows "keeps u t S S'"
  using factor_save_users [OF assms(2,1)] assms(1)
  by (auto simp: keeps_def evolves_def wf_store_def split: if_splits)

lemma keeps_factor_delete:
  assumes "wf_store S" and "factor_delete t f S = Inr S'"
  shows "keeps u t S S'"
  using assms
  by (auto simp: factor_delete_def touch_credentials_def put_user_def result_simps keeps_def evolves_def wf_store_def
      split: if_splits)

lemma keeps_factor_verify:
  assumes wf: "wf_store S" and run: "factor_verify otp t n f code S = Inr (b, f', S')"
  shows "keeps u t S S'"
proof (cases b)
  case True
  with run have "factor_save t f' S = Inr S'"
    by (auto simp: factor_verify_def result_simps Let_def simp del: verify_steps.simps split: option.splits)
  with wf show ?thesis by (rule keeps_factor_save)
next
  case False
  with run have "S' = S"
    by (auto simp: factor_verify_def result_simps Let_def simp del: verify_steps.simps split: option.splits)
  with wf show ?thesis by (simp add: keeps_refl)
qed

lemma keeps_atomic:
  assumes "atomic f S = (r, S')" and "wf_store S" and "\<And>T. f S = Inr T \<Longrightarrow> keeps u t S T"
  shows "keeps u t S S'"
  using assms by (auto simp: atomic_def keeps_refl split: sum.splits)

lemma keeps_set_outreach:
  assumes "wf_store S" and "set_outreach v b S = Inr S'"
  shows "keeps u t S S'"
proof -
  from assms(2) obtain x where "users S v = Some x" "S' = put_user (x\<lparr>ac_outreach := b\<rparr>) S"
    by (auto simp: set_outreach_def rbind_Inr_iff)
  with keeps_put_user [OF assms(1) this(1), of "x\<lparr>ac_outreach := b\<rparr>"] show ?thesis by simp
qed

lemma keeps_activate:
  assumes "wf_store S" and "activate v S = Inr S'"
  shows "keeps u t S S'"
proof -
  let ?y = "\<lambda>x. x\<lparr>ac_is_active := Some True, ac_needs_captcha := False\<rparr>"
  from assms(2) obtain x where "users S v = Some x" "S' = put_user (?y x) S"
    by (auto simp: activate_def rbind_Inr_iff)
  with keeps_put_user [OF assms(1) this(1), of "?y x"] show ?thesis by simp
qed

lemma keeps_change_email:
  assumes "wf_store S" and "change_email t v e S = Inr S'"
  shows "keeps u t S S'"
proof -
  let ?y = "\<lambda>x. x\<lparr>ac_email := e, ac_credentials_changed := t\<rparr>"
  from assms(2) obtain x c r where x: "users S v = Some x" and m: "send_email (?y x) c r (put_user (?y x) S) = Inr S'"
    by (auto simp: change_email_def rbind_Inr_iff Let_def split: if_splits)
  have "keeps u t S (put_user (?y x) S)" using keeps_put_user [OF assms(1) x, of "?y x"] by simp
  from this m show ?thesis by (rule keeps_email)
qed

lemma keeps_change_password:
  assumes "wf_store S" and "change_password mk t v p S = Inr S'"
  shows "keeps u t S S'"
proof -
  let ?y = "\<lambda>x. x\<lparr>ac_password := mk p, ac_credentials_changed := t\<rparr>"
  from assms(2) obtain x c r where x: "users S v = Some x" and m: "send_email (?y x) c r (put_user (?y x) S) = Inr S'"
    by (auto simp: change_password_def rbind_Inr_iff Let_def)
  have "keeps u t S (put_user (?y x) S)" using keeps_put_user [OF assms(1) x, of "?y x"] by simp
  from this m show ?thesis by (rule keeps_email)
qed

lemma keeps_save_override:
  assumes "wf_store S" and "save_override i v S = Inr S'"
  shows "keeps u t S S'"
proof (rule keeps_same_users [OF keeps_refl [OF assms(1)]])
  show "users S' = users S" using save_override_users [OF assms(2)] .
  show "t_id s = j" if "utokens S' j = Some s" for j s
    using that assms
    by (auto simp: save_override_def wf_store_def simp del: token_step.simps dest!: token_step_id
        split: option.splits sum.splits if_splits)
qed

lemma keeps_act_unchecked:
  assumes "act_unchecked L t new_id a S = (r, S')" and wf: "wf_store S"
  shows "keeps u t S S'"
proof (cases a)
  case (ActivateUserWithOverrideToken v b i)
  let ?f = "\<lambda>S. rbind (set_outreach v b S) (activate v)"
  obtain r1 S1 where one: "atomic ?f S = (r1, S1)" by (cases "atomic ?f S") auto
  have first: "keeps u t S S1"
  proof (rule keeps_atomic [OF one wf])
    fix T assume "?f S = Inr T"
    then obtain S0 where "set_outreach v b S = Inr S0" "activate v S0 = Inr T" by (auto simp: rbind_Inr_iff)
    moreover from this wf have "keeps u t S S0" by (intro keeps_set_outreach)
    moreover from this have "wf_store S0" by (simp add: keeps_def)
    ultimately show "keeps u t S T" using keeps_trans keeps_activate by blast
  qed
  show ?thesis
  proof (cases r1)
    case (Inl e)
    with one assms(1) ActivateUserWithOverrideToken first show ?thesis by (simp add: io_bind_def)
  next
    case (Inr x)
    then have "atomic (save_override i v) S1 = (r, S')"
      using one assms(1) ActivateUserWithOverrideToken by (simp add: io_bind_def)
    moreover have "wf_store S1" using first by (simp add: keeps_def)
    ultimately have "keeps u t S1 S'" by (rule keeps_atomic) (rule keeps_save_override [OF \<open>wf_store S1\<close>])
    with first show ?thesis by (rule keeps_trans)
  qed
next
  case (Noop v)
  with assms show ?thesis by (simp add: io_return_def keeps_refl)
next
  case (RenewDomain v d)
  with assms show ?thesis by (auto simp: atomic_def keeps_def evolves_def wf_store_def)
next
  case (ChangeOutreachPreference v b)
  with assms(1) have "atomic (set_outreach v b) S = (r, S')" by simp
  from this wf show ?thesis by (rule keeps_atomic) (rule keeps_set_outreach [OF wf])
next
  case (ActivateUser v d)
  with assms(1) have "atomic (activate v) S = (r, S')" by simp
  from this wf show ?thesis by (rule keeps_atomic) (rule keeps_activate [OF wf])
next
  case (ChangeEmail v e)
  with assms(1) have "atomic (change_email t v e) S = (r, S')" by simp
  from this wf show ?thesis by (rule keeps_atomic) (rule keeps_change_email [OF wf])
next
  case (CreateTOTPFactor v n)
  let ?f = "\<lparr>f_id = new_id, f_user = v, f_name = n, f_last_used = None, f_secret = [], f_last_timestep = 0\<rparr>"
  from CreateTOTPFactor assms(1) have "atomic (factor_save t ?f) S = (r, S')" by simp
  from this wf show ?thesis by (rule keeps_atomic) (rule keeps_factor_save [OF wf])
next
  case (ResetPassword v p)
  with assms(1) have "atomic (change_password (make_password L) t v p) S = (r, S')" by simp
  from this wf show ?thesis by (rule keeps_atomic) (rule keeps_change_password [OF wf])
next
  case (DeleteUser v)
  with assms(1) have "atomic (delete_user v) S = (r, S')" by simp
  from this wf show ?thesis by (rule keeps_atomic) (rule keeps_delete [OF wf])
qed

lemma keeps_act:
  assumes "act L t new_id av S = (r, S')" and "wf_store S"
  shows "keeps u t S S'"
  using assms by (cases av) (auto simp: act_def io_raise_def keeps_refl keeps_act_unchecked split: if_splits)

lemma keeps_authenticate:
  assumes wf: "wf_store S" and run: "authenticate_code L period now code S = (r, S')"
  shows "keeps u t S S'"
proof -
  have "S' = S \<or> (\<exists>v x e. users S v = Some x \<and> S' = put_user (x\<lparr>ac_email_verified := e\<rparr>) S)"
    using run by (auto simp: authenticate_code_def io_bind_def io_lift_def Let_def
        split: prod.splits sum.splits option.splits if_splits)
  then show ?thesis
  proof (elim disjE exE conjE)
    fix v x e
    assume x: "users S v = Some x" and S': "S' = put_user (x\<lparr>ac_email_verified := e\<rparr>) S"
    show ?thesis unfolding S' using keeps_put_user [OF wf x, of "x\<lparr>ac_email_verified := e\<rparr>"] by simp
  qed (simp add: keeps_refl [OF wf])
qed

lemma keeps_post:
  assumes wf: "wf_store S" and run: "post_action L email_ok standard t new_id k code data captcha S = (r, S')"
  shows "keeps u t S S'"
proof -
  let ?p = "validity_period standard k"
  obtain r1 S1 where auth: "authenticate_code L ?p t code S = (r1, S1)"
    by (cases "authenticate_code L ?p t code S") auto
  have first: "keeps u t S S1" using wf auth by (rule keeps_authenticate)
  then have wf1: "wf_store S1" by (simp add: keeps_def)
  have "S' = S1 \<or> (\<exists>av r'. act L t new_id av S1 = (r', S'))"
    using run auth
    by (auto simp: post_action_def io_bind_def io_return_def Let_def split: sum.splits prod.splits)
  then show ?thesis using first keeps_act [OF _ wf1] keeps_trans by blast
qed

lemma keeps_activate_view:
  assumes wf: "wf_store S" and run: "activate_view L lps standard t new_id code captcha available new_domain S = (r, S')"
  shows "keeps u t S S'"
proof -
  obtain r1 S1 where post: "post_action L (\<lambda>_. False) standard t new_id KActivate code [] captcha S = (r1, S1)"
    by (cases "post_action L (\<lambda>_. False) standard t new_id KActivate code [] captcha S") auto
  have first: "keeps u t S S1" using wf post by (rule keeps_post)
  then have wf1: "wf_store S1" by (simp add: keeps_def)
  have "keeps u t S1 S'"
  proof -
    have fin: "keeps u t S1 S2" if "finalize_without_domain L v S1 = Inr S2" for v S2
      using that keeps_refl [OF wf1] keeps_email [OF keeps_refl [OF wf1]]
      by (auto simp: finalize_without_domain_def rbind_Inr_iff split: if_splits)
    have dom: "keeps u t S1 S2" if "create_requested_domain ok d v S1 = Inr (b, S2)" for ok d v b S2
      using that keeps_delete [OF wf1] keeps_same_users [OF keeps_refl [OF wf1], of S2] wf1
      by (auto simp: create_requested_domain_def result_simps wf_store_def split: if_splits)
    have tok: "keeps u t S1 (finalize_with_domain lps new_id t d S2)" if "keeps u t S1 S2" for d S2
      using that by (intro keeps_same_users [OF that])
        (auto simp: finalize_with_domain_def keeps_def wf_store_def dyndns_token_def split: if_splits)
    consider "S' = S1" | v where "finalize_without_domain L v S1 = Inr S'"
      | ok d v b S2 where "create_requested_domain ok d v S1 = Inr (b, S2)"
          "S' = S2 \<or> S' = finalize_with_domain lps new_id t d S2"
      using run post
      by (auto simp: activate_view_def io_bind_def Let_def
          split: sum.splits prod.splits auth_action.splits option.splits list.splits bool.splits)
    then show ?thesis using keeps_refl [OF wf1] fin dom tok by cases blast+
  qed
  with first show ?thesis by (rule keeps_trans)
qed

section \<open>Histories of an account\<close>

text \<open>The operations of the model on the accounts, each at its time: codes posted to any of the views, factors
  saved, deleted and verified, signing in and out, registrations (identifiers are never used again),
  mails, and time that passes. Each may fail.\<close>

inductive account_step :: "lib \<Rightarrow> nat \<Rightarrow> int \<Rightarrow> store \<Rightarrow> store \<Rightarrow> bool" for L :: lib and u :: nat where
  post: "post_action L email_ok standard t new_id k code data captcha S = (r, S') \<Longrightarrow> account_step L u t S S'"
| activation: "activate_view L lps standard t new_id code captcha available new_domain S = (r, S') \<Longrightarrow>
    account_step L u t S S'"
| save_factor: "factor_save t f S = Inr S' \<Longrightarrow> account_step L u t S S'"
| delete_factor: "factor_delete t f S = Inr S' \<Longrightarrow> account_step L u t S S'"
| verify_factor: "factor_verify otp t n f code S = Inr (b, f', S') \<Longrightarrow> account_step L u t S S'"
| sign_in: "account_step L u t S (login new v t S)"
| sign_out: "account_step L u t S (logout tok S)"
| registration: "ac_id a \<noteq> u \<Longrightarrow>
    register norm mk required errs a raw with_captcha with_domain S = Inr (S', answer) \<Longrightarrow> account_step L u t S S'"
| mail: "send_email a r c S = Inr S' \<Longrightarrow> account_step L u t S S'"
| idle: "account_step L u t S S"

inductive account_history :: "lib \<Rightarrow> nat \<Rightarrow> int \<Rightarrow> store \<Rightarrow> int \<Rightarrow> store \<Rightarrow> bool"
  for L :: lib and u :: nat and t :: int and S :: store where
  start: "account_history L u t S t S"
| step: "account_history L u t S t1 S1 \<Longrightarrow> t1 \<le> t2 \<Longrightarrow> account_step L u t2 S1 S2 \<Longrightarrow> account_history L u t S t2 S2"

lemma keeps_register:
  assumes wf: "wf_store S" and id: "ac_id a \<noteq> u"
    and run: "register norm mk required errs a raw with_captcha with_domain S = Inr (S', answer)"
  shows "keeps u t S S'"
proof -
  have new: "keeps u t S (put_user b S)" if "ac_id b = ac_id a" for b
    using wf id that by (auto simp: keeps_def evolves_def wf_store_def put_user_def)
  have made: "\<exists>b. ac_id b = ac_id a \<and> S1 = put_user b S"
    if "create_user norm mk a' raw S = Inr S1" "ac_id a' = ac_id a" for a' S1
  proof -
    from that(1) have "S1 = put_user (a'\<lparr>ac_email := norm (ac_email a'), ac_password := mk raw\<rparr>) S"
      by (simp add: create_user_def Let_def split: if_splits)
    then show ?thesis using that(2) by (intro exI conjI) simp_all
  qed
  have "S' = S \<or> (\<exists>b c r m. ac_id b = ac_id a \<and> (S' = put_user b S \<or> send_email c r m (put_user b S) = Inr S'))"
  proof (cases "errs = []")
    case False
    with run show ?thesis by (simp add: register_def)
  next
    case True
    let ?a = "a\<lparr>ac_is_active := (if required then None else Some True),
                   ac_needs_captcha := (if with_captcha then False else ac_needs_captcha a)\<rparr>"
    from run True obtain S1 c where new: "create_user norm mk ?a raw S = Inr S1"
      and mail: "(if with_domain \<or> required then send_email c ''activate-account'' None S1 else Inr S1) = Inr S'"
      unfolding register_def Let_def by (auto simp: rbind_Inr_iff)
    from made [OF new] obtain b where "ac_id b = ac_id a" "S1 = put_user b S" by auto
    with mail show ?thesis by (auto split: if_splits)
  qed
  then show ?thesis using keeps_refl [OF wf] new keeps_email by blast
qed

lemma keeps_step:
  assumes "account_step L u t S S'" and wf: "wf_store S"
  shows "keeps u t S S'"
  using assms(1)
proof (cases rule: account_step.cases)
  case (sign_in new v)
  show ?thesis unfolding sign_in
    by (rule keeps_same_users [OF keeps_refl [OF wf]])
      (use wf in \<open>auto simp: login_def login_token_def wf_store_def split: if_splits option.splits\<close>)
next
  case (sign_out tok)
  show ?thesis unfolding sign_out
    by (rule keeps_same_users [OF keeps_refl [OF wf]]) (use wf in \<open>auto simp: logout_def wf_store_def split: if_splits\<close>)
next
  case idle
  with wf show ?thesis by (simp add: keeps_refl)
next
  case post
  then show ?thesis by (rule keeps_post [OF wf])
next
  case activation
  then show ?thesis by (rule keeps_activate_view [OF wf])
next
  case save_factor
  then show ?thesis by (rule keeps_factor_save [OF wf])
next
  case delete_factor
  then show ?thesis by (rule keeps_factor_delete [OF wf])
next
  case verify_factor
  then show ?thesis by (rule keeps_factor_verify [OF wf])
next
  case registration
  then show ?thesis by (rule keeps_register [OF wf])
next
  case mail
  then show ?thesis by (rule keeps_email [OF keeps_refl [OF wf]])
qed

text \<open>Over a history the credentials are as they were or changed after its start.\<close>

lemma history_account:
  assumes "account_history L u t S t' S'" and "wf_store S"
  shows "wf_store S' \<and> (\<forall>y. users S' u = Some y \<longrightarrow> (\<exists>x. users S u = Some x \<and>
    (ac_credentials_changed y = ac_credentials_changed x \<or> t \<le> ac_credentials_changed y) \<and>
    (ac_is_active x = Some True \<longrightarrow> ac_is_active y = Some True)))"
  using assms
proof (induction rule: account_history.induct)
  case start
  then show ?case by blast
next
  case (step t1 S1 t2 S2)
  have le: "t \<le> t1" using step.hyps(1) by (induction rule: account_history.induct) auto
  from step.IH step.prems have wf1: "wf_store S1" by blast
  from keeps_step [OF step.hyps(3) wf1] have wf2: "wf_store S2" and ev: "evolves u t2 S1 S2" by (simp_all add: keeps_def)
  show ?case
  proof (intro conjI allI impI wf2)
    fix y assume "users S2 u = Some y"
    with ev obtain z where z: "users S1 u = Some z"
      "ac_credentials_changed y = ac_credentials_changed z \<or> ac_credentials_changed y = t2"
      "ac_is_active z = Some True \<longrightarrow> ac_is_active y = Some True" unfolding evolves_def by blast
    from step.IH step.prems z(1) obtain x where "users S u = Some x"
      "ac_credentials_changed z = ac_credentials_changed x \<or> t \<le> ac_credentials_changed z"
      "ac_is_active x = Some True \<longrightarrow> ac_is_active z = Some True" by blast
    with z(2,3) le step.hyps(2) show "\<exists>x. users S u = Some x \<and>
      (ac_credentials_changed y = ac_credentials_changed x \<or> t \<le> ac_credentials_changed y) \<and>
      (ac_is_active x = Some True \<longrightarrow> ac_is_active y = Some True)" by force
  qed
qed

section \<open>Codes are spent\<close>

text \<open>The actions that change credentials when they are carried out: a change of address or password, a first
  factor, the activation of an account that is not active, the deletion of an account.\<close>

primrec changes_credentials :: "store \<Rightarrow> auth_action \<Rightarrow> bool" where
  "changes_credentials S (ChangeOutreachPreference u b) = False"
| "changes_credentials S (ActivateUser u d) = (map_option ac_is_active (users S u) \<noteq> Some (Some True))"
| "changes_credentials S (ActivateUserWithOverrideToken u b i) =
     (map_option ac_is_active (users S u) \<noteq> Some (Some True))"
| "changes_credentials S (ChangeEmail u e) = True"
| "changes_credentials S (CreateTOTPFactor u n) = (\<not> mfa_enabled S u)"
| "changes_credentials S (Noop u) = False"
| "changes_credentials S (ResetPassword u p) = True"
| "changes_credentials S (DeleteUser u) = True"
| "changes_credentials S (RenewDomain u d) = False"

lemma act_changes:
  assumes act: "act L now i (a, True) S = (Inr (), S')" and ch: "changes_credentials S a" and wf: "wf_store S"
    and y: "users S' (action_user a) = Some y"
  shows "ac_credentials_changed y = now \<or>
    ac_is_active y = Some True \<and> map_option ac_is_active (users S (action_user a)) \<noteq> Some (Some True)"
proof -
  have put: "users (put_user b S) u = Some b" if "users S u = Some x" "ac_id b = ac_id x" for b x u
    using that wf by (simp add: put_user_def wf_store_def)
  have on: ?thesis if run: "activate u T = Inr T'" and T': "users T' u = Some y" and u: "action_user a = u"
    and off: "map_option ac_is_active (users S u) \<noteq> Some (Some True)" and T: "wf_store T" for u T T'
  proof -
    from run obtain x where x: "users T u = Some x"
      and T1: "T' = put_user (x\<lparr>ac_is_active := Some True, ac_needs_captcha := False\<rparr>) T"
      by (auto simp: activate_def rbind_Inr_iff)
    from x T have "ac_id x = u" by (simp add: wf_store_def)
    with T1 T' have "ac_is_active y = Some True" by (auto simp: put_user_def)
    with u off show ?thesis by simp
  qed
  show ?thesis
  proof (cases a)
    case (ActivateUser u d)
    with act have "activate u S = Inr S'" by (simp add: act_def atomic_Inr)
    with on [OF this _ _ _ wf] y ch ActivateUser show ?thesis by simp
  next
    case (ActivateUserWithOverrideToken u b j)
    with act obtain S1 where S1: "rbind (set_outreach u b S) (activate u) = Inr S1" and "save_override j u S1 = Inr S'"
      by (auto simp: act_def atomic_Inr io_bind_Inr_iff)
    from save_override_users [OF this(2)] have users: "users S' = users S1" .
    from S1 obtain S0 where S0: "set_outreach u b S = Inr S0" "activate u S0 = Inr S1" by (auto simp: rbind_Inr_iff)
    have "wf_store S0" using keeps_set_outreach [OF wf S0(1)] by (simp add: keeps_def)
    with on [OF S0(2) _ _ _ this] users y ch ActivateUserWithOverrideToken show ?thesis by simp
  next
    case (ChangeEmail u e)
    with act have "change_email now u e S = Inr S'" by (simp add: act_def atomic_Inr)
    then obtain x c r m where x: "users S u = Some x"
      and mail: "send_email c r m (put_user (x\<lparr>ac_email := e, ac_credentials_changed := now\<rparr>) S) = Inr S'"
      by (auto simp: change_email_def rbind_Inr_iff Let_def split: if_splits)
    from send_email_users [OF mail] put [OF x, of "x\<lparr>ac_email := e, ac_credentials_changed := now\<rparr>"] y ChangeEmail
    show ?thesis by auto
  next
    case (ResetPassword u p)
    with act have "change_password (make_password L) now u p S = Inr S'" by (simp add: act_def atomic_Inr)
    then obtain x c r m where x: "users S u = Some x" and mail: "send_email c r m
        (put_user (x\<lparr>ac_password := make_password L p, ac_credentials_changed := now\<rparr>) S) = Inr S'"
      by (auto simp: change_password_def rbind_Inr_iff Let_def)
    from send_email_users [OF mail] put [OF x, of "x\<lparr>ac_password := make_password L p, ac_credentials_changed := now\<rparr>"]
      y ResetPassword
    show ?thesis by auto
  next
    case (CreateTOTPFactor u n)
    let ?f = "\<lparr>f_id = i, f_user = u, f_name = n, f_last_used = None, f_secret = [], f_last_timestep = 0\<rparr>"
    from act CreateTOTPFactor have "factor_save now ?f S = Inr S'" by (simp add: act_def atomic_Inr)
    from factor_save_users [OF this wf] y ch CreateTOTPFactor show ?thesis by auto
  next
    case (DeleteUser u)
    with act y show ?thesis by (auto simp: act_def atomic_Inr delete_user_def split: if_splits)
  qed (use ch in simp_all)
qed

lemma agrees_credentials:
  "credential_bound b \<Longrightarrow> state_agrees S0 S b \<Longrightarrow> same_user credentials S0 S (action_user b)"
  by (cases b) simp_all

text \<open>After a change of credentials nothing agrees any more with a store from before.\<close>

lemma credentials_differ:
  assumes S0: "wf_store S0" "users S0 u = Some x0" "ac_credentials_changed x0 \<le> t0" "t0 < now"
    and before: "account_history L u t0 S0 now S1"
    and act: "act L now new_id (a, True) S1 = (Inr (), S2)" "changes_credentials S1 a" "action_user a = u"
    and after: "account_history L u now S2 t S3"
  shows "wf_store S3 \<and> \<not> same_user credentials S0 S3 u"
proof -
  from history_account [OF before S0(1)] have wf1: "wf_store S1" by blast
  have wf2: "wf_store S2" using keeps_act [OF act(1) wf1] by (simp add: keeps_def)
  note h = history_account [OF after wf2]
  have False if same: "same_user credentials S0 S3 u"
  proof -
    from same S0(2) obtain z where z: "users S3 u = Some z"
      "ac_credentials_changed z = ac_credentials_changed x0" "ac_is_active z = ac_is_active x0"
      by (auto simp: same_user_def credentials_def)
    from h z(1) obtain y where y: "users S2 u = Some y"
      "ac_credentials_changed z = ac_credentials_changed y \<or> now \<le> ac_credentials_changed z"
      "ac_is_active y = Some True \<longrightarrow> ac_is_active z = Some True" by blast
    from y(2) z(2) S0(3,4) have "ac_credentials_changed y \<noteq> now" by auto
    with act_changes [OF act(1,2) wf1] y(1) act(3)
    have on: "ac_is_active y = Some True" and off: "map_option ac_is_active (users S1 u) \<noteq> Some (Some True)" by auto
    from on y(3) z(3) have "ac_is_active x0 = Some True" by simp
    from keeps_act [OF act(1) wf1, of u] y(1) obtain v where v: "users S1 u = Some v"
      by (auto simp: keeps_def evolves_def)
    from history_account [OF before S0(1)] v S0(2) \<open>ac_is_active x0 = Some True\<close> have "ac_is_active v = Some True" by auto
    with off v show False by simp
  qed
  with h show ?thesis by blast
qed

text \<open>C27: Codes are spent. Once an action that changes credentials has been carried out (activation of an
  account that was not active, change of address or password, creation of a first factor, deletion of
  the account), no code made at any earlier time for an action of that user that rests on the
  credentials (activation, change of address, creation of a factor, new password, deletion; not the
  outreach preference, the confirmation of the account or a renewal) is accepted at any later time,
  whatever operations of the model happened in between: its state does not validate, and posting it to
  any view fails.\<close>

theorem credentials_change_spends_codes:
  assumes "lawful_lib L" and "wf_store S0"
    and issued: "state L S0 b = Inr w" "credential_bound b" "carries L code (action_data L w b)"
      "\<forall>x. users S0 (action_user b) = Some x \<longrightarrow> ac_credentials_changed x \<le> t0"
    and before: "account_history L (action_user b) t0 S0 now S1" and "t0 < now"
    and act: "act L now new_id (a, True) S1 = (Inr (), S2)" "changes_credentials S1 a" "action_user a = action_user b"
    and after: "account_history L (action_user b) now S2 t S3"
  shows "(\<exists>e. instantiate L S3 b (Some w) = Inl e) \<and>
    (\<exists>e. fst (post_action L email_ok standard t i k code data captcha S3) = Inl e)"
proof -
  from issued(1) obtain vs where f: "state_fields L S0 b = Inr vs" by (rule state_atoms)
  then obtain x0 where x0: "users S0 (action_user b) = Some x0" by (rule fields_user)
  from credentials_differ [OF assms(2) x0 _ assms(8) before act after] issued(4) x0
  have wf3: "wf_store S3" and "\<not> same_user credentials S0 S3 (action_user b)" by auto
  then have differ: "\<not> state_agrees S0 S3 b" using agrees_credentials [OF issued(2)] by blast
  have "instantiate L S3 b (Some w) \<noteq> Inr r" for r
  proof
    assume "instantiate L S3 b (Some w) = Inr r"
    then have "state L S3 b = Inr w" using instantiate_Inr by blast
    from state_eq_fields [OF _ issued(1) this] assms(1) fields_agree [OF assms(1,2) wf3] differ
    show False by (auto simp: lawful_lib_def)
  qed
  moreover have "post_action L email_ok standard t i k code data captcha S3 \<noteq> (Inr r, T)" for r T
    using differ by (auto elim!: posted_code [OF assms(1,2) wf3 issued(1,3)])
  ultimately show ?thesis by (metis prod.collapse sum.exhaust)
qed

text \<open>A code for deleting the account, made at time 4; the password is set at time 9, between two logins.\<close>

theorem credentials_change_spends_codes_witness:
  "\<exists>data w S2 e. state (example_lib data) example_store (DeleteUser 1) = Inr w \<and>
     act (example_lib data) 9 0 (example_reset, True) (login 6 1 5 example_store) = (Inr (), S2) \<and>
     instantiate (example_lib data) (login 7 1 11 S2) (DeleteUser 1) (Some w) = Inl e"
proof -
  obtain w where w: "\<And>data. state (example_lib data) example_store (DeleteUser 1) = Inr w"
    by (simp add: state_def fields_defs example_store_def example_lib_def example_account_def
        state_of_def py_bool_option_def result_simps)
  let ?d = "action_data (example_lib PyNone) w (DeleteUser 1)"
  let ?L = "example_lib ?d"
  let ?S1 = "login 6 1 5 example_store"
  have carries: "carries ?L ''code'' (action_data ?L w (DeleteUser 1))"
    using example_unpack [of ?d] by (simp add: carries_def action_data_def example_lib_def)
  obtain S2 where act: "\<And>data. act (example_lib data) 9 0 (example_reset, True) ?S1 = (Inr (), S2)"
    by (simp add: act_def atomic_def example_reset_def change_password_def get_user_def example_store_def
        send_email_def lanes_def Let_def login_def example_lib_def)
  note h = account_history.step [OF account_history.step [OF account_history.start _ account_step.sign_in]
    _ account_step.idle]
  have before: "account_history ?L 1 4 example_store 9 ?S1" by (rule h) simp_all
  have after: "account_history ?L 1 9 S2 12 (login 7 1 11 S2)" by (rule h) simp_all
  have spent: "\<exists>e. instantiate ?L (login 7 1 11 S2) (DeleteUser 1) (Some w) = Inl e"
    by (rule conjunct1 [OF credentials_change_spends_codes [OF lawful_example_lib wf_example_store w _ carries _ _ _ act
      _ _ , of 4, unfolded auth_action.simps action_user.simps credential_bound.simps, OF _ _ before _ _ _ after]])
      (simp_all add: example_reset_def example_store_def example_account_def)
  from w [of ?d] act [of ?d] spent show ?thesis by blast
qed

end
