(* ===== verification/Authentication.thy ===== *)
theory Authentication
  imports Users DynDns
begin

text \<open>
  Authentication of requests (\<open>authentication.py\<close>): by token, and by HTTP basic credentials or URL
  parameters on the dynDNS endpoint. What the parent class of Django REST framework does (read the
  key from the token header; look up a hashed key and its user) is a parameter, with the documented
  behaviour in \<open>finds_active\<close>; so are the hash of a key and base64. Headers are ASCII. The
  check of address and password is all Django REST framework and has no model.
\<close>

section \<open>Environment\<close>

text \<open>\<open>token_header\<close> is the key in a header, \<open>None\<close> without a token header, or the message of the
  refusal. \<open>find_token\<close> is \<open>authenticate_credentials\<close> of the parent class: the user, the number and
  the token, or the message of the refusal.\<close>

record auth_env =
  make_hash :: "string \<Rightarrow> string"
  token_header :: "string \<Rightarrow> (string, string option) result"
  find_token :: "store \<Rightarrow> string \<Rightarrow> (string, account \<times> nat \<times> token) result"
  token_subnets :: "nat \<Rightarrow> subnet list"
  b64decode :: "string \<Rightarrow> string option"

datatype auth_failure = AuthenticationFailed string

type_synonym credentials = "account \<times> token"

text \<open>\<open>bytes.split()\<close>\<close>

definition is_bytes_space :: "char \<Rightarrow> bool" where
  "is_bytes_space c \<longleftrightarrow> of_char c \<in> ({9, 10, 11, 12, 13, 32} :: nat set)"

fun split_ws :: "string \<Rightarrow> string list" where
  "split_ws [] = []"
| "split_ws (c # s) =
     (if is_bytes_space c then split_ws s
      else case s of
             [] \<Rightarrow> [[c]]
           | d # _ \<Rightarrow>
               if is_bytes_space d then [c] # split_ws s
               else (case split_ws s of [] \<Rightarrow> [[c]] | w # ws \<Rightarrow> (c # w) # ws))"

section \<open>Tokens\<close>

text \<open>\<open>client_ip in subnet\<close>\<close>

definition ip_in :: "ip \<Rightarrow> subnet \<Rightarrow> bool" where
  "ip_in a s \<longleftrightarrow> same_version (network_address s) a \<and>
     ip_int a div 2 ^ (ip_bits a - prefixlen s) = ip_int (network_address s) div 2 ^ (ip_bits a - prefixlen s)"

text \<open>\<open>TokenAuthentication.authenticate_credentials\<close>: the use is recorded. The save would add a default policy to a token with
  \<open>auto_policy\<close> and none, which no reachable token is.\<close>

definition token_credentials :: "auth_env \<Rightarrow> int \<Rightarrow> string \<Rightarrow> (store, auth_failure, credentials) io" where
  "token_credentials E now key S =
     (case find_token E S (make_hash E key) of
        Inl msg \<Rightarrow> (Inl (AuthenticationFailed msg), S)
      | Inr (u, i, t) \<Rightarrow>
          if \<not> is_valid now t then (Inl (AuthenticationFailed ''Invalid token.''), S)
          else
            let t' = t\<lparr>t_last_used := Some now\<rparr> in
            (Inr (u, t'), S\<lparr>utokens := (utokens S)(i \<mapsto> t')\<rparr>))"

text \<open>\<open>TokenAuthentication.authenticate\<close>: \<open>None\<close> without a token header.\<close>

definition token_authenticate ::
  "auth_env \<Rightarrow> int \<Rightarrow> string \<Rightarrow> ip \<Rightarrow> (store, auth_failure, credentials option) io" where
  "token_authenticate E now header client_ip =
     (case token_header E header of
        Inl msg \<Rightarrow> io_raise (AuthenticationFailed msg)
      | Inr None \<Rightarrow> io_return None
      | Inr (Some key) \<Rightarrow>
          io_bind (token_credentials E now key) (\<lambda>(u, t).
            if \<not> (\<exists>s \<in> set (token_subnets E (t_id t)). ip_in client_ip s)
            then io_raise (AuthenticationFailed ''Invalid token.'')
            else io_return (Some (u, t))))"

section \<open>dynDNS credentials\<close>

definition domains_of :: "store \<Rightarrow> nat \<Rightarrow> domain list" where
  "domains_of S u = map (\<lambda>d. \<lparr>m_name = m_name d, m_owner = m_owner d\<rparr>) (filter (\<lambda>d. m_owner d = u) (udomains S))"

text \<open>\<open>DynAuthenticationMixin.authenticate_credentials\<close>\<close>

definition dyn_credentials :: "auth_env \<Rightarrow> int \<Rightarrow> string \<Rightarrow> string \<Rightarrow> (store, auth_failure, credentials) io" where
  "dyn_credentials E now username key =
     io_bind (token_credentials E now key) (\<lambda>(u, t) S.
       if username = [] \<or> username = ac_email u \<or> filter_qname (domains_of S (ac_id u)) (lower username) \<noteq> []
       then (Inr (u, t), S) else (Inl (AuthenticationFailed []), S))"

text \<open>Any exception becomes \<open>badauth\<close>.\<close>

definition badauth :: "(store, auth_failure, 'a) io \<Rightarrow> (store, auth_failure, 'a) io" where
  "badauth m = io_catch m (\<lambda>_. io_raise (AuthenticationFailed ''badauth''))"

definition basic_authenticate :: "auth_env \<Rightarrow> int \<Rightarrow> string \<Rightarrow> (store, auth_failure, credentials option) io" where
  "basic_authenticate E now header =
     (case split_ws header of
        [] \<Rightarrow> io_return None
      | w # ws \<Rightarrow>
          if lower w \<noteq> ''basic'' then io_return None
          else (case ws of
                  [] \<Rightarrow> io_raise (AuthenticationFailed ''Invalid basic auth token header. No credentials provided.'')
                | [c] \<Rightarrow>
                    (case b64decode E c of
                       None \<Rightarrow> io_raise (AuthenticationFailed ''badauth'')
                     | Some text \<Rightarrow>
                         (case split_on CHR '':'' text of
                            [username, key] \<Rightarrow>
                              badauth (io_bind (dyn_credentials E now username key) (\<lambda>c. io_return (Some c)))
                          | _ \<Rightarrow> io_raise (AuthenticationFailed ''badauth'')))
                | _ \<Rightarrow> io_raise (AuthenticationFailed
                    ''Invalid basic auth token header. Basic authentication string should not contain spaces.'')))"

definition url_authenticate ::
  "auth_env \<Rightarrow> int \<Rightarrow> (string \<times> string) list \<Rightarrow> (store, auth_failure, credentials option) io" where
  "url_authenticate E now params =
     (case (map_of params ''username'', map_of params ''password'') of
        (None, _) \<Rightarrow> io_raise (AuthenticationFailed ''No username URL parameter provided.'')
      | (_, None) \<Rightarrow> io_raise (AuthenticationFailed ''No password URL parameter provided.'')
      | (Some username, Some key) \<Rightarrow>
          badauth (io_bind (dyn_credentials E now username key) (\<lambda>c. io_return (Some c))))"

text \<open>The first class that returns credentials or raises decides: the order of the dynDNS view.\<close>

definition dyn_authenticate ::
  "auth_env \<Rightarrow> int \<Rightarrow> string \<Rightarrow> ip \<Rightarrow> (string \<times> string) list \<Rightarrow> (store, auth_failure, credentials option) io" where
  "dyn_authenticate E now header client_ip params =
     io_bind (token_authenticate E now header client_ip) (\<lambda>c.
       if c \<noteq> None then io_return c
       else io_bind (basic_authenticate E now header) (\<lambda>c.
         if c \<noteq> None then io_return c else url_authenticate E now params))"

end
