(* ===== verification/AuthenticationCorrect.thy ===== *)
theory AuthenticationCorrect
  imports Authentication DynDnsCorrect
begin

text \<open>
  Which requests authentication lets through, and what it leaves behind: valid tokens of active
  users only, from allowed addresses for the token header, and for dynDNS credentials only with a
  user name that is blank, the user's address, or a name in one of the user's domains.
\<close>

section \<open>Token header\<close>

text \<open>What Django REST framework documents of the lookup: it returns a stored token and its active user.\<close>

definition finds_active :: "auth_env \<Rightarrow> bool" where
  "finds_active E \<longleftrightarrow>
     (\<forall>S h u i t. find_token E S h = Inr (u, i, t) \<longrightarrow>
        utokens S i = Some t \<and> users S (token_user t) = Some u \<and> ac_is_active u = Some True)"

definition good_token :: "auth_env \<Rightarrow> int \<Rightarrow> store \<Rightarrow> string \<Rightarrow> account \<Rightarrow> nat \<Rightarrow> token \<Rightarrow> bool" where
  "good_token E now S key u i t \<longleftrightarrow> find_token E S (make_hash E key) = Inr (u, i, t) \<and> is_valid now t"

lemma token_credentials_Inr:
  "token_credentials E now key S = (Inr (u, t'), S') \<longleftrightarrow>
     (\<exists>i t. good_token E now S key u i t \<and>
        t' = t\<lparr>t_last_used := Some now\<rparr> \<and> S' = S\<lparr>utokens := (utokens S)(i \<mapsto> t')\<rparr>)"
  by (auto simp: token_credentials_def good_token_def Let_def split: sum.splits if_splits)

text \<open>C28: The token header authenticates exactly the requests that present the key of a token which is
  within its age and usage limits and allows the address of the client; the use is recorded in the
  token and nothing else changes.\<close>

theorem token_authenticate_iff:
  "token_authenticate E now header client_ip S = (Inr (Some (u, t')), S') \<longleftrightarrow>
     (\<exists>key i t. token_header E header = Inr (Some key) \<and> good_token E now S key u i t \<and>
        (\<exists>s \<in> set (token_subnets E (t_id t)). ip_in client_ip s) \<and>
        t' = t\<lparr>t_last_used := Some now\<rparr> \<and> S' = S\<lparr>utokens := (utokens S)(i \<mapsto> t')\<rparr>)"
  (is "?l \<longleftrightarrow> ?r")
proof
  assume ?l
  then obtain key where key: "token_header E header = Inr (Some key)"
    by (auto simp: token_authenticate_def split: sum.split_asm option.split_asm)
  with \<open>?l\<close> obtain v t S1 where c: "token_credentials E now key S = (Inr (v, t), S1)"
    and rest: "(if \<not> (\<exists>s \<in> set (token_subnets E (t_id t)). ip_in client_ip s)
      then io_raise (AuthenticationFailed ''Invalid token.'') else io_return (Some (v, t))) S1 = (Inr (Some (u, t')), S')"
    by (auto simp: token_authenticate_def io_bind_Inr_iff)
  from rest have "\<exists>s \<in> set (token_subnets E (t_id t)). ip_in client_ip s" "v = u" "t = t'" "S1 = S'"
    by (auto split: if_split_asm)
  with c key show ?r by (fastforce simp: token_credentials_Inr)
next
  assume ?r
  then obtain key i t where r: "token_header E header = Inr (Some key)" "good_token E now S key u i t"
    "\<exists>s \<in> set (token_subnets E (t_id t)). ip_in client_ip s"
    "t' = t\<lparr>t_last_used := Some now\<rparr>" "S' = S\<lparr>utokens := (utokens S)(i \<mapsto> t')\<rparr>" by blast
  then have "token_credentials E now key S = (Inr (u, t'), S')" by (auto simp: token_credentials_Inr)
  with r show ?l by (simp add: token_authenticate_def io_bind_def)
qed

section \<open>dynDNS\<close>

lemma dyn_credentials_Inr:
  assumes "dyn_credentials E now username key S = (Inr (u, t'), S')"
  shows "(\<exists>i t. good_token E now S key u i t \<and> t' = t\<lparr>t_last_used := Some now\<rparr>) \<and>
    (username = [] \<or> username = ac_email u \<or> filter_qname (domains_of S' (ac_id u)) (lower username) \<noteq> [])"
  using assms
  by (auto simp: dyn_credentials_def io_bind_Inr_iff token_credentials_Inr split: if_splits)

text \<open>The user name and key a request gives: in basic credentials or as URL parameters.\<close>

definition presents :: "auth_env \<Rightarrow> string \<Rightarrow> (string \<times> string) list \<Rightarrow> string \<Rightarrow> string \<Rightarrow> bool" where
  "presents E header params username key \<longleftrightarrow>
     (\<exists>w c text. split_ws header = [w, c] \<and> lower w = ''basic'' \<and> b64decode E c = Some text \<and>
        split_on CHR '':'' text = [username, key]) \<or>
     (map_of params ''username'' = Some username \<and> map_of params ''password'' = Some key)"

lemma badauth_Inr: "badauth m S = (Inr x, S') \<longleftrightarrow> m S = (Inr x, S')"
  by (auto simp: badauth_def io_catch_def split: prod.splits sum.splits)

lemma basic_Inr:
  assumes "basic_authenticate E now header S = (Inr (Some c), S')"
  shows "\<exists>username key. presents E header params username key \<and> dyn_credentials E now username key S = (Inr c, S')"
proof -
  from assms obtain w ws where w: "split_ws header = w # ws" "lower w = ''basic''"
    by (auto simp: basic_authenticate_def split: list.split_asm if_split_asm)
  with assms obtain x where x: "ws = [x]"
    by (auto simp: basic_authenticate_def split: list.split_asm)
  with assms w obtain dec where dec: "b64decode E x = Some dec"
    by (auto simp: basic_authenticate_def split: option.split_asm)
  with assms w x obtain username key where u: "split_on CHR '':'' dec = [username, key]"
    by (auto simp: basic_authenticate_def split: list.split_asm)
  with assms w x dec u have "dyn_credentials E now username key S = (Inr c, S')"
    by (auto simp: basic_authenticate_def badauth_Inr io_bind_Inr_iff)
  with w x dec u show ?thesis by (auto simp: presents_def)
qed

lemma basic_None: "basic_authenticate E now header S = (Inr None, S') \<Longrightarrow> S' = S"
  by (auto simp: basic_authenticate_def badauth_Inr io_bind_Inr_iff
      split: list.split_asm if_split_asm option.split_asm)

lemma url_Inr:
  assumes "url_authenticate E now params S = (Inr (Some c), S')"
  shows "\<exists>username key. presents E header params username key \<and> dyn_credentials E now username key S = (Inr c, S')"
  using assms
  by (auto simp: url_authenticate_def presents_def badauth_Inr io_bind_Inr_iff split: option.split_asm)

lemma token_None: "token_authenticate E now header ip S = (Inr None, S') \<Longrightarrow> S' = S"
  by (auto simp: token_authenticate_def io_bind_Inr_iff split: sum.split_asm option.split_asm if_split_asm)

text \<open>C29: A dynDNS request is authenticated only by a token header as above, or by a user name and key,
  given as basic credentials or URL parameters, where the key is that of a stored valid token of an
  active user and the name is blank, the address of that user, or (in lower case) a name in one of the
  user's domains. The use is recorded in the token.\<close>

theorem dyn_authenticate_sound:
  assumes "finds_active E"
    and "dyn_authenticate E now header client_ip params S = (Inr (Some (u, t')), S')"
  shows "token_authenticate E now header client_ip S = (Inr (Some (u, t')), S') \<or>
    (\<exists>username key i t. presents E header params username key \<and> good_token E now S key u i t \<and>
       utokens S i = Some t \<and> users S (token_user t) = Some u \<and> ac_is_active u = Some True \<and>
       t' = t\<lparr>t_last_used := Some now\<rparr> \<and>
       (username = [] \<or> username = ac_email u \<or>
        (\<exists>d \<in> set (udomains S). m_owner d = ac_id u \<and> dotted_suffix (m_name d) (lower username))))"
proof -
  have creds: ?thesis if g: "presents E header params username key"
    and c: "dyn_credentials E now username key S = (Inr (u, t'), S')" for username key
  proof -
    from c have ud: "udomains S' = udomains S"
      by (auto simp: dyn_credentials_def io_bind_Inr_iff token_credentials_Inr split: if_splits)
    have "\<exists>d \<in> set (udomains S). m_owner d = ac_id u \<and> dotted_suffix (m_name d) (lower username)"
      if "filter_qname (domains_of S' (ac_id u)) (lower username) \<noteq> []"
    proof -
      from that obtain e where "e \<in> set (filter_qname (domains_of S' (ac_id u)) (lower username))"
        by (metis list.set_intros(1) neq_Nil_conv)
      then show ?thesis using ud by (auto simp: filter_qname_def domains_of_def split: if_splits)
    qed
    with dyn_credentials_Inr [OF c] g assms(1) show ?thesis unfolding finds_active_def good_token_def by blast
  qed
  from assms(2) obtain c S1 where tok: "token_authenticate E now header client_ip S = (Inr c, S1)"
    and rest: "(if c \<noteq> None then io_return c else io_bind (basic_authenticate E now header) (\<lambda>c.
      if c \<noteq> None then io_return c else url_authenticate E now params)) S1 = (Inr (Some (u, t')), S')"
    by (auto simp: dyn_authenticate_def io_bind_Inr_iff)
  show ?thesis
  proof (cases "c = None")
    case False
    with tok rest show ?thesis by auto
  next
    case True
    with tok have "S1 = S" using token_None by blast
    with True rest obtain c2 S2 where b: "basic_authenticate E now header S = (Inr c2, S2)"
      and rest2: "(if c2 \<noteq> None then io_return c2 else url_authenticate E now params) S2 = (Inr (Some (u, t')), S')"
      by (auto simp: io_bind_Inr_iff)
    show ?thesis
    proof (cases "c2 = None")
      case False
      with b rest2 have "basic_authenticate E now header S = (Inr (Some (u, t')), S')" by auto
      with basic_Inr creds show ?thesis by blast
    next
      case True
      with b have "S2 = S" using basic_None by blast
      with True rest2 have "url_authenticate E now params S = (Inr (Some (u, t')), S')" by simp
      with url_Inr creds show ?thesis by blast
    qed
  qed
qed

text \<open>The list of allowed addresses plays no part in basic credentials and URL parameters.\<close>

lemma subnets_ignored:
  assumes "token_header E [] = Inr None" and "presents E [] params username key" and "dyn_credentials E now username key S = (Inr (u, t), S')"
  shows "\<exists>c. dyn_authenticate (E\<lparr>token_subnets := \<lambda>_. []\<rparr>) now [] client_ip params S = (Inr (Some c), S')"
proof -
  have "dyn_credentials (E\<lparr>token_subnets := \<lambda>_. []\<rparr>) now username key = dyn_credentials E now username key"
    by (simp add: dyn_credentials_def token_credentials_def fun_eq_iff io_bind_def)
  then show ?thesis using assms
    by (auto simp: dyn_authenticate_def token_authenticate_def basic_authenticate_def url_authenticate_def presents_def
        badauth_def io_catch_def io_bind_def)
qed

section \<open>Examples\<close>

definition example_env :: auth_env where
  "example_env = \<lparr>make_hash = (\<lambda>k. ''#'' @ k), token_header = (\<lambda>h. Inr None),
     find_token = (\<lambda>S h.
       if h \<noteq> ''#key'' then Inl ''Invalid token.''
       else case utokens S 1 of
              None \<Rightarrow> Inl ''Invalid token.''
            | Some t \<Rightarrow> (case users S (token_user t) of
                  None \<Rightarrow> Inl ''Invalid token.''
                | Some u \<Rightarrow> if ac_is_active u = Some True then Inr (u, 1, t)
                           else Inl ''User inactive or deleted.'')),
     token_subnets = (\<lambda>_. []), b64decode = (\<lambda>s. None)\<rparr>"

lemma example_env_finds_active: "finds_active example_env"
  by (auto simp: finds_active_def example_env_def split: if_splits option.splits)

definition example_accounts :: store where
  "example_accounts = \<lparr>users = [7 \<mapsto> \<lparr>ac_id = 7, ac_email = ''a@b.c'', ac_email_verified = None,
       ac_is_active = Some True, ac_credentials_changed = 0, ac_needs_captcha = False, ac_outreach = True,
       ac_password = ''pw'', ac_limit_domains = None\<rparr>],
     factors = [], captchas = [], udomains = [], utokens = [1 \<mapsto> example_token], token_names = (\<lambda>i. []), outbox = []\<rparr>"

theorem dyn_authenticate_sound_witness:
  "\<exists>u t S'. dyn_authenticate example_env 5 [] (V4 0) [(''username'', ''a@b.c''), (''password'', ''key'')] example_accounts =
     (Inr (Some (u, t)), S') \<and> good_token example_env 5 example_accounts ''key'' u 1 example_token"
proof -
  have v: "is_valid 5 example_token" "token_user example_token = 7"
    by (simp_all add: is_valid_def token_user_def example_token_def)
  have "\<exists>u t S'. dyn_authenticate example_env 5 [] (V4 0) [(''username'', ''a@b.c''), (''password'', ''key'')]
      example_accounts = (Inr (Some (u, t)), S')"
    by (simp add: dyn_authenticate_def token_authenticate_def basic_authenticate_def url_authenticate_def
        badauth_def io_catch_def io_bind_def dyn_credentials_def token_credentials_def example_env_def
        example_accounts_def v Let_def)
  then obtain u t S' where d: "dyn_authenticate example_env 5 [] (V4 0)
      [(''username'', ''a@b.c''), (''password'', ''key'')] example_accounts = (Inr (Some (u, t)), S')" by blast
  from dyn_authenticate_sound [OF example_env_finds_active d] obtain key i t0
    where "good_token example_env 5 example_accounts key u i t0"
    by (auto simp: token_authenticate_def example_env_def)
  moreover have "key = ''key''" "i = 1" "t0 = example_token" if "good_token example_env 5 example_accounts key u i t0" for key i t0
    using that by (auto simp: good_token_def example_env_def example_accounts_def split: if_splits)
  ultimately show ?thesis using d by blast
qed

end
