(* ===== verification/Throttling.thy ===== *)
theory Throttling
  imports Pdns
begin

text \<open>
  Request throttling (\<open>throttling.py\<close>): several rates per scope, each a sliding window over the
  times of the requests that were let through, kept in a cache; and the bound that holds for every
  window. Times are seconds; SHA-1 is the parameter of the environment of \<open>Pdns\<close>.
\<close>

section \<open>Rates\<close>

text \<open>\<open>int(num)\<close> on digits, \<open>str.isdigit\<close>, \<open>str.isalpha\<close>\<close>

definition is_digit :: "char \<Rightarrow> bool" where
  "is_digit c \<longleftrightarrow> (let n = (of_char c :: nat) in 48 \<le> n \<and> n \<le> 57)"

definition is_alpha :: "char \<Rightarrow> bool" where
  "is_alpha c \<longleftrightarrow> (let n = (of_char c :: nat) in (65 \<le> n \<and> n \<le> 90) \<or> (97 \<le> n \<and> n \<le> 122))"

definition parse_int :: "string \<Rightarrow> nat option" where
  "parse_int s =
     (if s = [] \<or> \<not> list_all is_digit s then None
      else Some (fold (\<lambda>c n. 10 * n + (of_char c - 48)) s 0))"

definition durations :: "(string \<times> nat) list" where
  "durations = [(''s'', 1), (''m'', 60), (''2m'', 120), (''h'', 3600), (''d'', 86400)]"

datatype rate_error = RateValueError | RateKeyError | RateStopIteration

definition parse_rate :: "string \<Rightarrow> (rate_error, nat \<times> nat) result" where
  "parse_rate rate =
     (case split_on CHR ''/'' rate of
        [num, period] \<Rightarrow>
          (case parse_int num of
             None \<Rightarrow> Inl RateValueError
           | Some num_requests \<Rightarrow>
               (case filter is_alpha period of
                  [] \<Rightarrow> Inl RateStopIteration
                | unit # _ \<Rightarrow>
                    (case map_of durations (filter is_digit period @ [unit]) of
                       None \<Rightarrow> Inl RateKeyError | Some duration \<Rightarrow> Inr (num_requests, duration))))
      | _ \<Rightarrow> Inl RateValueError)"

definition parse_rates :: "string list \<Rightarrow> (rate_error, (nat \<times> nat) list) result" where
  "parse_rates rates = rmap parse_rate rates"

section \<open>The sliding windows\<close>

text \<open>A history per duration, newest first. \<open>cache\<close> holds the histories until \<open>expires\<close>.\<close>

record throttle =
  cache :: "nat \<rightharpoonup> int list"
  expires :: int

definition drop_old :: "int \<Rightarrow> nat \<Rightarrow> int list \<Rightarrow> int list" where
  "drop_old now duration history = rev (dropWhile (\<lambda>t. t \<le> now - int duration) (rev history))"

definition get_history :: "throttle \<Rightarrow> int \<Rightarrow> nat \<Rightarrow> int list" where
  "get_history T now duration =
     (if now < expires T then (case cache T duration of None \<Rightarrow> [] | Some h \<Rightarrow> h) else [])"

text \<open>The loop over the rates: \<open>None\<close> when one is exhausted.\<close>

fun check_rates :: "int \<Rightarrow> (nat \<times> nat) list \<Rightarrow> (nat \<Rightarrow> int list) \<Rightarrow> (nat \<Rightarrow> int list) option" where
  "check_rates now [] H = Some H"
| "check_rates now ((num_requests, duration) # rates) H =
     (let history = drop_old now duration (H duration) in
      if num_requests \<le> length history then None
      else check_rates now rates (H(duration := history)))"

text \<open>\<open>allow_request\<close> and \<open>throttle_success\<close> for the rates of a scope.\<close>

definition allow_request :: "int \<Rightarrow> (nat \<times> nat) list \<Rightarrow> throttle \<Rightarrow> bool \<times> throttle" where
  "allow_request now rates T =
     (case check_rates now rates (get_history T now) of
        None \<Rightarrow> (False, T)
      | Some H \<Rightarrow>
          (True, \<lparr>cache = (\<lambda>d. if d \<in> snd ` set rates then Some (now # H d) else cache T d),
                  expires = now + int (Max (snd ` set rates))\<rparr>))"

text \<open>Without a scope or without rates every request passes.\<close>

definition scoped_allow :: "string option \<Rightarrow> (string \<rightharpoonup> (nat \<times> nat) list) \<Rightarrow> int \<Rightarrow> throttle \<Rightarrow> bool \<times> throttle" where
  "scoped_allow scope rates_of now T =
     (case scope of
        None \<Rightarrow> (True, T)
      | Some s \<Rightarrow> if s = [] then (True, T)
                 else (case rates_of s of None \<Rightarrow> (True, T) | Some rates \<Rightarrow> allow_request now rates T))"

text \<open>The scope with its bucket, and the cache key of a rate.\<close>

definition bucket_scope :: "'w env \<Rightarrow> string \<Rightarrow> string option \<Rightarrow> string" where
  "bucket_scope E scope bucket = (case bucket of None \<Rightarrow> scope | Some b \<Rightarrow> scope @ '':'' @ sha1_hex E b)"

definition rate_key :: "string \<Rightarrow> nat \<Rightarrow> string" where
  "rate_key key duration = key @ ''_'' @ show_nat duration"

text \<open>\<open>UserRateThrottle.get_rate\<close>\<close>

definition user_rate :: "nat option \<Rightarrow> string \<Rightarrow> string" where
  "user_rate throttle_daily_rate standard =
     (case throttle_daily_rate of None \<Rightarrow> standard | Some n \<Rightarrow> show_nat n @ ''/d'')"

section \<open>The bound\<close>

text \<open>A sequence of requests at given times; the result are the times of those let through, newest
  first.\<close>

fun serve :: "(nat \<times> nat) list \<Rightarrow> int list \<Rightarrow> throttle \<Rightarrow> int list \<Rightarrow> int list \<times> throttle" where
  "serve rates [] T acc = (acc, T)"
| "serve rates (now # arrivals) T acc =
     (case allow_request now rates T of
        (True, T') \<Rightarrow> serve rates arrivals T' (now # acc)
      | (False, T') \<Rightarrow> serve rates arrivals T' acc)"

definition recent :: "int \<Rightarrow> nat \<Rightarrow> int list \<Rightarrow> int list" where
  "recent now duration ts = filter (\<lambda>t. now - int duration < t) ts"

text \<open>The histories know the recent requests.\<close>

definition history_ok :: "(nat \<times> nat) list \<Rightarrow> int \<Rightarrow> throttle \<Rightarrow> int list \<Rightarrow> bool" where
  "history_ok rates now T acc \<longleftrightarrow>
     sorted_wrt (\<ge>) acc \<and> (\<forall>t \<in> set acc. t \<le> now) \<and>
     (\<forall>(num, d) \<in> set rates. sorted_wrt (\<ge>) (get_history T now d) \<and>
        recent now d (get_history T now d) = recent now d acc)"

lemma drop_old_recent: "sorted_wrt (\<ge>) h \<Longrightarrow> drop_old now d h = recent now d h"
proof (induction h rule: rev_induct)
  case Nil
  then show ?case by (simp add: drop_old_def recent_def)
next
  case (snoc t h)
  show ?case
  proof (cases "t \<le> now - int d")
    case True
    with snoc show ?thesis by (simp add: drop_old_def recent_def sorted_wrt_append)
  next
    case False
    with snoc.prems have "filter (\<lambda>s. now - int d < s) h = h"
      by (intro filter_True) (auto simp: sorted_wrt_append)
    with False show ?thesis by (simp add: drop_old_def recent_def)
  qed
qed

lemma recent_later: "now \<le> now' \<Longrightarrow> recent now' d (recent now d h) = recent now' d h"
  by (auto simp: recent_def intro!: filter_cong)

lemma recent_sorted: "sorted_wrt (\<ge>) h \<Longrightarrow> sorted_wrt (\<ge>) (recent now d h)"
  by (simp add: recent_def sorted_wrt_filter)

lemma check_rates_Some:
  assumes "check_rates now rates H = Some H'" and "\<forall>(num, d) \<in> set rates. sorted_wrt (\<ge>) (H d)"
  shows "\<forall>(num, d) \<in> set rates. H' d = recent now d (H d) \<and> length (H' d) < num"
    "\<forall>d. d \<notin> snd ` set rates \<longrightarrow> H' d = H d"
  using assms
proof (induction rates arbitrary: H)
  case Nil
  { case 1 then show ?case by simp }
  { case 2 then show ?case by simp }
next
  case (Cons r rates)
  obtain num d where r: "r = (num, d)" by (cases r)
  have idem: "recent now e (recent now e h) = recent now e h" for e h by (simp add: recent_def)
  { case 1
    let ?H = "H(d := drop_old now d (H d))"
    have dr: "drop_old now d (H d) = recent now d (H d)" using 1(2) r by (intro drop_old_recent) auto
    from 1(1) r have less: "length (drop_old now d (H d)) < num" and rest: "check_rates now rates ?H = Some H'"
      by (auto simp: Let_def split: if_splits)
    have sorted: "\<forall>(num, e) \<in> set rates. sorted_wrt (\<ge>) (?H e)"
      using 1(2) r dr recent_sorted by auto
    note IH = Cons.IH [OF rest sorted]
    have "H' d = recent now d (H d)"
    proof (cases "d \<in> snd ` set rates")
      case True
      with IH(1) dr idem show ?thesis by auto
    next
      case False
      with IH(2) dr show ?thesis by simp
    qed
    with IH(1) r less dr idem show ?case by (auto split: if_splits) }
  { case 2
    let ?H = "H(d := drop_old now d (H d))"
    have dr: "drop_old now d (H d) = recent now d (H d)" using 2(2) r by (intro drop_old_recent) auto
    from 2(1) r have rest: "check_rates now rates ?H = Some H'" by (auto simp: Let_def split: if_splits)
    have sorted: "\<forall>(num, e) \<in> set rates. sorted_wrt (\<ge>) (?H e)"
      using 2(2) r dr recent_sorted by auto
    from Cons.IH(2) [OF rest sorted] r show ?case by auto }
qed

lemma history_ok_later:
  assumes "history_ok rates now T acc" and "now \<le> now'"
    and "\<forall>t \<in> set acc. \<forall>d \<in> snd ` set rates. t + int d \<le> expires T"
  shows "history_ok rates now' T acc"
proof -
  have "sorted_wrt (\<ge>) (get_history T now' d) \<and> recent now' d (get_history T now' d) = recent now' d acc"
    if r: "(num, d) \<in> set rates" for num d
  proof (cases "now' < expires T")
    case True
    then have h: "get_history T now' d = get_history T now d" using assms(2) by (simp add: get_history_def)
    have "recent now' d (get_history T now d) = recent now' d (recent now d (get_history T now d))"
      by (simp add: recent_later [OF assms(2)])
    also have "recent now d (get_history T now d) = recent now d acc"
      using assms(1) r by (auto simp: history_ok_def)
    also have "recent now' d \<dots> = recent now' d acc" by (rule recent_later [OF assms(2)])
    finally show ?thesis using assms(1) r h by (auto simp: history_ok_def)
  next
    case False
    have "recent now' d acc = []"
      using False assms(3) r by (force simp: recent_def filter_empty_conv)
    then show ?thesis using False by (simp add: get_history_def recent_def)
  qed
  with assms(1,2) show ?thesis by (auto simp: history_ok_def)
qed

text \<open>The windows that end at a request let through.\<close>

definition windows_ok :: "(nat \<times> nat) list \<Rightarrow> int list \<Rightarrow> bool" where
  "windows_ok rates acc \<longleftrightarrow>
     (\<forall>k < length acc. \<forall>(num, d) \<in> set rates. length (recent (acc ! k) d (drop k acc)) \<le> num)"

definition state_ok :: "(nat \<times> nat) list \<Rightarrow> int \<Rightarrow> throttle \<Rightarrow> int list \<Rightarrow> bool" where
  "state_ok rates now T acc \<longleftrightarrow> history_ok rates now T acc \<and> windows_ok rates acc \<and>
     (\<forall>t \<in> set acc. \<forall>d \<in> snd ` set rates. t + int d \<le> expires T)"

lemma check_rates_iff:
  assumes "\<forall>(num, d) \<in> set rates. sorted_wrt (\<ge>) (H d)"
  shows "check_rates now rates H \<noteq> None \<longleftrightarrow> (\<forall>(num, d) \<in> set rates. length (recent now d (H d)) < num)"
  using assms
proof (induction rates arbitrary: H)
  case Nil
  then show ?case by simp
next
  case (Cons r rates)
  obtain num d where r: "r = (num, d)" by (cases r)
  let ?H = "H(d := drop_old now d (H d))"
  have dr: "drop_old now d (H d) = recent now d (H d)" using Cons.prems r by (intro drop_old_recent) auto
  have "\<forall>(num, e) \<in> set rates. sorted_wrt (\<ge>) (?H e)" using Cons.prems r dr recent_sorted by auto
  note IH = Cons.IH [OF this]
  have idem: "recent now e (recent now e h) = recent now e h" for e h by (simp add: recent_def)
  have "recent now e (?H e) = recent now e (H e)" for e using dr idem by simp
  with IH have "check_rates now rates ?H \<noteq> None \<longleftrightarrow> (\<forall>(num, d) \<in> set rates. length (recent now d (H d)) < num)"
    by (simp only:)
  then show ?case by (auto simp: r Let_def dr)
qed

lemma allow_request_iff:
  assumes "history_ok rates now T acc"
  shows "fst (allow_request now rates T) \<longleftrightarrow> (\<forall>(num, d) \<in> set rates. length (recent now d acc) < num)"
proof -
  have h: "sorted_wrt (\<ge>) (get_history T now d) \<and> recent now d (get_history T now d) = recent now d acc"
    if "(num, d) \<in> set rates" for num d using assms that by (auto simp: history_ok_def)
  have "fst (allow_request now rates T) \<longleftrightarrow> check_rates now rates (get_history T now) \<noteq> None"
    by (auto simp: allow_request_def split: option.splits)
  also have "\<dots> \<longleftrightarrow> (\<forall>(num, d) \<in> set rates. length (recent now d (get_history T now d)) < num)"
    using h by (intro check_rates_iff) auto
  also have "\<dots> \<longleftrightarrow> (\<forall>(num, d) \<in> set rates. length (recent now d acc) < num)" using h by fastforce
  finally show ?thesis .
qed

lemma allow_request_step:
  assumes ok: "state_ok rates now T acc" and allow: "allow_request now rates T = (True, T')"
    and pos: "\<forall>(num, d) \<in> set rates. 0 < d"
  shows "state_ok rates now T' (now # acc)"
proof -
  from allow obtain H where H: "check_rates now rates (get_history T now) = Some H"
    and T': "T' = \<lparr>cache = (\<lambda>d. if d \<in> snd ` set rates then Some (now # H d) else cache T d),
                  expires = now + int (Max (snd ` set rates))\<rparr>"
    by (auto simp: allow_request_def split: option.splits)
  have hist: "sorted_wrt (\<ge>) (get_history T now d) \<and> recent now d (get_history T now d) = recent now d acc"
    if "(num, d) \<in> set rates" for num d using ok that by (auto simp: state_ok_def history_ok_def)
  have old: "sorted_wrt (\<ge>) acc" "\<forall>t \<in> set acc. t \<le> now" using ok by (auto simp: state_ok_def history_ok_def)
  have Hd: "H d = recent now d acc \<and> length (H d) < num" if "(num, d) \<in> set rates" for num d
    using check_rates_Some(1) [OF H] hist that by fastforce
  have mx: "d \<le> Max (snd ` set rates)" if "(num, d) \<in> set rates" for num d
    using that by (intro Max_ge) force+
  have exp: "expires T' = now + int (Max (snd ` set rates))" by (simp add: T')
  have get: "get_history T' now d = now # recent now d acc" if r: "(num, d) \<in> set rates" for num d
  proof -
    have "0 < d" using pos r by auto
    then have "now < expires T'" using exp mx [OF r] by simp
    moreover have "d \<in> snd ` set rates" using r by force
    ultimately show ?thesis using Hd [OF r] by (simp add: get_history_def T')
  qed
  have rec: "recent now d (now # acc) = now # recent now d acc" if r: "(num, d) \<in> set rates" for num d
    using pos r by (auto simp: recent_def)
  have "history_ok rates now T' (now # acc)"
  proof -
    have "sorted_wrt (\<ge>) (get_history T' now d) \<and> recent now d (get_history T' now d) = recent now d (now # acc)"
      if r: "(num, d) \<in> set rates" for num d
      using get [OF r] rec [OF r] recent_sorted [OF old(1)] old(2) pos r by (auto simp: recent_def)
    with old show ?thesis by (auto simp: history_ok_def)
  qed
  moreover have "windows_ok rates (now # acc)"
  proof -
    have "length (recent ((now # acc) ! k) d (drop k (now # acc))) \<le> num"
      if r: "(num, d) \<in> set rates" and k: "k < length (now # acc)" for num d k
    proof (cases k)
      case 0
      have "length (recent now d acc) < num" using Hd [OF r] by metis
      with 0 show ?thesis using rec [OF r] by simp
    next
      case (Suc j)
      then show ?thesis using ok k r by (auto simp: state_ok_def windows_ok_def)
    qed
    then show ?thesis by (auto simp: windows_ok_def)
  qed
  moreover have "t + int d \<le> expires T'" if t: "t \<in> set (now # acc)" and d: "d \<in> snd ` set rates" for t d
  proof -
    have "d \<le> Max (snd ` set rates)" using d by (intro Max_ge) auto
    then show ?thesis using t old(2) exp by auto
  qed
  ultimately show ?thesis by (simp add: state_ok_def)
qed

lemma serve_ok:
  assumes "state_ok rates now T acc" and "sorted arrivals" and "\<forall>t \<in> set arrivals. now \<le> t"
    and "\<forall>(num, d) \<in> set rates. 0 < d" and "serve rates arrivals T acc = (acc', T')"
  shows "\<exists>now'. state_ok rates now' T' acc' \<and> (now' = now \<or> now' \<in> set arrivals)"
  using assms(1-3,5)
proof (induction arrivals arbitrary: now T acc)
  case Nil
  then show ?case by auto
next
  case (Cons t arrivals)
  have ok: "state_ok rates t T acc"
    using Cons.prems(1,3) history_ok_later [of rates now T acc t] by (auto simp: state_ok_def)
  obtain b T1 where a: "allow_request t rates T = (b, T1)" by (cases "allow_request t rates T")
  show ?case
  proof (cases b)
    case True
    with a have a': "allow_request t rates T = (True, T1)" by simp
    from Cons.IH [OF allow_request_step [OF ok a' assms(4)]] Cons.prems a' show ?thesis by auto
  next
    case False
    with a have "T1 = T" by (auto simp: allow_request_def split: option.splits)
    with Cons.IH [OF ok] Cons.prems a False show ?thesis by auto
  qed
qed

definition empty_throttle :: throttle where
  "empty_throttle = \<lparr>cache = Map.empty, expires = 0\<rparr>"

lemma empty_ok: "state_ok rates now empty_throttle []"
proof -
  have "get_history empty_throttle now d = []" for d by (simp add: get_history_def empty_throttle_def)
  then show ?thesis by (simp add: state_ok_def history_ok_def windows_ok_def recent_def split_beta)
qed

lemma window_bound:
  assumes "windows_ok rates acc" and "sorted_wrt (\<ge>) acc" and "(num, d) \<in> set rates"
  shows "length (filter (\<lambda>t. w - int d < t \<and> t \<le> w) acc) \<le> num"
proof -
  let ?l = "takeWhile (\<lambda>t. w < t) acc" and ?r = "dropWhile (\<lambda>t. w < t) acc"
  have acc: "acc = ?l @ ?r" by simp
  have sorted: "sorted_wrt (\<ge>) ?r" using assms(2) acc by (metis sorted_wrt_append)
  have l: "filter (\<lambda>t. w - int d < t \<and> t \<le> w) ?l = []"
    by (auto simp: filter_empty_conv dest: set_takeWhileD)
  have e: "filter (\<lambda>t. w - int d < t \<and> t \<le> w) acc = filter (\<lambda>t. w - int d < t \<and> t \<le> w) ?r"
    by (subst acc) (simp add: l del: takeWhile_dropWhile_id)
  show ?thesis
  proof (cases ?r)
    case Nil
    with e show ?thesis by simp
  next
    case (Cons t ts)
    have t: "t \<le> w" using Cons by (metis dropWhile_eq_Cons_conv linorder_not_less)
    have k: "length ?l < length acc" using acc Cons by (metis length_append less_add_same_cancel1 length_greater_0_conv list.distinct(1))
    have dr: "drop (length ?l) acc = ?r" by (simp add: dropWhile_eq_drop)
    then have nth: "acc ! length ?l = t" using Cons k by (metis hd_drop_conv_nth list.sel(1))
    have "length (filter (\<lambda>s. w - int d < s \<and> s \<le> w) ?r) \<le> length (recent t d ?r)"
    proof -
      have "filter (\<lambda>s. w - int d < s \<and> s \<le> w) ?r =
          filter (\<lambda>s. w - int d < s \<and> s \<le> w) (recent t d ?r)"
        using t by (auto simp: recent_def intro!: filter_cong)
      then show ?thesis by (metis length_filter_le)
    qed
    also have "\<dots> \<le> num" using assms(1,3) k dr nth unfolding windows_ok_def by fastforce
    finally show ?thesis using e by simp
  qed
qed

text \<open>C30: Throttling: of a sequence of requests in time order, in no interval of the length of a rate are
  more requests let through than the rate allows, and the next request is let through exactly if
  for every rate fewer than that many were in the interval that ends with it.\<close>

theorem throttle_windows:
  assumes "sorted arrivals" and "\<forall>(num, d) \<in> set rates. 0 < d"
    and "serve rates arrivals empty_throttle [] = (acc, T)"
  shows "(\<forall>(num, d) \<in> set rates. \<forall>w. length (filter (\<lambda>t. w - int d < t \<and> t \<le> w) acc) \<le> num) \<and>
    ((\<forall>t \<in> set arrivals. t \<le> now) \<longrightarrow>
      (fst (allow_request now rates T) \<longleftrightarrow>
        (\<forall>(num, d) \<in> set rates. length (filter (\<lambda>t. now - int d < t) acc) < num)))"
proof -
  define start where "start = (case arrivals of [] \<Rightarrow> now | t # _ \<Rightarrow> min now t)"
  have "\<forall>t \<in> set arrivals. start \<le> t" using assms(1) by (cases arrivals) (auto simp: start_def)
  from serve_ok [OF empty_ok assms(1) this assms(2,3)] obtain n
    where n: "state_ok rates n T acc" "n = start \<or> n \<in> set arrivals" by blast
  then have w: "windows_ok rates acc" "sorted_wrt (\<ge>) acc" by (auto simp: state_ok_def history_ok_def)
  have "fst (allow_request now rates T) \<longleftrightarrow> (\<forall>(num, d) \<in> set rates. length (recent now d acc) < num)"
    if "\<forall>t \<in> set arrivals. t \<le> now"
  proof -
    have "n \<le> now" using n(2) that by (auto simp: start_def split: list.splits)
    then have "history_ok rates now T acc" using n(1) history_ok_later by (auto simp: state_ok_def)
    then show ?thesis by (rule allow_request_iff)
  qed
  with window_bound [OF w] show ?thesis unfolding recent_def by blast
qed

theorem throttle_windows_witness:
  "fst (serve [(2, 10), (3, 60)] [0, 1, 2, 15] empty_throttle []) = [15, 1, 0] \<and>
   \<not> fst (allow_request 16 [(2, 10), (3, 60)] (snd (serve [(2, 10), (3, 60)] [0, 1, 2, 15] empty_throttle [])))"
proof -
  let ?rates = "[(2, 10), (3, 60)] :: (nat \<times> nat) list" and ?ts = "[0, 1, 2, 15] :: int list"
  have f: "fst (serve ?rates ?ts empty_throttle []) = [15, 1, 0]" by code_simp
  then have s: "serve ?rates ?ts empty_throttle [] = ([15, 1, 0], snd (serve ?rates ?ts empty_throttle []))"
    by (metis prod.collapse)
  from throttle_windows [OF _ _ s, of 16] have "\<not> fst (allow_request 16 ?rates (snd (serve ?rates ?ts empty_throttle [])))"
    by simp
  with f show ?thesis by blast
qed

end
