(* ===== verification/RRsetViews.thy ===== *)
theory RRsetViews
  imports Bulk Domains
begin

text \<open>
  The endpoints for RRsets (\<open>views/records.py\<close>): who may use them, the serializer with its
  validators in the order of the framework, and the change inside a tracker. What the framework
  does to turn JSON into typed fields is the parameter \<open>parse\<close>.
\<close>

section \<open>Validation of one RRset\<close>

text \<open>\<open>PermissionValidator\<close>; \<open>url_subname\<close> is the \<open>subname\<close> of the URL, absent on the list endpoint.\<close>

definition permission_validator ::
  "policy list \<Rightarrow> string \<Rightarrow> string option \<Rightarrow> rrkey option \<Rightarrow> attrs \<Rightarrow> (verr, unit) result" where
  "permission_validator ps d url_subname inst a =
     (case (case a_subname a of Some s \<Rightarrow> Some s | None \<Rightarrow> url_subname) of
        None \<Rightarrow> Inl (Crash ''KeyError'')
      | Some subname \<Rightarrow>
          (case (case a_type a of Some (c # cs) \<Rightarrow> Some (c # cs) | _ \<Rightarrow> map_option fst inst) of
             None \<Rightarrow> Inl (Crash ''AttributeError'')
           | Some ty \<Rightarrow> if token_has_rrset_permission ps (d, subname, ty) then Inr () else Inl Denied))"

definition errors_of :: "(verr, 'a) result \<Rightarrow> (string \<times> string) list" where
  "errors_of r = (case r of Inl (Invalid e) \<Rightarrow> e | _ \<Rightarrow> [])"

text \<open>The validators and \<open>validate_\<close> methods of the fields that are present, in their order; the errors
  of all fields are reported together.\<close>

definition field_errors :: "ctx \<Rightarrow> settings \<Rightarrow> string option \<Rightarrow> rrkey option \<Rightarrow> attrs \<Rightarrow> (string \<times> string) list" where
  "field_errors X cf http_method inst a =
     (case a_subname a of None \<Rightarrow> [] | Some s \<Rightarrow> errors_of (validate_subname X inst s)) @
     (case a_records a of None \<Rightarrow> [] | Some rs \<Rightarrow> errors_of (validate_records http_method rs)) @
     (case a_ttl a of None \<Rightarrow> [] | Some n \<Rightarrow> errors_of (validate_ttl X cf n)) @
     (case a_type a of
        None \<Rightarrow> []
      | Some ty \<Rightarrow> errors_of (rbind (read_only_on_update (map_option fst inst) ''type'' ty) (\<lambda>_. validate_type X ty)))"

definition attr_key :: "rrkey option \<Rightarrow> attrs \<Rightarrow> rrkey option" where
  "attr_key inst a =
     (case (case a_type a of Some ty \<Rightarrow> Some ty | None \<Rightarrow> map_option fst inst,
            case a_subname a of Some s \<Rightarrow> Some s | None \<Rightarrow> map_option snd inst) of
        (Some ty, Some s) \<Rightarrow> Some (ty, s)
      | _ \<Rightarrow> None)"

text \<open>The endpoint: \<open>e_many\<close> for lists, and the rows of the domain.\<close>

record endpoint =
  e_ctx :: ctx
  e_policies :: "policy list"
  e_method :: "string option"
  e_many :: bool
  e_url_subname :: "string option"
  e_zone :: zone

type_synonym parser = "bool \<Rightarrow> bool \<Rightarrow> rrkey option \<Rightarrow> pyval \<Rightarrow> (verr, attrs) result"

text \<open>\<open>run_validation\<close>: fields, then the validators of the class, then \<open>validate\<close>.\<close>

definition run_validation ::
  "parser \<Rightarrow> settings \<Rightarrow> endpoint \<Rightarrow> bool \<Rightarrow> rrkey option \<Rightarrow> pyval \<Rightarrow> (verr, vitem) result" where
  "run_validation parse cf V partial inst item =
     rbind (parse (e_many V) partial inst item) (\<lambda>a.
       let errs = field_errors (e_ctx V) cf (e_method V) inst a in
       if errs \<noteq> [] then Inl (Invalid errs)
       else
         rbind (permission_validator (e_policies V) (x_domain (e_ctx V)) (e_url_subname V) inst a) (\<lambda>_.
           case attr_key inst a of
             None \<Rightarrow> invalid ''This field is required.''
           | Some k \<Rightarrow>
               let errs = errors_of (unique_together (e_zone V) inst k) @
                     errors_of (exclusion_constraint (e_many V) (e_zone V) inst k) in
               if errs \<noteq> [] then Inl (Invalid errs)
               else rbind (validate (e_ctx V) inst a) (\<lambda>a'.
                      Inr \<lparr>v_type = fst k, v_subname = snd k, v_ttl = a_ttl a', v_records = a_records a'\<rparr>)))"

section \<open>Access\<close>

datatype view_error =
  Forbidden
| Http404
| BadList list_error
| BadItem verr
| BlockFailed serr
| TrackerFailed terror

text \<open>\<open>DomainViewMixin.domain\<close>\<close>

definition view_domain :: "request \<Rightarrow> domain list \<Rightarrow> string \<Rightarrow> (view_error, domain) result" where
  "view_domain r ds name =
     (case find (\<lambda>d. m_name d = name \<and> map_option u_id (r_user r) = Some (m_owner d)) ds of
        None \<Rightarrow> Inl Http404 | Some d \<Rightarrow> Inr d)"

text \<open>\<open>RRsetView.permission_classes\<close>\<close>

definition rrset_view_domain :: "request \<Rightarrow> domain list \<Rightarrow> string \<Rightarrow> (view_error, domain) result" where
  "rrset_view_domain r ds name =
     (if \<not> is_authenticated r then Inl Forbidden
      else if \<not> (is_api_token r \<or> mfa_required_if_enabled r) then Inl Forbidden
      else rbind (view_domain r ds name) (\<lambda>d.
             if is_domain_owner r (m_owner d) then Inr d else Inl Forbidden))"

definition safe_methods :: "string list" where
  "safe_methods = [''GET'', ''HEAD'', ''OPTIONS'']"

definition rrset_throttle_scope :: "string \<Rightarrow> string" where
  "rrset_throttle_scope m = (if m \<in> set safe_methods then ''dns_api_cheap'' else ''dns_api_per_domain_expensive'')"

definition rrset_throttle_bucket :: "string \<Rightarrow> string \<Rightarrow> string option" where
  "rrset_throttle_bucket m name = (if m \<in> set safe_methods then None else Some name)"

text \<open>\<open>RRsetList.get_queryset\<close>: the keys of the rows, filtered by the query parameters.\<close>

definition list_queryset ::
  "string option \<Rightarrow> string option \<Rightarrow> zone \<Rightarrow> (view_error, rrkey list) result" where
  "list_queryset q_subname q_type z =
     (let ks = filter (\<lambda>k. case q_subname of None \<Rightarrow> True | Some s \<Rightarrow> snd k = s) (map fst z) in
      case q_type of
        None \<Rightarrow> Inr ks
      | Some ty \<Rightarrow> if ty \<in> rr_set_types_automatic then Inl Forbidden else Inr (filter (\<lambda>k. fst k = ty) ks))"

text \<open>\<open>get_object_or_404\<close>, then the object permission of \<open>RRsetDetail\<close> for writing methods.\<close>

definition detail_object ::
  "policy list \<Rightarrow> string \<Rightarrow> bool \<Rightarrow> zone \<Rightarrow> rrkey \<Rightarrow> (view_error, rrset) result" where
  "detail_object ps d writing z k =
     (case map_of z k of
        None \<Rightarrow> Inl Http404
      | Some r \<Rightarrow> if writing \<and> \<not> token_has_rrset_permission ps (d, snd k, fst k) then Inl Forbidden else Inr r)"

section \<open>Changes inside a tracker\<close>

text \<open>What surrounds a view: the environment of PowerDNS, settings, orders of iteration, the tables.\<close>

record 'w view_env =
  w_env :: "'w env"
  w_order :: order
  w_url :: string
  w_now :: int
  w_so :: "string set \<Rightarrow> string list"
  w_parse :: parser
  w_ctx :: "domain \<Rightarrow> ctx"
  w_domains :: "domain list"

definition with_tracker :: "'w view_env \<Rightarrow> (tracked \<Rightarrow> block) \<Rightarrow> ('w sys, view_error, unit) io" where
  "with_tracker W f s =
     (case tracker_enter s of
        (Inl e, s1) \<Rightarrow> (Inl (TrackerFailed e), s1)
      | (Inr (t0, db0), s1) \<Rightarrow>
          (case f (api_db s1, t0) of
             Inl e \<Rightarrow>
               (case tracker_exit (w_env W) (w_order W) (w_url W) (w_now W) True db0 t0 s1 of
                  (_, s2) \<Rightarrow> (Inl (BlockFailed e), s2))
           | Inr (D, t) \<Rightarrow>
               (case tracker_exit (w_env W) (w_order W) (w_url W) (w_now W) False db0 t (s1\<lparr>api_db := D\<rparr>) of
                  (Inl e, s2) \<Rightarrow> (Inl (TrackerFailed e), s2)
                | (Inr _, s2) \<Rightarrow> (Inr (), s2))))"

definition zone_rows :: "db \<Rightarrow> string \<Rightarrow> zone" where
  "zone_rows D d = (case zones D d of None \<Rightarrow> [] | Some z \<Rightarrow> z)"

definition endpoint_of ::
  "'w view_env \<Rightarrow> request \<Rightarrow> domain \<Rightarrow> string \<Rightarrow> bool \<Rightarrow> string option \<Rightarrow> zone \<Rightarrow> endpoint" where
  "endpoint_of W r d m many url_subname z =
     \<lparr>e_ctx = w_ctx W d, e_policies = policies (r_auth r), e_method = Some m, e_many = many,
      e_url_subname = url_subname, e_zone = z\<rparr>"

text \<open>\<open>RRsetDetail\<close>: \<open>PUT\<close> and \<open>PATCH\<close> of one RRset.\<close>

definition detail_update ::
  "'w view_env \<Rightarrow> request \<Rightarrow> string \<Rightarrow> rrkey \<Rightarrow> bool \<Rightarrow> pyval \<Rightarrow> ('w sys, view_error, unit) io" where
  "detail_update W r name k partial data s =
     (case rrset_view_domain r (w_domains W) name of
        Inl e \<Rightarrow> (Inl e, s)
      | Inr d \<Rightarrow>
          let z = zone_rows (api_db s) (m_name d);
              V = endpoint_of W r d (if partial then ''PATCH'' else ''PUT'') False (Some (snd k)) z in
          (case detail_object (policies (r_auth r)) (m_name d) True z k of
             Inl e \<Rightarrow> (Inl e, s)
           | Inr _ \<Rightarrow>
               (case run_validation (w_parse W) (conf (w_env W)) V partial (Some k) data of
                  Inl e \<Rightarrow> (Inl (BadItem e), s)
                | Inr v \<Rightarrow> with_tracker W (conditional_save (e_ctx V) (w_so W) (Some k) v) s)))"

text \<open>\<open>DELETE\<close>: an absent RRset counts as deleted.\<close>

definition perform_destroy_rrset :: "'w view_env \<Rightarrow> domain \<Rightarrow> rrkey \<Rightarrow> ('w sys, view_error, unit) io" where
  "perform_destroy_rrset W d k s =
     (if fst k = ''NS'' \<and> x_registrable (w_ctx W d) \<and> snd k = []
      then (Inl (BadItem (Invalid [(nfe, ''Cannot modify NS records for this domain.'')])), s)
      else with_tracker W (rrset_delete (w_ctx W d) k) s)"

definition detail_destroy :: "'w view_env \<Rightarrow> request \<Rightarrow> string \<Rightarrow> rrkey \<Rightarrow> ('w sys, view_error, unit) io" where
  "detail_destroy W r name k s =
     (case rrset_view_domain r (w_domains W) name of
        Inl e \<Rightarrow> (Inl e, s)
      | Inr d \<Rightarrow>
          (case detail_object (policies (r_auth r)) (m_name d) True (zone_rows (api_db s) (m_name d)) k of
             Inl Http404 \<Rightarrow> (Inr (), s)
           | Inl e \<Rightarrow> (Inl e, s)
           | Inr _ \<Rightarrow> perform_destroy_rrset W d k s))"

text \<open>\<open>RRsetList\<close>: \<open>POST\<close> of one RRset or of a list.\<close>

definition list_post :: "'w view_env \<Rightarrow> request \<Rightarrow> string \<Rightarrow> pyval \<Rightarrow> ('w sys, view_error, unit) io" where
  "list_post W r name data s =
     (case rrset_view_domain r (w_domains W) name of
        Inl e \<Rightarrow> (Inl e, s)
      | Inr d \<Rightarrow>
          let z = zone_rows (api_db s) (m_name d);
              many = (case data of PyList _ \<Rightarrow> True | _ \<Rightarrow> False);
              V = endpoint_of W r d ''POST'' many None z;
              check = run_validation (w_parse W) (conf (w_env W)) V in
          if many then
            (case to_internal_value check z False True False {} data of
               Inl e \<Rightarrow> (Inl (BadList e), s)
             | Inr vs \<Rightarrow> with_tracker W (list_create (e_ctx V) (w_so W) vs) s)
          else
            (case check False None data of
               Inl e \<Rightarrow> (Inl (BadItem e), s)
             | Inr v \<Rightarrow> with_tracker W (conditional_save (e_ctx V) (w_so W) None v) s))"

text \<open>\<open>PATCH\<close> and \<open>PUT\<close> of a list.\<close>

definition list_update ::
  "'w view_env \<Rightarrow> request \<Rightarrow> string \<Rightarrow> string option \<Rightarrow> string option \<Rightarrow> bool \<Rightarrow> pyval \<Rightarrow>
   ('w sys, view_error, unit) io" where
  "list_update W r name q_subname q_type partial data s =
     (case rrset_view_domain r (w_domains W) name of
        Inl e \<Rightarrow> (Inl e, s)
      | Inr d \<Rightarrow>
          let z = zone_rows (api_db s) (m_name d);
              V = endpoint_of W r d (if partial then ''PATCH'' else ''PUT'') True None z in
          (case list_queryset q_subname q_type z of
             Inl e \<Rightarrow> (Inl e, s)
           | Inr ks \<Rightarrow>
               (case to_internal_value (run_validation (w_parse W) (conf (w_env W)) V) z partial True False (set ks) data of
                  Inl e \<Rightarrow> (Inl (BadList e), s)
                | Inr vs \<Rightarrow> with_tracker W (rrsets_update (e_ctx V) (w_so W) (ok (w_order W)) (set ks) vs) s)))"

text \<open>The writing requests as one type: the dispatch by URL and method.\<close>

datatype rrset_write =
  DetailUpdate rrkey bool pyval
| DetailDestroy rrkey
| ListPost pyval
| ListUpdate "string option" "string option" bool pyval

fun handle_write :: "'w view_env \<Rightarrow> request \<Rightarrow> string \<Rightarrow> rrset_write \<Rightarrow> ('w sys, view_error, unit) io" where
  "handle_write W r name (DetailUpdate k partial data) = detail_update W r name k partial data"
| "handle_write W r name (DetailDestroy k) = detail_destroy W r name k"
| "handle_write W r name (ListPost data) = list_post W r name data"
| "handle_write W r name (ListUpdate q_subname q_type partial data) =
     list_update W r name q_subname q_type partial data"

end
