(* ===== verification/RRsetViewsCorrect.thy ===== *)
theory RRsetViewsCorrect
  imports RRsetViews BulkApply TrackerExit
begin

text \<open>
  From the request to the database: whatever a writing request for RRsets contains and however it
  ends, it changes only RRsets of the domain in the URL, which belongs to the requesting user, and
  only those the token may write.
\<close>

declare split_paired_All [simp del] split_paired_Ex [simp del]

section \<open>What a block touches\<close>

definition same_domains :: "tracker \<Rightarrow> tracker \<Rightarrow> bool" where
  "same_domains t t' \<longleftrightarrow> domain_additions t' = domain_additions t \<and> domain_deletions t' = domain_deletions t \<and>
     (finite (dom (rr_set_additions t)) \<longrightarrow> finite (dom (rr_set_additions t')))"

lemma same_domains_refl [simp]: "same_domains t t"
  by (simp add: same_domains_def)

lemma same_domains_trans: "same_domains t u \<Longrightarrow> same_domains u v \<Longrightarrow> same_domains t v"
  by (simp add: same_domains_def)

definition touches :: "string \<Rightarrow> rrkey set \<Rightarrow> tracked \<Rightarrow> tracked \<Rightarrow> bool" where
  "touches d K S S' \<longleftrightarrow> same_domains (snd S) (snd S') \<and> dom (zones (fst S')) = dom (zones (fst S)) \<and>
     (\<forall>e k. lookup_rrset (fst S') e k \<noteq> lookup_rrset (fst S) e k \<longrightarrow> e = d \<and> k \<in> K)"

lemma touches_refl [simp]: "touches d K S S"
  by (simp add: touches_def)

lemma touches_trans: "touches d K S S1 \<Longrightarrow> touches d K S1 S2 \<Longrightarrow> touches d K S S2"
  unfolding touches_def using same_domains_trans by metis

lemma touches_mono: "touches d K S S' \<Longrightarrow> K \<subseteq> L \<Longrightarrow> touches d L S S'"
  by (auto simp: touches_def)

lemmas handler_defs' = on_rr_post_save_def on_rr_set_post_save_def on_rr_set_post_delete_def

lemma handler_domains:
  "rr_set_updated d k x c t = Inr t' \<Longrightarrow> same_domains t t'"
  by (auto simp: same_domains_def rr_set_updated_def Let_def set_rrsets_def result_simps split: if_splits)

lemma handlers_domains:
  assumes "rfold (\<lambda>_. on_rr_post_delete True d k) xs t = Inr t'"
  shows "same_domains t t'"
proof (rule rfold_invariant [where P = "same_domains t", OF assms])
  fix u u'
  assume "same_domains t u" "on_rr_post_delete True d k u = Inr u'"
  then show "same_domains t u'"
    using handler_domains [of d k False False u u'] same_domains_trans
    by (simp add: on_rr_post_delete_def handler_defs')
qed simp

lemmas handlers_domains' = handlers_domains [simplified]

lemma lookup_put: "lookup_rrset (put_rrset d k r D) e j = (if e = d \<and> j = k \<and> zones D d \<noteq> None then Some r else lookup_rrset D e j)"
  by (cases "zones D d") (simp_all add: lookup_rrset_def put_rrset_def update_conv')

lemma lookup_drop: "lookup_rrset (drop_rrset d k D) e j = (if e = d \<and> j = k then None else lookup_rrset D e j)"
  by (cases "zones D d") (simp_all add: lookup_rrset_def drop_rrset_def delete_conv')

lemma touches_put: "same_domains t t' \<Longrightarrow> touches d {k} (D, t) (put_rrset d k r D, t')"
  by (simp add: touches_def lookup_put put_rrset_dom)

lemma touches_drop: "same_domains t t' \<Longrightarrow> touches d {k} (D, t) (drop_rrset d k D, t')"
  by (simp add: touches_def lookup_drop drop_rrset_dom)

lemma db_step_touches:
  assumes "db_step op S = Inr S'" and "rr_target op = Some (d, k)"
  shows "touches d {k} S S'"
proof -
  obtain D t where S: "S = (D, t)" by (cases S)
  from assms show ?thesis unfolding S
    by (cases op)
       (auto simp: result_simps rrset_delete_step_def handler_defs'
         split: if_split_asm intro!: touches_put touches_drop dest!: handler_domains handlers_domains'
         intro: same_domains_trans)
qed

lemma save_records_touches:
  assumes "save_records C so d k rs S = Inr S'"
  shows "touches d {k} S S'"
proof -
  from assms obtain S1 op1 op2 where "db_step op1 S = Inr S1" "rr_target op1 = Some (d, k)"
    "db_step op2 S1 = Inr S'" "rr_target op2 = Some (d, k)"
    by (auto simp: save_records_def result_simps db_run_def split: sum.split_asm)
  then show ?thesis using db_step_touches touches_trans by blast
qed

lemma in_db_Inr: "in_db r = Inr S \<longleftrightarrow> r = Inr S"
  by (auto simp: in_db_def split: sum.splits)

lemma set_all_touches: "set_all_record_contents X so k rs S = Inr S' \<Longrightarrow> touches (x_domain X) {k} S S'"
  using save_records_touches [of "x_codec X" so "x_domain X" k rs S]
  by (auto simp: set_all_record_contents_def split: sum.split_asm block_error.split_asm rec_error.split_asm)

lemma create_touches:
  assumes "rrset_create X so v S = Inr S'"
  shows "touches (x_domain X) {vkey v} S S'"
proof -
  from assms obtain rs n where v: "v_records v = Some rs" "v_ttl v = Some n"
    by (auto simp: rrset_create_def split: option.split_asm)
  with assms obtain S1 where c: "db_step (OpRRsetCreate (x_domain X) (vkey v) n) S = Inr S1"
    and s: "set_all_record_contents X so (vkey v) rs S1 = Inr S'"
    by (auto simp: rrset_create_def rbind_Inr_iff in_db_Inr simp del: db_step.simps split: if_split_asm)
  show ?thesis
    by (rule touches_trans [OF db_step_touches [OF c] set_all_touches [OF s]]) simp
qed

lemma update_touches:
  assumes "rrset_update X so k v S = Inr S'"
  shows "touches (x_domain X) {k} S S'"
proof -
  let ?saved = "case v_records v of None \<Rightarrow> Inr S | Some rs \<Rightarrow> set_all_record_contents X so k rs S"
  from assms obtain S1 where 1: "?saved = Inr S1"
    and rest: "(case v_ttl v of None \<Rightarrow> Inr S1
       | Some n \<Rightarrow> (case rrset_of (fst S1) (x_domain X) k of
            Inl e \<Rightarrow> Inl (Block (DbError e))
          | Inr r \<Rightarrow> if n \<noteq> 0 \<and> ttl r \<noteq> n then in_db (db_step (OpRRsetSave (x_domain X) k n) S1) else Inr S1)) = Inr S'"
    unfolding rrset_update_def rbind_Inr_iff by blast
  from rest have 2: "S' = S1 \<or> (\<exists>n. db_step (OpRRsetSave (x_domain X) k n) S1 = Inr S')"
    by (auto simp: in_db_Inr simp del: db_step.simps split: option.split_asm sum.split_asm if_split_asm)
  from 1 have "touches (x_domain X) {k} S S1" by (auto split: option.split_asm dest: set_all_touches)
  moreover from 2 have "touches (x_domain X) {k} S1 S'"
  proof
    assume "\<exists>n. db_step (OpRRsetSave (x_domain X) k n) S1 = Inr S'"
    then obtain n where "db_step (OpRRsetSave (x_domain X) k n) S1 = Inr S'" ..
    from db_step_touches [OF this] show ?thesis by simp
  qed simp
  ultimately show ?thesis by (rule touches_trans)
qed

lemma delete_touches: "rrset_delete X k S = Inr S' \<Longrightarrow> touches (x_domain X) {k} S S'"
  by (rule db_step_touches [where op = "OpRRsetDelete (x_domain X) k"])
     (simp_all add: rrset_delete_def in_db_Inr del: db_step.simps)

lemma conditional_save_touches:
  assumes "conditional_save X so inst v S = Inr S'" and "inst = None \<or> inst = Some (vkey v)"
  shows "touches (x_domain X) {vkey v} S S'"
  using assms create_touches [of X so v S S'] update_touches [of X so "vkey v" v S S'] delete_touches [of X "vkey v" S S']
  by (auto simp: conditional_save_def split: option.split_asm if_split_asm)

lemma rfold_touches:
  assumes "rfold f xs S = Inr S'" and "\<And>x S S'. x \<in> set xs \<Longrightarrow> f x S = Inr S' \<Longrightarrow> touches d K S S'"
  shows "touches d K S S'"
  by (rule rfold_invariant [where P = "touches d K S", OF assms(1)]) (auto intro: touches_trans assms(2))

lemma list_create_touches:
  assumes "list_create X so vs S = Inr S'"
  shows "touches (x_domain X) (vkey ` set vs) S S'"
  using assms unfolding list_create_def
  by (rule rfold_touches) (auto intro: touches_mono dest: create_touches)

lemma data_index_vkey: "data_index vs k = Some v \<Longrightarrow> v \<in> set vs \<and> vkey v = k"
  by (auto simp: data_index_def dest!: map_of_SomeD)

lemma rrsets_update_touches:
  assumes "rrsets_update X so ko I vs S = Inr S'" and "\<And>A. finite A \<Longrightarrow> set (ko A) = A"
  shows "touches (x_domain X) (vkey ` set vs) S S'"
proof -
  let ?d = "x_domain X" and ?K = "vkey ` set vs"
  have ko: "k \<in> ?K" if "k \<in> set (ko A)" "A \<subseteq> ?K" for k A
    using that assms(2) [of A] finite_subset [OF that(2)] by auto
  define known where "known = {k \<in> I. k \<in> set (map vkey vs)}"
  define A B C where "A = known \<inter> vkey ` set (filter is_empty vs)"
    and "B = ((known \<union> set (map vkey vs)) - known) \<inter> ((known \<union> set (map vkey vs)) - vkey ` set (filter is_empty vs))"
    and "C = known \<inter> ((known \<union> set (map vkey vs)) - vkey ` set (filter is_empty vs))"
  have sub: "A \<subseteq> ?K" "B \<subseteq> ?K" "C \<subseteq> ?K" by (auto simp: A_def B_def C_def known_def)
  from assms(1) obtain S1 S2 where f: "rfold (rrset_delete X) (ko A) S = Inr S1"
    "rfold (\<lambda>k. with_item vs k (rrset_create X so)) (ko B) S1 = Inr S2"
    "rfold (\<lambda>k. with_item vs k (rrset_update X so k)) (ko C) S2 = Inr S'"
    unfolding rrsets_update_def Let_def known_def [symmetric] A_def [symmetric] B_def [symmetric] C_def [symmetric]
    by (auto simp: rbind_Inr_iff split: if_split_asm)
  have "touches ?d ?K S S1"
    by (rule rfold_touches [OF f(1)]) (use ko [OF _ sub(1)] delete_touches touches_mono in blast)
  moreover have "touches ?d ?K S1 S2"
    by (rule rfold_touches [OF f(2)])
       (use create_touches in \<open>fastforce simp: with_item_def split: option.split_asm intro: touches_mono dest: data_index_vkey\<close>)
  moreover have "touches ?d ?K S2 S'"
    by (rule rfold_touches [OF f(3)])
       (use ko [OF _ sub(3)] update_touches in \<open>fastforce simp: with_item_def split: option.split_asm intro: touches_mono\<close>)
  ultimately show ?thesis by (blast intro: touches_trans)
qed

section \<open>What the tracker's end does to the RRsets\<close>

lemma do_change_lookup:
  assumes "do_change E R url c s = (r, s')" and "\<forall>d. c \<noteq> CreateDomain d"
  shows "api_db s' = api_db s"
proof -
  obtain r1 s1 where 1: "pdns_do E R c s = (r1, s1)" by (cases "pdns_do E R c s")
  have a: "api_do E c = io_return ()" using assms(2) by (cases c) auto
  obtain r3 s3 where 3: "(if pch_enabled (conf E) then pch_do E url c else io_return ()) s1 = (r3, s3)"
    by (cases "(if pch_enabled (conf E) then pch_do E url c else io_return ()) s1")
  have f3: "frame (if pch_enabled (conf E) then pch_do E url c else io_return ())"
    by (simp add: frame_pch_do frame_return)
  from assms(1) have "s' = s1 \<or> s' = s3"
    unfolding do_change_def io_bind_def a using 1 3 by (auto split: sum.splits)
  with frame_step [OF frame_pdns_do 1] frame_step [OF f3 3] show ?thesis by auto
qed

lemma do_changes_lookup:
  assumes "do_changes E R url db0 all cs s = (r, s')" and "\<forall>c \<in> set cs. \<forall>d. c \<noteq> CreateDomain d"
  shows "api_db s' = api_db s \<or> api_db s' = db0"
  using assms
proof (induction cs arbitrary: s)
  case (Cons c cs)
  obtain q v where step: "do_change E R url c s = (q, v)" by (cases "do_change E R url c s")
  have v: "api_db v = api_db s" by (rule do_change_lookup [OF step]) (use Cons.prems(2) in simp)
  with step Cons show ?case by (cases q) auto
qed simp

lemma compute_changes_no_domain:
  assumes "compute_changes R D t = Inr cs" and "domain_additions t = {}" and "c \<in> set cs"
  shows "c \<noteq> CreateDomain d"
proof -
  have fold: "domain_additions (fold discard_rrsets ds t) = domain_additions t" for ds
    by (induction ds arbitrary: t) (simp_all add: discard_rrsets_def)
  have rm: "rmap f xs = Inr yss \<Longrightarrow> ys \<in> set yss \<Longrightarrow> \<exists>x \<in> set xs. f x = Inr ys" for f :: "string \<Rightarrow> (terror, change list) result" and xs yss ys
    by (induction xs arbitrary: yss) (auto simp: result_simps)
  from assms(1,3) obtain css where "rmap (changes_of D (fold discard_rrsets (od R (domain_deletions t)) t))
      (od R (dom (rr_set_additions (fold discard_rrsets (od R (domain_deletions t)) t)) \<union> domain_additions t)) = Inr css"
    "c \<in> DeleteDomain ` set (od R (domain_deletions t)) \<or> (\<exists>cs \<in> set css. c \<in> set cs)"
    by (auto simp: compute_changes_def Let_def result_simps fold)
  then show ?thesis
    using rm assms(2) fold by (fastforce simp: changes_of_def Let_def result_simps split: if_splits)
qed

lemma tracker_exit_lookup:
  assumes "tracker_exit E R url now exc db0 t s = (r, s')" and "domain_additions t = {}"
  shows "zones (api_db s') = zones (api_db s) \<or> zones (api_db s') = zones db0"
proof (cases "exc")
  case True
  with assms(1) show ?thesis by (auto simp: tracker_exit_def Let_def)
next
  case no_exc: False
  show ?thesis
  proof (cases "compute_changes R (api_db s) t")
    case (Inl e)
    with assms(1) no_exc show ?thesis by (auto simp: tracker_exit_def Let_def)
  next
    case (Inr cs)
    let ?s = "s\<lparr>active := active s - 1\<rparr>"
    have nc: "\<forall>c \<in> set cs. \<forall>d. c \<noteq> CreateDomain d" using compute_changes_no_domain [OF Inr assms(2)] by blast
    obtain q v where v: "do_changes E R url db0 cs cs ?s = (q, v)" by (cases "do_changes E R url db0 cs cs ?s")
    have zv: "api_db v = api_db s \<or> api_db v = db0" using do_changes_lookup [OF v nc] by simp
    let ?axfr = "change_domain ` set (filter axfr_required cs)"
    obtain p w where w: "io_iter (\<lambda>d. on_net (axfr_to_master E d)) (od R ?axfr) v = (p, w)"
      by (cases "io_iter (\<lambda>d. on_net (axfr_to_master E d)) (od R ?axfr) v")
    have "api_db s' = api_db v \<or> api_db s' = api_db w \<or> api_db s' = set_published ?axfr now (api_db w)"
      using assms(1) no_exc Inr v w by (auto simp: tracker_exit_def Let_def io_bind_def split: sum.split_asm)
    with zv axfr_frame [OF w] show ?thesis by (auto simp: set_published_def)
  qed
qed

lemma with_tracker_touches:
  assumes "with_tracker W f s = (r, s')" and "\<And>S. f (api_db s, new_tracker) = Inr S \<Longrightarrow> touches d K (api_db s, new_tracker) S"
    and "lookup_rrset (api_db s') e k \<noteq> lookup_rrset (api_db s) e k"
  shows "e = d \<and> k \<in> K"
proof -
  let ?s1 = "s\<lparr>active := active s + 1\<rparr>"
  have look: "lookup_rrset D = lookup_rrset D'" if "zones D = zones D'" for D D' :: db
    using that by (simp add: lookup_rrset_def fun_eq_iff)
  show ?thesis
  proof (cases "active s + 1 = 1")
    case False
    with assms(1,3) show ?thesis by (auto simp: with_tracker_def tracker_enter_def Let_def)
  next
    case True
    show ?thesis
    proof (cases "f (api_db s, new_tracker)")
      case (Inl x)
      with assms(1,3) True show ?thesis
        by (auto simp: with_tracker_def tracker_enter_def tracker_exit_def Let_def)
    next
      case (Inr S)
      obtain D t where S: "S = (D, t)" by (cases S)
      with Inr assms(2) have t: "touches d K (api_db s, new_tracker) (D, t)" by simp
      then have "domain_additions t = {}" by (simp add: touches_def same_domains_def new_tracker_def)
      moreover obtain q where "tracker_exit (w_env W) (w_order W) (w_url W) (w_now W) False (api_db s) t
          (?s1\<lparr>api_db := D\<rparr>) = (q, s')"
        using assms(1) True Inr S
        by (auto simp: with_tracker_def tracker_enter_def Let_def split: prod.split_asm sum.split_asm)
      ultimately have "zones (api_db s') = zones D \<or> zones (api_db s') = zones (api_db s)"
        using tracker_exit_lookup by fastforce
      with assms(3) t show ?thesis by (auto simp: touches_def dest: look)
    qed
  qed
qed

section \<open>What validation guarantees\<close>

definition may_write :: "policy list \<Rightarrow> ctx \<Rightarrow> rrkey \<Rightarrow> bool" where
  "may_write ps X k \<longleftrightarrow> token_has_rrset_permission ps (x_domain X, snd k, fst k) \<and> \<not> (x_registrable X \<and> k = (''NS'', []))"

lemma field_errors_inst:
  assumes "field_errors X cf m inst a = []" and "inst = Some k"
  shows "a_subname a = None \<or> a_subname a = Some (snd k)" "a_type a = None \<or> a_type a = Some (fst k)"
  using assms
  by (auto simp: field_errors_def errors_of_def validate_subname_def read_only_on_update_def split: option.split_asm if_split_asm)

lemma validate_keys: "validate X inst a = Inr a' \<Longrightarrow> a_subname a' = a_subname a \<and> a_type a' = a_type a"
  by (auto simp: validate_def rbind_Inr_iff split: option.split_asm if_split_asm)

lemma validate_apex_ns:
  assumes "validate X inst a = Inr a'" and "attr_key inst a = Some (ty, s)" and "ty = ''NS''" and "x_registrable X"
    and "inst \<noteq> None \<longrightarrow> inst = Some (ty, s)"
  shows "s \<noteq> []"
proof -
  from assms(1) obtain ty' where ns: "validate_ns X inst a' ty' = Inr ()"
    and ty': "(case a_type a of
              Some ty \<Rightarrow> if ty \<noteq> [] then Inr ty
                         else (case inst of None \<Rightarrow> Inl (Crash ''AttributeError'') | Some k \<Rightarrow> Inr (fst k))
            | None \<Rightarrow> (case inst of None \<Rightarrow> Inl (Crash ''AttributeError'') | Some k \<Rightarrow> Inr (fst k))) = Inr ty'"
    unfolding validate_def rbind_Inr_iff by auto
  have "ty' = ''NS''" using ty' assms(2,3,5)
    by (auto simp: attr_key_def split: option.split_asm if_split_asm)
  with ns assms(4) obtain k where k: "inst = Some k" "(case a_subname a' of None \<Rightarrow> snd k | Some s \<Rightarrow> s) \<noteq> []"
    by (auto simp: validate_ns_def Let_def split: option.split_asm if_split_asm)
  then show ?thesis using assms(2,5) validate_keys [OF assms(1)] by (auto simp: attr_key_def split: option.split_asm)
qed

lemma run_validation_Inr:
  assumes "run_validation parse cf V partial inst item = Inr v"
    and "\<And>k. inst = Some k \<Longrightarrow> e_url_subname V = None \<or> e_url_subname V = Some (snd k)"
  shows "may_write (e_policies V) (e_ctx V) (vkey v) \<and> (inst = None \<or> inst = Some (vkey v))"
proof -
  from assms(1) obtain a k a' where fe: "field_errors (e_ctx V) cf (e_method V) inst a = []"
    and perm: "permission_validator (e_policies V) (x_domain (e_ctx V)) (e_url_subname V) inst a = Inr ()"
    and key: "attr_key inst a = Some k" and val: "validate (e_ctx V) inst a = Inr a'" and v: "vkey v = k"
    by (auto simp: run_validation_def rbind_Inr_iff Let_def vkey_def invalid_def split: if_split_asm option.split_asm)
  have inst: "inst = None \<or> inst = Some k"
  proof (cases inst)
    case (Some j)
    with field_errors_inst [OF fe Some] key have "k = j" by (auto simp: attr_key_def split: option.split_asm)
    with Some show ?thesis by simp
  qed simp
  have "token_has_rrset_permission (e_policies V) (x_domain (e_ctx V), snd k, fst k)"
  proof (cases inst)
    case None
    with perm key show ?thesis
      by (auto simp: permission_validator_def attr_key_def split: option.split_asm list.split_asm if_split_asm)
  next
    case (Some j)
    with inst have j: "j = k" by simp
    show ?thesis using perm Some j field_errors_inst [OF fe Some] assms(2) [OF Some]
      by (auto simp: permission_validator_def split: option.split_asm list.split_asm if_split_asm)
  qed
  moreover have "\<not> (x_registrable (e_ctx V) \<and> k = (''NS'', []))"
    using validate_apex_ns [OF val, of "fst k" "snd k"] key inst by auto
  ultimately show ?thesis using v inst by (simp add: may_write_def)
qed

lemma collect_items_values: "collect_items rs = Inr is \<Longrightarrow> v \<in> set (item_values is) \<Longrightarrow> Inr v \<in> set rs"
  by (induction rs arbitrary: "is" rule: collect_items.induct) (auto simp: result_simps item_values_def)

lemma to_internal_value_validated:
  assumes "to_internal_value rv z partial ae hp known data = Inr vs" and "v \<in> set vs"
  shows "\<exists>p inst item. rv p inst item = Inr v"
proof -
  from assms(1) obtain items where data: "data = PyList items" by (cases data) (auto simp: to_internal_value_def)
  with assms obtain i where "i \<in> set (enumerate 0 items)"
    "(case i of (i, item) \<Rightarrow> validate_item rv partial known (indices z items) (collapsed_indices z items) i item) = Inr v"
    by (auto simp: to_internal_value_def Let_def result_simps split: if_split_asm dest!: collect_items_values)
  then show ?thesis by (auto simp: validate_item_def result_simps Let_def split: sum.split_asm prod.split_asm)
qed

text \<open>An item of a partial list update (\<open>PATCH\<close>) that is unknown and empty need not have all fields. If
  the subname or type is missing, the permission check raises an error that nothing handles.\<close>

lemma missing_key_crashes:
  assumes "parse True True None item = Inr a" and "a_subname a = None \<or> a_type a = None"
    and "field_errors (e_ctx V) cf (e_method V) None a = []" and "e_many V" and "e_url_subname V = None"
  shows "\<exists>m. run_validation parse cf V True None item = Inl (Crash m)"
  using assms by (auto simp: run_validation_def permission_validator_def split: option.splits)

section \<open>The endpoints\<close>

lemma rrset_view_domain_Inr:
  "rrset_view_domain r ds name = Inr d \<Longrightarrow>
     is_authenticated r \<and> d \<in> set ds \<and> m_name d = name \<and> map_option u_id (r_user r) = Some (m_owner d)"
  by (auto simp: rrset_view_domain_def view_domain_def result_simps find_Some_iff split: if_split_asm option.split_asm)

lemma handle_write_touches:
  assumes "handle_write W r name w s = (res, s')" and ctx: "\<And>d. x_domain (w_ctx W d) = m_name d"
    and ord: "\<And>A. finite A \<Longrightarrow> set (ok (w_order W) A) = A"
    and diff: "lookup_rrset (api_db s') e k \<noteq> lookup_rrset (api_db s) e k"
  shows "\<exists>d. rrset_view_domain r (w_domains W) name = Inr d \<and> e = name \<and> may_write (policies (r_auth r)) (w_ctx W d) k"
proof (cases "rrset_view_domain r (w_domains W) name")
  case (Inl x)
  with assms(1) diff show ?thesis
    by (cases w) (auto simp: detail_update_def detail_destroy_def list_post_def list_update_def)
next
  case (Inr d)
  note d = rrset_view_domain_Inr [OF Inr]
  let ?z = "zone_rows (api_db s) (m_name d)" and ?ps = "policies (r_auth r)" and ?X = "w_ctx W d"
  have goal: ?thesis if "e = x_domain ?X \<and> k \<in> K" "\<And>j. j \<in> K \<Longrightarrow> may_write ?ps ?X j" for K
    using that Inr ctx d by auto
  have V: "e_policies (endpoint_of W r d m many u z) = ?ps" "e_ctx (endpoint_of W r d m many u z) = ?X"
    "e_url_subname (endpoint_of W r d m many u z) = u" for m many u z
    by (simp_all add: endpoint_of_def)
  show ?thesis
  proof (cases w)
    case (DetailUpdate j partial data)
    with assms(1) Inr diff obtain V v where V': "V = endpoint_of W r d (if partial then ''PATCH'' else ''PUT'') False (Some (snd j)) ?z"
      and v: "run_validation (w_parse W) (conf (w_env W)) V partial (Some j) data = Inr v"
      and b: "with_tracker W (conditional_save ?X (w_so W) (Some j) v) s = (res, s')"
      by (auto simp: detail_update_def Let_def V split: sum.split_asm)
    from run_validation_Inr [OF v] have m: "may_write ?ps ?X (vkey v)" "j = vkey v" by (auto simp: V' V)
    show ?thesis
      by (rule goal [of "{vkey v}"], rule with_tracker_touches [OF b _ diff])
         (use m conditional_save_touches in auto)
  next
    case (DetailDestroy j)
    with assms(1) Inr diff obtain x where o': "detail_object ?ps (m_name d) True ?z j = Inr x"
      and b: "perform_destroy_rrset W d j s = (res, s')"
      by (auto simp: detail_destroy_def split: sum.split_asm view_error.split_asm)
    from b diff have t: "with_tracker W (rrset_delete ?X j) s = (res, s')" and "\<not> (x_registrable ?X \<and> j = (''NS'', []))"
      by (auto simp: perform_destroy_rrset_def split: if_split_asm)
    with o' ctx have m: "may_write ?ps ?X j"
      by (auto simp: detail_object_def may_write_def split: option.split_asm if_split_asm)
    show ?thesis
      by (rule goal [of "{j}"], rule with_tracker_touches [OF t _ diff]) (use m delete_touches in auto)
  next
    case (ListPost data)
    define many where "many = (case data of PyList _ \<Rightarrow> True | _ \<Rightarrow> False)"
    define V where "V = endpoint_of W r d ''POST'' many None ?z"
    let ?rv = "run_validation (w_parse W) (conf (w_env W)) V"
    from assms(1) ListPost Inr diff consider
        vs where "to_internal_value ?rv ?z False True False {} data = Inr vs"
          "with_tracker W (list_create ?X (w_so W) vs) s = (res, s')"
      | v where "?rv False None data = Inr v" "with_tracker W (conditional_save ?X (w_so W) None v) s = (res, s')"
      by (auto simp: list_post_def Let_def V_def many_def V split: sum.split_asm if_split_asm)
    then show ?thesis
    proof cases
      case 1
      have m: "may_write ?ps ?X (vkey v)" if v: "v \<in> set vs" for v
        using to_internal_value_validated [OF 1(1) v] run_validation_Inr by (force simp: V_def V)
      show ?thesis
        by (rule goal [of "vkey ` set vs"], rule with_tracker_touches [OF 1(2) _ diff])
           (use m list_create_touches in auto)
    next
      case 2
      from run_validation_Inr [OF 2(1)] have m: "may_write ?ps ?X (vkey v)" by (auto simp: V_def V)
      show ?thesis
        by (rule goal [of "{vkey v}"], rule with_tracker_touches [OF 2(2) _ diff])
           (use m conditional_save_touches in auto)
    qed
  next
    case (ListUpdate qs qt partial data)
    define V where "V = endpoint_of W r d (if partial then ''PATCH'' else ''PUT'') True None ?z"
    let ?rv = "run_validation (w_parse W) (conf (w_env W)) V"
    from assms(1) ListUpdate Inr diff obtain ks vs where
      vs: "to_internal_value ?rv ?z partial True False (set ks) data = Inr vs"
      and b: "with_tracker W (rrsets_update ?X (w_so W) (ok (w_order W)) (set ks) vs) s = (res, s')"
      by (auto simp: list_update_def Let_def V_def V split: sum.split_asm)
    have m: "may_write ?ps ?X (vkey v)" if v: "v \<in> set vs" for v
      using to_internal_value_validated [OF vs v] run_validation_Inr by (force simp: V_def V)
    show ?thesis
      by (rule goal [of "vkey ` set vs"], rule with_tracker_touches [OF b _ diff])
         (use m rrsets_update_touches ord in auto)
  qed
qed

text \<open>C3: For every writing request on the RRset endpoints, whatever it contains, whether or not it succeeds and
  whatever PowerDNS answers: if the RRset at some name and type of some domain differs afterwards,
  then the request was authenticated, the domain is the one in the URL and belongs to the requesting
  user, the policy that applies to this RRset grants the token write permission, and it is not the
  apex NS RRset of a domain under a local public suffix.\<close>

theorem writes_are_authorised:
  assumes "handle_write W r name w s = (res, s')" and "\<And>d. x_domain (w_ctx W d) = m_name d"
    and "\<And>A. finite A \<Longrightarrow> set (ok (w_order W) A) = A"
    and "lookup_rrset (api_db s') e k \<noteq> lookup_rrset (api_db s) e k"
  shows "is_authenticated r \<and> e = name \<and>
    (\<exists>d \<in> set (w_domains W). m_name d = name \<and> map_option u_id (r_user r) = Some (m_owner d) \<and>
       token_has_rrset_permission (policies (r_auth r)) (name, snd k, fst k) \<and>
       \<not> (x_registrable (w_ctx W d) \<and> k = (''NS'', [])))"
proof -
  from handle_write_touches [OF assms] obtain d where "rrset_view_domain r (w_domains W) name = Inr d" "e = name"
    "may_write (policies (r_auth r)) (w_ctx W d) k" by blast
  with rrset_view_domain_Inr assms(2) show ?thesis by (fastforce simp: may_write_def)
qed

section \<open>An example\<close>

text \<open>The deletion of the A records at \<open>w.e.f\<close> with a token that may write just these.\<close>

definition writer :: request where
  "writer =
     \<lparr>r_user = Some \<lparr>u_id = 7, u_is_active = Some True, u_mfa_enabled = False, u_limit_domains = None, u_domain_count = 1\<rparr>,
      r_auth = \<lparr>t_id = 1, t_owner = 7, t_user_override = None, t_created = 0, t_last_used = None, t_max_age = None,
        t_max_unused = None, t_mfa = None, perm_create_domain = False, perm_delete_domain = False,
        perm_manage_tokens = False, auto_policy = False,
        policies = [\<lparr>p_id = 1, p_domain = Some ''e.f'', p_subname = Some ''w'', p_rtype = Some ''A'', perm_write = True\<rparr>]\<rparr>,
      r_remote_addr = 0\<rparr>"

definition example_view :: "http_request list view_env" where
  "example_view =
     \<lparr>w_env = constant_env 200, w_order = name_order, w_url = [], w_now = 7, w_so = sorted_list_of_set,
      w_parse = (\<lambda>_ _ _ _. invalid []), w_ctx = (\<lambda>d. example_ctx\<lparr>x_domain := m_name d, x_registrable := False\<rparr>),
      w_domains = [\<lparr>m_name = ''e.f'', m_owner = 7\<rparr>]\<rparr>"

definition example_sys :: "http_request list sys" where
  "example_sys =
     \<lparr>api_db = \<lparr>zones = [''e.f'' \<mapsto> [((''A'', ''w''), \<lparr>ttl = 60, records = [''192.0.2.1'']\<rparr>)]], published = Map.empty\<rparr>,
      net = [], active = 0\<rparr>"

lemma writer_facts:
  "rrset_view_domain writer (w_domains example_view) ''e.f'' = Inr \<lparr>m_name = ''e.f'', m_owner = 7\<rparr>"
  "token_has_rrset_permission (policies (r_auth writer)) (''e.f'', ''w'', ''A'')"
  by (simp_all add: rrset_view_domain_def view_domain_def writer_def example_view_def is_authenticated_def
      is_api_token_def is_domain_owner_def token_has_rrset_permission_def get_policy_def matches_def)

lemma example_write:
  "\<exists>s'. handle_write example_view writer ''e.f'' (DetailDestroy (''A'', ''w'')) example_sys = (Inr (), s') \<and>
     lookup_rrset (api_db s') ''e.f'' (''A'', ''w'') = None"
proof -
  let ?k = "(''A'', ''w'')"
  let ?D = "\<lparr>zones = [''e.f'' \<mapsto> []], published = Map.empty\<rparr> :: db"
  let ?s = "\<lparr>api_db = ?D, net = [], active = 0\<rparr> :: http_request list sys"
  obtain t where step: "db_step (OpRRsetDelete ''e.f'' ?k) (api_db example_sys, new_tracker) = Inr (?D, t)"
    and t: "domain_additions t = {}" "domain_deletions t = {}" "rr_set_additions t = [''e.f'' \<mapsto> {}]"
      "rr_set_modifications t = [''e.f'' \<mapsto> {}]" "rr_set_deletions t = [''e.f'' \<mapsto> {?k}]"
    by (rule that [of "set_rrsets ''e.f'' {} {} {?k} (set_rrsets ''e.f'' {} {?k} {} (set_rrsets ''e.f'' {} {} {} new_tracker))"])
       (simp_all add: rrset_delete_step_def example_sys_def rrset_of_def zone_of_def handler_defs' on_rr_post_delete_def
        rr_set_updated_def new_tracker_def set_rrsets_def key_of_def drop_rrset_def)
  have changes: "compute_changes name_order ?D t = Inr [CreateUpdateDeleteRRSets ''e.f'' {} {} {?k}]"
    using t by (simp add: compute_changes_def changes_of_def name_order_def get_set_def)
  let ?c = "CreateUpdateDeleteRRSets ''e.f'' {} {} {?k}"
  have "fst (do_change (constant_env 200) name_order [] ?c ?s) = Inr ()"
    by (simp add: do_change_def rrsets_data_def name_order_def deletion_entry_def on_net_def io_bind_def update_zone_def
        pdns_patch_def pdns_request_def example_ids constant_env_def entry_pyval_def construct_name_def
        dumps_str_def escape_char_def show_int_def show_nat.simps rstrip_char_def split: prod.splits sum.splits)
  then obtain v where v: "do_change (constant_env 200) name_order [] ?c ?s = (Inr (), v)"
    by (metis prod.collapse)
  have vd: "api_db v = ?D" using do_change_lookup [OF v] by simp
  have ax: "fst (io_iter (\<lambda>d. on_net (axfr_to_master (constant_env 200) d)) [''e.f''] v) = Inr ()"
    by (simp add: on_net_def io_bind_def axfr_to_master_def pdns_put_def pdns_request_def example_ids constant_env_def
        split: prod.splits sum.splits)
  then obtain u where u: "io_iter (\<lambda>d. on_net (axfr_to_master (constant_env 200) d)) [''e.f''] v = (Inr (), u)"
    by (metis prod.collapse)
  have ud: "api_db u = ?D" using axfr_frame [OF u] vd by simp
  have exit: "tracker_exit (constant_env 200) name_order [] 7 False (api_db example_sys) t
      (example_sys\<lparr>active := 1, api_db := ?D\<rparr>) = (Inr (), u\<lparr>api_db := set_published {''e.f''} 7 ?D\<rparr>)"
    using v u ud by (simp add: tracker_exit_def Let_def changes example_sys_def io_bind_def name_order_od)
  have "detail_destroy example_view writer ''e.f'' ?k example_sys =
      with_tracker example_view (rrset_delete (w_ctx example_view \<lparr>m_name = ''e.f'', m_owner = 7\<rparr>) ?k) example_sys"
    using writer_facts
    by (simp add: detail_destroy_def perform_destroy_rrset_def detail_object_def zone_rows_def example_sys_def)
  also have "\<dots> = (Inr (), u\<lparr>api_db := set_published {''e.f''} 7 ?D\<rparr>)"
    using step exit
    by (simp add: with_tracker_def tracker_enter_def Let_def example_view_def example_ctx_def rrset_delete_def in_db_def
        example_sys_def del: db_step.simps)
  finally show ?thesis by (simp add: set_published_def lookup_rrset_def)
qed

theorem writes_are_authorised_witness:
  "\<exists>s'. handle_write example_view writer ''e.f'' (DetailDestroy (''A'', ''w'')) example_sys = (Inr (), s') \<and>
     lookup_rrset (api_db s') ''e.f'' (''A'', ''w'') = None \<and>
     token_has_rrset_permission (policies (r_auth writer)) (''e.f'', ''w'', ''A'')"
proof -
  from example_write obtain s' where s': "handle_write example_view writer ''e.f'' (DetailDestroy (''A'', ''w'')) example_sys = (Inr (), s')"
    "lookup_rrset (api_db s') ''e.f'' (''A'', ''w'') = None" by blast
  have "lookup_rrset (api_db s') ''e.f'' (''A'', ''w'') \<noteq> lookup_rrset (api_db example_sys) ''e.f'' (''A'', ''w'')"
    using s'(2) by (simp add: example_sys_def lookup_rrset_def)
  from writes_are_authorised [OF s'(1) _ _ this] s' show ?thesis
    by (auto simp: example_view_def name_order_def)
qed

end
