(* ===== verification/SyncCommands.thy ===== *)
theory SyncCommands
  imports Records
begin

text \<open>
  The commands that bring the database and PowerDNS in line with each other by hand:
  \<open>sync-to-pdns\<close>, \<open>sync-from-pdns\<close> and \<open>align-catalog-zone\<close>. Progress messages are left out.
\<close>

section \<open>Choosing the domains\<close>

datatype cause =
  Raised terror
| NotClean rrkey

datatype command_error =
  UnknownDomain string
| Processing string cause
| Uncaught pdns_error

text \<open>\<open>rows\<close> are the names of all domains in the order of the query.\<close>

definition select_domains :: "string list \<Rightarrow> string list \<Rightarrow> (command_error, string list) result" where
  "select_domains rows names =
     (if names = [] then Inr rows
      else let chosen = filter (\<lambda>d. d \<in> set names) rows in
        case find (\<lambda>n. n \<notin> set chosen) names of
          Some n \<Rightarrow> Inl (UnknownDomain n)
        | None \<Rightarrow> Inr chosen)"

section \<open>\<open>align-catalog-zone\<close>\<close>

definition zone_names :: "http_response \<Rightarrow> (pdns_error, string list) result" where
  "zone_names r = rbind (py_items (json_body r)) (rmap (\<lambda>z. rbind (py_get z ''name'') py_str))"

text \<open>The serial of the catalog zone, absent if the zone does not exist.\<close>

definition catalog_serial :: "'w env \<Rightarrow> string \<Rightarrow> ('w, pdns_error, pyval option) io" where
  "catalog_serial E catalog_zone_id =
     io_catch
       (io_bind (pdns_get E NSMASTER (''/zones/'' @ catalog_zone_id) app_json) (\<lambda>r.
          io_lift (rbind (py_get (json_body r) ''serial'') (\<lambda>v. Inr (if v = PyNone then None else Some v)))))
       (\<lambda>e. if e = PDNSException 404 then io_return None else io_raise e)"

definition purge_catalog :: "'w env \<Rightarrow> string \<Rightarrow> ('w, pdns_error, unit) io" where
  "purge_catalog E catalog_zone_id =
     io_catch (io_bind (pdns_delete E NSMASTER (''/zones/'' @ catalog_zone_id)) (\<lambda>_. io_return ()))
       (\<lambda>e. if e = PDNSException 404 then io_return () else io_raise e)"

definition catalog_rrsets :: "'w env \<Rightarrow> string list \<Rightarrow> (pdns_error, pyval list) result" where
  "catalog_rrsets E names =
     rbind (construct_catalog_rrset E None False (Some []) ''NS'' (Some ''invalid.'')) (\<lambda>ns.
     rbind (construct_catalog_rrset E None False (Some ''version'') ''TXT'' (Some [CHR 0x22, CHR ''2'', CHR 0x22])) (\<lambda>v.
     rbind (rmap (\<lambda>zone. construct_catalog_rrset E (Some zone) False None ''PTR'' None) names) (\<lambda>rrs.
       Inr (ns # v # rrs))))"

definition next_serial :: "pyval option \<Rightarrow> (pdns_error, (string \<times> pyval) list) result" where
  "next_serial serial =
     (case serial of
        None \<Rightarrow> Inr []
      | Some (PyInt n) \<Rightarrow> Inr [(''serial'', PyInt (n + 1))]
      | Some _ \<Rightarrow> Inl PyTypeError)"

definition align_catalog_zone :: "'w env \<Rightarrow> order \<Rightarrow> ('w, pdns_error, nat) io" where
  "align_catalog_zone E R =
     io_bind (io_lift (pdns_id (catalog_zone (conf E)))) (\<lambda>catalog_zone_id.
     io_bind (io_bind (pdns_get E NSLORD ''/zones'' app_json) (\<lambda>r. io_lift (zone_names r))) (\<lambda>names.
     io_bind (catalog_serial E catalog_zone_id) (\<lambda>serial.
     io_bind (purge_catalog E catalog_zone_id) (\<lambda>_.
     io_bind (io_lift (catalog_rrsets E (od R (set names)))) (\<lambda>rrsets.
     io_bind (io_lift (next_serial serial)) (\<lambda>more.
     io_bind (pdns_post E NSMASTER ''/zones?rrsets=false''
        (PyDict ([(''name'', PyStr (catalog_zone (conf E) @ ''.'')), (''kind'', PyStr ''MASTER''),
            (''dnssec'', PyBool False), (''nameservers'', PyList []), (''rrsets'', PyList rrsets)] @ more)))
        (\<lambda>_. io_return (card (set names)))))))))"

section \<open>\<open>sync-to-pdns\<close>\<close>

text \<open>Creating the domain in PowerDNS; an answer of 409 means that it exists.\<close>

definition ensure_created :: "'w env \<Rightarrow> order \<Rightarrow> string \<Rightarrow> ('w sys, terror, bool) io" where
  "ensure_created E R d =
     io_catch (io_bind (pdns_do E R (CreateDomain d)) (\<lambda>_. io_return True))
       (\<lambda>e. if e = PdnsError (PDNSException 409) then io_return False else io_raise e)"

definition listed_keys :: "rrset_data list \<Rightarrow> (pdns_error, rrkey list) result" where
  "listed_keys = rmap (\<lambda>r. rbind (py_str (d_type r)) (\<lambda>ty. Inr (ty, d_subname r)))"

definition sync_to_domain :: "'w env \<Rightarrow> order \<Rightarrow> string \<Rightarrow> ('w sys, terror, bool) io" where
  "sync_to_domain E R d =
     io_bind (ensure_created E R d) (\<lambda>created.
     io_bind (\<lambda>s. (Inr (case zones (api_db s) d of None \<Rightarrow> {} | Some z \<Rightarrow> keys z), s)) (\<lambda>modifications.
     io_bind (on_net (io_bind (get_rrset_datas E d) (\<lambda>rs. io_lift (listed_keys rs)))) (\<lambda>present.
       let deletions = set present - modifications - {(''SOA'', [])} in
     io_bind (pdns_do E R (CreateUpdateDeleteRRSets d {} modifications deletions)) (\<lambda>_.
     io_bind (on_net (axfr_to_master E d)) (\<lambda>_. io_return created)))))"

text \<open>The loop over the domains tells whether one was created.\<close>

fun sync_to_loop :: "'w env \<Rightarrow> order \<Rightarrow> string list \<Rightarrow> bool \<Rightarrow> ('w sys, command_error, bool) io" where
  "sync_to_loop E R [] alignment = io_return alignment"
| "sync_to_loop E R (d # ds) alignment =
     io_bind (io_catch (sync_to_domain E R d) (\<lambda>e. io_raise (Processing d (Raised e)))) (\<lambda>created.
       sync_to_loop E R ds (alignment \<or> created))"

definition sync_to_pdns :: "'w env \<Rightarrow> order \<Rightarrow> string list \<Rightarrow> string list \<Rightarrow> ('w sys, command_error, unit) io" where
  "sync_to_pdns E R rows names =
     io_bind (io_lift (select_domains rows names)) (\<lambda>ds.
     io_bind (sync_to_loop E R ds False) (\<lambda>alignment.
       if alignment then
         (\<lambda>s. case align_catalog_zone E R (net s) of
                (Inl e, w) \<Rightarrow> (Inl (Uncaught e), s\<lparr>net := w\<rparr>)
              | (Inr _, w) \<Rightarrow> (Inr (), s\<lparr>net := w\<rparr>))
       else io_return ()))"

section \<open>\<open>sync-from-pdns\<close>\<close>

text \<open>The keyword arguments of \<open>RRset\<close> and the contents of its RRs.\<close>

definition row_of_data :: "rrset_data \<Rightarrow> (pdns_error, rrkey \<times> rrset) result" where
  "row_of_data r =
     rbind (py_str (d_type r)) (\<lambda>ty.
     rbind (case d_ttl r of PyInt n \<Rightarrow> if 0 \<le> n then Inr (nat n) else Inl PyTypeError | _ \<Rightarrow> Inl PyTypeError) (\<lambda>n.
     rbind (rmap py_str (d_records r)) (\<lambda>cs. Inr ((ty, d_subname r), \<lparr>ttl = n, records = cs\<rparr>))))"

definition automatic :: "rrset_data \<Rightarrow> bool" where
  "automatic r \<longleftrightarrow> (case d_type r of PyStr ty \<Rightarrow> ty \<in> rr_set_types_automatic | _ \<Rightarrow> False)"

definition imported_rows :: "rrset_data list \<Rightarrow> (pdns_error, (rrkey \<times> rrset) list) result" where
  "imported_rows rs = rmap row_of_data (filter (\<lambda>r. \<not> automatic r) rs)"

text \<open>\<open>RRManager.bulk_create\<close> saves every RRset that got RRs, and \<open>RRset.save\<close> runs \<open>full_clean\<close>.\<close>

definition clean_key :: "rrkey \<Rightarrow> bool" where
  "clean_key k \<longleftrightarrow>
     (snd k = [] \<or> (run_validators subname_validators (snd k) = [] \<and> length (snd k) \<le> 178)) \<and>
     fst k \<noteq> [] \<and> run_validators type_validators (fst k) = [] \<and> length (fst k) \<le> 10"

text \<open>The tables enforce one row per key, exclusive CNAMEs, and distinct contents.\<close>

definition replace_zone :: "string \<Rightarrow> (rrkey \<times> rrset) list \<Rightarrow> db \<Rightarrow> (cause, db) result" where
  "replace_zone d rows D =
     rbind (require (zones D d \<noteq> None) (Raised DoesNotExist)) (\<lambda>_.
     rbind (require (distinct (map fst rows) \<and> (\<forall>k \<in> set (map fst rows). \<not> cname_conflict rows k)) (Raised IntegrityError)) (\<lambda>_.
     rbind (require (\<forall>r \<in> set (map snd rows). distinct (records r)) (Raised IntegrityError)) (\<lambda>_.
       (case find (\<lambda>r. records (snd r) \<noteq> [] \<and> \<not> clean_key (fst r)) rows of
          Some r \<Rightarrow> Inl (NotClean (fst r))
        | None \<Rightarrow> Inr (D\<lparr>zones := (zones D)(d \<mapsto> rows)\<rparr>)))))"

text \<open>A transaction: the database changes only if nothing is raised.\<close>

definition sync_from_domain :: "'w env \<Rightarrow> string \<Rightarrow> ('w sys, cause, unit) io" where
  "sync_from_domain E d s =
     (case on_net (io_bind (get_rrset_datas E d) (\<lambda>rs. io_lift (imported_rows rs))) s of
        (Inl e, s') \<Rightarrow> (Inl (Raised e), s')
      | (Inr rows, s') \<Rightarrow>
          (case replace_zone d rows (api_db s') of
             Inl e \<Rightarrow> (Inl e, s')
           | Inr D \<Rightarrow> (Inr (), s'\<lparr>api_db := D\<rparr>)))"

definition sync_from_pdns :: "'w env \<Rightarrow> string list \<Rightarrow> string list \<Rightarrow> ('w sys, command_error, unit) io" where
  "sync_from_pdns E rows names =
     io_bind (io_lift (select_domains rows names)) (\<lambda>ds.
       io_iter (\<lambda>d. io_catch (sync_from_domain E d) (\<lambda>c. io_raise (Processing d c))) ds)"

end
