(* ===== verification/NameServer.thy ===== *)
theory NameServer
  imports Tracker JsonDecode "HOL-Library.Sublist"
begin

text \<open>
  What the code relies on when it talks to the hidden primary (\<open>nslord\<close>): the documented behaviour
  of the zone endpoints of the PowerDNS HTTP API, as an interface. The state of a server is seen as
  a map from zone identifiers to the RRsets of the zone other than the SOA, which PowerDNS maintains
  itself. The interface is interpreted on a reference server that decodes the requests it gets.
\<close>

section \<open>Served zones\<close>

type_synonym served = "(string \<times> string) \<rightharpoonup> (nat \<times> string set)"

definition apply_entry :: "pdns_rrset \<Rightarrow> served \<Rightarrow> served" where
  "apply_entry e m =
     (if p_type e = ''SOA'' then m
      else m((p_name e, p_type e) := (if p_records e = [] then None else Some (p_ttl e, set (p_records e)))))"

definition initial_zone :: "settings \<Rightarrow> string \<Rightarrow> served" where
  "initial_zone c n =
     (\<lambda>k. if k = (n, ''NS'') \<and> default_ns c \<noteq> [] then Some (default_ns_ttl c, set (default_ns c)) else None)"

definition create_data :: "settings \<Rightarrow> string \<Rightarrow> pyval" where
  "create_data c n =
     PyDict
       [(''name'', PyStr n), (''kind'', PyStr ''MASTER''), (''dnssec'', PyBool True),
        (''nsec3param'', PyStr ''1 0 0 -''),
        (''nameservers'', PyList (map PyStr (default_ns c))),
        (''rrsets'', PyList [PyDict
           [(''name'', PyStr n), (''type'', PyStr ''SOA''), (''ttl'', PyInt 300),
            (''records'', PyList [PyDict [(''content'', PyStr soa_content), (''disabled'', PyBool False)]])]])]"

definition patch_data :: "pdns_rrset list \<Rightarrow> pyval" where
  "patch_data es = PyDict [(''rrsets'', PyList (map entry_pyval es))]"

text \<open>A JSON object that depicts an RRset, whatever else it contains; a list of RRsets that is the content
  of the zone of a domain.\<close>

definition depicts :: "pdns_rrset \<Rightarrow> pyval \<Rightarrow> bool" where
  "depicts e v \<longleftrightarrow>
     py_get v ''name'' = Inr (PyStr (p_name e)) \<and> py_get v ''type'' = Inr (PyStr (p_type e)) \<and>
     py_get v ''ttl'' = Inr (PyInt (int (p_ttl e))) \<and>
     (\<exists>rs. py_get v ''records'' = Inr (PyList rs) \<and>
           rmap (\<lambda>r. py_get r ''content'') rs = Inr (map PyStr (p_records e)))"

definition entry_key :: "pdns_rrset \<Rightarrow> string \<times> string" where
  "entry_key e = (p_name e, p_type e)"

definition lists :: "string \<Rightarrow> pdns_rrset list \<Rightarrow> served \<Rightarrow> bool" where
  "lists d es m \<longleftrightarrow>
     distinct (map entry_key es) \<and> (\<forall>e \<in> set es. \<exists>s. p_name e = construct_name s d) \<and>
     (\<forall>e \<in> set es. distinct (p_records e) \<and> p_records e \<noteq> [] \<and>
        (p_type e \<noteq> ''SOA'' \<longrightarrow> m (entry_key e) = Some (p_ttl e, set (p_records e)))) \<and>
     (\<forall>k. m k \<noteq> None \<longrightarrow> snd k \<noteq> ''SOA'' \<and> k \<in> entry_key ` set es)"

text \<open>What a request comes to: nothing is sent, or the answer decides.\<close>

lemma pdns_request_sent:
  assumes "pdns_request E m srv path data acc w = (r, w')"
  obtains (unsent) x where "r = Inl x" "w' = w"
  | (sent) body q where "q = \<lparr>h_method = m, h_url = base_url (conf E) srv @ path, h_data = body, h_accept = acc\<rparr>"
      "snd (send E q w) = w'" "\<And>d. data = Some d \<Longrightarrow> \<exists>s. dumps d = Inr s \<and> body = Some s"
      "r = (if status_code (fst (send E q w)) \<in> {200..<300} then Inr (fst (send E q w))
            else Inl (PDNSException (status_code (fst (send E q w)))))"
proof -
  define q where "q body = \<lparr>h_method = m, h_url = base_url (conf E) srv @ path, h_data = body, h_accept = acc\<rparr>" for body
  define ret where "ret (y :: http_response) = (if status_code y \<in> {200..<300} then Inr y else Inl (PDNSException (status_code y)))" for y
  define enc :: "(pdns_error, string option) result" where "enc = (case data of None \<Rightarrow> Inr None
      | Some d \<Rightarrow> (case dumps d of Inl _ \<Rightarrow> Inl PyTypeError | Inr s \<Rightarrow> Inr (Some s)))"
  have eq: "pdns_request E m srv path data acc w = (case enc of Inl x \<Rightarrow> (Inl x, w) | Inr body \<Rightarrow>
      if (case body of None \<Rightarrow> False | Some s \<Rightarrow> pdns_max_body_size (conf E) < length s) then (Inl RequestEntityTooLarge, w)
      else (ret (fst (send E (q body) w)), snd (send E (q body) w)))"
    by (simp add: pdns_request_def io_bind_def enc_def q_def ret_def Let_def split: option.split sum.split prod.split)
  show ?thesis
  proof (cases enc)
    case (Inl x)
    with assms eq have "r = Inl x" "w' = w" by auto
    then show ?thesis by (rule unsent)
  next
    case (Inr body)
    have "\<exists>s. dumps d = Inr s \<and> body = Some s" if "data = Some d" for d
      using Inr that by (auto simp: enc_def split: sum.split_asm)
    note data = this
    show ?thesis
    proof (cases "case body of None \<Rightarrow> False | Some s \<Rightarrow> pdns_max_body_size (conf E) < length s")
      case True
      with assms eq Inr have "r = Inl RequestEntityTooLarge" "w' = w" by auto
      then show ?thesis by (rule unsent)
    next
      case False
      with assms eq Inr have r: "r = ret (fst (send E (q body) w))" and w: "snd (send E (q body) w) = w'" by auto
      show ?thesis
        by (rule sent [OF q_def w data]) (auto simp: r ret_def)
    qed
  qed
qed

text \<open>What \<open>get_rrset_datas\<close> makes of an RRset it is shown.\<close>

definition data_of :: "string \<Rightarrow> pdns_rrset \<Rightarrow> rrset_data" where
  "data_of d e =
     \<lparr>d_domain = d, d_subname = subname_of_name d (p_name e), d_type = PyStr (p_type e),
      d_records = map PyStr (p_records e), d_ttl = PyInt (int (p_ttl e))\<rparr>"

lemma rrset_data_of_depicts: "depicts e v \<Longrightarrow> rrset_data_of d v = Inr (data_of d e)"
  by (auto simp: depicts_def rrset_data_of_def data_of_def py_str_def py_items_def)

lemma rmap_list_all2:
  "list_all2 P xs ys \<Longrightarrow> (\<And>x y. P x y \<Longrightarrow> f y = Inr (g x)) \<Longrightarrow> rmap f ys = Inr (map g xs)"
  by (induction rule: list_all2_induct) auto

section \<open>The interface\<close>

abbreviation success :: "http_response \<Rightarrow> bool" where
  "success r \<equiv> status_code r \<in> {200..<300}"

definition lord_url :: "settings \<Rightarrow> string \<Rightarrow> string" where
  "lord_url c i = nslord_api c @ ''/zones/'' @ i"

definition lord_zones_url :: "settings \<Rightarrow> string" where
  "lord_zones_url c = nslord_api c @ ''/zones?rrsets=false''"

locale name_server =
  fixes E :: "'w env"
    and lord :: "'w \<Rightarrow> string \<Rightarrow> served option"
  assumes apart: "parallel (nslord_api (conf E)) (nsmaster_api (conf E))"
    and read_only: "h_method q = Get \<Longrightarrow> lord (snd (send E q w)) = lord w"
    and elsewhere: "\<not> prefix (nslord_api (conf E)) (h_url q) \<Longrightarrow> lord (snd (send E q w)) = lord w"
    and refused: "\<not> success (fst (send E q w)) \<Longrightarrow> lord (snd (send E q w)) = lord w"
    and created: "h_method q = Post \<Longrightarrow> h_url q = lord_zones_url (conf E) \<Longrightarrow> h_data q = Some body \<Longrightarrow>
      dumps (create_data (conf E) (d @ ''.'')) = Inr body \<Longrightarrow> domain_labels_ok d \<Longrightarrow> pdns_id d = Inr i \<Longrightarrow>
      success (fst (send E q w)) \<Longrightarrow>
      lord w i = None \<and> lord (snd (send E q w)) = (lord w)(i \<mapsto> initial_zone (conf E) (d @ ''.''))"
    and patched: "h_method q = Patch \<Longrightarrow> h_url q = lord_url (conf E) i \<Longrightarrow> h_data q = Some body \<Longrightarrow>
      dumps (patch_data es) = Inr body \<Longrightarrow> domain_labels_ok d \<Longrightarrow> pdns_id d = Inr i \<Longrightarrow>
      (\<And>e. e \<in> set es \<Longrightarrow> \<exists>s. p_name e = construct_name s d) \<Longrightarrow> success (fst (send E q w)) \<Longrightarrow>
      \<exists>m. lord w i = Some m \<and> lord (snd (send E q w)) = (lord w)(i \<mapsto> fold apply_entry es m)"
    and deleted: "h_method q = Delete \<Longrightarrow> h_url q = lord_url (conf E) i \<Longrightarrow> domain_labels_ok d \<Longrightarrow>
      pdns_id d = Inr i \<Longrightarrow> success (fst (send E q w)) \<Longrightarrow> lord (snd (send E q w)) = (lord w)(i := None)"
    and listed: "h_method q = Get \<Longrightarrow> h_url q = lord_url (conf E) i \<Longrightarrow> domain_labels_ok d \<Longrightarrow> pdns_id d = Inr i \<Longrightarrow>
      success (fst (send E q w)) \<Longrightarrow>
      \<exists>m vs es. lord w i = Some m \<and> py_get (json_body (fst (send E q w))) ''rrsets'' = Inr (PyList vs) \<and>
        list_all2 depicts es vs \<and> lists d es m"
begin

lemma request_read_only: "pdns_request E Get srv path data acc w = (r, w') \<Longrightarrow> lord w' = lord w"
  by (erule pdns_request_sent) (auto dest!: sym [of _ w'] intro: read_only)

lemma master_elsewhere: "\<not> prefix (nslord_api (conf E)) (nsmaster_api (conf E) @ path)"
proof
  assume "prefix (nslord_api (conf E)) (nsmaster_api (conf E) @ path)"
  then have "prefix (nslord_api (conf E)) (nsmaster_api (conf E)) \<or> prefix (nsmaster_api (conf E)) (nslord_api (conf E))"
    by (metis prefix_same_cases prefixI)
  with apart show False by (simp add: parallel_def)
qed

lemma request_to_master: "pdns_request E m NSMASTER path data acc w = (r, w') \<Longrightarrow> lord w' = lord w"
  by (erule pdns_request_sent)
     (auto dest!: sym [of _ w'] intro!: elsewhere simp: base_url_def master_elsewhere)

lemma create_zone_effect:
  assumes "create_zone_lord E d w = (r, w')" and d: "domain_labels_ok d" and i: "pdns_id d = Inr i"
  shows "(case r of Inl e \<Rightarrow> lord w' = lord w
     | Inr _ \<Rightarrow> lord w i = None \<and> lord w' = (lord w)(i \<mapsto> initial_zone (conf E) (d @ ''.'')))"
proof -
  have n: "rstrip_char CHR ''.'' d @ ''.'' = d @ ''.''" using domain_labels_ok_last [OF d] by (simp add: rstrip_char_id)
  obtain q where p: "pdns_request E Post NSLORD ''/zones?rrsets=false'' (Some (create_data (conf E) (d @ ''.''))) app_json w = (q, w')"
    and r: "r = (case q of Inl e \<Rightarrow> Inl e | Inr _ \<Rightarrow> Inr ())"
    using assms(1) unfolding create_zone_lord_def Let_def n pdns_post_def create_data_def [symmetric] io_bind_def
    by (auto split: prod.split_asm sum.split_asm)
  from p show ?thesis
  proof (cases rule: pdns_request_sent)
    case unsent
    then show ?thesis by (simp add: r)
  next
    case (sent body a)
    from sent(3) obtain s where s: "dumps (create_data (conf E) (d @ ''.'')) = Inr s" "body = Some s" by auto
    show ?thesis
    proof (cases "success (fst (send E a w))")
      case True
      have "lord w i = None \<and> lord (snd (send E a w)) = (lord w)(i \<mapsto> initial_zone (conf E) (d @ ''.''))"
        by (rule created [OF _ _ _ s(1) d i True]) (simp_all add: sent(1) s lord_zones_url_def base_url_def)
      then show ?thesis using sent(2,4) True by (simp add: r)
    next
      case False
      then show ?thesis using sent(2,4) refused [OF False] by (auto simp: r)
    qed
  qed
qed

lemma update_zone_effect:
  assumes "update_zone E d (patch_data es) w = (r, w')" and d: "domain_labels_ok d" and i: "pdns_id d = Inr i"
    and names: "\<And>e. e \<in> set es \<Longrightarrow> \<exists>s. p_name e = construct_name s d"
  shows "(case r of Inl e \<Rightarrow> lord w' = lord w
     | Inr _ \<Rightarrow> \<exists>m. lord w i = Some m \<and> lord w' = (lord w)(i \<mapsto> fold apply_entry es m))"
proof -
  obtain q where p: "pdns_request E Patch NSLORD (''/zones/'' @ i) (Some (patch_data es)) app_json w = (q, w')"
    and r: "r = (case q of Inl e \<Rightarrow> Inl e | Inr _ \<Rightarrow> Inr ())"
    using assms(1) i unfolding update_zone_def pdns_patch_def io_bind_def
    by (auto split: prod.split_asm sum.split_asm)
  from p show ?thesis
  proof (cases rule: pdns_request_sent)
    case unsent
    then show ?thesis by (simp add: r)
  next
    case (sent body a)
    from sent(3) obtain s where s: "dumps (patch_data es) = Inr s" "body = Some s" by auto
    show ?thesis
    proof (cases "success (fst (send E a w))")
      case True
      have "\<exists>m. lord w i = Some m \<and> lord (snd (send E a w)) = (lord w)(i \<mapsto> fold apply_entry es m)"
        by (rule patched [OF _ _ _ s(1) d i names True]) (simp_all add: sent(1) s lord_url_def base_url_def)
      then show ?thesis using sent(2,4) True by (simp add: r)
    next
      case False
      then show ?thesis using sent(2,4) refused [OF False] by (auto simp: r)
    qed
  qed
qed

lemma delete_zone_effect:
  assumes "delete_zone_lord E d w = (r, w')" and d: "domain_labels_ok d" and i: "pdns_id d = Inr i"
  shows "(case r of Inl e \<Rightarrow> lord w' = lord w | Inr _ \<Rightarrow> lord w' = (lord w)(i := None))"
proof -
  obtain q where p: "pdns_request E Delete NSLORD (''/zones/'' @ i) None app_json w = (q, w')"
    and r: "r = (case q of Inl e \<Rightarrow> Inl e | Inr _ \<Rightarrow> Inr ())"
    using assms(1) i unfolding delete_zone_lord_def pdns_delete_def io_bind_def
    by (auto split: prod.split_asm sum.split_asm)
  from p show ?thesis
  proof (cases rule: pdns_request_sent)
    case unsent
    then show ?thesis by (simp add: r)
  next
    case (sent body a)
    show ?thesis
    proof (cases "success (fst (send E a w))")
      case True
      have "lord (snd (send E a w)) = (lord w)(i := None)"
        by (rule deleted [OF _ _ d i True]) (simp_all add: sent(1) lord_url_def base_url_def)
      then show ?thesis using sent(2,4) True by (simp add: r)
    next
      case False
      then show ?thesis using sent(2,4) refused [OF False] by (auto simp: r)
    qed
  qed
qed

lemma listing_effect:
  assumes "get_rrset_datas E d w = (r, w')" and d: "domain_labels_ok d" and i: "pdns_id d = Inr i"
  shows "lord w' = lord w \<and>
    (\<forall>ds. r = Inr ds \<longrightarrow> (\<exists>m es. lord w i = Some m \<and> lists d es m \<and> ds = map (data_of d) es))"
proof -
  obtain q where p: "pdns_request E Get NSLORD (''/zones/'' @ i) None app_json w = (q, w')"
    and r: "r = (case q of Inl e \<Rightarrow> Inl e
      | Inr a \<Rightarrow> rbind (rbind (py_get (json_body a) ''rrsets'') py_items) (rmap (rrset_data_of d)))"
    using assms(1) i unfolding get_rrset_datas_def get_zone_def pdns_get_def io_bind_def
    by (auto split: prod.split_asm sum.split_asm)
  have ro: "lord w' = lord w" by (rule request_read_only [OF p])
  from p show ?thesis
  proof (cases rule: pdns_request_sent)
    case unsent
    with ro show ?thesis by (simp add: r)
  next
    case (sent body a)
    show ?thesis
    proof (cases "success (fst (send E a w))")
      case True
      have "\<exists>m vs es. lord w i = Some m \<and> py_get (json_body (fst (send E a w))) ''rrsets'' = Inr (PyList vs) \<and>
          list_all2 depicts es vs \<and> lists d es m"
        by (rule listed [OF _ _ d i True]) (simp_all add: sent(1) lord_url_def base_url_def)
      then obtain m vs es where m: "lord w i = Some m" "lists d es m"
        and vs: "py_get (json_body (fst (send E a w))) ''rrsets'' = Inr (PyList vs)" "list_all2 depicts es vs" by blast
      have "rmap (rrset_data_of d) vs = Inr (map (data_of d) es)"
        using rmap_list_all2 [OF vs(2)] rrset_data_of_depicts by blast
      with vs(1) have "r = Inr (map (data_of d) es)" using sent(4) True by (simp add: r py_items_def)
      with m ro show ?thesis by auto
    next
      case False
      then show ?thesis using sent(4) ro by (auto simp: r)
    qed
  qed
qed

end

end
