(* ===== verification/ReferenceServer.thy ===== *)
theory ReferenceServer
  imports NameServer
begin

text \<open>
  A server that implements the zone endpoints: it reads the JSON it is sent and keeps the RRsets of
  every zone in a list. It provides the interface of \<open>NameServer\<close>. Requests to any other base URL
  (\<open>nsmaster\<close>, PCH) are answered with an empty document.
\<close>

section \<open>Zones and names\<close>

type_synonym store_of_zones = "string \<rightharpoonup> pdns_rrset list"

fun untranslate :: "string \<Rightarrow> string" where
  "untranslate [] = []"
| "untranslate (c # s) = (if c = CHR ''='' then CHR ''_'' # untranslate (drop 2 s) else c # untranslate s)"

definition in_zone :: "string \<Rightarrow> string \<Rightarrow> bool" where
  "in_zone n name \<longleftrightarrow> name = n \<or> (ends_with name (CHR ''.'' # n) \<and> Suc (length n) < length name)"

definition row :: "pdns_rrset \<Rightarrow> (string \<times> string) \<times> pdns_rrset" where
  "row e = (entry_key e, e\<lparr>p_records := remdups (p_records e)\<rparr>)"

definition rows_of :: "string \<Rightarrow> pdns_rrset list \<Rightarrow> pdns_rrset list" where
  "rows_of n es = map snd (AList.clearjunk (map row (filter (\<lambda>e. in_zone n (p_name e) \<and> p_records e \<noteq> []) es)))"

definition served_rows :: "pdns_rrset list \<Rightarrow> served" where
  "served_rows es =
     map_of (map (\<lambda>e. (entry_key e, (p_ttl e, set (p_records e)))) (filter (\<lambda>e. p_type e \<noteq> ''SOA'') es))"

definition view_of :: "store_of_zones \<Rightarrow> string \<Rightarrow> served option" where
  "view_of w i = map_option (\<lambda>es. served_rows (rows_of (untranslate i) es)) (w i)"

section \<open>Requests\<close>

definition read_entry :: "pyval \<Rightarrow> (pdns_error, pdns_rrset) result" where
  "read_entry v =
     rbind (rbind (py_get v ''name'') py_str) (\<lambda>n.
     rbind (rbind (py_get v ''type'') py_str) (\<lambda>ty.
     rbind (py_get v ''ttl'') (\<lambda>t.
     rbind (rbind (py_get v ''records'') py_items) (\<lambda>rs.
     rbind (rmap (\<lambda>r. rbind (py_get r ''content'') py_str) rs) (\<lambda>cs.
       Inr \<lparr>p_name = n, p_type = ty, p_ttl = (case t of PyInt k \<Rightarrow> nat k | _ \<Rightarrow> 0), p_records = cs\<rparr>)))))"

definition read_entries :: "pyval \<Rightarrow> (pdns_error, pdns_rrset list) result" where
  "read_entries v = rbind (rbind (py_get v ''rrsets'') py_items) (rmap read_entry)"

definition replace_entry :: "pdns_rrset \<Rightarrow> pdns_rrset list \<Rightarrow> pdns_rrset list" where
  "replace_entry e es = e # filter (\<lambda>f. entry_key f \<noteq> entry_key e) es"

definition answer :: "nat \<Rightarrow> pyval \<Rightarrow> http_response" where
  "answer code v = \<lparr>status_code = code, json_body = v, content = []\<rparr>"

definition handle_create :: "settings \<Rightarrow> string option \<Rightarrow> store_of_zones \<Rightarrow> http_response \<times> store_of_zones" where
  "handle_create c body w =
     (case Option.bind body loads of
        None \<Rightarrow> (answer 400 PyNone, w)
      | Some v \<Rightarrow>
          (case rbind (rbind (py_get v ''name'') py_str) (\<lambda>n. rbind (pdns_id n) (\<lambda>i.
                  rbind (rbind (py_get v ''nameservers'') py_items) (\<lambda>ns. rbind (rmap py_str ns) (\<lambda>ns.
                  rbind (read_entries v) (\<lambda>es. Inr (n, i, ns, es)))))) of
             Inl _ \<Rightarrow> (answer 422 PyNone, w)
           | Inr (n, i, ns, es) \<Rightarrow>
               if w i \<noteq> None then (answer 409 PyNone, w)
               else (answer 201 v, w(i \<mapsto>
                 \<lparr>p_name = n, p_type = ''NS'', p_ttl = default_ns_ttl c, p_records = ns\<rparr> #
                 filter (\<lambda>e. p_type e = ''SOA'') es))))"

definition handle_patch :: "string \<Rightarrow> string option \<Rightarrow> store_of_zones \<Rightarrow> http_response \<times> store_of_zones" where
  "handle_patch i body w =
     (case (w i, Option.bind body loads) of
        (Some es, Some v) \<Rightarrow>
          (case read_entries v of
             Inl _ \<Rightarrow> (answer 400 PyNone, w)
           | Inr new \<Rightarrow>
               if \<forall>e \<in> set new. in_zone (untranslate i) (p_name e)
               then (answer 204 PyNone, w(i \<mapsto> fold replace_entry new es))
               else (answer 422 PyNone, w))
      | _ \<Rightarrow> (answer 404 PyNone, w))"

definition handle_get :: "string \<Rightarrow> store_of_zones \<Rightarrow> http_response \<times> store_of_zones" where
  "handle_get i w =
     (case w i of
        None \<Rightarrow> (answer 404 PyNone, w)
      | Some es \<Rightarrow> (answer 200 (patch_data (rows_of (untranslate i) es)), w))"

definition handle_delete :: "string \<Rightarrow> store_of_zones \<Rightarrow> http_response \<times> store_of_zones" where
  "handle_delete i w = (if w i = None then (answer 404 PyNone, w) else (answer 204 PyNone, w(i := None)))"

definition reference_send :: "settings \<Rightarrow> http_request \<Rightarrow> store_of_zones \<Rightarrow> http_response \<times> store_of_zones" where
  "reference_send c q w =
     (if \<not> starts_with (h_url q) (nslord_api c)
      then (answer (if h_method q = Post then 201 else 200) (PyDict [(''serial'', PyInt 1)]), w)
      else if h_method q = Post \<and> h_url q = lord_zones_url c then handle_create c (h_data q) w
      else if starts_with (h_url q) (lord_url c []) then
        (let i = drop (length (lord_url c [])) (h_url q) in
         case h_method q of
           Get \<Rightarrow> handle_get i w
         | Patch \<Rightarrow> handle_patch i (h_data q) w
         | Delete \<Rightarrow> handle_delete i w
         | _ \<Rightarrow> (answer 405 PyNone, w))
      else (answer 404 PyNone, w))"

definition reference_env :: "settings \<Rightarrow> store_of_zones env" where
  "reference_env c = \<lparr>send = reference_send c, sha1_hex = (\<lambda>s. s), gethostbyname = (\<lambda>s. s), conf = c\<rparr>"

section \<open>What the zones look like\<close>

lemma untranslate_id:
  assumes "domain_labels_ok d" and "pdns_id d = Inr i"
  shows "untranslate i = d @ ''.''"
proof -
  have "untranslate (concat (map translate_id x) @ ''.'') = x @ ''.''"
    if "\<forall>c \<in> set x. c \<noteq> CHR ''='' \<and> c \<noteq> CHR ''/''" for x
    using that by (induction x) (auto simp: translate_id_def)
  moreover have "\<forall>c \<in> set d. c \<noteq> CHR ''='' \<and> c \<noteq> CHR ''/''"
    using domain_labels_ok_chars [OF assms(1)] by (auto simp: cls_label_def is_lower_alnum_def)
  moreover have "i = concat (map translate_id d) @ ''.''" using assms(2) by (simp add: pdns_id_domain [OF assms(1)])
  ultimately show ?thesis by blast
qed

lemma in_zone_construct: "d \<noteq> [] \<Longrightarrow> in_zone (d @ ''.'') (construct_name s d)"
proof (cases "s = []")
  case False
  assume "d \<noteq> []"
  with False have "construct_name s d = s @ (CHR ''.'' # d @ ''.'')" by (simp add: construct_name_def)
  moreover have "ends_with (s @ (CHR ''.'' # d @ ''.'')) (CHR ''.'' # d @ ''.'')" by (rule ends_with_append)
  ultimately show ?thesis using False by (auto simp: in_zone_def)
qed (simp add: in_zone_def construct_name_def)

lemma construct_in_zone:
  assumes "in_zone (d @ ''.'') name" and "d \<noteq> []"
  shows "\<exists>s. name = construct_name s d"
proof (cases "name = d @ ''.''")
  case True
  with assms(2) have "name = construct_name [] d" by (simp add: construct_name_def)
  then show ?thesis by blast
next
  case False
  with assms(1) have e: "ends_with name (CHR ''.'' # d @ ''.'')" "Suc (length (d @ ''.'')) < length name"
    by (simp_all add: in_zone_def)
  from ends_withD [OF e(1)] obtain s where s: "name = s @ (CHR ''.'' # d @ ''.'')" by blast
  with e(2) have "s \<noteq> []" by auto
  with s assms(2) have "name = construct_name s d" by (simp add: construct_name_def)
  then show ?thesis by blast
qed

lemma clearjunk_set: "set (AList.clearjunk xs) \<subseteq> set xs"
  by (induction xs rule: clearjunk.induct) (auto simp: AList.delete_eq)

lemma rows_of_facts:
  "distinct (map entry_key (rows_of n es))"
  "e \<in> set (rows_of n es) \<Longrightarrow> in_zone n (p_name e) \<and> distinct (p_records e) \<and> p_records e \<noteq> []"
  "served_rows (rows_of n es) k =
     (if snd k = ''SOA'' then None
      else map_option (\<lambda>e. (p_ttl e, set (p_records e)))
             (find (\<lambda>e. entry_key e = k) (filter (\<lambda>e. in_zone n (p_name e) \<and> p_records e \<noteq> []) es)))"
proof -
  let ?F = "filter (\<lambda>e. in_zone n (p_name e) \<and> p_records e \<noteq> []) es"
  let ?L = "AList.clearjunk (map row ?F)"
  have L: "set ?L \<subseteq> set (map row ?F)" by (rule clearjunk_set)
  then have key: "fst p = entry_key (snd p) \<and> in_zone n (p_name (snd p)) \<and> distinct (p_records (snd p)) \<and> p_records (snd p) \<noteq> []"
    if "p \<in> set ?L" for p using that by (auto simp: row_def entry_key_def)
  have 0: "map entry_key (map snd xs) = map fst xs" if "\<And>p. p \<in> set xs \<Longrightarrow> fst p = entry_key (snd p)" for xs
    using that by (induction xs) (auto simp del: split_paired_All)
  have "map entry_key (map snd ?L) = map fst ?L" by (rule 0) (use key in blast)
  then show "distinct (map entry_key (rows_of n es))" unfolding rows_of_def by (simp only: distinct_clearjunk)
  show "in_zone n (p_name e) \<and> distinct (p_records e) \<and> p_records e \<noteq> []" if "e \<in> set (rows_of n es)"
    using that key by (auto simp: rows_of_def)
  have 1: "map_of (map (\<lambda>e. (entry_key e, g e)) (filter (\<lambda>e. p_type e \<noteq> ''SOA'') (map snd xs))) k =
      (if snd k = ''SOA'' then None else map_option g (map_of xs k))"
    if "\<And>p. p \<in> set xs \<Longrightarrow> fst p = entry_key (snd p)" for g :: "pdns_rrset \<Rightarrow> nat \<times> string set" and xs
    using that
  proof (induction xs)
    case (Cons p xs)
    have p: "fst p = entry_key (snd p)" by (rule Cons.prems) simp
    have IH: "map_of (map (\<lambda>e. (entry_key e, g e)) (filter (\<lambda>e. p_type e \<noteq> ''SOA'') (map snd xs))) k =
      (if snd k = ''SOA'' then None else map_option g (map_of xs k))"
      by (rule Cons.IH, rule Cons.prems) simp
    from p have "snd (fst p) = p_type (snd p)" by (simp add: entry_key_def)
    with IH p show ?case by (cases p) auto
  qed simp
  have 2: "map_option (\<lambda>e. (p_ttl e, set (p_records e))) (map_of (map row xs) k) =
      map_option (\<lambda>e. (p_ttl e, set (p_records e))) (find (\<lambda>e. entry_key e = k) xs)" for xs
    by (induction xs) (auto simp: row_def)
  have "served_rows (rows_of n es) k =
      (if snd k = ''SOA'' then None else map_option (\<lambda>e. (p_ttl e, set (p_records e))) (map_of ?L k))"
    unfolding served_rows_def rows_of_def by (rule 1) (use key in blast)
  then show "served_rows (rows_of n es) k =
     (if snd k = ''SOA'' then None
      else map_option (\<lambda>e. (p_ttl e, set (p_records e))) (find (\<lambda>e. entry_key e = k) ?F))"
    by (simp add: map_of_clearjunk 2)
qed

lemma find_None_key: "find (\<lambda>e. entry_key e = k) (filter (\<lambda>f. entry_key f \<noteq> k) xs) = None"
  by (induction xs) auto

lemma find_other_key:
  "j \<noteq> k \<Longrightarrow> find (\<lambda>e. entry_key e = k) (filter (\<lambda>f. entry_key f \<noteq> j) xs) = find (\<lambda>e. entry_key e = k) xs"
  by (induction xs) auto

lemma replace_entry_served:
  assumes "in_zone n (p_name e)"
  shows "served_rows (rows_of n (replace_entry e es)) = apply_entry e (served_rows (rows_of n es))"
proof
  fix k
  let ?P = "\<lambda>e. in_zone n (p_name e) \<and> p_records e \<noteq> []"
  have F: "filter ?P (replace_entry e es) =
      (if p_records e = [] then [] else [e]) @ filter (\<lambda>f. entry_key f \<noteq> entry_key e) (filter ?P es)"
    using assms by (auto simp: replace_entry_def intro: filter_cong)
  have A: "apply_entry e m k = (if p_type e = ''SOA'' \<or> k \<noteq> entry_key e then m k
      else if p_records e = [] then None else Some (p_ttl e, set (p_records e)))" for m
    by (simp add: apply_entry_def entry_key_def)
  show "served_rows (rows_of n (replace_entry e es)) k = apply_entry e (served_rows (rows_of n es)) k"
  proof (cases "entry_key e = k")
    case True
    then have "snd k = p_type e" by (auto simp: entry_key_def)
    then show ?thesis unfolding rows_of_facts(3) F A using True find_None_key [of k] by (simp del: filter_filter)
  next
    case False
    then show ?thesis unfolding rows_of_facts(3) F A using find_other_key [OF False] by (auto simp del: filter_filter)
  qed
qed

lemma replace_entries_served:
  "\<forall>e \<in> set new. in_zone n (p_name e) \<Longrightarrow>
   served_rows (rows_of n (fold replace_entry new es)) = fold apply_entry new (served_rows (rows_of n es))"
  by (induction new arbitrary: es) (simp_all add: replace_entry_served)

section \<open>The server provides the interface\<close>

lemma read_entry_pyval: "read_entry (entry_pyval e) = Inr e"
proof -
  have "rmap (\<lambda>r. rbind (py_get r ''content'') py_str)
      (map (\<lambda>c. PyDict [(''content'', PyStr c), (''disabled'', PyBool False)]) cs) = Inr cs" for cs
    by (induction cs) (simp_all add: py_get_def py_str_def)
  then show ?thesis by (simp add: read_entry_def entry_pyval_def py_get_def py_str_def py_items_def)
qed

lemma read_entries_patch: "read_entries (patch_data es) = Inr es"
proof -
  have "rmap read_entry (map entry_pyval es) = Inr es" by (induction es) (simp_all add: read_entry_pyval)
  then show ?thesis by (simp add: read_entries_def patch_data_def py_get_def py_items_def)
qed

lemma distinct_keys_data: "distinct_keys (patch_data es)" "distinct_keys (create_data c n)"
  by (auto simp: patch_data_def entry_pyval_def create_data_def list_all_iff)

lemma rmap_py_str: "rmap py_str (map PyStr xs) = Inr xs"
  by (induction xs) (simp_all add: py_str_def)

lemma depicts_entry: "depicts e (entry_pyval e)"
proof -
  have "rmap (\<lambda>r. py_get r ''content'') (map (\<lambda>c. PyDict [(''content'', PyStr c), (''disabled'', PyBool False)]) cs) =
      Inr (map PyStr cs)" for cs
    by (induction cs) (simp_all add: py_get_def)
  then show ?thesis by (simp add: depicts_def entry_pyval_def py_get_def)
qed

lemma pdns_id_dot:
  assumes "domain_labels_ok d" and "pdns_id d = Inr i"
  shows "pdns_id (d @ ''.'') = Inr i"
proof -
  note l = domain_labels_ok_last [OF assms(1)]
  have "\<forall>c \<in> set (d @ ''.''). cls_host c"
    using domain_labels_ok_chars [OF assms(1)] cls_label_host by (auto simp: cls_host_def)
  then have m: "re_anchored (RxPlus (RxClass cls_host)) (d @ ''.'')"
    by (simp add: re_anchored_iff RxPlus_class)
  have "rstrip_char CHR ''.'' (concat (map translate_id d) @ replicate 1 CHR ''.'') = concat (map translate_id d)"
    using l last_translate by (intro rstrip_char_replicate) auto
  then show ?thesis using m assms(2) by (simp add: pdns_id_def [of "d @ _"] pdns_id_domain [OF assms(1)] translate_id_def)
qed

lemma handle_create_effect:
  assumes d: "domain_labels_ok d" and i: "pdns_id d = Inr i" and b: "dumps (create_data c (d @ ''.'')) = Inr body"
    and ok: "success (fst (handle_create c (Some body) w))"
  shows "view_of w i = None \<and> view_of (snd (handle_create c (Some body) w)) = (view_of w)(i \<mapsto> initial_zone c (d @ ''.''))"
proof -
  let ?soa = "\<lparr>p_name = d @ ''.'', p_type = ''SOA'', p_ttl = 300, p_records = [soa_content]\<rparr>"
  let ?ns = "\<lparr>p_name = d @ ''.'', p_type = ''NS'', p_ttl = default_ns_ttl c, p_records = default_ns c\<rparr>"
  have read: "read_entries (create_data c (d @ ''.'')) = Inr [?soa]"
    by (simp add: read_entries_def create_data_def py_get_def py_items_def read_entry_def py_str_def)
  have l: "loads body = Some (create_data c (d @ ''.''))" by (rule loads_dumps [OF b distinct_keys_data(2)])
  have h: "handle_create c (Some body) w = (if w i \<noteq> None then (answer 409 PyNone, w)
      else (answer 201 (create_data c (d @ ''.'')), w(i \<mapsto> [?ns, ?soa])))"
    using read by (simp add: handle_create_def l pdns_id_dot [OF d i])
      (simp add: create_data_def py_get_def py_str_def py_items_def rmap_py_str pdns_id_dot [OF d i])
  with ok have w: "w i = None" by (auto simp: answer_def split: if_split_asm)
  have "served_rows (rows_of (d @ ''.'') [?ns, ?soa]) = initial_zone c (d @ ''.'')"
    by (rule ext) (auto simp: rows_of_facts(3) initial_zone_def entry_key_def in_zone_def)
  then have "view_of (w(i \<mapsto> [?ns, ?soa])) = (view_of w)(i \<mapsto> initial_zone c (d @ ''.''))"
    by (auto simp: view_of_def untranslate_id [OF d i])
  then show ?thesis using h w by (simp add: view_of_def)
qed

lemma handle_patch_effect:
  assumes d: "domain_labels_ok d" and i: "pdns_id d = Inr i" and b: "dumps (patch_data es) = Inr body"
    and names: "\<And>e. e \<in> set es \<Longrightarrow> \<exists>s. p_name e = construct_name s d"
    and ok: "success (fst (handle_patch i (Some body) w))"
  shows "\<exists>m. view_of w i = Some m \<and> view_of (snd (handle_patch i (Some body) w)) = (view_of w)(i \<mapsto> fold apply_entry es m)"
proof -
  have l: "loads body = Some (patch_data es)" by (rule loads_dumps [OF b distinct_keys_data(1)])
  have "d \<noteq> []" using domain_labels_ok_last [OF d] by simp
  with names have z: "\<forall>e \<in> set es. in_zone (untranslate i) (p_name e)"
    unfolding untranslate_id [OF d i] using in_zone_construct by metis
  from ok obtain rs where w: "w i = Some rs"
    by (auto simp: handle_patch_def answer_def split: option.split_asm)
  with l z have "handle_patch i (Some body) w = (answer 204 PyNone, w(i \<mapsto> fold replace_entry es rs))"
    by (simp add: handle_patch_def read_entries_patch)
  with replace_entries_served [OF z] w show ?thesis by (auto simp: view_of_def)
qed

lemma handle_get_effect:
  assumes d: "domain_labels_ok d" and i: "pdns_id d = Inr i" and ok: "success (fst (handle_get i w))"
  shows "\<exists>m vs es. view_of w i = Some m \<and> py_get (json_body (fst (handle_get i w))) ''rrsets'' = Inr (PyList vs) \<and>
    list_all2 depicts es vs \<and> lists d es m"
proof -
  have "d \<noteq> []" using domain_labels_ok_last [OF d] by simp
  from ok obtain es where w: "w i = Some es" by (auto simp: handle_get_def answer_def split: option.split_asm)
  let ?r = "rows_of (d @ ''.'') es"
  have "list_all2 depicts ?r (map entry_pyval ?r)" by (simp add: list_all2_map2 list_all2_same depicts_entry)
  moreover have "py_get (json_body (fst (handle_get i w))) ''rrsets'' = Inr (PyList (map entry_pyval ?r))"
    using w by (simp add: handle_get_def answer_def patch_data_def py_get_def untranslate_id [OF d i])
  moreover have "view_of w i = Some (served_rows ?r)" using w by (simp add: view_of_def untranslate_id [OF d i])
  moreover have "lists d ?r (served_rows ?r)"
  proof -
    have "served_rows ?r (entry_key e) = Some (p_ttl e, set (p_records e))" if "e \<in> set ?r" "p_type e \<noteq> ''SOA''" for e
      unfolding served_rows_def using that rows_of_facts(1) [of "d @ ''.''" es]
      by (intro map_of_is_SomeI) (auto simp: comp_def distinct_map inj_on_def)
    moreover have "snd k \<noteq> ''SOA'' \<and> k \<in> entry_key ` set ?r" if "served_rows ?r k \<noteq> None" for k
      using that by (auto simp: served_rows_def map_of_eq_None_iff entry_key_def dest!: map_of_SomeD)
    ultimately show ?thesis
      using rows_of_facts(1,2) construct_in_zone [OF _ \<open>d \<noteq> []\<close>] by (auto simp: lists_def)
  qed
  ultimately show ?thesis by blast
qed

text \<open>The settings that do not come from the process environment (\<open>api/settings.py\<close>).\<close>

definition deployed :: "string list \<Rightarrow> nat \<Rightarrow> nat \<Rightarrow> string set \<Rightarrow> bool \<Rightarrow> bool \<Rightarrow> settings" where
  "deployed ns ns_ttl min_ttl local_suffixes register pch =
     \<lparr>default_ns = ns, default_ns_ttl = ns_ttl, local_public_suffixes = local_suffixes,
      nslord_api = ''http://nslord:8081/api/v1/servers/localhost'',
      nsmaster_api = ''http://nsmaster:8081/api/v1/servers/localhost'',
      catalog_zone = ''catalog.internal'', pdns_max_body_size = 32 * 1024 * 1024, maximum_ttl = 86400,
      minimum_ttl_default = min_ttl, register_lps = register, pch_enabled = pch\<rparr>"

lemma prefix_drop: "prefix p u \<Longrightarrow> drop (length p) (p @ i) = i"
  by simp

lemma reference_name_server:
  assumes "parallel (nslord_api c) (nsmaster_api c)"
  shows "name_server (reference_env c) view_of"
proof unfold_locales
  have e: "send (reference_env c) = reference_send c" "conf (reference_env c) = c"
    by (simp_all add: reference_env_def)
  have url: "starts_with (lord_url c i) (nslord_api c)" "starts_with (lord_zones_url c) (nslord_api c)"
    "starts_with (lord_url c i) (lord_url c [])" "drop (length (lord_url c [])) (lord_url c i) = i" for i
    by (simp_all add: lord_url_def lord_zones_url_def starts_with_def)
  note defs = e reference_send_def url Let_def
  show "parallel (nslord_api (conf (reference_env c))) (nsmaster_api (conf (reference_env c)))"
    using assms by (simp add: e)
  show "view_of (snd (send (reference_env c) q w)) = view_of w" if "h_method q = Get" for q w
    using that by (auto simp: defs handle_get_def split: option.split)
  show "view_of (snd (send (reference_env c) q w)) = view_of w" if "\<not> prefix (nslord_api (conf (reference_env c))) (h_url q)" for q w
    using that by (simp add: defs starts_with_def)
  show "view_of (snd (send (reference_env c) q w)) = view_of w" if "\<not> success (fst (send (reference_env c) q w))" for q w
    using that
    by (auto simp: defs answer_def handle_get_def handle_create_def handle_patch_def handle_delete_def
        split: option.splits sum.splits http_method.splits if_splits prod.splits)
  show "view_of w i = None \<and> view_of (snd (send (reference_env c) q w)) = (view_of w)(i \<mapsto> initial_zone (conf (reference_env c)) (d @ ''.''))"
    if "h_method q = Post" "h_url q = lord_zones_url (conf (reference_env c))" "h_data q = Some body"
      "dumps (create_data (conf (reference_env c)) (d @ ''.'')) = Inr body" "domain_labels_ok d" "pdns_id d = Inr i"
      "success (fst (send (reference_env c) q w))" for q body d i w
    using that handle_create_effect [of d i c body w] by (simp add: defs)
  show "\<exists>m. view_of w i = Some m \<and> view_of (snd (send (reference_env c) q w)) = (view_of w)(i \<mapsto> fold apply_entry es m)"
    if "h_method q = Patch" "h_url q = lord_url (conf (reference_env c)) i" "h_data q = Some body"
      "dumps (patch_data es) = Inr body" "domain_labels_ok d" "pdns_id d = Inr i"
      "\<And>e. e \<in> set es \<Longrightarrow> \<exists>s. p_name e = construct_name s d"
      "success (fst (send (reference_env c) q w))" for q i body es d w
    using that handle_patch_effect [of d i es body w] by (simp add: defs)
  show "view_of (snd (send (reference_env c) q w)) = (view_of w)(i := None)"
    if "h_method q = Delete" "h_url q = lord_url (conf (reference_env c)) i" "domain_labels_ok d" "pdns_id d = Inr i"
      "success (fst (send (reference_env c) q w))" for q i d w
    using that by (auto simp: defs handle_delete_def answer_def view_of_def split: if_split_asm)
  show "\<exists>m vs es. view_of w i = Some m \<and>
      py_get (json_body (fst (send (reference_env c) q w))) ''rrsets'' = Inr (PyList vs) \<and>
      list_all2 depicts es vs \<and> lists d es m"
    if "h_method q = Get" "h_url q = lord_url (conf (reference_env c)) i" "domain_labels_ok d" "pdns_id d = Inr i"
      "success (fst (send (reference_env c) q w))" for q i d w
    using that handle_get_effect [of d i w] by (simp add: defs)
qed

interpretation ref: name_server "reference_env (deployed ns ns_ttl min_ttl local_suffixes register pch)" view_of
  for ns ns_ttl min_ttl local_suffixes register pch
  by (rule reference_name_server) (simp add: deployed_def parallel_def)

end
