(* ===== verification/Mirror.thy ===== *)
theory Mirror
  imports TrackerSync TrackerExit ReferenceServer
begin

text \<open>
  The hidden primary serves what the database holds: the effect of the changes of a tracked block on
  the zones of a server that provides the interface \<open>name_server\<close>. The changes are projected to
  one domain; those of the other domains leave its zone alone.
\<close>

declare split_paired_All [simp del] split_paired_Ex [simp del]

section \<open>Agreement of a zone with the database\<close>

definition content_set :: "db \<Rightarrow> string \<Rightarrow> rrkey \<Rightarrow> (nat \<times> string set) option" where
  "content_set D d k = map_option (\<lambda>(n, rs). (n, set rs)) (content D d k)"

definition owner_key :: "string \<Rightarrow> rrkey \<Rightarrow> string \<times> string" where
  "owner_key d k = (construct_name (snd k) d, fst k)"

text \<open>The zone of \<open>d\<close> exists on the server exactly if the domain is in the database, and apart from the
  SOA it has the same RRsets, with the same TTL and set of records.\<close>

definition mirrored :: "db \<Rightarrow> (string \<Rightarrow> served option) \<Rightarrow> string \<Rightarrow> bool" where
  "mirrored D L d =
     (case pdns_id d of
        Inl _ \<Rightarrow> False
      | Inr i \<Rightarrow>
          (case L i of
             None \<Rightarrow> zones D d = None
           | Some m \<Rightarrow> zones D d \<noteq> None \<and>
               (\<forall>k. fst k \<noteq> ''SOA'' \<longrightarrow> m (owner_key d k) = content_set D d k)))"

lemma owner_key_inj [simp]: "owner_key d k = owner_key d j \<longleftrightarrow> k = j"
  by (cases k; cases j) (auto simp: owner_key_def construct_name_inj)

lemma content_cong: "zones D d = zones D' d \<Longrightarrow> content D d k = content D' d k"
  by (simp add: content_def lookup_rrset_def)

lemma content_set_cong: "zones D d = zones D' d \<Longrightarrow> content_set D d k = content_set D' d k"
  by (simp add: content_set_def content_def lookup_rrset_def)

section \<open>Patches\<close>

definition entry_value :: "pdns_rrset \<Rightarrow> (nat \<times> string set) option" where
  "entry_value e = (if p_records e = [] then None else Some (p_ttl e, set (p_records e)))"

lemma fold_apply_entry:
  assumes "snd k \<noteq> ''SOA''" and "\<And>e. e \<in> set es \<Longrightarrow> entry_key e = k \<Longrightarrow> entry_value e = v"
  shows "fold apply_entry es m k = (if \<exists>e \<in> set es. entry_key e = k then v else m k)"
  using assms(2)
proof (induction es arbitrary: m)
  case (Cons e es)
  have IH: "fold apply_entry es (apply_entry e m) k =
      (if \<exists>f \<in> set es. entry_key f = k then v else apply_entry e m k)"
    by (rule Cons.IH) (use Cons.prems in auto)
  have "apply_entry e m k = (if entry_key e = k then v else m k)"
    using assms(1) Cons.prems [of e] by (auto simp: apply_entry_def entry_key_def entry_value_def)
  with IH show ?case by auto
qed simp

lemma describes_key: "describes d k c e \<Longrightarrow> entry_key e = owner_key d k"
  by (simp add: describes_def entry_key_def owner_key_def)

lemma describes_value: "describes d k (content D d k) e \<Longrightarrow> entry_value e = content_set D d k"
  by (auto simp: describes_def content_set_def entry_value_def content_def split: option.splits if_splits)

lemma apply_described:
  assumes "fst k \<noteq> ''SOA''"
    and "\<forall>e \<in> set es. \<exists>j. describes d j (content D d j) e"
    and "content D d k \<noteq> content D0 d k \<Longrightarrow> \<exists>e \<in> set es. describes d k (content D d k) e"
  shows "fold apply_entry es m (owner_key d k) =
    (if \<exists>e \<in> set es. entry_key e = owner_key d k then content_set D d k else m (owner_key d k))"
    and "m (owner_key d k) = content_set D0 d k \<Longrightarrow> fold apply_entry es m (owner_key d k) = content_set D d k"
proof -
  show 1: "fold apply_entry es m (owner_key d k) =
    (if \<exists>e \<in> set es. entry_key e = owner_key d k then content_set D d k else m (owner_key d k))"
  proof (rule fold_apply_entry)
    fix e assume e: "e \<in> set es" "entry_key e = owner_key d k"
    with assms(2) obtain j where j: "describes d j (content D d j) e" by blast
    with e describes_key [OF j] have "j = k" by simp
    with describes_value [OF j] show "entry_value e = content_set D d k" by simp
  qed (simp add: owner_key_def assms(1))
  show "fold apply_entry es m (owner_key d k) = content_set D d k" if m: "m (owner_key d k) = content_set D0 d k"
  proof (cases "content D d k = content D0 d k")
    case True
    then show ?thesis using 1 m by (simp add: content_set_def)
  next
    case False
    with assms(3) describes_key show ?thesis using 1 by metis
  qed
qed

section \<open>The changes, one domain at a time\<close>

definition zone_db :: "string \<Rightarrow> zone option \<Rightarrow> db" where
  "zone_db d z = \<lparr>zones = (\<lambda>e. if e = d then z else None), published = Map.empty\<rparr>"

lemma rrsets_data_zone_db: "rrsets_data R D d A M X = rrsets_data R (zone_db d (zones D d)) d A M X"
proof -
  have "update_entry D d = update_entry (zone_db d (zones D d)) d"
    by (rule ext) (simp add: update_entry_def rrset_of_def zone_of_def zone_db_def)
  then show ?thesis by (simp add: rrsets_data_def)
qed

type_synonym view = "served option \<times> zone option"

definition default_rrset :: "settings \<Rightarrow> rrset" where
  "default_rrset c = \<lparr>ttl = default_ns_ttl c, records = default_ns c\<rparr>"

fun domain_step :: "settings \<Rightarrow> order \<Rightarrow> string \<Rightarrow> change \<Rightarrow> view \<Rightarrow> view \<Rightarrow> bool" where
  "domain_step c R d (CreateDomain e) (l, z) (l', z') \<longleftrightarrow>
     l = None \<and> l' = Some (initial_zone c (d @ ''.'')) \<and>
     (\<exists>z0. z = Some z0 \<and> (''NS'', []) \<notin> keys z0 \<and> z' = Some (AList.update (''NS'', []) (default_rrset c) z0))"
| "domain_step c R d (DeleteDomain e) (l, z) (l', z') \<longleftrightarrow> l' = None \<and> z' = z"
| "domain_step c R d (CreateUpdateDeleteRRSets e A M X) (l, z) (l', z') \<longleftrightarrow>
     z' = z \<and> (\<exists>es. rrsets_data R (zone_db d z) d A M X = Inr es \<and>
       (if es = [] then l' = l else \<exists>m. l = Some m \<and> l' = Some (fold apply_entry es m)))"

primrec domain_run :: "settings \<Rightarrow> order \<Rightarrow> string \<Rightarrow> change list \<Rightarrow> view \<Rightarrow> view \<Rightarrow> bool" where
  "domain_run c R d [] v v' \<longleftrightarrow> v' = v"
| "domain_run c R d (x # xs) v v' \<longleftrightarrow> (\<exists>u. domain_step c R d x v u \<and> domain_run c R d xs u v')"

lemma update_entry_name: "update_entry D d k = Inr e \<Longrightarrow> p_name e = construct_name (snd k) d"
  by (auto simp: update_entry_def result_simps)

lemma rrsets_data_names:
  assumes "rrsets_data R D d A M X = Inr es" and "e \<in> set es"
  shows "\<exists>s. p_name e = construct_name s d"
proof -
  from assms obtain us where us: "rmap (update_entry D d) (ok R (A \<union> M - X)) = Inr us"
    and e: "e \<in> deletion_entry d ` set (ok R X) \<union> set us" by (auto simp: rrsets_data_def result_simps)
  from e rmap_Inr_set [OF us] update_entry_name show ?thesis
    by (auto simp: deletion_entry_def)
qed

lemma on_net_split:
  "on_net m s = (r, s') \<Longrightarrow> \<exists>q w. m (net s) = (q, w) \<and> s' = s\<lparr>net := w\<rparr> \<and> (case r of Inl e \<Rightarrow> \<exists>x. q = Inl x | Inr y \<Rightarrow> q = Inr y)"
  by (auto simp: on_net_def split: prod.splits sum.splits)

lemma pdns_id_eq:
  assumes "domain_labels_ok d" and "domain_labels_ok e" and "pdns_id d = pdns_id e"
  shows "d = e"
proof -
  from assms have "concat (map translate_id d) = concat (map translate_id e)" by (simp add: pdns_id_domain)
  then show ?thesis by (rule translate_inj) (use assms domain_labels_ok_last in blast)+
qed

section \<open>Calls that leave the hidden primary alone\<close>

definition quiet :: "('w \<Rightarrow> 'l) \<Rightarrow> ('w, 'e, 'a) io \<Rightarrow> bool" where
  "quiet L m \<longleftrightarrow> (\<forall>w. L (snd (m w)) = L w)"

lemma quietD: "quiet L m \<Longrightarrow> m w = (r, w') \<Longrightarrow> L w' = L w"
  unfolding quiet_def by (metis snd_conv)

lemma quiet_pure: "quiet L (io_return x)" "quiet L (io_raise e)" "quiet L (io_lift r)"
  by (simp_all add: quiet_def)

lemma quiet_bind: "quiet L m \<Longrightarrow> (\<And>x. quiet L (f x)) \<Longrightarrow> quiet L (io_bind m f)"
  by (auto simp: quiet_def io_bind_def split: prod.splits sum.splits) (metis snd_conv)+

lemma quiet_iter: "(\<And>x. quiet L (f x)) \<Longrightarrow> quiet L (io_iter f xs)"
  by (induction xs) (auto intro: quiet_pure quiet_bind)

lemma quiet_on_net: "quiet L m \<Longrightarrow> quiet (\<lambda>s. L (net s)) (on_net m)"
  unfolding quiet_def on_net_def by (auto split: prod.splits sum.splits) (metis snd_conv)+

text \<open>A call that is a quiet one after another does what the other one did.\<close>

lemma bind_quiet_effect:
  assumes "io_bind m f w = (r, w')" and "\<And>x. quiet L (f x)"
  shows "\<exists>q v. m w = (q, v) \<and> L w' = L v \<and> (\<forall>x. r = Inr x \<longrightarrow> (\<exists>y. q = Inr y))"
proof -
  obtain q v where m: "m w = (q, v)" by (cases "m w")
  show ?thesis
  proof (cases q)
    case (Inl e)
    with m assms(1) show ?thesis by (auto simp: io_bind_def)
  next
    case (Inr y)
    with m assms(1) have "f y v = (r, w')" by (simp add: io_bind_def)
    from quietD [OF assms(2) this] m Inr show ?thesis by auto
  qed
qed

context name_server
begin

lemma quiet_to_master: "quiet lord (pdns_request E m NSMASTER path data acc)"
  unfolding quiet_def using request_to_master by (metis prod.collapse)

lemma quiet_get: "quiet lord (pdns_request E Get srv path data acc)"
  unfolding quiet_def using request_read_only by (metis prod.collapse)

lemmas master_calls = pdns_patch_def pdns_post_def pdns_put_def pdns_delete_def pdns_get_def

lemma quiet_calls:
  "quiet lord (create_zone_master E d)" "quiet lord (delete_zone_master E d)" "quiet lord (update_catalog E d b)"
  "quiet lord (axfr_to_master E d)"
  by (auto simp: create_zone_master_def delete_zone_master_def update_catalog_def axfr_to_master_def Let_def master_calls
      intro!: quiet_bind quiet_pure quiet_to_master)

lemma quiet_pch:
  assumes "parallel (nslord_api (conf E)) url"
  shows "quiet lord (pch_request E url m path expect data)"
proof -
  have "\<not> prefix (nslord_api (conf E)) (url @ path)"
    using assms by (metis parallel_def prefixI prefix_same_cases)
  then have "lord (snd (send E q w)) = lord w" if "h_url q = url @ path" for q w
    using elsewhere [of q w] that by simp
  then show ?thesis
    unfolding quiet_def pch_request_def by (auto simp: Let_def split: sum.split prod.split) (metis http_request.select_convs(2) snd_conv)+
qed

lemma quiet_pch_do:
  assumes "parallel (nslord_api (conf E)) url"
  shows "quiet (\<lambda>s. lord (net s)) (pch_do E url c)"
  by (cases c) (auto simp: pch_create_domains_def pch_delete_domains_def
      intro!: quiet_on_net quiet_pch [OF assms] quiet_pure)

lemma pdns_do_effect:
  assumes "pdns_do E R c s = (r, s')" and d: "domain_labels_ok (change_domain c)" and j: "pdns_id (change_domain c) = Inr j"
  shows "api_db s' = api_db s \<and> (\<forall>i. i \<noteq> j \<longrightarrow> lord (net s') i = lord (net s) i) \<and>
    (\<forall>u. r = Inr u \<longrightarrow>
      (case c of
         CreateDomain e \<Rightarrow> lord (net s) j = None \<and> lord (net s') j = Some (initial_zone (conf E) (e @ ''.''))
       | DeleteDomain e \<Rightarrow> lord (net s') j = None
       | CreateUpdateDeleteRRSets e A M X \<Rightarrow> \<exists>es. rrsets_data R (api_db s) e A M X = Inr es \<and>
           (if es = [] then lord (net s') j = lord (net s) j
            else \<exists>m. lord (net s) j = Some m \<and> lord (net s') j = Some (fold apply_entry es m))))"
proof (cases c)
  case (CreateDomain e)
  with assms(1) obtain q where "io_bind (create_zone_lord E e) (\<lambda>_. io_bind (create_zone_master E e) (\<lambda>_.
      io_bind (update_catalog E e False) (\<lambda>_. io_return ()))) (net s) = (q, net s')"
    and s': "api_db s' = api_db s" and r: "\<forall>u. r = Inr u \<longrightarrow> q = Inr u"
    by (auto dest!: on_net_split split: sum.split_asm)
  from bind_quiet_effect [OF this(1), of lord] obtain p v where p: "create_zone_lord E e (net s) = (p, v)"
    "lord (net s') = lord v" "\<forall>u. r = Inr u \<longrightarrow> (\<exists>y. p = Inr y)"
    using r by (auto intro!: quiet_bind quiet_pure quiet_calls)
  have "case p of Inl e \<Rightarrow> lord v = lord (net s)
      | Inr _ \<Rightarrow> lord (net s) j = None \<and> lord v = (lord (net s))(j \<mapsto> initial_zone (conf E) (e @ ''.''))"
    by (rule create_zone_effect [OF p(1)]) (use d j CreateDomain in auto)
  with p s' show ?thesis by (cases p) (auto simp: CreateDomain)
next
  case (DeleteDomain e)
  with assms(1) obtain q where "io_bind (delete_zone_lord E e) (\<lambda>_. io_bind (delete_zone_master E e) (\<lambda>_.
      io_bind (update_catalog E e True) (\<lambda>_. io_return ()))) (net s) = (q, net s')"
    and s': "api_db s' = api_db s" and r: "\<forall>u. r = Inr u \<longrightarrow> q = Inr u"
    by (auto dest!: on_net_split split: sum.split_asm)
  from bind_quiet_effect [OF this(1), of lord] obtain p v where p: "delete_zone_lord E e (net s) = (p, v)"
    "lord (net s') = lord v" "\<forall>u. r = Inr u \<longrightarrow> (\<exists>y. p = Inr y)"
    using r by (auto intro!: quiet_bind quiet_pure quiet_calls)
  have "case p of Inl e \<Rightarrow> lord v = lord (net s) | Inr _ \<Rightarrow> lord v = (lord (net s))(j := None)"
    by (rule delete_zone_effect [OF p(1)]) (use d j DeleteDomain in auto)
  with p s' show ?thesis by (cases p) (auto simp: DeleteDomain)
next
  case (CreateUpdateDeleteRRSets e A M X)
  show ?thesis
  proof (cases "rrsets_data R (api_db s) e A M X")
    case (Inl x)
    with assms(1) CreateUpdateDeleteRRSets show ?thesis by auto
  next
    case (Inr es)
    show ?thesis
    proof (cases "es = []")
      case True
      with Inr assms(1) CreateUpdateDeleteRRSets show ?thesis by auto
    next
      case False
      with Inr assms(1) CreateUpdateDeleteRRSets obtain q where p: "update_zone E e (patch_data es) (net s) = (q, net s')"
        and s': "api_db s' = api_db s" and r: "\<forall>u. r = Inr u \<longrightarrow> q = Inr u"
        by (auto simp: patch_data_def dest!: on_net_split split: sum.split_asm)
      have "case q of Inl e \<Rightarrow> lord (net s') = lord (net s)
          | Inr _ \<Rightarrow> \<exists>m. lord (net s) j = Some m \<and> lord (net s') = (lord (net s))(j \<mapsto> fold apply_entry es m)"
        by (rule update_zone_effect [OF p _ _ rrsets_data_names [OF Inr]]) (use d j CreateUpdateDeleteRRSets in auto)
      with s' r Inr False show ?thesis by (cases q) (auto simp: CreateUpdateDeleteRRSets)
    qed
  qed
qed

text \<open>One domain's view of the state: its zone on the server and in the database.\<close>

definition view :: "string \<Rightarrow> string \<Rightarrow> 'w sys \<Rightarrow> view" where
  "view d i s = (lord (net s) i, zones (api_db s) d)"

lemma do_change_view:
  assumes run: "do_change E R url c s = (r, s')" and pch: "pch_enabled (conf E) \<Longrightarrow> parallel (nslord_api (conf E)) url"
    and c: "domain_labels_ok (change_domain c)" and d: "domain_labels_ok d" and i: "pdns_id d = Inr i"
  shows "(change_domain c \<noteq> d \<longrightarrow> view d i s' = view d i s) \<and>
    (\<forall>u. change_domain c = d \<and> r = Inr u \<longrightarrow> domain_step (conf E) R d c (view d i s) (view d i s'))"
proof -
  obtain j where j: "pdns_id (change_domain c) = Inr j" using pdns_id_domain [OF c] by blast
  have ij: "change_domain c \<noteq> d \<Longrightarrow> i \<noteq> j" using pdns_id_eq [OF d c] i j by auto
  obtain r1 s1 where 1: "pdns_do E R c s = (r1, s1)" by (cases "pdns_do E R c s")
  obtain r2 s2 where 2: "api_do E c s1 = (r2, s2)" by (cases "api_do E c s1")
  obtain r3 s3 where 3: "(if pch_enabled (conf E) then pch_do E url c else io_return ()) s2 = (r3, s3)"
    by (cases "(if pch_enabled (conf E) then pch_do E url c else io_return ()) s2")
  note e1 = pdns_do_effect [OF 1 c j]
  have net2: "net s2 = net s1" using api_do_effect [OF 2] by simp
  have z2: "zones (api_db s2) e = zones (api_db s1) e" if "e \<noteq> change_domain c" for e
    using 2 that by (cases c) (auto simp: put_rrset_def split: option.split_asm if_split_asm)
  have "quiet (\<lambda>s. lord (net s)) (if pch_enabled (conf E) then pch_do E url c else io_return ())"
    using quiet_pch_do pch by (simp add: quiet_pure)
  from quietD [OF this 3] have l3: "lord (net s3) = lord (net s2)" .
  have f3: "frame (if pch_enabled (conf E) then pch_do E url c else io_return ())"
    by (simp add: frame_pch_do frame_return)
  have a3: "api_db s3 = api_db s2" using frame_step [OF f3 3] by simp
  have s': "(r = Inr u \<longrightarrow> s' = s3 \<and> r1 = Inr () \<and> r2 = Inr ()) \<and> (s' = s1 \<or> s' = s2 \<or> s' = s3)" for u
    using run 1 2 3 unfolding do_change_def io_bind_def by (auto split: sum.split_asm)
  have "view d i s' = view d i s" if "change_domain c \<noteq> d"
    using s' e1 net2 z2 [of d] l3 a3 ij that by (auto simp: view_def)
  moreover have "domain_step (conf E) R d c (view d i s) (view d i s')" if own: "change_domain c = d" "r = Inr u" for u
  proof -
    from s' own have s: "s' = s3" "r1 = Inr ()" "r2 = Inr ()" by auto
    have ij: "i = j" using i j own by simp
    show ?thesis
    proof (cases c)
      case (CreateDomain e)
      with own have e: "e = d" by simp
      from 2 s(3) CreateDomain obtain z0 where "zones (api_db s1) d = Some z0" "(''NS'', []) \<notin> keys z0"
        "zones (api_db s2) d = Some (AList.update (''NS'', []) (default_rrset (conf E)) z0)"
        by (auto simp: e put_rrset_def default_rrset_def split: option.split_asm if_split_asm)
      then show ?thesis using e1 s net2 l3 a3 ij by (simp add: CreateDomain view_def e)
    next
      case (DeleteDomain e)
      with 2 have "s2 = s1" by simp
      then show ?thesis using e1 s l3 a3 ij by (simp add: DeleteDomain view_def)
    next
      case (CreateUpdateDeleteRRSets e A M X)
      with own have e: "e = d" by simp
      from 2 CreateUpdateDeleteRRSets have "s2 = s1" by simp
      then show ?thesis using e1 s l3 a3 ij
        by (auto simp: CreateUpdateDeleteRRSets view_def e simp flip: rrsets_data_zone_db)
    qed
  qed
  ultimately show ?thesis by blast
qed

lemma do_changes_view:
  assumes "do_changes E R url db0 all cs s = (Inr u, s')" and "pch_enabled (conf E) \<Longrightarrow> parallel (nslord_api (conf E)) url"
    and "\<forall>c \<in> set cs. domain_labels_ok (change_domain c)" and "domain_labels_ok d" and "pdns_id d = Inr i"
  shows "domain_run (conf E) R d (filter (\<lambda>c. change_domain c = d) cs) (view d i s) (view d i s')"
  using assms(1,3)
proof (induction cs arbitrary: s)
  case (Cons c cs)
  then obtain v where c: "do_change E R url c s = (Inr (), v)"
    and rest: "do_changes E R url db0 all cs v = (Inr u, s')" by (auto split: prod.splits sum.splits)
  have "domain_labels_ok (change_domain c)" using Cons.prems(2) by simp
  note e = do_change_view [OF c assms(2) this assms(4,5)]
  from Cons.IH [OF rest] Cons.prems(2)
  have "domain_run (conf E) R d (filter (\<lambda>c. change_domain c = d) cs) (view d i v) (view d i s')" by simp
  with e show ?case by auto
qed simp

lemma tracker_exit_view:
  assumes run: "tracker_exit E R url now False db0 t s = (Inr u, s')"
    and cs: "compute_changes R (api_db s) t = Inr cs"
    and pch: "pch_enabled (conf E) \<Longrightarrow> parallel (nslord_api (conf E)) url"
    and names: "\<forall>c \<in> set cs. domain_labels_ok (change_domain c)" and d: "domain_labels_ok d" and i: "pdns_id d = Inr i"
  shows "domain_run (conf E) R d (filter (\<lambda>c. change_domain c = d) cs) (view d i s) (view d i s')"
proof -
  let ?s = "s\<lparr>active := active s - 1\<rparr>"
  let ?ds = "od R (change_domain ` set (filter axfr_required cs))"
  from run cs obtain v w where v: "do_changes E R url db0 cs cs ?s = (Inr (), v)"
    and w: "io_iter (\<lambda>d. on_net (axfr_to_master E d)) ?ds v = (Inr (), w)"
    and s': "s' = w\<lparr>api_db := set_published (change_domain ` set (filter axfr_required cs)) now (api_db w)\<rparr>"
    by (auto simp: tracker_exit_def Let_def io_bind_def split: prod.split_asm sum.split_asm)
  have "quiet (\<lambda>s. lord (net s)) (io_iter (\<lambda>d. on_net (axfr_to_master E d)) ?ds)"
    by (intro quiet_iter quiet_on_net quiet_calls)
  from quietD [OF this w] have "view d i s' = view d i v"
    using axfr_frame [OF w] s' by (simp add: view_def set_published_def)
  moreover have "view d i ?s = view d i s" by (simp add: view_def)
  ultimately show ?thesis using do_changes_view [OF v pch names d i] by simp
qed

end

section \<open>The changes of a block, for one domain\<close>

lemma filter_concat:
  assumes "rmap f ns = Inr css" and "distinct ns"
    and "\<And>n c x. n \<in> set ns \<Longrightarrow> f n = Inr c \<Longrightarrow> x \<in> set c \<Longrightarrow> g x = n"
  shows "filter (\<lambda>x. g x = d) (concat css) = (if d \<in> set ns then (case f d of Inl _ \<Rightarrow> [] | Inr c \<Rightarrow> c) else [])"
  using assms
proof (induction ns arbitrary: css)
  case (Cons n ns)
  then obtain c cs where c: "f n = Inr c" "rmap f ns = Inr cs" "css = c # cs" by (auto simp: result_simps)
  have own: "g x = n" if "x \<in> set c" for x using Cons.prems(3) [of n c x] c that by simp
  have IH: "filter (\<lambda>x. g x = d) (concat cs) = (if d \<in> set ns then (case f d of Inl _ \<Rightarrow> [] | Inr c \<Rightarrow> c) else [])"
    by (rule Cons.IH [OF c(2)]) (use Cons.prems in auto)
  have "filter (\<lambda>x. g x = d) c = (if d = n then c else [])"
    using own by (auto simp: filter_id_conv filter_empty_conv)
  with IH c Cons.prems(2) show ?case by auto
qed simp

lemma changes_of_domain: "changes_of D t d = Inr c \<Longrightarrow> x \<in> set c \<Longrightarrow> change_domain x = d"
  by (auto simp: changes_of_def Let_def result_simps split: if_split_asm)

lemma changes_for_domain:
  assumes inv: "tracked_inv (D, t)" and R: "lawful_order R" and cs: "compute_changes R D t = Inr cs"
    and l: "tracker_log t d = (A, M, X)"
  shows "filter (\<lambda>c. change_domain c = d) cs =
    (if d \<in> domain_deletions t then [DeleteDomain d]
     else (if d \<in> domain_additions t then [CreateDomain d] else []) @
       (if live_additions D d A \<union> M \<union> X \<noteq> {} then [CreateUpdateDeleteRRSets d (live_additions D d A) M X] else []))"
proof -
  let ?ds = "od R (domain_deletions t)"
  let ?t = "fold discard_rrsets ?ds t"
  let ?N = "dom (rr_set_additions ?t) \<union> domain_additions ?t"
  from cs obtain css where css: "rmap (changes_of D ?t) (od R ?N) = Inr css"
    and cs': "cs = map DeleteDomain ?ds @ concat css"
    by (auto simp: compute_changes_def Let_def result_simps)
  have fin: "finite (domain_deletions t)" "finite ?N"
    using inv by (auto simp: tracked_inv_def tracker_sync_def fold_discard_rrsets)
  have dels: "set ?ds = domain_deletions t" "distinct ?ds" and N: "set (od R ?N) = ?N" "distinct (od R ?N)"
    using R fin by (simp_all add: lawful_order_def)
  have apart: "d \<in> domain_deletions t \<Longrightarrow> d \<notin> domain_additions t"
    using inv by (auto simp: tracked_inv_def)
  have "filter (\<lambda>c. change_domain c = d) (map DeleteDomain xs) = (if d \<in> set xs then [DeleteDomain d] else [])"
    if "distinct xs" for xs using that by (induction xs) auto
  from this [OF dels(2)] have 1: "filter (\<lambda>c. change_domain c = d) (map DeleteDomain ?ds) =
      (if d \<in> domain_deletions t then [DeleteDomain d] else [])" unfolding dels(1) .
  have 2: "filter (\<lambda>c. change_domain c = d) (concat css) =
      (if d \<in> ?N then (case changes_of D ?t d of Inl _ \<Rightarrow> [] | Inr c \<Rightarrow> c) else [])"
    using filter_concat [OF css N(2)] changes_of_domain unfolding N(1) by blast
  obtain A' M' X' where l': "tracker_log ?t d = (A', M', X')" by (cases "tracker_log ?t d")
  have log: "(A', M', X') = (if d \<in> domain_deletions t then ({}, {}, {}) else (A, M, X))"
    using l' l by (auto simp: discarded_log dels(1) split: if_split_asm)
  have disj: "A' \<inter> X' = {}" "M' \<inter> X' = {}"
    using tracked_inv_disjoint [OF inv l] log by (auto split: if_split_asm)
  have adds: "domain_additions ?t = domain_additions t" by (simp add: fold_discard_rrsets)
  note c = changes_of_Inr [OF l' disj, unfolded adds]
  have out: "live_additions D d A' \<union> M' \<union> X' = {} \<and> d \<notin> domain_additions t" if "d \<notin> ?N"
  proof -
    have doms: "dom (rr_set_modifications ?t) = dom (rr_set_additions ?t)" "dom (rr_set_deletions ?t) = dom (rr_set_additions ?t)"
      using inv by (auto simp: tracked_inv_def tracker_sync_def fold_discard_rrsets)
    then have "rr_set_additions ?t d = None" "rr_set_modifications ?t d = None" "rr_set_deletions ?t d = None"
      using that by blast+
    then have "(A', M', X') = ({}, {}, {})" using l' by (simp add: tracker_log_def get_set_def)
    then show ?thesis using that adds by (simp add: live_additions_def)
  qed
  show ?thesis
  proof (cases "d \<in> domain_deletions t")
    case True
    with log have "A' = {}" "M' = {}" "X' = {}" by auto
    with c apart [OF True] have "changes_of D ?t d = Inr []" by (simp add: live_additions_def)
    then show ?thesis using 1 2 True by (simp add: cs')
  next
    case False
    with log have l: "A' = A" "M' = M" "X' = X" by auto
    show ?thesis
    proof (cases "d \<in> ?N")
      case True
      then show ?thesis using 1 2 False c by (simp add: cs' l)
    next
      case N: False
      have "filter (\<lambda>c. change_domain c = d) cs = []" using 1 2 False N by (simp only: cs' filter_append if_False append_Nil)
      then show ?thesis using out [OF N] False by (simp add: l)
    qed
  qed
qed

lemma track_run_log_domains:
  assumes "tracked_inv (D, t)" and "track_run ops (D, t) = Inr (D', t')" and "d \<notin> op_domain ` set ops"
  shows "zones D' d = zones D d \<and> tracker_log t' d = tracker_log t d"
  using assms unfolding track_run_def
proof (induction ops arbitrary: D t)
  case (Cons op ops)
  then obtain D1 t1 where step: "db_step op (D, t) = Inr (D1, t1)"
    and rest: "rfold db_step ops (D1, t1) = Inr (D', t')" by (auto simp: result_simps)
  have inv: "tracked_inv (D1, t1)"
    using db_step_good [OF Cons.prems(1), of op] step by (simp add: good_result_def)
  from Cons.IH [OF inv rest] db_step_frame [OF Cons.prems(1) step, of d] Cons.prems(3) show ?case by auto
qed simp

lemma changes_named:
  assumes wf: "db_wf D0" and run: "track_run ops (D0, new_tracker) = Inr (D, t)" and R: "lawful_order R"
    and cs: "compute_changes R D t = Inr cs" and c: "c \<in> set cs"
  shows "change_domain c \<in> op_domain ` set ops"
proof (rule ccontr)
  assume no: "change_domain c \<notin> op_domain ` set ops"
  let ?d = "change_domain c"
  note inv = track_run_inv [OF wf run]
  from track_run_log_domains [OF tracked_inv_start [OF wf] run no]
  have z: "zones D ?d = zones D0 ?d" and l: "tracker_log t ?d = ({}, {}, {})"
    by (simp_all add: tracker_log_def new_tracker_def get_set_def)
  from z have "?d \<notin> domain_additions t" "?d \<notin> domain_deletions t"
    unfolding track_run_net [OF run] by (auto simp: domIff)
  then have "filter (\<lambda>x. change_domain x = ?d) cs = []"
    using changes_for_domain [OF inv R cs l] by (simp add: live_additions_def)
  with c show False by (auto simp: filter_empty_conv)
qed

section \<open>The zone after the changes\<close>

lemma mirrored_iff:
  "mirrored D L d \<longleftrightarrow> (\<exists>i. pdns_id d = Inr i \<and>
     (case L i of None \<Rightarrow> zones D d = None
      | Some m \<Rightarrow> zones D d \<noteq> None \<and> (\<forall>k. fst k \<noteq> ''SOA'' \<longrightarrow> m (owner_key d k) = content_set D d k)))"
  by (auto simp: mirrored_def split: sum.split)

lemma rmap_cong: "(\<And>x. x \<in> set xs \<Longrightarrow> f x = g x) \<Longrightarrow> rmap f xs = rmap g xs"
  by (induction xs) simp_all

lemma rrsets_data_cong:
  assumes R: "lawful_order R" and "finite (A \<union> M - X)"
    and "\<And>k. k \<in> A \<union> M - X \<Longrightarrow> update_entry D d k = update_entry D' d k"
  shows "rrsets_data R D d A M X = rrsets_data R D' d A M X"
proof -
  have "rmap (update_entry D d) (ok R (A \<union> M - X)) = rmap (update_entry D' d) (ok R (A \<union> M - X))"
    by (rule rmap_cong) (use assms in \<open>simp add: lawful_order_def\<close>)
  then show ?thesis by (simp add: rrsets_data_def)
qed

lemma log_of_new_domain:
  assumes wf: "db_wf D0" and run: "track_run ops (D0, new_tracker) = Inr (D, t)"
    and nodel: "OpDomainDelete d \<notin> set ops" and l: "tracker_log t d = (A, M, X)" and new: "zones D0 d = None"
  shows "X = {}"
proof -
  have "key_inv (lookup_rrset D0 d k) (deletes d ops k) k (lookup_rrset D d k) (A, M, X)" for k
    using track_run_synced [OF tracked_inv_start [OF wf] synced_start run nodel] l
    unfolding synced_def prod.case by (metis add_0)
  then have "k \<notin> X" for k using new by (simp add: key_inv_def lookup_rrset_def)
  then show ?thesis by blast
qed

text \<open>The one patch of a domain that is not deleted carries what is pushed for it.\<close>

lemma patch_of_block:
  assumes wf: "db_wf D0" and run: "track_run ops (D0, new_tracker) = Inr (D, t)" and R: "lawful_order R"
    and cs: "compute_changes R D t = Inr cs" and nodel: "OpDomainDelete d \<notin> set ops"
    and l: "tracker_log t d = (A, M, X)"
  obtains es where "d \<notin> domain_deletions t" and "rrsets_data R D d (live_additions D d A) M X = Inr es"
    and "set es = pushed R D cs d" and "live_additions D d A \<union> M \<union> X = {} \<Longrightarrow> es = []"
proof -
  note inv = track_run_inv [OF wf run]
  note disj = tracked_inv_disjoint [OF inv l]
  have d: "d \<notin> domain_deletions t"
    using track_run_keeps_domain [OF tracked_inv_start [OF wf] run nodel]
    unfolding track_run_net(2) [OF run] by auto
  let ?A = "live_additions D d A"
  have A: "finite ?A" "?A \<union> M \<subseteq> keys_of D d" using disj(3,6) by (auto simp: live_additions_def)
  from rrsets_data_Inr [OF R A(1) disj(4,5) A(2)] obtain es where es: "rrsets_data R D d ?A M X = Inr es"
    "set es = deletion_entry d ` X \<union> {e. \<exists>k \<in> ?A \<union> M - X. update_entry D d k = Inr e}" by blast
  have p: "set es = pushed R D cs d" unfolding es(2) pushed_iff [OF inv R cs l d] ..
  have "es = []" if "?A \<union> M \<union> X = {}"
  proof -
    from that have "?A = {}" "M = {}" "X = {}" by auto
    with es(2) show ?thesis by simp
  qed
  with that d es(1) p show thesis by blast
qed

lemma domain_run_patch:
  assumes "domain_run c R d (if S \<noteq> {} then [CreateUpdateDeleteRRSets d A M X] else []) (l, z) (l', z')"
    and "rrsets_data R (zone_db d z) d A M X = Inr es" and "S = {} \<Longrightarrow> es = []"
  shows "z' = z \<and> (if es = [] then l' = l else \<exists>m. l = Some m \<and> l' = Some (fold apply_entry es m))"
  using assms by (auto split: if_split_asm)

text \<open>A domain that existed and is not deleted.\<close>

lemma kept_domain_mirrored:
  assumes wf: "db_wf D0" and run: "track_run ops (D0, new_tracker) = Inr (D, t)" and R: "lawful_order R"
    and cs: "compute_changes R D t = Inr cs" and nodel: "OpDomainDelete d \<notin> set ops"
    and once: "\<And>k. lookup_rrset D0 d k \<noteq> None \<Longrightarrow> deletes d ops k \<le> 1"
    and emptied: "\<And>k. content D0 d k \<noteq> None \<Longrightarrow> lookup_rrset D d k \<noteq> None \<Longrightarrow> content D d k \<noteq> None"
    and old: "zones D0 d \<noteq> None"
    and m: "l = Some m" "\<And>k. fst k \<noteq> ''SOA'' \<Longrightarrow> m (owner_key d k) = content_set D0 d k"
    and r: "domain_run c R d (filter (\<lambda>c. change_domain c = d) cs) (l, zones D d) (l', z')"
  shows "z' = zones D d \<and> zones D d \<noteq> None \<and>
    (\<exists>m'. l' = Some m' \<and> (\<forall>k. fst k \<noteq> ''SOA'' \<longrightarrow> m' (owner_key d k) = content_set D d k))"
proof -
  obtain A M X where log: "tracker_log t d = (A, M, X)" by (cases "tracker_log t d")
  from patch_of_block [OF wf run R cs nodel log] obtain es where d: "d \<notin> domain_deletions t"
    and es: "rrsets_data R D d (live_additions D d A) M X = Inr es" "set es = pushed R D cs d"
      "live_additions D d A \<union> M \<union> X = {} \<Longrightarrow> es = []" by blast
  have z: "zones D d \<noteq> None" using track_run_keeps_domain [OF tracked_inv_start [OF wf] run nodel old] .
  have "d \<notin> domain_additions t" unfolding track_run_net(1) [OF run] using old by (auto simp: domIff)
  with r d have "domain_run c R d (if live_additions D d A \<union> M \<union> X \<noteq> {}
      then [CreateUpdateDeleteRRSets d (live_additions D d A) M X] else []) (l, zones D d) (l', z')"
    by (simp only: changes_for_domain [OF track_run_inv [OF wf run] R cs log] if_False append_Nil)
  from domain_run_patch [OF this es(1) [unfolded rrsets_data_zone_db [of R D]] es(3)] m(1)
  have z': "z' = zones D d" and l': "l' = Some (fold apply_entry es m)" by (auto split: if_split_asm)
  have cover: "(\<forall>e \<in> set es. \<exists>j. describes d j (content D d j) e) \<and>
      (\<forall>k. content D d k \<noteq> content D0 d k \<longrightarrow> (\<exists>e \<in> set es. describes d k (content D d k) e))"
    unfolding es(2) by (rule pushed_covers [OF wf run R cs nodel]) (use once emptied in auto)
  have "fold apply_entry es m (owner_key d k) = content_set D d k" if "fst k \<noteq> ''SOA''" for k
    by (rule apply_described(2) [OF that]) (use cover m(2) [OF that] in auto)
  with z z' l' show ?thesis by blast
qed

text \<open>A domain that is created.\<close>

lemma default_content:
  "content_set (zone_db d (Some (AList.update k (default_rrset c) z))) d j =
     (if j = k then (if default_ns c = [] then None else Some (default_ns_ttl c, set (default_ns c)))
      else content_set (zone_db d (Some z)) d j)"
  by (auto simp: content_set_def content_def lookup_rrset_def zone_db_def default_rrset_def update_conv')

lemma zone_db_content: "content_set (zone_db d (zones D d)) d k = content_set D d k"
  by (rule content_set_cong) (simp add: zone_db_def)

lemma initial_zone_key:
  assumes "d \<noteq> []" and "fst k \<noteq> ''SOA''"
  shows "initial_zone c (d @ ''.'') (owner_key d k) =
    (if k = (''NS'', []) \<and> default_ns c \<noteq> [] then Some (default_ns_ttl c, set (default_ns c)) else None)"
proof -
  have "owner_key d (''NS'', []) = (d @ ''.'', ''NS'')" using assms(1) by (simp add: owner_key_def construct_name_def)
  then have "owner_key d k = (d @ ''.'', ''NS'') \<longleftrightarrow> k = (''NS'', [])" by (metis owner_key_inj)
  then show ?thesis by (simp add: initial_zone_def)
qed

lemma new_domain_mirrored:
  assumes wf: "db_wf D0" and run: "track_run ops (D0, new_tracker) = Inr (D, t)" and R: "lawful_order R"
    and cs: "compute_changes R D t = Inr cs" and nodel: "OpDomainDelete d \<notin> set ops" and ne: "d \<noteq> []"
    and new: "zones D0 d = None" "zones D d \<noteq> None"
    and r: "domain_run c R d (filter (\<lambda>c. change_domain c = d) cs) (l, zones D d) (l', z')"
  shows "\<exists>m' z. l' = Some m' \<and> z' = Some z \<and>
    (\<forall>k. fst k \<noteq> ''SOA'' \<longrightarrow> m' (owner_key d k) = content_set (zone_db d z') d k)"
proof -
  obtain A M X where log: "tracker_log t d = (A, M, X)" by (cases "tracker_log t d")
  from patch_of_block [OF wf run R cs nodel log] obtain es where d: "d \<notin> domain_deletions t"
    and es: "rrsets_data R D d (live_additions D d A) M X = Inr es" "set es = pushed R D cs d"
      "live_additions D d A \<union> M \<union> X = {} \<Longrightarrow> es = []" by blast
  let ?A = "live_additions D d A" and ?ns = "(''NS'', []) :: rrkey"
  have X: "X = {}" by (rule log_of_new_domain [OF wf run nodel log new(1)])
  note inv = track_run_inv [OF wf run]
  note disj = tracked_inv_disjoint [OF inv log]
  have "d \<in> domain_additions t" unfolding track_run_net(1) [OF run] using new by (auto simp: domIff)
  with r d have "domain_run c R d (CreateDomain d # (if ?A \<union> M \<union> X \<noteq> {}
      then [CreateUpdateDeleteRRSets d ?A M X] else [])) (l, zones D d) (l', z')"
    by (simp only: changes_for_domain [OF inv R cs log] if_True if_False append_Cons append_Nil)
  then obtain z0 where z0: "zones D d = Some z0" "?ns \<notin> keys z0"
    and rest: "domain_run c R d (if ?A \<union> M \<union> X \<noteq> {} then [CreateUpdateDeleteRRSets d ?A M X] else [])
      (Some (initial_zone c (d @ ''.'')), Some (AList.update ?ns (default_rrset c) z0)) (l', z')"
    by auto
  let ?z = "AList.update ?ns (default_rrset c) z0"
  have "?A \<union> M \<subseteq> keys z0" using disj(6) z0(1) by (auto simp: live_additions_def keys_of_def)
  then have "rrsets_data R D d ?A M X = rrsets_data R (zone_db d (Some ?z)) d ?A M X"
    using z0 disj(3,4)
    by (intro rrsets_data_cong [OF R])
      (auto simp: live_additions_def update_entry_def rrset_of_def zone_of_def zone_db_def update_conv')
  with es(1) have "rrsets_data R (zone_db d (Some ?z)) d ?A M X = Inr es" by simp
  from domain_run_patch [OF rest this es(3)]
  have z': "z' = Some ?z" and l': "l' = Some (fold apply_entry es (initial_zone c (d @ ''.'')))" by (auto split: if_split_asm)
  have c0: "content D0 d k = None" for k using new(1) by (simp add: content_def lookup_rrset_def)
  have cover: "(\<forall>e \<in> set es. \<exists>j. describes d j (content D d j) e) \<and>
      (\<forall>k. content D d k \<noteq> content D0 d k \<longrightarrow> (\<exists>e \<in> set es. describes d k (content D d k) e))"
    unfolding es(2) by (rule pushed_covers [OF wf run R cs nodel]) (use c0 new(1) in \<open>auto simp: lookup_rrset_def\<close>)
  have no_ns: "entry_key e \<noteq> owner_key d ?ns" if "e \<in> set es" for e
  proof -
    from that obtain k where k: "k \<in> ?A \<union> M" "update_entry D d k = Inr e"
      unfolding es(2) pushed_iff [OF inv R cs log d] X by blast
    from k(1) \<open>?A \<union> M \<subseteq> keys z0\<close> z0(2) have "k \<noteq> ?ns" by blast
    with describes_key [OF update_entry_describes [OF k(2)]] show ?thesis by simp
  qed
  have "fold apply_entry es (initial_zone c (d @ ''.'')) (owner_key d k) = content_set (zone_db d z') d k"
    if k: "fst k \<noteq> ''SOA''" for k
  proof -
    have f: "fold apply_entry es (initial_zone c (d @ ''.'')) (owner_key d k) =
        (if \<exists>e \<in> set es. entry_key e = owner_key d k then content_set D d k
         else initial_zone c (d @ ''.'') (owner_key d k))"
      by (rule apply_described(1) [OF k]) (use cover in auto)
    show ?thesis
    proof (cases "k = ?ns")
      case True
      with no_ns have "\<not> (\<exists>e \<in> set es. entry_key e = owner_key d k)" by auto
      then show ?thesis using f True initial_zone_key [OF ne k, of c] by (simp add: z' default_content)
    next
      case False
      have "content_set (zone_db d z') d k = content_set D d k"
        using False zone_db_content [of d D k] z0(1) by (simp add: z' default_content)
      moreover have "content_set D d k = None" if "\<not> (\<exists>e \<in> set es. entry_key e = owner_key d k)"
      proof -
        from that cover describes_key have "content D d k = None" using c0 by metis
        then show ?thesis by (simp add: content_set_def)
      qed
      ultimately show ?thesis using f initial_zone_key [OF ne k, of c] False by auto
    qed
  qed
  with l' z' show ?thesis by blast
qed

section \<open>A tracked block keeps the hidden primary in step\<close>

context name_server
begin

lemma block_mirrored:
  assumes pch: "pch_enabled (conf E) \<Longrightarrow> parallel (nslord_api (conf E)) url"
    and wf: "db_wf D0" and named: "\<forall>op \<in> set ops. domain_labels_ok (op_domain op)"
    and run: "track_run ops (D0, new_tracker) = Inr (D, t)" and R: "lawful_order R"
    and db: "api_db s = D" and exit: "tracker_exit E R url now False D0 t s = (Inr u, s')"
    and d: "domain_labels_ok d" and start: "mirrored D0 (lord (net s)) d"
    and removed: "OpDomainDelete d \<in> set ops \<Longrightarrow> zones D0 d \<noteq> None \<and> zones D d = None"
    and once: "\<And>k. lookup_rrset D0 d k \<noteq> None \<Longrightarrow> deletes d ops k \<le> 1"
    and emptied: "\<And>k. content D0 d k \<noteq> None \<Longrightarrow> lookup_rrset D d k \<noteq> None \<Longrightarrow> content D d k \<noteq> None"
  shows "mirrored (api_db s') (lord (net s')) d"
proof -
  obtain i where i: "pdns_id d = Inr i" using pdns_id_domain [OF d] by blast
  note inv = track_run_inv [OF wf run]
  obtain cs where cs: "compute_changes R D t = Inr cs" using compute_changes_Inr [OF inv] by blast
  have valid: "\<forall>c \<in> set cs. domain_labels_ok (change_domain c)"
    using changes_named [OF wf run R cs] named by fastforce
  let ?l = "lord (net s) i" and ?l' = "lord (net s') i" and ?z' = "zones (api_db s') d"
  have r: "domain_run (conf E) R d (filter (\<lambda>c. change_domain c = d) cs) (?l, zones D d) (?l', ?z')"
    using tracker_exit_view [OF exit cs [folded db] pch valid d i] db by (simp add: view_def)
  have goal: ?thesis if "case ?l' of None \<Rightarrow> ?z' = None | Some m \<Rightarrow> ?z' \<noteq> None \<and>
      (\<forall>k. fst k \<noteq> ''SOA'' \<longrightarrow> m (owner_key d k) = content_set (api_db s') d k)"
    using i that by (auto simp: mirrored_iff)
  from start i have s0: "case ?l of None \<Rightarrow> zones D0 d = None | Some m \<Rightarrow> zones D0 d \<noteq> None \<and>
      (\<forall>k. fst k \<noteq> ''SOA'' \<longrightarrow> m (owner_key d k) = content_set D0 d k)" by (auto simp: mirrored_iff)
  consider (gone) "zones D0 d \<noteq> None" "zones D d = None"
    | (kept) "OpDomainDelete d \<notin> set ops" "zones D0 d \<noteq> None"
    | (new) "OpDomainDelete d \<notin> set ops" "zones D0 d = None" "zones D d \<noteq> None"
    | (none) "OpDomainDelete d \<notin> set ops" "zones D0 d = None" "zones D d = None"
    using removed by metis
  then show ?thesis
  proof cases
    case gone
    then have "d \<in> domain_deletions t" unfolding track_run_net(2) [OF run] by (auto simp: domIff)
    then have "filter (\<lambda>c. change_domain c = d) cs = [DeleteDomain d]"
      using changes_for_domain [OF inv R cs, of d] by (cases "tracker_log t d") simp
    with r gone show ?thesis by (intro goal) simp
  next
    case kept
    from s0 kept(2) obtain m where m: "?l = Some m" "\<And>k. fst k \<noteq> ''SOA'' \<Longrightarrow> m (owner_key d k) = content_set D0 d k"
      by (auto split: option.split_asm)
    from kept_domain_mirrored [OF wf run R cs kept(1) once emptied kept(2) m r]
    obtain m' where z: "?z' = zones D d" "zones D d \<noteq> None" and m': "?l' = Some m'"
      "\<forall>k. fst k \<noteq> ''SOA'' \<longrightarrow> m' (owner_key d k) = content_set D d k" by blast
    with content_set_cong [OF z(1)] show ?thesis by (intro goal) simp
  next
    case new
    have "d \<noteq> []" using domain_labels_ok_last [OF d] by simp
    from new_domain_mirrored [OF wf run R cs new(1) this new(2,3) r] obtain m' z where
      m': "?l' = Some m'" "?z' = Some z" "\<forall>k. fst k \<noteq> ''SOA'' \<longrightarrow> m' (owner_key d k) = content_set (zone_db d ?z') d k"
      by blast
    with zone_db_content [of d "api_db s'"] show ?thesis by (intro goal) simp
  next
    case none
    obtain A M X where log: "tracker_log t d = (A, M, X)" by (cases "tracker_log t d")
    have "X = {}" by (rule log_of_new_domain [OF wf run none(1) log none(2)])
    moreover have "A = {}" "M = {}"
      using tracked_inv_disjoint(6) [OF inv log] none(3) by (auto simp: keys_of_def)
    moreover have "d \<notin> domain_deletions t" "d \<notin> domain_additions t"
      unfolding track_run_net [OF run] using none(2,3) by (auto simp: domIff)
    ultimately have "filter (\<lambda>c. change_domain c = d) cs = []"
      using changes_for_domain [OF inv R cs log] by (simp add: live_additions_def)
    moreover have "?l = None" using s0 none(2) by (cases ?l) auto
    ultimately show ?thesis using r none(2,3) by (intro goal) simp
  qed
qed

end

section \<open>The block on the reference server\<close>

lemma reference_update:
  assumes d: "domain_labels_ok d" and i: "pdns_id d = Inr i" and b: "dumps (patch_data es) = Inr body"
    and len: "length body \<le> pdns_max_body_size c" and w: "w i = Some rs"
    and names: "\<And>e. e \<in> set es \<Longrightarrow> \<exists>s. p_name e = construct_name s d"
  shows "update_zone (reference_env c) d (patch_data es) w = (Inr (), w(i \<mapsto> fold replace_entry es rs))"
proof -
  have l: "loads body = Some (patch_data es)" by (rule loads_dumps [OF b distinct_keys_data(1)])
  have "d \<noteq> []" using domain_labels_ok_last [OF d] by simp
  with names have z: "\<forall>e \<in> set es. in_zone (untranslate i) (p_name e)"
    unfolding untranslate_id [OF d i] using in_zone_construct by metis
  have "handle_patch i (Some body) w = (answer 204 PyNone, w(i \<mapsto> fold replace_entry es rs))"
    using l z w by (simp add: handle_patch_def read_entries_patch)
  then show ?thesis using i b len
    by (simp add: update_zone_def io_bind_def pdns_patch_def pdns_request_def reference_env_def reference_send_def
        base_url_def lord_url_def starts_with_def answer_def lord_zones_url_def)
qed

lemma reference_axfr:
  assumes "parallel (nslord_api c) (nsmaster_api c)" and "pdns_id d = Inr i"
  shows "axfr_to_master (reference_env c) d w = (Inr (), w)"
proof -
  have "\<not> starts_with (nsmaster_api c @ p) (nslord_api c)" for p
    using assms(1) by (metis parallel_def prefixI prefix_same_cases starts_with_def)
  with assms(2) show ?thesis
    by (simp add: axfr_to_master_def io_bind_def pdns_put_def pdns_request_def reference_env_def reference_send_def
        base_url_def answer_def)
qed

section \<open>Properties\<close>

text \<open>C1: A tracked block keeps the hidden primary in step with the database. For a server with the documented
  behaviour of the PowerDNS API: if the zone of a domain on it has exactly the RRsets of the database
  when the block begins (or does not exist, as the domain), and leaving the block succeeds, then so it
  is afterwards, whether the domain was created, changed, deleted or left alone. The domain is not
  deleted and created again in the block, no RRset it had at the start is deleted twice, and none that
  had records ends up existing without any.\<close>

theorem tracked_block_mirrored:
  assumes "name_server E lord" and "pch_enabled (conf E) \<Longrightarrow> parallel (nslord_api (conf E)) url"
    and "db_wf D0" and "\<forall>op \<in> set ops. domain_labels_ok (op_domain op)"
    and "track_run ops (D0, new_tracker) = Inr (D, t)" and "lawful_order R"
    and "api_db s = D" and "tracker_exit E R url now False D0 t s = (Inr u, s')"
    and "domain_labels_ok d" and "mirrored D0 (lord (net s)) d"
    and "OpDomainDelete d \<in> set ops \<Longrightarrow> zones D0 d \<noteq> None \<and> zones D d = None"
    and "\<And>k. lookup_rrset D0 d k \<noteq> None \<Longrightarrow> deletes d ops k \<le> 1"
    and "\<And>k. content D0 d k \<noteq> None \<Longrightarrow> lookup_rrset D d k \<noteq> None \<Longrightarrow> content D d k \<noteq> None"
  shows "mirrored (api_db s') (lord (net s')) d"
  by (rule name_server.block_mirrored [OF assms(1) _ assms(3-10)]) (use assms(2,11-13) in auto)

definition mirror_env :: "store_of_zones env" where
  "mirror_env = reference_env (deployed [''ns1.example.''] 3600 3600 {} True False)"

definition mirror_db :: "zone \<Rightarrow> db" where
  "mirror_db z = \<lparr>zones = [''e.f'' \<mapsto> z], published = Map.empty\<rparr>"

definition w_entry :: pdns_rrset where
  "w_entry = \<lparr>p_name = ''w.e.f.'', p_type = ''A'', p_ttl = 60, p_records = [''192.0.2.1'']\<rparr>"

lemma deletion_block:
  "\<exists>s'. tracker_exit mirror_env name_order [] 7 False (mirror_db [((''A'', ''w''), \<lparr>ttl = 60, records = [''192.0.2.1'']\<rparr>)])
     (new_tracker\<lparr>rr_set_additions := [''e.f'' \<mapsto> {}], rr_set_modifications := [''e.f'' \<mapsto> {}],
        rr_set_deletions := [''e.f'' \<mapsto> {(''A'', ''w'')}]\<rparr>)
     \<lparr>api_db = mirror_db [], net = [''e.f.'' \<mapsto> [w_entry]], active = 1\<rparr> = (Inr (), s') \<and>
   view_of (net s') ''e.f.'' = Some Map.empty"
proof -
  let ?t = "new_tracker\<lparr>rr_set_additions := [''e.f'' \<mapsto> {}], rr_set_modifications := [''e.f'' \<mapsto> {}],
        rr_set_deletions := [''e.f'' \<mapsto> {(''A'', ''w'')}]\<rparr>"
  let ?e = "\<lparr>p_name = ''w.e.f.'', p_type = ''A'', p_ttl = 1, p_records = []\<rparr>"
  let ?w = "[''e.f.'' \<mapsto> [w_entry]]" and ?w' = "[''e.f.'' \<mapsto> [?e]]"
  have changes: "compute_changes name_order (mirror_db []) ?t = Inr [CreateUpdateDeleteRRSets ''e.f'' {} {} {(''A'', ''w'')}]"
    by (simp add: compute_changes_def changes_of_def name_order_def get_set_def new_tracker_def)
  have data: "rrsets_data name_order (mirror_db []) ''e.f'' {} {} {(''A'', ''w'')} = Inr [?e]"
    by (simp add: rrsets_data_def name_order_def deletion_entry_def construct_name_def)
  have d: "domain_labels_ok ''e.f''"
    by (simp add: domain_labels_ok_def label_over_def cls_label_def cls_tld_def is_lower_alnum_def)
  obtain body where body: "dumps (patch_data [?e]) = Inr body" "length body \<le> 32 * 1024 * 1024"
    by (simp add: patch_data_def entry_pyval_def dumps_str_def escape_char_def show_int_def show_nat.simps)
  have up: "update_zone mirror_env ''e.f'' (patch_data [?e]) ?w = (Inr (), ?w(''e.f.'' \<mapsto> fold replace_entry [?e] [w_entry]))"
    unfolding mirror_env_def
    by (rule reference_update [OF d example_ids(2) body(1)]) (use body(2) in \<open>auto simp: deployed_def construct_name_def intro: exI [of _ "''w''"]\<close>)
  have rep: "?w(''e.f.'' \<mapsto> fold replace_entry [?e] [w_entry]) = ?w'"
    by (simp add: replace_entry_def entry_key_def w_entry_def)
  have ax: "axfr_to_master mirror_env ''e.f'' w = (Inr (), w)" for w
    unfolding mirror_env_def by (rule reference_axfr [OF _ example_ids(2)]) (simp add: deployed_def parallel_def)
  have pch: "pch_enabled (conf mirror_env) = False" by (simp add: mirror_env_def reference_env_def deployed_def)
  have "tracker_exit mirror_env name_order [] 7 False (mirror_db [((''A'', ''w''), \<lparr>ttl = 60, records = [''192.0.2.1'']\<rparr>)]) ?t
     \<lparr>api_db = mirror_db [], net = ?w, active = 1\<rparr> =
     (Inr (), \<lparr>api_db = set_published {''e.f''} 7 (mirror_db []), net = ?w', active = 0\<rparr>)"
    using up unfolding rep
    by (simp add: tracker_exit_def Let_def changes data do_change_def io_bind_def on_net_def pch ax
        patch_data_def name_order_od)
  moreover have "view_of ?w' ''e.f.'' = Some Map.empty"
    by (auto simp: view_of_def rows_of_facts(3) fun_eq_iff)
  ultimately show ?thesis by auto
qed

theorem tracked_block_mirrored_witness:
  "\<exists>t s'. track_run [OpRRsetDelete ''e.f'' (''A'', ''w'')]
      (mirror_db [((''A'', ''w''), \<lparr>ttl = 60, records = [''192.0.2.1'']\<rparr>)], new_tracker) = Inr (mirror_db [], t) \<and>
     tracker_exit mirror_env name_order [] 7 False (mirror_db [((''A'', ''w''), \<lparr>ttl = 60, records = [''192.0.2.1'']\<rparr>)]) t
       \<lparr>api_db = mirror_db [], net = [''e.f.'' \<mapsto> [w_entry]], active = 1\<rparr> = (Inr (), s') \<and>
     mirrored (api_db s') (view_of (net s')) ''e.f''"
proof -
  let ?z = "[((''A'', ''w''), \<lparr>ttl = 60, records = [''192.0.2.1'']\<rparr>)]"
  let ?t = "new_tracker\<lparr>rr_set_additions := [''e.f'' \<mapsto> {}], rr_set_modifications := [''e.f'' \<mapsto> {}],
        rr_set_deletions := [''e.f'' \<mapsto> {(''A'', ''w'')}]\<rparr>"
  let ?ops = "[OpRRsetDelete ''e.f'' (''A'', ''w'')]"
  let ?s = "\<lparr>api_db = mirror_db [], net = [''e.f.'' \<mapsto> [w_entry]], active = 1\<rparr>"
  have run: "track_run ?ops (mirror_db ?z, new_tracker) = Inr (mirror_db [], ?t)"
    by (simp add: track_run_def mirror_db_def new_tracker_def handler_defs row_defs on_rr_post_delete_def
        del: on_rr_set_post_save_False)
  from deletion_block obtain s' where exit: "tracker_exit mirror_env name_order [] 7 False (mirror_db ?z) ?t ?s = (Inr (), s')"
    by blast
  have d: "domain_labels_ok ''e.f''"
    by (simp add: domain_labels_ok_def label_over_def cls_label_def cls_tld_def is_lower_alnum_def)
  have ns: "name_server mirror_env view_of" unfolding mirror_env_def by (rule ref.name_server_axioms)
  have pch: "\<not> pch_enabled (conf mirror_env)"
    by (simp add: mirror_env_def reference_env_def deployed_def)
  have "untranslate ''e.f.'' = ''e.f.''" by simp
  then have v: "view_of [''e.f.'' \<mapsto> [w_entry]] ''e.f.'' =
      Some (\<lambda>k. if k = (''w.e.f.'', ''A'') then Some (60, {''192.0.2.1''}) else None)"
    by (auto simp: view_of_def rows_of_facts(3) fun_eq_iff w_entry_def entry_key_def in_zone_def
        ends_with_rev starts_with_code)
  have c: "content_set (mirror_db ?z) ''e.f'' k = (if k = (''A'', ''w'') then Some (60, {''192.0.2.1''}) else None)" for k
    by (simp add: content_set_def content_def lookup_rrset_def mirror_db_def)
  have "owner_key ''e.f'' (''A'', ''w'') = (''w.e.f.'', ''A'')" by (simp add: owner_key_def construct_name_def)
  then have "owner_key ''e.f'' k = (''w.e.f.'', ''A'') \<longleftrightarrow> k = (''A'', ''w'')" for k by (metis owner_key_inj)
  then have m: "mirrored (mirror_db ?z) (view_of (net ?s)) ''e.f''"
    by (simp add: mirrored_def example_ids v c) (simp add: mirror_db_def)
  have "mirrored (api_db s') (view_of (net s')) ''e.f''"
    by (rule tracked_block_mirrored [where lord = view_of and s = ?s,
        OF ns _ _ _ run lawful_name_order _ exit d m])
      (auto simp: pch db_wf_def mirror_db_def d deletes_def content_def lookup_rrset_def)
  with run exit show ?thesis by blast
qed

end
