(* ===== verification/SyncCorrect.thy ===== *)
theory SyncCorrect
  imports SyncCommands Mirror
begin

text \<open>
  What the commands achieve against a server with the documented behaviour: after \<open>sync-to-pdns\<close>
  it serves what the database holds, after \<open>sync-from-pdns\<close> the database holds what it serves, and
  one after the other changes nothing.
\<close>

declare split_paired_All [simp del] split_paired_Ex [simp del]

section \<open>\<open>sync-to-pdns\<close>\<close>

lemma listed_keys_data:
  "listed_keys (map (data_of d) es) = Inr (map (\<lambda>e. (p_type e, subname_of_name d (p_name e))) es)"
  unfolding listed_keys_def by (induction es) (simp_all add: data_of_def py_str_def)

lemma entry_key_owner:
  assumes "d \<noteq> []" and "p_name e = construct_name s d"
  shows "entry_key e = owner_key d (p_type e, subname_of_name d (p_name e))"
  using assms by (simp add: entry_key_def owner_key_def subname_of_name_construct)

lemma content_not_key: "zones D d = Some z \<Longrightarrow> k \<notin> keys z \<Longrightarrow> content D d k = None"
  by (simp add: content_def lookup_rrset_def keys_map_of)

lemma sync_patch:
  assumes R: "lawful_order R" and z: "zones D d = Some z" and X: "finite X" "X \<inter> keys z = {}"
  obtains es where "rrsets_data R D d {} (keys z) X = Inr es"
    and "\<And>k. k \<in> keys z \<union> X \<Longrightarrow> \<exists>e \<in> set es. entry_key e = owner_key d k"
    and "\<forall>e \<in> set es. \<exists>j. describes d j (content D d j) e"
    and "es = [] \<Longrightarrow> keys z \<union> X = {}"
proof -
  have fin: "finite (keys z)" by simp
  have "{} \<union> keys z \<subseteq> keys_of D d" using z by (simp add: keys_of_def)
  from rrsets_data_Inr [OF R finite.emptyI fin X(1) this, unfolded Un_empty_left] obtain es where es: "rrsets_data R D d {} (keys z) X = Inr es"
    "set es = deletion_entry d ` X \<union> {e. \<exists>k \<in> keys z - X. update_entry D d k = Inr e}" by blast
  have up: "\<exists>e. update_entry D d k = Inr e" if "k \<in> keys z" for k
    using that z by (auto simp: update_entry_def rrset_of_def zone_of_def keys_map_of split: option.split)
  have cover: "\<exists>e \<in> set es. entry_key e = owner_key d k" if "k \<in> keys z \<union> X" for k
  proof (cases "k \<in> X")
    case True
    then have "deletion_entry d k \<in> set es" unfolding es(2) by blast
    then show ?thesis using describes_key [OF describes_deletion] by blast
  next
    case False
    with that up obtain e where "update_entry D d k = Inr e" by blast
    with that False have "e \<in> set es" "entry_key e = owner_key d k"
      unfolding es(2) using describes_key [OF update_entry_describes] by blast+
    then show ?thesis by blast
  qed
  have "\<exists>j. describes d j (content D d j) e" if "e \<in> set es" for e
  proof -
    from that consider k where "k \<in> X" "e = deletion_entry d k" | k where "update_entry D d k = Inr e"
      unfolding es(2) by blast
    then show ?thesis
    proof cases
      case 1
      then have "content D d k = None" using content_not_key [OF z] X(2) by blast
      with describes_deletion [of d k] 1(2) show ?thesis by metis
    next
      case 2
      from update_entry_describes [OF this] show ?thesis by blast
    qed
  qed
  moreover have "keys z \<union> X = {}" if "es = []"
  proof (rule ccontr)
    assume "keys z \<union> X \<noteq> {}"
    then have "\<exists>k. k \<in> keys z \<union> X" by (rule ex_in_conv [THEN iffD2])
    then obtain k where "k \<in> keys z \<union> X" ..
    from cover [OF this] that show False by simp
  qed
  ultimately show thesis using that es(1) cover by blast
qed

context name_server
begin

lemma ensure_created_effect:
  assumes "ensure_created E R d s = (r, s')" and d: "domain_labels_ok d" and i: "pdns_id d = Inr i"
  shows "api_db s' = api_db s \<and> (\<forall>j. j \<noteq> i \<longrightarrow> lord (net s') j = lord (net s) j) \<and>
    (r = Inr True \<longrightarrow> lord (net s) i = None)"
proof -
  obtain q v where p: "pdns_do E R (CreateDomain d) s = (q, v)" by (cases "pdns_do E R (CreateDomain d) s")
  have "s' = v \<and> (r = Inr True \<longrightarrow> q = Inr ())"
    using assms(1) p by (auto simp: ensure_created_def io_catch_def io_bind_def split: sum.split_asm if_split_asm)
  with pdns_do_effect [OF p] d i show ?thesis by auto
qed

lemma quiet_listing:
  "quiet lord (io_bind (get_rrset_datas E d) (\<lambda>rs. io_lift (f rs)))"
  by (auto simp: get_rrset_datas_def get_zone_def master_calls intro!: quiet_bind quiet_pure quiet_get)

lemma sync_to_domain_effect:
  assumes run: "sync_to_domain E R d s = (r, s')" and R: "lawful_order R"
    and d: "domain_labels_ok d" and i: "pdns_id d = Inr i" and z: "zones (api_db s) d = Some z"
  shows "api_db s' = api_db s \<and> (\<forall>j. j \<noteq> i \<longrightarrow> lord (net s') j = lord (net s) j) \<and>
    (\<forall>c. r = Inr c \<longrightarrow> mirrored (api_db s') (lord (net s')) d \<and> (c \<longrightarrow> lord (net s) i = None))"
proof -
  have ne: "d \<noteq> []" using domain_labels_ok_last [OF d] by simp
  obtain r1 s1 where 1: "ensure_created E R d s = (r1, s1)" by (cases "ensure_created E R d s")
  note e1 = ensure_created_effect [OF 1 d i]
  show ?thesis
  proof (cases r1)
    case (Inl e)
    with 1 run have "s' = s1" "r = Inl e" by (auto simp: sync_to_domain_def io_bind_def)
    with e1 show ?thesis by simp
  next
    case (Inr created)
    let ?list = "io_bind (get_rrset_datas E d) (\<lambda>rs. io_lift (listed_keys rs))"
    have z1: "zones (api_db s1) d = Some z" using e1 z by simp
    obtain r2 s2 where 2: "on_net ?list s1 = (r2, s2)" by (cases "on_net ?list s1")
    have n2: "api_db s2 = api_db s1" "lord (net s2) = lord (net s1)"
      using frame_step [OF frame_on_net 2] quietD [OF quiet_on_net [OF quiet_listing] 2] by simp_all
    show ?thesis
    proof (cases r2)
      case (Inl e)
      with 1 2 Inr run have "s' = s2" "r = Inl e" by (auto simp: sync_to_domain_def io_bind_def)
      with e1 n2 show ?thesis by simp
    next
      case present: (Inr present)
      from on_net_split [OF 2] present obtain w where "?list (net s1) = (Inr present, w)" by auto
      then obtain ds w' where g: "get_rrset_datas E d (net s1) = (Inr ds, w')" and k: "listed_keys ds = Inr present"
        by (auto simp: io_bind_def split: prod.split_asm sum.split_asm)
      from listing_effect [OF g d i] obtain m es0 where m: "lord (net s1) i = Some m" "lists d es0 m"
        "ds = map (data_of d) es0" by auto
      with k have keys: "present = map (\<lambda>e. (p_type e, subname_of_name d (p_name e))) es0" by (simp add: listed_keys_data)
      let ?X = "set present - keys z - {(''SOA'', [])}"
      let ?c = "CreateUpdateDeleteRRSets d {} (keys z) ?X"
      obtain r3 s3 where 3: "pdns_do E R ?c s2 = (r3, s3)" by (cases "pdns_do E R ?c s2")
      have j: "pdns_id (change_domain ?c) = Inr i" "domain_labels_ok (change_domain ?c)" using i d by simp_all
      note e3 = pdns_do_effect [OF 3 j(2,1)]
      show ?thesis
      proof (cases r3)
        case (Inl e)
        with 1 2 3 Inr present run z1 have "s' = s3" "r = Inl e"
          by (auto simp: sync_to_domain_def io_bind_def Let_def)
        with e1 n2 e3 show ?thesis by auto
      next
        case r3: (Inr u)
        obtain r4 s4 where 4: "on_net (axfr_to_master E d) s3 = (r4, s4)" by (cases "on_net (axfr_to_master E d) s3")
        have n4: "api_db s4 = api_db s3" "lord (net s4) = lord (net s3)"
          using frame_step [OF frame_on_net 4] quietD [OF quiet_on_net [OF quiet_calls(4)] 4] by simp_all
        have s': "s' = s4" "\<forall>c. r = Inr c \<longrightarrow> c = created"
          using 1 2 3 4 Inr present r3 run z1
          by (auto simp: sync_to_domain_def io_bind_def Let_def split: sum.split_asm)
        from sync_patch [OF R z, of ?X] obtain es where es: "rrsets_data R (api_db s) d {} (keys z) ?X = Inr es"
          and cover: "\<And>k. k \<in> keys z \<union> ?X \<Longrightarrow> \<exists>e \<in> set es. entry_key e = owner_key d k"
          and desc: "\<forall>e \<in> set es. \<exists>j. describes d j (content (api_db s) d j) e"
          and empty: "es = [] \<Longrightarrow> keys z \<union> ?X = {}" by auto
        have l3: "lord (net s3) i = Some (fold apply_entry es m)"
          using e3 r3 es e1 n2 m(1) by (auto split: if_split_asm)
        have "fold apply_entry es m (owner_key d k) = content_set (api_db s) d k" if k: "fst k \<noteq> ''SOA''" for k
        proof (cases "\<exists>e \<in> set es. entry_key e = owner_key d k")
          case True
          have "fold apply_entry es m (owner_key d k) =
              (if \<exists>e \<in> set es. entry_key e = owner_key d k then content_set (api_db s) d k else m (owner_key d k))"
            by (rule apply_described(1) [OF k desc]) (use True describes_key desc in \<open>metis owner_key_inj\<close>)
          with True show ?thesis by simp
        next
          case False
          with cover have no: "k \<notin> keys z" "k \<notin> ?X" by blast+
          have "fold apply_entry es m (owner_key d k) = m (owner_key d k)"
            using fold_apply_entry [of "owner_key d k" es None m] False k by (auto simp: owner_key_def)
          moreover have "m (owner_key d k) = None"
          proof (rule ccontr)
            assume "m (owner_key d k) \<noteq> None"
            with m(2) obtain e where e: "e \<in> set es0" "entry_key e = owner_key d k" by (auto simp: lists_def)
            with m(2) obtain s where "p_name e = construct_name s d" by (auto simp: lists_def)
            from entry_key_owner [OF ne this] e have "k = (p_type e, subname_of_name d (p_name e))" by simp
            with e(1) have "k \<in> set present" unfolding keys by simp
            with no k show False by auto
          qed
          ultimately show ?thesis using content_not_key [OF z no(1)] by (simp add: content_set_def)
        qed
        then have "mirrored (api_db s') (lord (net s')) d"
          using s'(1) n4 l3 e3 n2 e1 z i by (auto simp: mirrored_iff)
        with s' n4 e3 n2 e1 Inr show ?thesis by auto
      qed
    qed
  qed
qed

lemma sync_to_loop_effect:
  assumes "sync_to_loop E R ds b s = (r, s')" and R: "lawful_order R"
    and "\<forall>d \<in> set ds. domain_labels_ok d \<and> zones (api_db s) d \<noteq> None"
  shows "api_db s' = api_db s \<and>
    (\<forall>d. domain_labels_ok d \<and> mirrored (api_db s) (lord (net s)) d \<and> r \<in> range Inr \<longrightarrow> mirrored (api_db s') (lord (net s')) d) \<and>
    (\<forall>d. d \<in> set ds \<and> r \<in> range Inr \<longrightarrow> mirrored (api_db s') (lord (net s')) d)"
  using assms(1,3)
proof (induction ds arbitrary: b s)
  case (Cons e ds)
  then obtain z i where e: "domain_labels_ok e" "zones (api_db s) e = Some z" and i: "pdns_id e = Inr i"
    using pdns_id_domain by fastforce
  obtain q v where q: "sync_to_domain E R e s = (q, v)" by (cases "sync_to_domain E R e s")
  note eff = sync_to_domain_effect [OF q R e(1) i e(2)]
  show ?case
  proof (cases q)
    case (Inl x)
    with Cons.prems(1) q have "s' = v" "r = Inl (Processing e (Raised x))" by (auto simp: io_bind_def io_catch_def)
    with eff show ?thesis by auto
  next
    case (Inr c)
    with Cons.prems(1) q have rest: "sync_to_loop E R ds (b \<or> c) v = (r, s')" by (simp add: io_bind_def io_catch_def)
    have "\<forall>d \<in> set ds. domain_labels_ok d \<and> zones (api_db v) d \<noteq> None" using Cons.prems(2) eff by simp
    note IH = Cons.IH [OF rest this]
    have keep: "mirrored (api_db v) (lord (net v)) d"
      if "domain_labels_ok d" "mirrored (api_db s) (lord (net s)) d" for d
    proof (cases "d = e")
      case False
      from that(2) obtain j where j: "pdns_id d = Inr j" by (auto simp: mirrored_iff)
      have "j \<noteq> i" using pdns_id_eq [OF that(1) e(1)] i j False by auto
      with eff have "lord (net v) j = lord (net s) j" "api_db v = api_db s" by auto
      with that(2) j show ?thesis by (simp add: mirrored_def)
    next
      case True
      with eff Inr show ?thesis by blast
    qed
    have own: "mirrored (api_db v) (lord (net v)) e" using eff Inr by blast
    show ?thesis using IH eff keep own e(1) by auto
  qed
qed simp

lemma quiet_catch: "quiet L m \<Longrightarrow> (\<And>e. quiet L (h e)) \<Longrightarrow> quiet L (io_catch m h)"
  by (auto simp: quiet_def io_catch_def split: prod.splits sum.splits) (metis snd_conv)+

lemma quiet_align: "quiet lord (align_catalog_zone E R)"
  unfolding align_catalog_zone_def catalog_serial_def purge_catalog_def master_calls
  by (intro quiet_bind quiet_catch quiet_pure quiet_to_master quiet_get)
    (simp_all add: quiet_pure split: if_split)

lemma sync_to_pdns_effect:
  assumes run: "sync_to_pdns E R rows names s = (Inr u, s')" and R: "lawful_order R"
    and rows: "set rows = dom (zones (api_db s))" and ok: "\<forall>d \<in> set rows. domain_labels_ok d"
  shows "api_db s' = api_db s \<and>
    (\<forall>d \<in> set rows. names = [] \<or> d \<in> set names \<longrightarrow> mirrored (api_db s') (lord (net s')) d)"
proof -
  from run obtain ds b v where ds: "select_domains rows names = Inr ds"
    and v: "sync_to_loop E R ds False s = (Inr b, v)"
    and rest: "(if b then (\<lambda>s. case align_catalog_zone E R (net s) of
                (Inl e, w) \<Rightarrow> (Inl (Uncaught e), s\<lparr>net := w\<rparr>)
              | (Inr _, w) \<Rightarrow> (Inr (), s\<lparr>net := w\<rparr>)) else io_return ()) v = (Inr u, s')"
    by (auto simp: sync_to_pdns_def io_bind_def split: prod.split_asm sum.split_asm)
  have mem: "set ds = {d \<in> set rows. names = [] \<or> d \<in> set names}"
    using ds by (auto simp: select_domains_def Let_def split: if_split_asm option.split_asm)
  have l: "lord (net s') = lord (net v)" "api_db s' = api_db v"
    using rest quietD [OF quiet_align] by (auto split: if_split_asm prod.split_asm sum.split_asm)
  have "\<forall>d \<in> set ds. domain_labels_ok d \<and> zones (api_db s) d \<noteq> None"
    using mem rows ok by auto
  from sync_to_loop_effect [OF v R this] l mem show ?thesis by auto
qed

section \<open>\<open>sync-from-pdns\<close>\<close>

lemma sync_from_domain_effect:
  assumes run: "sync_from_domain E d s = (r, s')" and d: "domain_labels_ok d" and i: "pdns_id d = Inr i"
  shows "lord (net s') = lord (net s) \<and> (\<forall>e. e \<noteq> d \<longrightarrow> zones (api_db s') e = zones (api_db s) e) \<and>
    (\<forall>x. r = Inl x \<longrightarrow> api_db s' = api_db s) \<and>
    (\<forall>u. r = Inr u \<longrightarrow> zones (api_db s') d \<noteq> None \<and> (\<exists>m. lord (net s) i = Some m \<and>
      (\<forall>k. content_set (api_db s') d k = (if fst k \<in> rr_set_types_automatic then None else m (owner_key d k)))))"
proof -
  let ?get = "io_bind (get_rrset_datas E d) (\<lambda>rs. io_lift (imported_rows rs))"
  have ne: "d \<noteq> []" using domain_labels_ok_last [OF d] by simp
  obtain q v where q: "on_net ?get s = (q, v)" by (cases "on_net ?get s")
  have v: "api_db v = api_db s" "lord (net v) = lord (net s)"
    using frame_step [OF frame_on_net q] quietD [OF quiet_on_net [OF quiet_listing] q] by simp_all
  show ?thesis
  proof (cases "\<exists>rows D. q = Inr rows \<and> replace_zone d rows (api_db v) = Inr D")
    case False
    with run q have "s' = v" "\<exists>x. r = Inl x"
      by (auto simp: sync_from_domain_def split: sum.split_asm)
    with v show ?thesis by auto
  next
    case True
    then obtain rows D where rows: "q = Inr rows" and D: "replace_zone d rows (api_db v) = Inr D" by blast
    with run q have r: "r = Inr ()" and s': "s' = v\<lparr>api_db := D\<rparr>" by (auto simp: sync_from_domain_def)
    from D have D': "D = (api_db v)\<lparr>zones := (zones (api_db v))(d \<mapsto> rows)\<rparr>" and dist: "distinct (map fst rows)"
      by (auto simp: replace_zone_def result_simps split: option.split_asm)
    from on_net_split [OF q] rows obtain w where "?get (net s) = (Inr rows, w)" by auto
    then obtain ds w' where g: "get_rrset_datas E d (net s) = (Inr ds, w')" and imp: "imported_rows ds = Inr rows"
      by (auto simp: io_bind_def split: prod.split_asm sum.split_asm)
    from listing_effect [OF g d i] obtain m es where m: "lord (net s) i = Some m" "lists d es m"
      "ds = map (data_of d) es" by auto
    let ?key = "\<lambda>e. (p_type e, subname_of_name d (p_name e))"
    let ?es = "filter (\<lambda>e. p_type e \<notin> rr_set_types_automatic) es"
    have "filter (\<lambda>r. \<not> automatic r) ds = map (data_of d) ?es"
      unfolding m(3) filter_map by (simp add: comp_def automatic_def data_of_def)
    moreover have "rmap row_of_data (map (data_of d) xs) = Inr (map (\<lambda>e. (?key e, \<lparr>ttl = p_ttl e, records = p_records e\<rparr>)) xs)" for xs
    proof (induction xs)
      case (Cons e xs)
      have "rmap py_str (map PyStr cs) = Inr cs" for cs by (rule rmap_py_str)
      with Cons show ?case by (simp add: row_of_data_def data_of_def py_str_def)
    qed simp
    ultimately have R: "rows = map (\<lambda>e. (?key e, \<lparr>ttl = p_ttl e, records = p_records e\<rparr>)) ?es"
      using imp by (simp add: imported_rows_def)
    have own: "entry_key e = owner_key d (?key e)" if e: "e \<in> set es" for e
    proof -
      from m(2) e obtain s where "p_name e = construct_name s d" by (auto simp: lists_def)
      from entry_key_owner [OF ne this] show ?thesis .
    qed
    have c: "content_set (api_db s') d k = (case map_of rows k of None \<Rightarrow> None
        | Some x \<Rightarrow> if records x = [] then None else Some (ttl x, set (records x)))" for k
      by (simp add: s' D' content_set_def content_def lookup_rrset_def split: option.split)
    have "content_set (api_db s') d k = (if fst k \<in> rr_set_types_automatic then None else m (owner_key d k))" for k
    proof (cases "map_of rows k")
      case None
      then have no: "k \<noteq> ?key e" if "e \<in> set es" "p_type e \<notin> rr_set_types_automatic" for e
        using that by (auto simp: R map_of_eq_None_iff image_image)
      have "m (owner_key d k) = None" if k: "fst k \<notin> rr_set_types_automatic"
      proof (rule ccontr)
        assume "m (owner_key d k) \<noteq> None"
        with m(2) obtain e where e: "e \<in> set es" "owner_key d k = entry_key e" by (auto simp: lists_def)
        with own have "k = ?key e" by simp
        with no [OF e(1)] k show False by simp
      qed
      with None show ?thesis by (simp add: c)
    next
      case (Some x)
      from map_of_SomeD [OF this] obtain e where e: "e \<in> set es" "p_type e \<notin> rr_set_types_automatic" "k = ?key e"
        "x = \<lparr>ttl = p_ttl e, records = p_records e\<rparr>" by (auto simp: R)
      have "p_type e \<noteq> ''SOA''" using e(2) by (auto simp: rr_set_types_automatic_def)
      with m(2) e(1) have "m (entry_key e) = Some (p_ttl e, set (p_records e))" "p_records e \<noteq> []" by (auto simp: lists_def)
      with own [OF e(1)] e Some show ?thesis by (simp add: c)
    qed
    with m(1) r s' D' v show ?thesis by auto
  qed
qed

lemma roundtrip_effect:
  assumes to: "sync_to_pdns E R rows [] s = (Inr u, s1)" and R: "lawful_order R"
    and rows: "set rows = dom (zones (api_db s))" and ok: "\<forall>d \<in> set rows. domain_labels_ok d"
    and auto: "\<And>d k. fst k \<in> rr_set_types_automatic \<Longrightarrow> content (api_db s) d k = None"
    and "from": "sync_from_pdns E rows names s1 = (r, s2)"
  shows "content_set (api_db s2) d k = content_set (api_db s) d k"
proof -
  note eff = sync_to_pdns_effect [OF to R rows ok]
  let ?P = "\<lambda>v. lord (net v) = lord (net s1) \<and> (\<forall>d k. content_set (api_db v) d k = content_set (api_db s) d k)"
  have start: "?P s1" using eff by simp
  have step: "?P v'" if e: "e \<in> set rows" and P: "?P v"
    and run: "io_catch (sync_from_domain E e) (\<lambda>c. io_raise (Processing e c)) v = (q, v')" for e v q v'
  proof -
    from e ok have d: "domain_labels_ok e" by simp
    then obtain i where i: "pdns_id e = Inr i" using pdns_id_domain by blast
    from run obtain p where "sync_from_domain E e v = (p, v')"
      by (auto simp: io_catch_def split: prod.split_asm sum.split_asm)
    note f = sync_from_domain_effect [OF this d i]
    have "content_set (api_db v') a k = content_set (api_db s) a k" for a k
    proof (cases "a = e \<and> (\<exists>u. p = Inr u)")
      case True
      with f obtain m where m: "lord (net v) i = Some m"
        "\<And>k. content_set (api_db v') e k = (if fst k \<in> rr_set_types_automatic then None else m (owner_key e k))" by auto
      have "mirrored (api_db s) (lord (net s1)) e" using eff e by metis
      with m(1) P i have mk: "m (owner_key e k) = content_set (api_db s) e k" if "fst k \<noteq> ''SOA''" for k
        using that by (auto simp: mirrored_iff)
      have "fst k \<noteq> ''SOA''" if "fst k \<notin> rr_set_types_automatic" for k :: rrkey
        using that by (auto simp: rr_set_types_automatic_def)
      then show ?thesis using True m(2) mk auto by (simp add: content_set_def)
    next
      case False
      then consider "a \<noteq> e" | x where "p = Inl x" by (cases p) auto
      then have "content_set (api_db v') a k = content_set (api_db v) a k"
      proof cases
        case 1
        with f show ?thesis by (intro content_set_cong) simp
      next
        case 2
        with f show ?thesis by simp
      qed
      with P show ?thesis by simp
    qed
    with f P show ?thesis by simp
  qed
  from "from" consider ds where "select_domains rows names = Inr ds"
      "io_iter (\<lambda>d. io_catch (sync_from_domain E d) (\<lambda>c. io_raise (Processing d c))) ds s1 = (r, s2)"
    | "s2 = s1" by (auto simp: sync_from_pdns_def io_bind_def split: sum.split_asm)
  then show ?thesis
  proof cases
    case 1
    have sub: "set ds \<subseteq> set rows"
      using 1(1) by (auto simp: select_domains_def Let_def split: if_split_asm option.split_asm)
    have "?P s2" by (rule io_iter_keeps [where P = ?P, OF 1(2) start]) (use step sub in blast)
    then show ?thesis by simp
  qed (use start in simp)
qed

end

section \<open>The commands on the reference server\<close>

lemma reference_exists:
  assumes i: "pdns_id d = Inr i" and d: "domain_labels_ok d" and b: "dumps (create_data c (d @ ''.'')) = Inr body"
    and len: "length body \<le> pdns_max_body_size c" and w: "w i \<noteq> None"
  shows "create_zone_lord (reference_env c) d w = (Inl (PDNSException 409), w)"
proof -
  have n: "rstrip_char CHR ''.'' d @ ''.'' = d @ ''.''" using domain_labels_ok_last [OF d] by (simp add: rstrip_char_id)
  have l: "loads body = Some (create_data c (d @ ''.''))" by (rule loads_dumps [OF b distinct_keys_data(2)])
  have "read_entries (create_data c (d @ ''.'')) =
      Inr [\<lparr>p_name = d @ ''.'', p_type = ''SOA'', p_ttl = 300, p_records = [soa_content]\<rparr>]"
    by (simp add: read_entries_def create_data_def py_get_def py_items_def read_entry_def py_str_def)
  then have "handle_create c (Some body) w = (answer 409 PyNone, w)"
    using w by (simp add: handle_create_def l pdns_id_dot [OF d i])
      (simp add: create_data_def py_get_def py_str_def py_items_def rmap_py_str pdns_id_dot [OF d i])
  then show ?thesis unfolding create_zone_lord_def Let_def n create_data_def [of c, symmetric]
    using b len
    by (simp add: pdns_post_def pdns_request_def io_bind_def reference_env_def reference_send_def base_url_def
        lord_zones_url_def starts_with_def answer_def flip: create_data_def)
qed

lemma reference_list:
  assumes d: "domain_labels_ok d" and i: "pdns_id d = Inr i" and w: "w i = Some es"
  shows "get_rrset_datas (reference_env c) d w = (Inr (map (data_of d) (rows_of (d @ ''.'') es)), w)"
proof -
  let ?r = "rows_of (d @ ''.'') es"
  have "handle_get i w = (answer 200 (patch_data ?r), w)" using w by (simp add: handle_get_def untranslate_id [OF d i])
  moreover have "rmap (rrset_data_of d) (map entry_pyval xs) = Inr (map (data_of d) xs)" for xs
    by (induction xs) (simp_all add: rrset_data_of_depicts [OF depicts_entry])
  ultimately show ?thesis using i
    by (simp add: get_rrset_datas_def get_zone_def pdns_get_def pdns_request_def io_bind_def reference_env_def
        reference_send_def base_url_def lord_url_def lord_zones_url_def starts_with_def answer_def patch_data_def py_get_def py_items_def)
qed

section \<open>A zone that only \<open>nsmaster\<close> knows\<close>

text \<open>If the zone is missing on \<open>nslord\<close> but not on \<open>nsmaster\<close>, it is created on the former and the 409 of
  the latter is taken to mean that it existed, so the command does not count it as created.\<close>

lemma recreated_unnoticed:
  assumes "create_zone_lord E d (net s) = (Inr (), w)" and "create_zone_master E d w = (Inl (PDNSException 409), w')"
  shows "ensure_created E R d s = (Inr False, s\<lparr>net := w'\<rparr>)"
  using assms by (simp add: ensure_created_def io_catch_def io_bind_def on_net_def)

section \<open>Properties\<close>

text \<open>C36: If \<open>sync-to-pdns\<close> succeeds against a server with the documented behaviour, then the database is as it was
  and every chosen domain (all of them if none is named) is served exactly as the database holds it,
  whatever the server held before: RRsets it had in addition are gone, differing ones are replaced,
  missing zones and RRsets are there.\<close>

theorem sync_to_pdns_mirrors:
  assumes "name_server E lord" and "sync_to_pdns E R rows names s = (Inr u, s')" and "lawful_order R"
    and "set rows = dom (zones (api_db s))" and "\<forall>d \<in> set rows. domain_labels_ok d"
    and "d \<in> set rows" and "names = [] \<or> d \<in> set names"
  shows "api_db s' = api_db s \<and> mirrored (api_db s') (lord (net s')) d"
  using name_server.sync_to_pdns_effect [OF assms(1-5)] assms(6,7) by metis

text \<open>C37: Round trip: running \<open>sync-from-pdns\<close>, for any choice of domains and whether or not it succeeds, after a
  successful \<open>sync-to-pdns\<close> leaves the TTL and the set of records of every RRset of every domain as
  they were. No RRset of an automatically managed type is in the database.\<close>

theorem sync_roundtrip:
  assumes "name_server E lord" and "sync_to_pdns E R rows [] s = (Inr u, s1)" and "lawful_order R"
    and "set rows = dom (zones (api_db s))" and "\<forall>d \<in> set rows. domain_labels_ok d"
    and "\<And>d k. fst k \<in> rr_set_types_automatic \<Longrightarrow> content (api_db s) d k = None"
    and "sync_from_pdns E rows names s1 = (r, s2)"
  shows "content_set (api_db s2) d k = content_set (api_db s) d k"
  by (rule name_server.roundtrip_effect [OF assms(1-5) _ assms(7)]) (use assms(6) in auto)

definition sync_sys :: "pdns_rrset list \<Rightarrow> store_of_zones sys" where
  "sync_sys es =
     \<lparr>api_db = mirror_db [((''A'', ''w''), \<lparr>ttl = 60, records = [''192.0.2.2'']\<rparr>)], net = [''e.f.'' \<mapsto> es], active = 0\<rparr>"

definition new_entry :: pdns_rrset where
  "new_entry = \<lparr>p_name = ''w.e.f.'', p_type = ''A'', p_ttl = 60, p_records = [''192.0.2.2'']\<rparr>"

lemma e_f_ok: "domain_labels_ok ''e.f''"
  by (simp add: domain_labels_ok_def label_over_def cls_label_def cls_tld_def is_lower_alnum_def)

lemma example_rows: "rows_of ''e.f.'' [w_entry] = [w_entry]" "rows_of ''e.f.'' [new_entry] = [new_entry]"
  by (simp_all add: rows_of_def row_def w_entry_def new_entry_def in_zone_def ends_with_rev starts_with_code)

lemma example_list:
  "get_rrset_datas mirror_env ''e.f'' [''e.f.'' \<mapsto> [w_entry]] = (Inr [data_of ''e.f'' w_entry], [''e.f.'' \<mapsto> [w_entry]])"
  "get_rrset_datas mirror_env ''e.f'' [''e.f.'' \<mapsto> [new_entry]] = (Inr [data_of ''e.f'' new_entry], [''e.f.'' \<mapsto> [new_entry]])"
  unfolding mirror_env_def using example_rows
  by (simp_all add: reference_list [OF e_f_ok example_ids(2)])

lemma example_sync_to:
  "sync_to_pdns mirror_env name_order [''e.f''] [] (sync_sys [w_entry]) = (Inr (), sync_sys [new_entry])"
proof -
  let ?c = "deployed [''ns1.example.''] 3600 3600 {} True False"
  let ?w = "[''e.f.'' \<mapsto> [w_entry]] :: store_of_zones"
  obtain body where body: "dumps (create_data ?c (''e.f'' @ ''.'')) = Inr body" "length body \<le> pdns_max_body_size ?c"
    by (simp add: create_data_def deployed_def dumps_str_def escape_char_def show_int_def show_nat.simps soa_content_def)
  have c: "create_zone_lord mirror_env ''e.f'' ?w = (Inl (PDNSException 409), ?w)"
    unfolding mirror_env_def by (rule reference_exists [OF example_ids(2) e_f_ok body]) simp
  obtain patch where patch: "dumps (patch_data [new_entry]) = Inr patch" "length patch \<le> pdns_max_body_size ?c"
    by (simp add: patch_data_def entry_pyval_def dumps_str_def escape_char_def show_int_def show_nat.simps new_entry_def deployed_def)
  have "update_zone mirror_env ''e.f'' (patch_data [new_entry]) ?w =
      (Inr (), ?w(''e.f.'' \<mapsto> fold replace_entry [new_entry] [w_entry]))"
    unfolding mirror_env_def
    by (rule reference_update [OF e_f_ok example_ids(2) patch])
      (auto simp: new_entry_def construct_name_def intro: exI [of _ "''w''"])
  then have up: "update_zone mirror_env ''e.f'' (patch_data [new_entry]) ?w = (Inr (), [''e.f.'' \<mapsto> [new_entry]])"
    by (simp add: replace_entry_def entry_key_def w_entry_def new_entry_def)
  have ax: "axfr_to_master mirror_env ''e.f'' w = (Inr (), w)" for w
    unfolding mirror_env_def by (rule reference_axfr [OF _ example_ids(2)]) (simp add: deployed_def parallel_def)
  have keys: "listed_keys [data_of ''e.f'' w_entry] = Inr [(''A'', ''w'')]"
    by (simp add: listed_keys_def data_of_def w_entry_def py_str_def subname_of_name_def)
  have data: "rrsets_data name_order (api_db (sync_sys [w_entry])) ''e.f'' {} {(''A'', ''w'')} {} = Inr [new_entry]"
    by (simp add: rrsets_data_def name_order_def sync_sys_def mirror_db_def update_entry_def rrset_of_def zone_of_def
        new_entry_def construct_name_def)
  have e: "ensure_created mirror_env name_order ''e.f'' (sync_sys [w_entry]) = (Inr False, sync_sys [w_entry])"
    using c by (simp add: ensure_created_def io_catch_def io_bind_def on_net_def sync_sys_def)
  have p: "pdns_do mirror_env name_order (CreateUpdateDeleteRRSets ''e.f'' {} {(''A'', ''w'')} {}) (sync_sys [w_entry]) =
      (Inr (), sync_sys [new_entry])"
    using up by (simp add: data patch_data_def on_net_def) (simp add: sync_sys_def)
  have list: "on_net (io_bind (get_rrset_datas mirror_env ''e.f'') (\<lambda>rs. io_lift (listed_keys rs))) (sync_sys [w_entry]) =
      (Inr [(''A'', ''w'')], sync_sys [w_entry])"
    by (simp add: on_net_def sync_sys_def io_bind_def example_list keys)
  have mods: "zones (api_db (sync_sys es)) ''e.f'' = Some [((''A'', ''w''), \<lparr>ttl = 60, records = [''192.0.2.2'']\<rparr>)]" for es
    by (simp add: sync_sys_def mirror_db_def)
  have axn: "on_net (axfr_to_master mirror_env ''e.f'') (sync_sys es) = (Inr (), sync_sys es)" for es
    by (simp add: on_net_def ax)
  have "sync_to_domain mirror_env name_order ''e.f'' (sync_sys [w_entry]) = (Inr False, sync_sys [new_entry])"
    using p list by (simp add: sync_to_domain_def io_bind_def [of _ _ "sync_sys _"] Let_def e mods axn del: pdns_do.simps)
  then show ?thesis by (simp add: sync_to_pdns_def select_domains_def io_bind_def io_catch_def)
qed

lemma example_sync_from:
  "sync_from_pdns mirror_env [''e.f''] [] (sync_sys [new_entry]) = (Inr (), sync_sys [new_entry])"
proof -
  have clean: "clean_key (''A'', ''w'')" by code_simp
  have imp: "imported_rows [data_of ''e.f'' new_entry] = Inr [((''A'', ''w''), \<lparr>ttl = 60, records = [''192.0.2.2'']\<rparr>)]"
    by (simp add: imported_rows_def automatic_def row_of_data_def data_of_def new_entry_def py_str_def
        subname_of_name_def rr_set_types_automatic_def)
  have "on_net (io_bind (get_rrset_datas mirror_env ''e.f'') (\<lambda>rs. io_lift (imported_rows rs))) (sync_sys [new_entry]) =
      (Inr [((''A'', ''w''), \<lparr>ttl = 60, records = [''192.0.2.2'']\<rparr>)], sync_sys [new_entry])"
    by (simp add: on_net_def sync_sys_def io_bind_def example_list imp)
  moreover have "replace_zone ''e.f'' [((''A'', ''w''), \<lparr>ttl = 60, records = [''192.0.2.2'']\<rparr>)] (api_db (sync_sys [new_entry])) =
      Inr (api_db (sync_sys [new_entry]))"
    using clean by (simp add: replace_zone_def sync_sys_def mirror_db_def cname_conflict_def)
  ultimately have "sync_from_domain mirror_env ''e.f'' (sync_sys [new_entry]) = (Inr (), sync_sys [new_entry])"
    by (simp add: sync_from_domain_def)
  then show ?thesis by (simp add: sync_from_pdns_def select_domains_def io_bind_def io_catch_def)
qed

theorem sync_to_pdns_mirrors_witness:
  "sync_to_pdns mirror_env name_order [''e.f''] [] (sync_sys [w_entry]) = (Inr (), sync_sys [new_entry]) \<and>
   mirrored (api_db (sync_sys [new_entry])) (view_of (net (sync_sys [new_entry]))) ''e.f''"
proof -
  have ns: "name_server mirror_env view_of" unfolding mirror_env_def by (rule ref.name_server_axioms)
  have "mirrored (api_db (sync_sys [new_entry])) (view_of (net (sync_sys [new_entry]))) ''e.f''"
    using sync_to_pdns_mirrors [OF ns example_sync_to lawful_name_order]
    by (simp add: e_f_ok sync_sys_def mirror_db_def)
  with example_sync_to show ?thesis by blast
qed

theorem sync_roundtrip_witness:
  "\<exists>s1 s2. sync_to_pdns mirror_env name_order [''e.f''] [] (sync_sys [w_entry]) = (Inr (), s1) \<and>
     sync_from_pdns mirror_env [''e.f''] [] s1 = (Inr (), s2) \<and>
     content_set (api_db s2) ''e.f'' (''A'', ''w'') = Some (60, {''192.0.2.2''})"
proof -
  have ns: "name_server mirror_env view_of" unfolding mirror_env_def by (rule ref.name_server_axioms)
  have "content_set (api_db (sync_sys [new_entry])) ''e.f'' (''A'', ''w'') =
      content_set (api_db (sync_sys [w_entry])) ''e.f'' (''A'', ''w'')"
    by (rule sync_roundtrip [OF ns example_sync_to lawful_name_order _ _ _ example_sync_from])
      (auto simp: e_f_ok sync_sys_def mirror_db_def content_def lookup_rrset_def rr_set_types_automatic_def split: option.split if_split_asm)
  also have "\<dots> = Some (60, {''192.0.2.2''})"
    by (simp add: content_set_def content_def lookup_rrset_def sync_sys_def mirror_db_def)
  finally show ?thesis using example_sync_to example_sync_from by blast
qed

end
