(* ===== verification/DomainViews.thy ===== *)
theory DomainViews
  imports RRsetViews
begin

text \<open>
  The endpoints for domains (\<open>views/domains.py\<close>) with their serializer (\<open>serializers/domains.py\<close>):
  validation of the name, reading a zone file, creation of the domain with the RRsets of the zone
  file inside a tracker, the delegation, deletion and export. The zone file parser of dnspython and
  what the framework does to turn JSON into typed fields are parameters.
\<close>

section \<open>Reading a zone file\<close>

text \<open>The exceptions of \<open>dns.zone.from_text\<close> that the serializer tells apart, with their texts.\<close>

datatype zonefile_exc =
  CNAMEAndOtherData
| ZoneValueError string
| ZoneSyntaxError string
| ZoneOtherError string

type_synonym zone_parser = "string \<Rightarrow> string \<Rightarrow> (zonefile_exc, import_rrset list) result"

definition zonefile_error :: "string \<Rightarrow> verr" where
  "zonefile_error m = Invalid [(''zonefile'', m)]"

definition parse_zonefile :: "zone_parser \<Rightarrow> string \<Rightarrow> string \<Rightarrow> (verr, import_rrset list) result" where
  "parse_zonefile from_text domain_name zonefile =
     (case from_text zonefile domain_name of
        Inr rs \<Rightarrow> Inr rs
      | Inl CNAMEAndOtherData \<Rightarrow>
          Inl (zonefile_error ''No other records with the same name are allowed alongside a CNAME record.'')
      | Inl (ZoneValueError e) \<Rightarrow>
          if contains ''has non-origin SOA'' e
          then Inl (zonefile_error (''Zonefile includes an SOA record for a name different from '' @ domain_name @ ''.''))
          else Inl (Crash e)
      | Inl (ZoneSyntaxError e) \<Rightarrow>
          (case split_on CHR '':'' e of
             _ # line # _ \<Rightarrow> Inl (zonefile_error (''Zonefile contains syntax error in line '' @ line @ ''.''))
           | _ \<Rightarrow> Inl (zonefile_error (''Could not parse zonefile: '' @ e)))
      | Inl (ZoneOtherError e) \<Rightarrow> Inl (Crash e))"

section \<open>Importing the RRsets\<close>

definition import_item :: "import_rrset \<Rightarrow> pyval" where
  "import_item r =
     PyDict [(''type'', PyStr (i_type r)), (''ttl'', PyInt (int (i_ttl r))), (''subname'', PyStr (i_subname r)),
             (''records'', PyList (map PyStr (i_records r)))]"

text \<open>\<open>fqdn(idx)\<close>\<close>

definition fqdn :: "string \<Rightarrow> import_rrset \<Rightarrow> string" where
  "fqdn domain_name r = lstrip_char CHR ''.'' (i_subname r @ ''.'' @ domain_name)"

definition import_errors :: "string \<Rightarrow> import_rrset list \<Rightarrow> (string \<times> string) list list \<Rightarrow> (string \<times> string) list" where
  "import_errors domain_name data detail =
     concat (map (\<lambda>(r, es). map (\<lambda>(_, err). (''zonefile'', fqdn domain_name r @ ''/'' @ i_type r @ '': '' @ err)) es)
       (zip data detail))"

text \<open>What \<open>is_valid\<close> of the list serializer raises, as \<open>create\<close> passes it on. The last three cannot
  occur for a list that is not empty or may be.\<close>

fun import_failure :: "string \<Rightarrow> import_rrset list \<Rightarrow> list_error \<Rightarrow> verr" where
  "import_failure domain_name data (ItemErrors detail) = Invalid (import_errors domain_name data detail)"
| "import_failure domain_name data (ListCrash m) = Crash m"
| "import_failure domain_name data ListDenied = Denied"
| "import_failure domain_name data (NotAList m) = Invalid [(nfe, m)]"
| "import_failure domain_name data EmptyList = Invalid [(nfe, ''This list may not be empty.'')]"
| "import_failure domain_name data SkipField = Crash ''SkipField''"

definition import_endpoint :: "request \<Rightarrow> ctx \<Rightarrow> zone \<Rightarrow> endpoint" where
  "import_endpoint r X z =
     \<lparr>e_ctx = X, e_policies = policies (r_auth r), e_method = Some ''POST'', e_many = True, e_url_subname = None,
      e_zone = z\<rparr>"

definition import_zone ::
  "parser \<Rightarrow> settings \<Rightarrow> (string set \<Rightarrow> string list) \<Rightarrow> request \<Rightarrow> ctx \<Rightarrow> import_rrset list \<Rightarrow> tracked \<Rightarrow> block" where
  "import_zone parse cf so r X rs S =
     (let z = zone_rows (fst S) (x_domain X);
          data = import_data cf (x_minimum_ttl X) rs in
      case to_internal_value (run_validation parse cf (import_endpoint r X z)) z False True False {}
             (PyList (map import_item data)) of
        Inl e \<Rightarrow> Inl (Rejected (import_failure (x_domain X) data e))
      | Inr vs \<Rightarrow> list_create X so vs S)"

section \<open>The serializer\<close>

text \<open>The environment of the view: what a view for RRsets has, the public suffix list and the table of
  local public suffixes, the parser of zone files, the treatment of DNSKEY records, and the id the
  database gives to a new policy.\<close>

record 'w domain_env = "'w view_env" +
  w_psl :: psl
  w_lps :: "string list"
  w_from_text :: zone_parser
  w_is_sep :: "string \<Rightarrow> bool"
  w_make_ds :: "string \<Rightarrow> string list"
  w_new_policy_id :: nat

definition verror_message :: "verror \<Rightarrow> string" where
  "verror_message e = (case e of VError m \<Rightarrow> m)"

text \<open>The field \<open>name\<close>: the validators of the model (by their error codes) and the ones the framework
  adds for a unique field of limited length, then \<open>validate_name\<close>.\<close>

definition name_errors :: "domain list \<Rightarrow> string \<Rightarrow> string list" where
  "name_errors ds name =
     map verror_message (run_validators validate_domain_name name) @
     (if \<exists>d \<in> set ds. m_name d = name then [''domain with this name already exists.''] else []) @
     (if 191 < length name then [''Ensure this field has no more than 191 characters.''] else [])"

definition validate_name :: "psl \<Rightarrow> string list \<Rightarrow> domain list \<Rightarrow> nat \<Rightarrow> string \<Rightarrow> (verr, unit) result" where
  "validate_name psl lps ds owner name =
     (let errs = name_errors ds name in
      if errs \<noteq> [] then Inl (Invalid (map (\<lambda>m. (''name'', m)) errs))
      else case is_registrable psl lps ds owner name of
             Inl _ \<Rightarrow> Inl (Crash ''AssertionError'')
           | Inr False \<Rightarrow>
               Inl (Invalid [(''name'', ''This domain name conflicts with an existing domain, or is disallowed by policy.'')])
           | Inr True \<Rightarrow> Inr ())"

text \<open>\<open>is_valid\<close>: the result is the parsed zone file, empty if none was given.\<close>

definition validate_domain ::
  "('w, 'z) domain_env_scheme \<Rightarrow> nat \<Rightarrow> string \<Rightarrow> string option \<Rightarrow> (verr, import_rrset list) result" where
  "validate_domain W owner name zonefile =
     rbind (validate_name (w_psl W) (w_lps W) (w_domains W) owner name) (\<lambda>_.
       case zonefile of None \<Rightarrow> Inr [] | Some f \<Rightarrow> parse_zonefile (w_from_text W) name f)"

section \<open>Tracked blocks that talk to the outside and return a value\<close>

type_synonym ('w, 'e, 'a) net_block = "tracked \<Rightarrow> 'w \<Rightarrow> ('e, tracked \<times> 'a) result \<times> 'w"

definition in_tracker ::
  "('w, 'z) view_env_scheme \<Rightarrow> ('w, 'e, 'a) net_block \<Rightarrow> ('w sys, 'e + terror, 'a) io" where
  "in_tracker W f s =
     (case tracker_enter s of
        (Inl e, s1) \<Rightarrow> (Inl (Inr e), s1)
      | (Inr (t0, db0), s1) \<Rightarrow>
          (case f (api_db s1, t0) (net s1) of
             (Inl e, w) \<Rightarrow>
               (case tracker_exit (w_env W) (w_order W) (w_url W) (w_now W) True db0 t0 (s1\<lparr>net := w\<rparr>) of
                  (_, s2) \<Rightarrow> (Inl (Inl e), s2))
           | (Inr ((D, t), x), w) \<Rightarrow>
               (case tracker_exit (w_env W) (w_order W) (w_url W) (w_now W) False db0 t (s1\<lparr>api_db := D, net := w\<rparr>) of
                  (Inl e, s2) \<Rightarrow> (Inl (Inr e), s2)
                | (Inr _, s2) \<Rightarrow> (Inr x, s2))))"

section \<open>Creation and delegation\<close>

datatype domain_view_error =
  DvForbidden
| DvInvalid verr
| DvSuspended
| DvCreate create_error
| DvDelegation delegation_error
| DvTracker terror

definition create_block ::
  "('w, 'z) domain_env_scheme \<Rightarrow> request \<Rightarrow> domain \<Rightarrow> import_rrset list \<Rightarrow> ('w, create_error, token) net_block" where
  "create_block W r d rs S w =
     (create_in_block (w_new_policy_id W) (m_name d)
        (import_zone (w_parse W) (conf (w_env W)) (w_so W) r (w_ctx W d) rs) (r_auth r) S, w)"

text \<open>The keys PowerDNS has for a zone and the DNSKEY records of its apex.\<close>

definition managed_key :: "pyval \<Rightarrow> (pdns_error, string \<times> string list) result" where
  "managed_key v =
     rbind (rbind (py_get v ''dnskey'') py_str) (\<lambda>k.
     rbind (rbind (py_get v ''ds'') py_items) (\<lambda>ds.
     rbind (rmap py_str ds) (\<lambda>ds'. Inr (k, ds'))))"

definition child_keys ::
  "('w, 'z) domain_env_scheme \<Rightarrow> string \<Rightarrow> db \<Rightarrow> ('w, delegation_error, key list) io" where
  "child_keys W name D w =
     (case io_bind (get_keys (w_env W) name) (\<lambda>ks. io_lift (rmap managed_key ks)) w of
        (Inl e, w') \<Rightarrow> (Inl (DelegationDb (PdnsError e)), w')
      | (Inr ks, w') \<Rightarrow> (Inr (domain_keys (w_is_sep W) (w_make_ds W) ks (zone_rows D name)), w'))"

text \<open>\<open>auto_delegate\<close> inside its tracker; the keys are requested only if there is a parent.\<close>

definition delegation_block ::
  "('w, 'z) domain_env_scheme \<Rightarrow> string \<Rightarrow> ('w, delegation_error, unit) net_block" where
  "delegation_block W name S w =
     (let finish = (\<lambda>ks. case auto_delegate (conf (w_env W)) name ks S of Inl e \<Rightarrow> Inl e | Inr S' \<Rightarrow> Inr (S', ())) in
      if is_locally_registrable (local_public_suffixes (conf (w_env W))) name \<and>
         (case parent_domain_name name of None \<Rightarrow> False | Some p \<Rightarrow> zones (fst S) p \<noteq> None)
      then (case child_keys W name (fst S) w of
              (Inl e, w') \<Rightarrow> (Inl e, w')
            | (Inr ks, w') \<Rightarrow> (finish (Some ks), w'))
      else (finish None, w))"

text \<open>\<open>request.user\<close>; only for authenticated requests\<close>

definition requesting_user :: "request \<Rightarrow> nat" where
  "requesting_user r = (case r_user r of None \<Rightarrow> 0 | Some u \<Rightarrow> u_id u)"

text \<open>\<open>POST\<close> of a domain; the token is returned with its new policy, if it got one.\<close>

definition domain_create ::
  "('w, 'z) domain_env_scheme \<Rightarrow> request \<Rightarrow> string \<Rightarrow> string option \<Rightarrow> ('w sys, domain_view_error, token) io" where
  "domain_create W r name zonefile s =
     (if \<not> domain_view_allowed r DomainCreate None then (Inl DvForbidden, s)
      else case validate_domain W (requesting_user r) name zonefile of
             Inl e \<Rightarrow> (Inl (DvInvalid e), s)
           | Inr rs \<Rightarrow>
               if registration_suspended (conf (w_env W)) name then (Inl DvSuspended, s)
               else
                 (case in_tracker W (create_block W r \<lparr>m_name = name, m_owner = requesting_user r\<rparr> rs) s of
                    (Inl (Inl e), s1) \<Rightarrow> (Inl (DvCreate e), s1)
                  | (Inl (Inr e), s1) \<Rightarrow> (Inl (DvTracker e), s1)
                  | (Inr t, s1) \<Rightarrow>
                      (case in_tracker W (delegation_block W name) s1 of
                         (Inl (Inl e), s2) \<Rightarrow> (Inl (DvDelegation e), s2)
                       | (Inl (Inr e), s2) \<Rightarrow> (Inl (DvTracker e), s2)
                       | (Inr _, s2) \<Rightarrow> (Inr t, s2))))"

section \<open>Deletion and export\<close>

text \<open>\<open>get_object\<close>: with \<open>owns_qname\<close> the queryset is a slice, which cannot be filtered by name, and the
  object counts as not found.\<close>

definition domain_object ::
  "request \<Rightarrow> domain list \<Rightarrow> string option \<Rightarrow> string \<Rightarrow> domain option" where
  "domain_object r ds owns_qname name =
     (if owns_qname \<noteq> None then None else find (\<lambda>d. m_name d = name) (domain_queryset r ds owns_qname))"

definition destroy_block :: "string \<Rightarrow> ('w, delegation_error, unit) net_block" where
  "destroy_block name S w =
     (case perform_destroy_delete name S of Inl e \<Rightarrow> (Inl (DelegationDb e), w) | Inr S' \<Rightarrow> (Inr (S', ()), w))"

definition undelegate_block :: "settings \<Rightarrow> string \<Rightarrow> ('w, delegation_error, unit) net_block" where
  "undelegate_block cf name S w =
     (case perform_destroy_delegation cf name S of Inl e \<Rightarrow> (Inl e, w) | Inr S' \<Rightarrow> (Inr (S', ()), w))"

text \<open>\<open>DELETE\<close> of a domain: one that is not there counts as deleted. The parent is looked up between
  the two tracked blocks. The policies for the domain go with it by a cascade in the table of tokens,
  which is not part of this state.\<close>

definition domain_destroy ::
  "('w, 'z) domain_env_scheme \<Rightarrow> request \<Rightarrow> string option \<Rightarrow> string \<Rightarrow> ('w sys, domain_view_error, unit) io" where
  "domain_destroy W r owns_qname name s =
     (if \<not> domain_view_allowed r DomainDestroy None then (Inl DvForbidden, s)
      else case domain_object r (w_domains W) owns_qname name of
             None \<Rightarrow> (Inr (), s)
           | Some d \<Rightarrow>
               if \<not> domain_view_allowed r DomainDestroy (Some d) then (Inl DvForbidden, s)
               else
                 (case in_tracker W (destroy_block name) s of
                    (Inl (Inl e), s1) \<Rightarrow> (Inl (DvDelegation e), s1)
                  | (Inl (Inr e), s1) \<Rightarrow> (Inl (DvTracker e), s1)
                  | (Inr _, s1) \<Rightarrow>
                      if \<not> is_locally_registrable (local_public_suffixes (conf (w_env W))) name then (Inr (), s1)
                      else
                        (case parent_domain_name name of
                           None \<Rightarrow> (Inl (DvDelegation (DelegationDb DoesNotExist)), s1)
                         | Some p \<Rightarrow>
                             if zones (api_db s1) p = None then (Inl (DvDelegation (DelegationDb DoesNotExist)), s1)
                             else
                               (case in_tracker W (undelegate_block (conf (w_env W)) name) s1 of
                                  (Inl (Inl e), s2) \<Rightarrow> (Inl (DvDelegation e), s2)
                                | (Inl (Inr e), s2) \<Rightarrow> (Inl (DvTracker e), s2)
                                | (Inr _, s2) \<Rightarrow> (Inr (), s2)))))"

text \<open>Export: the zone file of PowerDNS below a comment; \<open>now\<close> is the printed time.\<close>

definition zonefile_prefix :: "string \<Rightarrow> string \<Rightarrow> string \<Rightarrow> string" where
  "zonefile_prefix desecstack_domain name now =
     ''; Zonefile for '' @ name @ '' exported from desec.'' @ desecstack_domain @ '' at '' @ now @ [newline]"

definition domain_zonefile ::
  "('w, 'z) domain_env_scheme \<Rightarrow> request \<Rightarrow> string option \<Rightarrow> string \<Rightarrow> string \<Rightarrow> string \<Rightarrow>
   ('w sys, domain_view_error, string option) io" where
  "domain_zonefile W r owns_qname desecstack_domain now name s =
     (if \<not> domain_view_allowed r DomainSafe None then (Inl DvForbidden, s)
      else case domain_object r (w_domains W) owns_qname name of
             None \<Rightarrow> (Inr None, s)
           | Some d \<Rightarrow>
               if \<not> domain_view_allowed r DomainSafe (Some d) then (Inl DvForbidden, s)
               else
                 (case on_net (get_zonefile (w_env W) name) s of
                    (Inl e, s1) \<Rightarrow> (Inl (DvTracker e), s1)
                  | (Inr c, s1) \<Rightarrow> (Inr (Some (zonefile_prefix desecstack_domain name now @ c)), s1)))"

end
