(* ===== verification/DomainViewsCorrect.thy ===== *)
theory DomainViewsCorrect
  imports DomainViews RRsetViewsCorrect DomainsCorrect
begin

text \<open>
  Creating a domain from a zone file: what the new zone holds, that a failure leaves nothing behind,
  and when a restricted token cannot import at all.
\<close>

declare split_paired_All [simp del] split_paired_Ex [simp del]

section \<open>Lists that are created\<close>

lemma run_validation_named:
  assumes "parse (e_many V) partial inst item \<noteq> Inl (Invalid [])"
  shows "run_validation parse cf V partial inst item \<noteq> Inl (Invalid [])"
proof -
  have c: "canonical_presentation_format C r ty \<noteq> Inl (RecValidationError [])" for C r ty
    by (cases "to_wire C ty r False"; cases "text_of C ty (snd (projr (to_wire C ty r False)))")
      (auto simp: canonical_presentation_format_def split: dns_exc.splits if_splits sum.splits prod.splits
        elim!: wrap_exc.elims)
  have m: "rmap (\<lambda>r. canonical_presentation_format C r ty) rs \<noteq> Inl (RecValidationError [])" for C rs ty
    by (induction rs) (auto simp: rbind_Inl_iff c)
  have "validate_canonical_presentation X rs ty \<noteq> Inl (Invalid [])" for X rs ty
    using m by (auto simp: validate_canonical_presentation_def invalid_def split: sum.splits rec_error.splits)
  moreover have "validate_ci_uniqueness X rs ty \<noteq> Inl (Invalid [])" for X rs ty
    by (auto simp: validate_ci_uniqueness_def invalid_def split: sum.splits)
  moreover have "validate_length X s rs \<noteq> Inl (Invalid [])" for X s rs
    by (auto simp: validate_length_def Let_def invalid_def)
  moreover have blocked: "rfold (\<lambda>r _. if b r then invalid (msg r) else Inr ()) rs () \<noteq> Inl (Invalid [])"
    for b and msg :: "string \<Rightarrow> string" and rs :: "string list"
    by (induction rs) (auto simp: invalid_def)
  then have "validate_blocked_content X rs ty \<noteq> Inl (Invalid [])" for X rs ty
    unfolding validate_blocked_content_def by (cases "ty = ''A'' \<and> x_registrable X") (simp_all only: if_True if_False simp_thms, simp)
  moreover have "validate_ns X inst a ty \<noteq> Inl (Invalid [])" for X a ty
    by (auto simp: validate_ns_def Let_def split: option.splits)
  ultimately have "validate X inst a \<noteq> Inl (Invalid [])" for X a
    by (auto simp: validate_def rbind_Inl_iff split: option.splits if_splits)
  then show ?thesis
    using assms
    by (auto simp: run_validation_def rbind_Inl_iff permission_validator_def Let_def invalid_def errors_of_def
        split: option.splits list.splits if_splits sum.splits)
qed

lemma collect_items_exact:
  "collect_items rs = Inr is \<Longrightarrow> (\<forall>i \<in> set is. item_errors i = []) \<Longrightarrow> Inl (Invalid []) \<notin> set rs \<Longrightarrow>
   rs = map Inr (item_values is)"
  by (induction rs arbitrary: "is" rule: collect_items.induct)
    (auto simp: result_simps item_values_def item_errors_def)

lemma to_internal_value_creates:
  assumes "to_internal_value rv z False ae hp {} (PyList items) = Inr vs"
    and "\<And>item. item \<in> set items \<Longrightarrow> rv False None item \<noteq> Inl (Invalid [])"
  shows "list_all2 (\<lambda>item v. rv False None item = Inr v) items vs"
proof -
  let ?v = "\<lambda>(i, item). validate_item rv False {} (indices z items) (collapsed_indices z items) i item"
  from assms(1) obtain "is" where good: "collect_items (map ?v (enumerate 0 items)) = Inr is"
    "\<forall>i \<in> set is. item_errors i = []" "vs = item_values is"
    by (auto simp: to_internal_value_def Let_def result_simps split: if_splits)
  have v: "?v (i, item) \<noteq> Inl (Invalid [])" if "item \<in> set items" for i item
    using assms(2) [OF that] item_key_error check_item_error
    by (auto simp: validate_item_def rbind_Inl_iff known_key_def Let_def split: sum.splits option.splits)
  have "Inl (Invalid []) \<notin> set (map ?v (enumerate 0 items))"
    using v by (force dest: set_zip_rightD simp: enumerate_eq_zip)
  from collect_items_exact [OF good(1,2) this] have m: "map ?v (enumerate 0 items) = map Inr vs" using good(3) by simp
  have l: "length items = length vs" using arg_cong [OF m, of length] by simp
  moreover have "rv False None (items ! i) = Inr (vs ! i)" if "i < length items" for i
  proof -
    have "?v (i, items ! i) = Inr (vs ! i)"
      using arg_cong [OF m, of "\<lambda>xs. xs ! i"] that l by (simp add: nth_enumerate_eq)
    then show ?thesis
      by (auto simp: validate_item_def rbind_Inr_iff known_key_def Let_def split: sum.splits option.splits)
  qed
  ultimately show ?thesis by (simp add: list_all2_conv_all_nth)
qed

text \<open>What a created item leaves.\<close>

definition created :: "ctx \<Rightarrow> vitem \<Rightarrow> rrset option \<Rightarrow> bool" where
  "created X v new \<longleftrightarrow>
     (\<exists>r rs. new = Some r \<and> v_ttl v = Some (ttl r) \<and> v_records v = Some rs \<and>
        clean_records (x_codec X) (x_domain X) (vkey v) rs = Inr (set (records r)))"

lemma rrset_create_created:
  assumes c: "rrset_create X so v S = Inr S'" and so: "lawful_list so"
  shows "lookup_rrset (fst S) (x_domain X) (vkey v) = None \<and> zones (fst S') (x_domain X) \<noteq> None \<and>
    created X v (lookup_rrset (fst S') (x_domain X) (vkey v))"
proof -
  let ?d = "x_domain X" and ?k = "vkey v"
  obtain D t where S: "S = (D, t)" by (cases S)
  from c obtain rs n where v: "v_records v = Some rs" "v_ttl v = Some n"
    by (auto simp: rrset_create_def split: option.split_asm)
  with c obtain S1 where s1: "db_step (OpRRsetCreate ?d ?k n) (D, t) = Inr S1"
    and s2: "set_all_record_contents X so ?k rs S1 = Inr S'"
    by (auto simp: S rrset_create_def rbind_Inr_iff in_db_Inr simp del: db_step.simps split: if_split_asm)
  from s1 obtain z t1 where z: "zones D ?d = Some z" "?k \<notin> keys z"
    and S1: "S1 = (put_rrset ?d ?k \<lparr>ttl = n, records = []\<rparr> D, t1)"
    by (auto simp: rbind_Inr_iff zone_of_def split: option.split_asm)
  have none: "lookup_rrset D ?d ?k = None" using z by (simp add: lookup_Some keys_map_of)
  have old: "lookup_rrset (fst S1) ?d ?k = Some \<lparr>ttl = n, records = []\<rparr>"
    using z by (simp add: S1 lookup_put)
  from s2 obtain new where new: "clean_records (x_codec X) ?d ?k rs = Inr new"
    and sr: "save_records (x_codec X) so ?d ?k rs S1 = Inr S'"
    by (auto simp: set_all_record_contents_def save_records_def split: sum.split_asm block_error.split_asm rec_error.split_asm)
  have fin: "set (so new) = new" using so clean_records_finite [OF new] by (auto simp: lawful_list_def)
  let ?r = "\<lparr>ttl = n, records = []\<rparr>"
  let ?D1 = "put_rrset ?d ?k ?r D"
  have zd: "zones (put_rrset ?d ?k q E) ?d \<noteq> None \<longleftrightarrow> zones E ?d \<noteq> None" for q E
    by (cases "zones E ?d") (simp_all add: put_rrset_def)
  have "rrset_of ?D1 ?d ?k = Inr ?r" using old by (simp add: S1 rrset_of_lookup)
  with sr new obtain S2 where d: "db_step (OpRRDelete ?d ?k []) (?D1, t1) = Inr S2"
    and b: "rbind (db_run (rrset_of (fst S2) ?d ?k))
        (\<lambda>q. db_run (db_step (OpRRBulkCreate ?d ?k (so (new - set (records q)))) S2)) = Inr S'"
    by (auto simp: S1 save_records_def db_run_def rbind_Inr_iff simp del: db_step.simps split: sum.split_asm)
  from d \<open>rrset_of ?D1 ?d ?k = Inr ?r\<close> obtain t2 where S2: "S2 = (put_rrset ?d ?k ?r ?D1, t2)"
    by (auto simp: rbind_Inr_iff)
  have "rrset_of (fst S2) ?d ?k = Inr ?r"
    using z zd by (simp add: S2 rrset_of_lookup lookup_put)
  with b obtain t3 where "S' = (put_rrset ?d ?k (?r\<lparr>records := so new\<rparr>) (fst S2), t3)"
    by (auto simp: S2 db_run_def rbind_Inr_iff split: sum.split_asm)
  then have "lookup_rrset (fst S') ?d ?k = Some \<lparr>ttl = n, records = so new\<rparr> \<and> zones (fst S') ?d \<noteq> None"
    using z zd by (simp add: S2 lookup_put)
  then show ?thesis using none v new fin by (simp add: S created_def)
qed

lemma list_create_created:
  assumes "list_create X so vs S = Inr S'" and so: "lawful_list so"
  shows "distinct (map vkey vs) \<and>
    (\<forall>v \<in> set vs. lookup_rrset (fst S) (x_domain X) (vkey v) = None \<and>
       created X v (lookup_rrset (fst S') (x_domain X) (vkey v)))"
  using assms(1) unfolding list_create_def
proof (induction vs arbitrary: S)
  case (Cons v vs)
  let ?L = "\<lambda>S. lookup_rrset (fst S) (x_domain X)"
  from Cons.prems obtain S1 where s1: "rrset_create X so v S = Inr S1" and s2: "rfold (rrset_create X so) vs S1 = Inr S'"
    by (auto simp: result_simps)
  note c = rrset_create_created [OF s1 so] and IH = Cons.IH [OF s2]
  have t1: "k \<noteq> vkey v \<Longrightarrow> ?L S1 k = ?L S k" for k
    using create_touches [OF s1] by (auto simp: touches_def)
  have t2: "k \<notin> vkey ` set vs \<Longrightarrow> ?L S' k = ?L S1 k" for k
    using list_create_touches [of X so vs S1 S'] s2 by (auto simp: list_create_def touches_def)
  have fresh: "vkey v \<notin> vkey ` set vs" using IH c by (auto simp: created_def)
  have "?L S (vkey w) = None \<and> created X w (?L S' (vkey w))" if "w \<in> set vs" for w
  proof -
    from fresh that have "vkey w \<noteq> vkey v" by (metis imageI)
    with t1 [OF this] IH that show ?thesis by auto
  qed
  with c fresh t2 [OF fresh] IH show ?case by auto
qed simp

section \<open>The RRsets of a zone file\<close>

definition attrs_of :: "import_rrset \<Rightarrow> attrs" where
  "attrs_of r = \<lparr>a_subname = Some (i_subname r), a_type = Some (i_type r), a_ttl = Some (i_ttl r), a_records = Some (i_records r)\<rparr>"

text \<open>The framework reads an item of the import as what it says, or reports errors.\<close>

definition faithful_parser :: "parser \<Rightarrow> bool" where
  "faithful_parser parse \<longleftrightarrow>
     (\<forall>r. parse True False None (import_item r) = Inr (attrs_of r) \<or>
        (\<exists>es. es \<noteq> [] \<and> parse True False None (import_item r) = Inl (Invalid es)))"

abbreviation import_key :: "import_rrset \<Rightarrow> rrkey" where
  "import_key r \<equiv> (i_type r, i_subname r)"

definition imported :: "ctx \<Rightarrow> import_rrset \<Rightarrow> rrset option \<Rightarrow> bool" where
  "imported X r new \<longleftrightarrow>
     (\<exists>q cs. new = Some q \<and> ttl q = i_ttl r \<and>
        rmap (\<lambda>c. canonical_presentation_format (x_codec X) c (i_type r)) (i_records r) = Inr cs \<and>
        clean_records (x_codec X) (x_domain X) (import_key r) cs = Inr (set (records q)))"

lemma imported_item:
  assumes rv: "run_validation parse cf V False None (import_item r) = Inr v" and parse: "faithful_parser parse" and "e_many V"
  shows "vkey v = import_key r \<and> v_ttl v = Some (i_ttl r) \<and>
    (\<exists>cs. v_records v = Some cs \<and>
       rmap (\<lambda>c. canonical_presentation_format (x_codec (e_ctx V)) c (i_type r)) (i_records r) = Inr cs)"
proof -
  from rv parse \<open>e_many V\<close> have p: "parse (e_many V) False None (import_item r) = Inr (attrs_of r)"
    by (auto simp: faithful_parser_def run_validation_def)
  with rv obtain a' where val: "validate (e_ctx V) None (attrs_of r) = Inr a'"
    and v: "vkey v = import_key r" "v_ttl v = a_ttl a'" "v_records v = a_records a'"
    by (auto simp: run_validation_def rbind_Inr_iff Let_def vkey_def attr_key_def attrs_of_def split: if_split_asm)
  from val have "\<exists>cs. a' = (attrs_of r)\<lparr>a_records := Some cs\<rparr> \<and>
      rmap (\<lambda>c. canonical_presentation_format (x_codec (e_ctx V)) c (i_type r)) (i_records r) = Inr cs"
    by (auto simp: validate_def rbind_Inr_iff attrs_of_def validate_canonical_presentation_def invalid_def
        split: if_split_asm sum.split_asm rec_error.split_asm)
  with v show ?thesis by (auto simp: attrs_of_def)
qed

lemma import_named:
  assumes parse: "faithful_parser parse" and V: "e_many V" and item: "item \<in> set (map import_item data)"
  shows "run_validation parse cf V False None item \<noteq> Inl (Invalid [])"
proof (rule run_validation_named)
  from item obtain q where "item = import_item q" by auto
  with parse V show "parse (e_many V) False None item \<noteq> Inl (Invalid [])"
    unfolding faithful_parser_def by (metis Inl_Inr_False old.sum.inject(1) verr.inject(1))
qed

lemma import_zone_effect:
  assumes imp: "import_zone parse cf so r X rs S = Inr S'" and parse: "faithful_parser parse" and so: "lawful_list so"
  shows "distinct (map import_key (import_data cf (x_minimum_ttl X) rs)) \<and>
    (\<forall>k. case find (\<lambda>q. import_key q = k) (import_data cf (x_minimum_ttl X) rs) of
        None \<Rightarrow> lookup_rrset (fst S') (x_domain X) k = lookup_rrset (fst S) (x_domain X) k
      | Some q \<Rightarrow> imported X q (lookup_rrset (fst S') (x_domain X) k))"
proof -
  let ?data = "import_data cf (x_minimum_ttl X) rs" and ?d = "x_domain X"
  define V where "V = import_endpoint r X (zone_rows (fst S) ?d)"
  have V: "e_many V" "e_ctx V = X" by (simp_all add: V_def import_endpoint_def)
  from imp obtain vs where tiv: "to_internal_value (run_validation parse cf V) (zone_rows (fst S) ?d) False True False {}
      (PyList (map import_item ?data)) = Inr vs"
    and lc: "list_create X so vs S = Inr S'"
    by (auto simp: import_zone_def Let_def V_def split: sum.split_asm)
  have v: "list_all2 (\<lambda>q v. run_validation parse cf V False None (import_item q) = Inr v) ?data vs"
    using to_internal_value_creates [OF tiv import_named [where V = V, OF parse V(1)]] by (simp add: list_all2_map1)
  have both: "list_all2 (\<lambda>q v. vkey v = import_key q \<and> v_ttl v = Some (i_ttl q) \<and> (\<exists>cs. v_records v = Some cs \<and>
       rmap (\<lambda>c. canonical_presentation_format (x_codec X) c (i_type q)) (i_records q) = Inr cs)) ?data vs"
    by (rule list_all2_mono [OF v]) (use imported_item [OF _ parse V(1)] V(2) in auto)
  then have keys: "map vkey vs = map import_key ?data" by (induction rule: list_all2_induct) auto
  note c = list_create_created [OF lc so]
  have dist: "distinct (map import_key ?data)" using c keys by simp
  have "case find (\<lambda>q. import_key q = k) ?data of
        None \<Rightarrow> lookup_rrset (fst S') ?d k = lookup_rrset (fst S) ?d k
      | Some q \<Rightarrow> imported X q (lookup_rrset (fst S') ?d k)" for k
  proof (cases "find (\<lambda>q. import_key q = k) ?data")
    case None
    then have "k \<notin> set (map import_key ?data)" by (auto simp: find_None_iff)
    then have "k \<notin> vkey ` set vs" using keys by (metis set_map)
    with None list_create_touches [OF lc] show ?thesis by (auto simp: touches_def)
  next
    case (Some q)
    then have q: "q \<in> set ?data" "import_key q = k" by (auto simp: find_Some_iff)
    then obtain i where i: "i < length ?data" "?data ! i = q" by (auto simp: in_set_conv_nth)
    with both have iv: "i < length vs" "vs ! i \<in> set vs" and
      it: "vkey (vs ! i) = k" "v_ttl (vs ! i) = Some (i_ttl q)"
        "\<exists>cs. v_records (vs ! i) = Some cs \<and>
           rmap (\<lambda>c. canonical_presentation_format (x_codec X) c (i_type q)) (i_records q) = Inr cs"
      using q(2) by (auto simp: list_all2_conv_all_nth)
    from c iv(2) it(1) have "created X (vs ! i) (lookup_rrset (fst S') ?d k)" by blast
    with Some it q(2) show ?thesis by (auto simp: created_def imported_def)
  qed
  with dist show ?thesis by blast
qed

section \<open>The end of the tracked blocks\<close>

definition is_create :: "change \<Rightarrow> bool" where
  "is_create c \<longleftrightarrow> (\<exists>d. c = CreateDomain d)"

definition default_zone :: "settings \<Rightarrow> string \<Rightarrow> (string \<rightharpoonup> zone) \<Rightarrow> string \<rightharpoonup> zone" where
  "default_zone cf d Z = Z(d \<mapsto> AList.update (''NS'', []) \<lparr>ttl = default_ns_ttl cf, records = default_ns cf\<rparr> (the (Z d)))"

lemma do_change_zones:
  assumes "do_change E R url c s = (Inr u, s')"
  shows "zones (api_db s') =
    (if is_create c then default_zone (conf E) (change_domain c) (zones (api_db s)) else zones (api_db s))"
    and "is_create c \<Longrightarrow> zones (api_db s) (change_domain c) \<noteq> None"
proof -
  obtain r1 s1 where 1: "pdns_do E R c s = (r1, s1)" by (cases "pdns_do E R c s")
  obtain r2 s2 where 2: "api_do E c s1 = (r2, s2)" by (cases "api_do E c s1")
  obtain r3 s3 where 3: "(if pch_enabled (conf E) then pch_do E url c else io_return ()) s2 = (r3, s3)"
    by (cases "(if pch_enabled (conf E) then pch_do E url c else io_return ()) s2")
  have f3: "frame (if pch_enabled (conf E) then pch_do E url c else io_return ())"
    by (simp add: frame_pch_do frame_return)
  from assms have "s' = s3" and "\<exists>x. r2 = Inr x"
    unfolding do_change_def io_bind_def using 1 2 3 by (auto split: sum.splits)
  moreover have "zones (api_db s2) =
      (if is_create c then default_zone (conf E) (change_domain c) (zones (api_db s1)) else zones (api_db s1)) \<and>
      (is_create c \<longrightarrow> zones (api_db s1) (change_domain c) \<noteq> None)"
    using 2 \<open>\<exists>x. r2 = Inr x\<close>
    by (cases c) (auto simp: is_create_def default_zone_def put_rrset_def split: option.splits if_splits)
  ultimately show "zones (api_db s') =
      (if is_create c then default_zone (conf E) (change_domain c) (zones (api_db s)) else zones (api_db s))"
    and "is_create c \<Longrightarrow> zones (api_db s) (change_domain c) \<noteq> None"
    using frame_step [OF frame_pdns_do 1] frame_step [OF f3 3] by simp_all
qed

lemma do_changes_zones:
  "do_changes E R url db0 all cs s = (Inr u, s') \<Longrightarrow>
   zones (api_db s') = fold (default_zone (conf E)) (map change_domain (filter is_create cs)) (zones (api_db s)) \<and>
   (\<forall>c \<in> set cs. is_create c \<longrightarrow> zones (api_db s) (change_domain c) \<noteq> None)"
proof (induction cs arbitrary: s)
  case (Cons c cs)
  then obtain v where "do_change E R url c s = (Inr (), v)" and "do_changes E R url db0 all cs v = (Inr u, s')"
    by (auto split: prod.splits sum.splits)
  moreover from this(1) have "dom (zones (api_db v)) = dom (zones (api_db s))" by (simp add: do_change_effect)
  then have "zones (api_db v) d = None \<longleftrightarrow> zones (api_db s) d = None" for d by (metis domIff)
  ultimately show ?case using Cons.IH [of v] do_change_zones [of E R url c s "()" v] by auto
qed simp

lemma creates_of:
  assumes "compute_changes R D t = Inr cs" and R: "lawful_order R" and "finite (dom (rr_set_additions t))"
    and dels: "domain_deletions t = {}" and adds: "finite (domain_additions t)"
  shows "set (map change_domain (filter is_create cs)) = domain_additions t \<and>
    distinct (map change_domain (filter is_create cs))"
proof -
  let ?N = "dom (rr_set_additions t) \<union> domain_additions t"
  have od: "od R {} = []" using R by (auto simp: lawful_order_def)
  from assms(1) dels obtain css where css: "rmap (changes_of D t) (od R ?N) = Inr css" and cs: "cs = concat css"
    by (auto simp: compute_changes_def Let_def od rbind_Inr_iff)
  have one: "map change_domain (filter is_create c) = (if d \<in> domain_additions t then [d] else [])"
    if "changes_of D t d = Inr c" for d c
    using that by (auto simp: changes_of_def Let_def rbind_Inr_iff is_create_def split: if_split_asm)
  have "map change_domain (filter is_create (concat css)) = filter (\<lambda>d. d \<in> domain_additions t) ds"
    if "rmap (changes_of D t) ds = Inr css" for ds
    using that
  proof (induction ds arbitrary: css)
    case (Cons d ds)
    then obtain c cs' where "changes_of D t d = Inr c" "rmap (changes_of D t) ds = Inr cs'" "css = c # cs'"
      by (auto simp: rbind_Inr_iff)
    with Cons.IH one [of d c] show ?case by auto
  qed simp
  from this [OF css] cs have "map change_domain (filter is_create cs) = filter (\<lambda>d. d \<in> domain_additions t) (od R ?N)"
    by simp
  moreover have "set (od R ?N) = ?N \<and> distinct (od R ?N)" using R assms(3) adds by (simp add: lawful_order_def)
  ultimately show ?thesis by auto
qed

lemma tracker_exit_zones:
  assumes "tracker_exit E R url now False db0 t s = (Inr u, s')"
  obtains cs where "compute_changes R (api_db s) t = Inr cs"
    and "zones (api_db s') = fold (default_zone (conf E)) (map change_domain (filter is_create cs)) (zones (api_db s))"
    and "\<forall>c \<in> set cs. is_create c \<longrightarrow> zones (api_db s) (change_domain c) \<noteq> None"
proof -
  let ?s = "s\<lparr>active := active s - 1\<rparr>"
  obtain cs where cs: "compute_changes R (api_db s) t = Inr cs"
    using assms by (cases "compute_changes R (api_db s) t") (auto simp: tracker_exit_def Let_def)
  let ?names = "change_domain ` set (filter axfr_required cs)"
  obtain r v where run: "do_changes E R url db0 cs cs ?s = (r, v)"
    by (cases "do_changes E R url db0 cs cs ?s")
  obtain q v' where it: "io_iter (\<lambda>d. on_net (axfr_to_master E d)) (od R ?names) v = (q, v')"
    by (cases "io_iter (\<lambda>d. on_net (axfr_to_master E d)) (od R ?names) v")
  from assms cs run it have "\<exists>u. r = Inr u" and s': "s' = v'\<lparr>api_db := set_published ?names now (api_db v')\<rparr>"
    by (auto simp: tracker_exit_def Let_def io_bind_def split: sum.splits)
  then obtain w where r: "r = Inr w" by blast
  have "zones (api_db s') = zones (api_db v)" using s' axfr_frame [OF it] by (simp add: set_published_def)
  with do_changes_zones [OF run [unfolded r]] cs that show thesis by simp
qed

lemma in_tracker_Inr:
  assumes "in_tracker W f s = (Inr x, s')"
  obtains D t w u s1 where "f (api_db s, new_tracker) (net s) = (Inr ((D, t), x), w)" and "api_db s1 = D"
    and "tracker_exit (w_env W) (w_order W) (w_url W) (w_now W) False (api_db s) t s1 = (Inr u, s')"
proof -
  let ?s1 = "s\<lparr>active := active s + 1\<rparr>"
  have a: "active s = 0" using assms by (auto simp: in_tracker_def tracker_enter_def Let_def split: if_splits)
  obtain r w where f: "f (api_db s, new_tracker) (net s) = (r, w)" by (cases "f (api_db s, new_tracker) (net s)")
  with assms a obtain D t y where r: "r = Inr ((D, t), y)"
    by (cases r) (auto simp: in_tracker_def tracker_enter_def Let_def split: prod.splits)
  let ?s2 = "?s1\<lparr>api_db := D, net := w\<rparr>"
  obtain q v where e: "tracker_exit (w_env W) (w_order W) (w_url W) (w_now W) False (api_db s) t ?s2 = (q, v)"
    by (cases "tracker_exit (w_env W) (w_order W) (w_url W) (w_now W) False (api_db s) t ?s2")
  with assms a f r obtain u where "q = Inr u" "y = x" "v = s'"
    by (cases q) (auto simp: in_tracker_def tracker_enter_def Let_def)
  with f r e show thesis by (intro that [of D t w ?s2 u]) simp_all
qed

lemma in_tracker_Inl_block:
  assumes "in_tracker W f s = (Inl (Inl e), s')" and "\<And>S w r w'. f S w = (r, w') \<Longrightarrow> w' = w"
  shows "s' = s"
proof -
  from assms(1) obtain w where f: "f (api_db s, new_tracker) (net s) = (Inl e, w)"
    and x: "snd (tracker_exit (w_env W) (w_order W) (w_url W) (w_now W) True (api_db s) new_tracker
      (s\<lparr>active := 1, net := w\<rparr>)) = s'" and a: "active s = 0"
    by (auto simp: in_tracker_def tracker_enter_def Let_def split: prod.splits sum.splits if_splits)
  from x assms(2) [OF f] have "s\<lparr>active := 0\<rparr> = s'" by (simp add: tracker_exit_def Let_def)
  then show ?thesis using a by (cases s) auto
qed

lemma exit_creates:
  assumes exit: "tracker_exit E R url now False db0 t s = (Inr u, s')" and R: "lawful_order R"
    and t: "finite (dom (rr_set_additions t))" "domain_deletions t = {}"
  shows "domain_additions t = {} \<Longrightarrow> zones (api_db s') = zones (api_db s)"
    and "domain_additions t = {d} \<Longrightarrow> zones (api_db s') = default_zone (conf E) d (zones (api_db s)) \<and>
      zones (api_db s) d \<noteq> None"
proof -
  from tracker_exit_zones [OF exit] obtain cs where cs: "compute_changes R (api_db s) t = Inr cs"
    and z: "zones (api_db s') = fold (default_zone (conf E)) (map change_domain (filter is_create cs)) (zones (api_db s))"
    and ex: "\<forall>c \<in> set cs. is_create c \<longrightarrow> zones (api_db s) (change_domain c) \<noteq> None" .
  let ?ns = "map change_domain (filter is_create cs)"
  have c: "set ?ns = domain_additions t" "distinct ?ns" if "finite (domain_additions t)"
    using creates_of [OF cs R t that] by auto
  show "zones (api_db s') = zones (api_db s)" if "domain_additions t = {}"
    using c(1) that z by simp
  show "zones (api_db s') = default_zone (conf E) d (zones (api_db s)) \<and> zones (api_db s) d \<noteq> None"
    if "domain_additions t = {d}"
  proof -
    have "set ?ns = {d}" "distinct ?ns" using c that by auto
    then have "?ns = [d]" by (cases ?ns; cases "tl ?ns") auto
    moreover have "d \<in> set ?ns" unfolding calculation by simp
    then obtain c where "c \<in> set cs" "is_create c" "change_domain c = d" by auto
    ultimately show ?thesis using z ex by auto
  qed
qed

section \<open>The view\<close>

lemma delegation_touches:
  assumes "auto_delegate cf name ks S = Inr S'"
  shows "S' = S \<or> (\<exists>p K. parent_domain_name name = Some p \<and> touches p K S S')"
proof (cases "is_locally_registrable (local_public_suffixes cf) name")
  case True
  with assms obtain p where p: "parent_domain_name name = Some p" and u: "update_delegation cf p name ks S = Inr S'"
    by (auto simp: auto_delegate_def split: option.splits sum.splits)
  have one: "db_step op S1 = Inr S2 \<Longrightarrow> rr_target op = Some (p, k) \<Longrightarrow> touches p UNIV S1 S2" for op S1 S2 k
    using db_step_touches touches_mono by blast
  have del: "touches p UNIV S1 S2" if "rfold (\<lambda>k. db_step (OpRRsetDelete p k)) js S1 = Inr S2" for js S1 S2
    by (rule rfold_touches [OF that]) (rule one [where op = "OpRRsetDelete p k" for k], simp_all)
  have mk: "touches p UNIV S1 S2" if c: "create_with_contents p k n cs S1 = Inr S2" for k n cs S1 S2
  proof -
    from c obtain S3 where 1: "db_step (OpRRsetCreate p k n) S1 = Inr S3"
      and 2: "rfold (\<lambda>c. db_step (OpRRCreate p k c)) cs S3 = Inr S2"
      by (auto simp: create_with_contents_def rbind_Inr_iff simp del: db_step.simps)
    have "touches p UNIV S3 S2" by (rule rfold_touches [OF 2])
      (rule one [where op = "OpRRCreate p k c" for c], simp_all)
    with one [OF 1] show ?thesis by (auto intro: touches_trans)
  qed
  have "touches p UNIV S S'"
    using u by (auto simp: update_delegation_def Let_def rbind_Inr_iff simp del: db_step.simps
        split: prod.splits if_splits sum.splits option.splits intro: del)
      (blast intro: del mk touches_trans)
  with p show ?thesis by blast
qed (use assms in \<open>auto simp: auto_delegate_def\<close>)

lemma parent_shorter: "parent_domain_name name = Some p \<Longrightarrow> p \<noteq> name"
  by (auto dest: parent_domain_name_concat)

lemma created_zone:
  assumes c: "create_in_block i name imp t (D0, new_tracker) = Inr (S', t')"
    and imp: "\<And>S S'. imp S = Inr S' \<Longrightarrow> touches name K S S'"
  shows "domain_additions (snd S') = {name} \<and> domain_deletions (snd S') = {} \<and>
    finite (dom (rr_set_additions (snd S'))) \<and> zones D0 name = None \<and>
    (\<exists>S1. imp S1 = Inr S' \<and> zones (fst S1) = (zones D0)(name \<mapsto> []))"
proof -
  from c obtain S1 where 1: "db_step (OpDomainCreate name) (D0, new_tracker) = Inr S1" and 2: "imp S1 = Inr S'"
    by (auto simp: create_in_block_def rbind_Inr_iff in_db_def simp del: db_step.simps token_step.simps
        split: sum.split_asm if_split_asm)
  from 1 have z: "zones (fst S1) = (zones D0)(name \<mapsto> [])" "zones D0 name = None"
    "domain_additions (snd S1) = {name}" "domain_deletions (snd S1) = {}" "rr_set_additions (snd S1) = Map.empty"
    by (auto simp: rbind_Inr_iff on_domain_post_save_def domain_updated_def new_tracker_def)
  from imp [OF 2] z have "domain_additions (snd S') = {name}" "domain_deletions (snd S') = {}"
    "finite (dom (rr_set_additions (snd S')))" by (simp_all add: touches_def same_domains_def)
  with 2 z show ?thesis by blast
qed

lemma domain_create_Inr:
  assumes "domain_create W r name zonefile s = (Inr t, s')"
  obtains rs s1 where "validate_domain W (requesting_user r) name zonefile = Inr rs"
    and "in_tracker W (create_block W r \<lparr>m_name = name, m_owner = requesting_user r\<rparr> rs) s = (Inr t, s1)"
    and "in_tracker W (delegation_block W name) s1 = (Inr (), s')"
  using assms
  by (auto simp: domain_create_def split: if_split_asm sum.split_asm prod.split_asm)

text \<open>C4: When the creation of a domain succeeds, its zone holds exactly the RRsets of the zone file
  that are not managed automatically, not of a DNSSEC type and not NS at the apex, each with its TTL brought
  into the permitted range and its records in canonical form, and the apex NS RRset with the default
  name servers; nothing else, and no two of these RRsets of the file were for the same name and type.\<close>

theorem domain_create_imports:
  assumes "domain_create W r name zonefile s = (Inr t, s')"
    and "validate_domain W (requesting_user r) name zonefile = Inr rs"
    and "faithful_parser (w_parse W)" and "lawful_list (w_so W)" and "lawful_order (w_order W)"
    and "\<And>d. x_domain (w_ctx W d) = m_name d"
  shows "let X = w_ctx W \<lparr>m_name = name, m_owner = requesting_user r\<rparr>;
      data = filter (\<lambda>q. i_type q \<notin> rr_set_types_automatic \<and> i_type q \<notin> {''CDS'', ''CDNSKEY'', ''DNSKEY''} \<and>
        import_key q \<noteq> (''NS'', [])) rs in
    distinct (map import_key data) \<and>
    (\<forall>k. if k = (''NS'', [])
       then lookup_rrset (api_db s') name k =
         Some \<lparr>ttl = default_ns_ttl (conf (w_env W)), records = default_ns (conf (w_env W))\<rparr>
       else case find (\<lambda>q. import_key q = k) data of
         None \<Rightarrow> lookup_rrset (api_db s') name k = None
       | Some q \<Rightarrow> imported X (q\<lparr>i_ttl := max (x_minimum_ttl X) (min (maximum_ttl (conf (w_env W))) (i_ttl q))\<rparr>)
           (lookup_rrset (api_db s') name k))"
proof -
  define X where "X = w_ctx W \<lparr>m_name = name, m_owner = requesting_user r\<rparr>"
  have X: "x_domain X = name" using assms(6) by (simp add: X_def)
  let ?cf = "conf (w_env W)"
  let ?imp = "import_zone (w_parse W) ?cf (w_so W) r X rs"
  let ?ns = "\<lparr>ttl = default_ns_ttl ?cf, records = default_ns ?cf\<rparr>"
  from domain_create_Inr [OF assms(1)] assms(2) obtain s1 where
    b1: "in_tracker W (create_block W r \<lparr>m_name = name, m_owner = requesting_user r\<rparr> rs) s = (Inr t, s1)"
    and b2: "in_tracker W (delegation_block W name) s1 = (Inr (), s')" by (metis sum.inject(2))
  from in_tracker_Inr [OF b1] obtain D u w v q where
    f1: "create_block W r \<lparr>m_name = name, m_owner = requesting_user r\<rparr> rs (api_db s, new_tracker) (net s) = (Inr ((D, u), t), w)"
    and q: "api_db q = D"
    and e1: "tracker_exit (w_env W) (w_order W) (w_url W) (w_now W) False (api_db s) u q = (Inr v, s1)" .
  have c: "create_in_block (w_new_policy_id W) name ?imp (r_auth r) (api_db s, new_tracker) = Inr ((D, u), t)"
    using f1 by (simp add: create_block_def X_def)
  have imp: "touches name UNIV S S'" if "?imp S = Inr S'" for S S'
    using that list_create_touches [of X "w_so W" _ S S'] X
    by (auto simp: import_zone_def Let_def split: sum.split_asm intro: touches_mono)
  from created_zone [OF c imp, unfolded snd_conv] obtain S1 where S1: "?imp S1 = Inr (D, u)" "zones (fst S1) = (zones (api_db s))(name \<mapsto> [])"
    "domain_additions u = {name}" "domain_deletions u = {}" "finite (dom (rr_set_additions u))" by auto
  note eff = import_zone_effect [OF S1(1) assms(3,4)]
  have empty: "lookup_rrset (fst S1) name k = None" for k using S1(2) by (simp add: lookup_rrset_def)
  from exit_creates(2) [OF e1 assms(5) S1(5,4,3)] q obtain z where z: "zones D name = Some z"
    and z1: "zones (api_db s1) = (zones D)(name \<mapsto> AList.update (''NS'', []) ?ns z)"
    by (auto simp: default_zone_def)
  have l1: "lookup_rrset (api_db s1) name k = (if k = (''NS'', []) then Some ?ns else lookup_rrset D name k)" for k
    using z z1 by (simp add: lookup_rrset_def update_conv')
  from in_tracker_Inr [OF b2] obtain D2 u2 w2 v2 q2 where
    f2: "delegation_block W name (api_db s1, new_tracker) (net s1) = (Inr ((D2, u2), ()), w2)" and q2: "api_db q2 = D2"
    and e2: "tracker_exit (w_env W) (w_order W) (w_url W) (w_now W) False (api_db s1) u2 q2 = (Inr v2, s')" .
  from f2 obtain ks where "auto_delegate ?cf name ks (api_db s1, new_tracker) = Inr (D2, u2)"
    by (auto simp: delegation_block_def Let_def split: if_split_asm sum.split_asm prod.split_asm)
  from delegation_touches [OF this] have t2: "same_domains new_tracker u2 \<and>
      (\<forall>k. lookup_rrset D2 name k = lookup_rrset (api_db s1) name k)"
    using parent_shorter by (fastforce simp: touches_def)
  then have "domain_additions u2 = {}" "domain_deletions u2 = {}" "finite (dom (rr_set_additions u2))"
    by (simp_all add: same_domains_def new_tracker_def)
  with exit_creates(1) [OF e2 assms(5)] q2 have "zones (api_db s') = zones D2" by simp
  then have l2: "lookup_rrset (api_db s') name k = lookup_rrset (api_db s1) name k" for k
    using t2 by (simp add: lookup_rrset_def)
  have new: "if k = (''NS'', []) then lookup_rrset (api_db s') name k = Some ?ns
       else case find (\<lambda>q. import_key q = k) (import_data ?cf (x_minimum_ttl X) rs) of
         None \<Rightarrow> lookup_rrset (api_db s') name k = None
       | Some q \<Rightarrow> imported X q (lookup_rrset (api_db s') name k)" for k
    using conjunct2 [OF eff, rule_format, of k] by (simp add: l2 l1 empty X split: option.split_asm)
  define data where "data = filter (\<lambda>q. i_type q \<notin> rr_set_types_automatic \<and> i_type q \<notin> {''CDS'', ''CDNSKEY'', ''DNSKEY''} \<and>
        import_key q \<noteq> (''NS'', [])) rs"
  let ?f = "\<lambda>q. q\<lparr>i_ttl := max (x_minimum_ttl X) (min (maximum_ttl ?cf) (i_ttl q))\<rparr>"
  have d: "import_data ?cf (x_minimum_ttl X) rs = map ?f data"
    unfolding import_data_def data_def by (intro arg_cong [where f = "map ?f"] filter_cong) (auto simp: not_imported_def)
  have f: "find (\<lambda>q. import_key q = k) (map ?f data) = map_option ?f (find (\<lambda>q. import_key q = k) data)" for k
    by (induction data) auto
  have "if k = (''NS'', []) then lookup_rrset (api_db s') name k = Some ?ns
       else case find (\<lambda>q. import_key q = k) data of
         None \<Rightarrow> lookup_rrset (api_db s') name k = None
       | Some q \<Rightarrow> imported X (?f q) (lookup_rrset (api_db s') name k)" for k
    using new [of k] unfolding d f
    by (cases "find (\<lambda>q. import_key q = k) data"; cases "k = (''NS'', [])") simp_all
  moreover have "distinct (map import_key data)" using eff unfolding d by (simp add: comp_def)
  ultimately show ?thesis unfolding Let_def X_def [symmetric] data_def [symmetric] by blast
qed

text \<open>C38: When the creation of a domain fails with anything but a failure while leaving a tracked block or in the
  delegation, nothing has happened: the database is unchanged, nothing was requested from PowerDNS,
  and no tracker is left open.\<close>

theorem failed_creation_leaves_nothing:
  assumes "domain_create W r name zonefile s = (Inl e, s')"
    and "\<And>x. e \<noteq> DvTracker x" and "\<And>x. e \<noteq> DvDelegation x"
  shows "s' = s"
proof -
  have "s' = s \<or> (\<exists>rs x. in_tracker W (create_block W r \<lparr>m_name = name, m_owner = requesting_user r\<rparr> rs) s = (Inl (Inl x), s'))"
    using assms by (auto simp: domain_create_def split: if_split_asm sum.split_asm prod.split_asm)
  moreover have "w' = w" if "create_block W r d rs S w = (y, w')" for d rs S w y w'
    using that by (simp add: create_block_def)
  ultimately show ?thesis using in_tracker_Inl_block by metis
qed

section \<open>Restricted tokens\<close>

lemma values_permitted:
  assumes tiv: "to_internal_value (run_validation parse cf V) z False ae hp {} (PyList (map import_item data)) = Inr vs"
    and parse: "faithful_parser parse" and q: "q \<in> set data" and V: "e_many V"
  shows "token_has_rrset_permission (e_policies V) (x_domain (e_ctx V), i_subname q, i_type q)"
proof -
  have "list_all2 (\<lambda>q v. run_validation parse cf V False None (import_item q) = Inr v) data vs"
    using to_internal_value_creates [OF tiv import_named [where V = V, OF parse V]] by (simp add: list_all2_map1)
  with q obtain v where v: "run_validation parse cf V False None (import_item q) = Inr v"
    by (auto simp: list_all2_conv_all_nth in_set_conv_nth)
  from run_validation_Inr [OF v] imported_item [OF v parse V] show ?thesis by (simp add: may_write_def)
qed

lemma restrictive_default:
  assumes t: "token_reachable t" "auto_policy t"
    and only: "\<And>p. p \<in> set (policies t) \<Longrightarrow> p_domain p \<in> {None, Some d} \<Longrightarrow> represents_default_policy p"
  shows "\<not> token_has_rrset_permission (policies t) (d, sub, ty)"
proof -
  note wf = token_reachable_wf [OF t(1), unfolded token_wf_def]
  from wf t(2) obtain p where p: "p \<in> set (policies t)" "represents_default_policy p"
    by (auto simp: commit_ok_def)
  have w: "\<not> perm_write p'" if "p' \<in> set (policies t)" "represents_default_policy p'" for p'
    using wf t(2) get_default_Some [of "policies t" p'] that by auto
  have "matches (Some (d, sub, ty)) p" using p(2) by (simp add: matches_def represents_default_policy_def)
  with p(1) get_policy_None obtain q where q: "get_policy (policies t) (Some (d, sub, ty)) = Some q"
    by (metis not_Some_eq)
  from get_policy_Some [OF q] have "q \<in> set (policies t)" "p_domain q \<in> {None, Some d}"
    by (auto simp: matches_def)
  with only w q show ?thesis by (simp add: token_has_rrset_permission_def)
qed

lemma import_rejected:
  assumes "token_reachable (r_auth r)" and "auto_policy (r_auth r)"
    and "\<And>p. p \<in> set (policies (r_auth r)) \<Longrightarrow> p_domain p \<in> {None, Some name} \<Longrightarrow> represents_default_policy p"
    and "domain_view_allowed r DomainCreate None" and "\<not> registration_suspended (conf (w_env W)) name"
    and "validate_domain W (requesting_user r) name zonefile = Inr rs" and "r0 \<in> set rs" and "\<not> not_imported r0"
    and "faithful_parser (w_parse W)" and "\<And>d. x_domain (w_ctx W d) = m_name d"
    and "active s = 0" and "zones (api_db s) name = None"
  shows "\<exists>e. domain_create W r name zonefile s = (Inl (DvCreate (CreateBlock (Rejected e))), s)"
proof -
  let ?X = "w_ctx W \<lparr>m_name = name, m_owner = requesting_user r\<rparr>"
  let ?imp = "import_zone (w_parse W) (conf (w_env W)) (w_so W) r ?X rs"
  have X: "x_domain ?X = name" using assms(10) by simp
  from assms(7,8) obtain q where q: "q \<in> set (import_data (conf (w_env W)) (x_minimum_ttl ?X) rs)"
    by (force simp: import_data_def)
  have rej: "\<exists>e. ?imp S = Inl (Rejected e)" if nl: "zones (fst S) name = Some []" for S
  proof (cases "to_internal_value (run_validation (w_parse W) (conf (w_env W)) (import_endpoint r ?X (zone_rows (fst S) name)))
      (zone_rows (fst S) name) False True False {}
      (PyList (map import_item (import_data (conf (w_env W)) (x_minimum_ttl ?X) rs)))")
    case (Inr vs)
    have "token_has_rrset_permission (policies (r_auth r)) (name, i_subname q, i_type q)"
      using values_permitted [of "w_parse W" _ "import_endpoint r ?X (zone_rows (fst S) name)", OF Inr assms(9) q] X
      by (simp add: import_endpoint_def)
    with restrictive_default [OF assms(1-3)] show ?thesis by blast
  qed (auto simp: import_zone_def Let_def X)
  obtain S1 where "in_db (db_step (OpDomainCreate name) (api_db s, new_tracker)) = Inr S1" "zones (fst S1) name = Some []"
    using assms(12) by (auto simp: in_db_def on_domain_post_save_def domain_updated_def new_tracker_def)
  moreover from rej [OF this(2)] obtain e where "?imp S1 = Inl (Rejected e)" by blast
  ultimately have "create_block W r \<lparr>m_name = name, m_owner = requesting_user r\<rparr> rs (api_db s, new_tracker) (net s) =
      (Inl (CreateBlock (Rejected e)), net s)"
    by (simp add: create_block_def create_in_block_def del: db_step.simps token_step.simps)
  then have "in_tracker W (create_block W r \<lparr>m_name = name, m_owner = requesting_user r\<rparr> rs) s = (Inl (Inl (CreateBlock (Rejected e))), s)"
    using assms(11) by (cases s) (simp add: in_tracker_def tracker_enter_def tracker_exit_def Let_def)
  then show ?thesis using assms(4-6) by (auto simp: domain_create_def)
qed

text \<open>C39: A token with \<open>auto_policy\<close> is meant to create and then manage its own domains, but it
  cannot import a zone file on creation: as long as its only policy for the new domain is the
  restrictive default, any zone file with an RRset to import makes the request fail, since the
  permission check runs before the policy for the new domain is there. Nothing is changed.\<close>

theorem auto_policy_token_cannot_import:
  assumes "token_reachable (r_auth r)" and "auto_policy (r_auth r)"
    and "\<And>p. p \<in> set (policies (r_auth r)) \<Longrightarrow> p_domain p \<in> {None, Some name} \<Longrightarrow> represents_default_policy p"
    and "domain_view_allowed r DomainCreate None" and "\<not> registration_suspended (conf (w_env W)) name"
    and "validate_domain W (requesting_user r) name zonefile = Inr rs" and "r0 \<in> set rs" and "\<not> not_imported r0"
    and "faithful_parser (w_parse W)" and "\<And>d. x_domain (w_ctx W d) = m_name d"
    and "active s = 0" and "zones (api_db s) name = None"
  shows "\<exists>e. domain_create W r name zonefile s = (Inl (DvCreate (CreateBlock (Rejected e))), s)"
  using assms by (rule import_rejected)

section \<open>Deletion\<close>

lemma tracker_exit_dom:
  assumes "tracker_exit E R url now exc db0 t s = (r, s')"
  shows "dom (zones (api_db s')) = dom (zones (api_db s)) \<or> api_db s' = db0"
proof (cases "exc \<or> (\<exists>e. compute_changes R (api_db s) t = Inl e)")
  case True
  with assms show ?thesis by (auto simp: tracker_exit_def Let_def split: if_split_asm)
next
  case False
  let ?s = "s\<lparr>active := active s - 1\<rparr>"
  from False obtain cs where cs: "compute_changes R (api_db s) t = Inr cs" by (meson old.sum.exhaust)
  let ?names = "change_domain ` set (filter axfr_required cs)"
  obtain q v where run: "do_changes E R url db0 cs cs ?s = (q, v)" by (cases "do_changes E R url db0 cs cs ?s")
  obtain p v' where it: "io_iter (\<lambda>d. on_net (axfr_to_master E d)) (od R ?names) v = (p, v')"
    by (cases "io_iter (\<lambda>d. on_net (axfr_to_master E d)) (od R ?names) v")
  show ?thesis
  proof (cases q)
    case (Inl e)
    with assms cs False run do_changes_Inl [OF run [unfolded Inl]] show ?thesis
      by (auto simp: tracker_exit_def Let_def io_bind_def)
  next
    case (Inr u)
    with assms cs False run it have "zones (api_db s') = zones (api_db v) \<or> zones (api_db s') = zones (api_db v')"
      by (auto simp: tracker_exit_def Let_def io_bind_def set_published_def split: sum.split_asm)
    with do_changes_Inr [OF run [unfolded Inr]] axfr_frame [OF it] show ?thesis by auto
  qed
qed

lemma in_tracker_dom:
  assumes "in_tracker W f s = (r, s')"
    and "\<And>D t x w. f (api_db s, new_tracker) (net s) = (Inr ((D, t), x), w) \<Longrightarrow> dom (zones (api_db s)) - K \<subseteq> dom (zones D)"
  shows "dom (zones (api_db s)) - K \<subseteq> dom (zones (api_db s'))"
proof (cases "active s = 0")
  case False
  with assms(1) show ?thesis by (auto simp: in_tracker_def tracker_enter_def Let_def)
next
  case True
  let ?s1 = "s\<lparr>active := active s + 1\<rparr>"
  obtain y w where f: "f (api_db s, new_tracker) (net s) = (y, w)" by (cases "f (api_db s, new_tracker) (net s)")
  show ?thesis
  proof (cases y)
    case (Inl e)
    with assms(1) f True show ?thesis by (auto simp: in_tracker_def tracker_enter_def tracker_exit_def Let_def)
  next
    case (Inr z)
    obtain D t x where z: "z = ((D, t), x)" by (metis surj_pair)
    let ?s2 = "?s1\<lparr>api_db := D, net := w\<rparr>"
    obtain q v where e: "tracker_exit (w_env W) (w_order W) (w_url W) (w_now W) False (api_db s) t ?s2 = (q, v)"
      by (cases "tracker_exit (w_env W) (w_order W) (w_url W) (w_now W) False (api_db s) t ?s2")
    with assms(1) f Inr z True have "s' = v"
      by (auto simp: in_tracker_def tracker_enter_def Let_def split: sum.split_asm)
    with tracker_exit_dom [OF e] assms(2) f Inr z show ?thesis by auto
  qed
qed

lemma delete_dom:
  assumes "perform_destroy_delete name (D, t) = Inr (D', t')"
  shows "dom (zones D) - {name} \<subseteq> dom (zones D')"
proof -
  from assms have "\<exists>ks D1 t1. rfold (rrset_delete_step name) ks (D, t) = Inr (D1, t1) \<and>
      D' = D1\<lparr>zones := (zones D1)(name := None)\<rparr>"
    by (auto simp: perform_destroy_delete_def result_simps zone_of_Inr) blast
  then obtain ks D1 t1 where run: "rfold (rrset_delete_step name) ks (D, t) = Inr (D1, t1)"
    and "D' = D1\<lparr>zones := (zones D1)(name := None)\<rparr>" by blast
  then have D': "dom (zones D') = dom (zones D1) - {name}" by auto
  then show ?thesis using rrset_delete_steps_net [OF run] by simp
qed

text \<open>C5: Whatever happens on a \<open>DELETE\<close> of a domain, also when PowerDNS or the removal of the delegation fails:
  if a domain is gone afterwards, it is the one in the URL, it belongs to the requesting user, the
  token has the permission to delete domains and may write each and every RRset of this one.\<close>

theorem deletions_are_authorised:
  assumes "domain_destroy W r owns_qname name s = (res, s')"
    and "zones (api_db s) e \<noteq> None" and "zones (api_db s') e = None"
  shows "is_authenticated r \<and> e = name \<and> perm_delete_domain (r_auth r) \<and>
    (\<exists>d \<in> set (w_domains W). m_name d = name \<and> map_option u_id (r_user r) = Some (m_owner d)) \<and>
    token_has_rrset_permission (policies (r_auth r)) (name, sub, ty)"
proof -
  from assms obtain d where d: "domain_object r (w_domains W) owns_qname name = Some d"
    and a: "domain_view_allowed r DomainDestroy (Some d)"
    by (auto simp: domain_destroy_def split: if_split_asm option.split_asm)
  have name: "m_name d = name" using d by (auto simp: domain_object_def find_Some_iff split: if_splits)
  have own: "d \<in> set (w_domains W)"
  proof -
    from d have "d \<in> set (domain_queryset r (w_domains W) owns_qname)"
      by (auto simp: domain_object_def find_Some_iff split: if_splits)
    then show ?thesis
      by (auto simp: domain_queryset_def Let_def split: option.split_asm if_split_asm
          dest!: responsible_domain_Some(1) [OF sym] responsible_domain_Some(1))
  qed
  obtain y s1 where b1: "in_tracker W (destroy_block name) s = (y, s1)" by (cases "in_tracker W (destroy_block name) s")
  obtain y2 s2 where b2: "in_tracker W (undelegate_block (conf (w_env W)) name) s1 = (y2, s2)"
    by (cases "in_tracker W (undelegate_block (conf (w_env W)) name) s1")
  have "s' = s \<or> s' = s1 \<or> s' = s2"
    using assms(1) d a b1 b2 by (auto simp: domain_destroy_def split: if_split_asm sum.split_asm option.split_asm)
  moreover have 1: "dom (zones (api_db s)) - {name} \<subseteq> dom (zones (api_db s1))"
    by (rule in_tracker_dom [OF b1]) (use delete_dom in \<open>auto simp: destroy_block_def split: sum.split_asm\<close>)
  moreover have "dom (zones (api_db s1)) - {} \<subseteq> dom (zones (api_db s2))"
    by (rule in_tracker_dom [OF b2])
      (use delegation_touches in \<open>fastforce simp: undelegate_block_def perform_destroy_delegation_def touches_def split: sum.split_asm\<close>)
  ultimately have "e = name" using assms(2,3) by (auto simp: domIff)
  moreover have "can_safely_delete_domain (policies (r_auth r)) name" and "perm_delete_domain (r_auth r)"
    and "map_option u_id (r_user r) = Some (m_owner d)" and "is_authenticated r"
    using a name by (auto simp: domain_view_allowed_def may_delete_domain_object_def has_delete_domain_permission_def is_owner_def)
  ultimately show ?thesis using own name safe_deletion_permits by blast
qed

section \<open>An example\<close>

text \<open>The import of one A record, by a token without policies and by one with \<open>auto_policy\<close>.\<close>

definition read_import :: parser where
  "read_import many partial inst item =
     (case (item_get item ''type'', item_get item ''ttl'', item_get item ''subname'', item_get item ''records'') of
        (PyStr ty, PyInt n, PyStr sub, PyList rs) \<Rightarrow>
          if n < 0 then invalid ''A valid integer is required.''
          else Inr \<lparr>a_subname = Some sub, a_type = Some ty, a_ttl = Some (nat n),
                 a_records = Some (map (\<lambda>v. case v of PyStr c \<Rightarrow> c | _ \<Rightarrow> []) rs)\<rparr>
      | _ \<Rightarrow> invalid ''This field is required.'')"

lemma faithful_read_import: "faithful_parser read_import"
  by (simp add: faithful_parser_def read_import_def import_item_def attrs_of_def comp_def)

definition example_rrset :: import_rrset where
  "example_rrset = \<lparr>i_subname = ''w'', i_type = ''A'', i_ttl = 60, i_records = [''192.0.2.1'']\<rparr>"

definition import_ctx :: ctx where
  "import_ctx = example_ctx\<lparr>x_domain := ''e.f'', x_dnspython := {''A''}\<rparr>"

definition example_domain_env :: "http_request list domain_env" where
  "example_domain_env = view_env.extend (example_view\<lparr>w_parse := read_import, w_domains := [],
       w_ctx := \<lambda>d. import_ctx\<lparr>x_domain := m_name d\<rparr>\<rparr>)
     \<lparr>w_psl = tld_psl, w_lps = [], w_from_text = (\<lambda>f d. Inr [example_rrset]), w_is_sep = (\<lambda>_. False),
      w_make_ds = (\<lambda>_. []), w_new_policy_id = 9\<rparr>"

definition creating_token :: token where
  "creating_token = example_token\<lparr>perm_create_domain := True, perm_delete_domain := True, perm_manage_tokens := False\<rparr>"

definition creator :: "token \<Rightarrow> request" where
  "creator t = writer\<lparr>r_auth := t\<rparr>"

definition empty_sys :: "http_request list sys" where
  "empty_sys = \<lparr>api_db = \<lparr>zones = Map.empty, published = Map.empty\<rparr>, net = [], active = 0\<rparr>"

lemmas env_defs = example_domain_env_def example_view_def view_env.defs example_ctx_def

lemma example_validates: "validate_domain example_domain_env 7 ''e.f'' (Some f) = Inr [example_rrset]"
proof -
  have n: "name_errors [] ''e.f'' = []" by code_simp
  have "is_registrable tld_psl [] [] 7 ''e.f'' = Inr True" by code_simp
  with n have "validate_name tld_psl [] [] 7 ''e.f'' = Inr ()" by (simp add: validate_name_def)
  then show ?thesis by (simp add: validate_domain_def parse_zonefile_def env_defs)
qed

lemma example_env_lawful:
  "faithful_parser (w_parse example_domain_env)" "lawful_list (w_so example_domain_env)"
  "lawful_order (w_order example_domain_env)" "x_domain (w_ctx example_domain_env d) = m_name d"
  by (simp_all add: env_defs faithful_read_import lawful_sorted_list lawful_name_order)

definition auto_creating_token :: token where
  "auto_creating_token = creating_token\<lparr>auto_policy := True, policies := [default_policy 5]\<rparr>"

lemma auto_creating_token_reachable: "token_reachable auto_creating_token"
proof (rule token_reachable.step)
  show "token_reachable creating_token" by (rule token_reachable.start) (simp_all add: creating_token_def example_token_def)
  show "token_step (SaveToken (creating_token\<lparr>auto_policy := True\<rparr>) 5) creating_token = Inr auto_creating_token"
    by (simp add: auto_creating_token_def creating_token_def example_token_def token_save_def token_clean_def get_policy_def
        policy_create_def default_policy_def represents_default_policy_def override_ok_def commit_ok_def Let_def)
qed

lemma requesting_creator: "requesting_user (creator t) = 7"
  by (simp add: requesting_user_def creator_def writer_def)

lemma example_requested:
  "validate_domain example_domain_env (requesting_user (creator t)) ''e.f'' (Some ''w A 192.0.2.1'') = Inr [example_rrset]"
  by (simp add: requesting_creator example_validates)

lemma example_allowed:
  "t \<in> {creating_token, auto_creating_token} \<Longrightarrow> domain_view_allowed (creator t) DomainCreate None"
  by (auto simp: domain_view_allowed_def creator_def writer_def creating_token_def auto_creating_token_def example_token_def
      is_authenticated_def is_api_token_def has_create_domain_permission_def within_domain_limit_def)

lemma example_not_suspended: "\<not> registration_suspended (conf (w_env example_domain_env)) ''e.f''"
  by (simp add: registration_suspended_def env_defs constant_env_def)

lemmas example_facts = creator_def writer_def auto_creating_token_reachable example_env_lawful auto_creating_token_def
  default_policy_def represents_default_policy_def not_imported_def example_rrset_def rr_set_types_automatic_def empty_sys_def

theorem auto_policy_token_cannot_import_witness:
  "\<exists>e. domain_create example_domain_env (creator auto_creating_token) ''e.f'' (Some ''w A 192.0.2.1'') empty_sys =
     (Inl (DvCreate (CreateBlock (Rejected e))), empty_sys)"
proof -
  have a: "token_reachable (r_auth (creator auto_creating_token))"
    by (simp add: creator_def auto_creating_token_reachable)
  show ?thesis
    by (rule auto_policy_token_cannot_import [OF a _ _ example_allowed example_not_suspended example_requested,
          where ?r0.0 = example_rrset]) (simp_all add: example_facts)
qed

theorem failed_creation_leaves_nothing_witness:
  "\<exists>e s'. domain_create example_domain_env (creator auto_creating_token) ''e.f'' (Some ''w A 192.0.2.1'') empty_sys =
     (Inl (DvCreate e), s') \<and> s' = empty_sys"
proof -
  have a: "token_reachable (r_auth (creator auto_creating_token))"
    by (simp add: creator_def auto_creating_token_reachable)
  have "\<exists>e. domain_create example_domain_env (creator auto_creating_token) ''e.f'' (Some ''w A 192.0.2.1'') empty_sys =
     (Inl (DvCreate (CreateBlock (Rejected e))), empty_sys)"
    by (rule import_rejected [OF a _ _ example_allowed example_not_suspended example_requested,
          where ?r0.0 = example_rrset]) (simp_all add: example_facts)
  then obtain e s' where d: "domain_create example_domain_env (creator auto_creating_token) ''e.f'' (Some ''w A 192.0.2.1'')
      empty_sys = (Inl (DvCreate e), s')" by blast
  from d failed_creation_leaves_nothing [OF d] show ?thesis by blast
qed

section \<open>Two runs\<close>

lemma example_exit:
  assumes "compute_changes name_order (api_db s) t = Inr cs" and "active s = 1"
    and "fst (do_changes (constant_env 200) name_order [] D0 cs cs (s\<lparr>active := 0\<rparr>)) = Inr ()"
    and names: "change_domain ` set (filter axfr_required cs) = N"
    and "\<And>v. fst (io_iter (\<lambda>d. on_net (axfr_to_master (constant_env 200) d)) (sorted_list_of_set N) v) = Inr ()"
  shows "\<exists>s'. tracker_exit (constant_env 200) name_order [] 7 False D0 t s = (Inr (), s')"
proof -
  obtain v where v: "do_changes (constant_env 200) name_order [] D0 cs cs (s\<lparr>active := 0\<rparr>) = (Inr (), v)"
    using assms(3) by (metis prod.collapse)
  obtain u where u: "io_iter (\<lambda>d. on_net (axfr_to_master (constant_env 200) d)) (sorted_list_of_set N) v = (Inr (), u)"
    using assms(5) by (metis prod.collapse)
  show ?thesis using assms(1,2) v u unfolding tracker_exit_def Let_def
    by (simp add: io_bind_def name_order_od names del: set_filter)
qed

lemma example_creation_run:
  assumes "f (api_db s, new_tracker) (net s) = (Inr ((D, t), x), w)" and "active s = 0"
    and "w_env W = constant_env 200" and "w_order W = name_order" and "w_url W = []" and "w_now W = 7"
    and "\<exists>s'. tracker_exit (constant_env 200) name_order [] 7 False (api_db s) t \<lparr>api_db = D, net = w, active = 1\<rparr> = (Inr (), s')"
  shows "\<exists>s'. in_tracker W f s = (Inr x, s') \<and> active s' = 0"
proof -
  from assms(7) obtain s' where e: "tracker_exit (constant_env 200) name_order [] 7 False (api_db s) t
      \<lparr>api_db = D, net = w, active = 1\<rparr> = (Inr (), s')" ..
  note e = e [unfolded One_nat_def]
  show ?thesis using assms(1-6) e tracker_exit_active [OF e]
    by (cases s) (simp add: in_tracker_def tracker_enter_def Let_def)
qed

lemmas example_calls = on_net_def io_bind_def create_zone_lord_def create_zone_master_def update_catalog_def pdns_patch_def
  construct_catalog_rrset_def example_ids axfr_to_master_def pdns_put_def strip_char_def lstrip_char_def
  delete_zone_lord_def delete_zone_master_def pdns_delete_def update_zone_def
  pdns_post_def pdns_request_def constant_env_def soa_content_def entry_pyval_def construct_name_def
  dumps_str_def escape_char_def show_int_def show_nat.simps rstrip_char_def

lemma example_axfr:
  "fst (io_iter (\<lambda>d. on_net (axfr_to_master (constant_env 200) d)) (sorted_list_of_set {}) v) = Inr ()"
  "fst (io_iter (\<lambda>d. on_net (axfr_to_master (constant_env 200) d)) (sorted_list_of_set {''e.f''}) v) = Inr ()"
  by (simp_all add: example_calls split: prod.splits sum.splits)

lemma example_deletion:
  "\<exists>s'. domain_destroy (example_domain_env\<lparr>w_domains := [\<lparr>m_name = ''e.f'', m_owner = 7\<rparr>]\<rparr>) (creator creating_token) None
     ''e.f'' example_sys = (Inr (), s') \<and> zones (api_db s') ''e.f'' = None"
proof -
  let ?W = "example_domain_env\<lparr>w_domains := [\<lparr>m_name = ''e.f'', m_owner = 7\<rparr>]\<rparr>"
  let ?D = "\<lparr>zones = Map.empty, published = Map.empty\<rparr> :: db"
  define t where "t = \<lparr>domain_additions = {}, domain_deletions = {''e.f''}, rr_set_additions = [''e.f'' \<mapsto> {}],
      rr_set_modifications = [''e.f'' \<mapsto> {}], rr_set_deletions = [''e.f'' \<mapsto> {(''A'', ''w'')}]\<rparr>"
  have step: "perform_destroy_delete ''e.f'' (api_db example_sys, new_tracker) = Inr (?D, t)"
    by (simp add: t_def perform_destroy_delete_def rrset_delete_step_def example_sys_def rrset_of_def zone_of_def handler_defs'
        on_rr_post_delete_def on_domain_post_delete_def domain_updated_def
        rr_set_updated_def new_tracker_def set_rrsets_def key_of_def drop_rrset_def)
  have changes: "compute_changes name_order ?D t = Inr [DeleteDomain ''e.f'']"
    by (simp add: t_def compute_changes_def name_order_def discard_rrsets_def)
  have "fst (do_changes (constant_env 200) name_order [] (api_db example_sys) [DeleteDomain ''e.f''] [DeleteDomain ''e.f'']
      \<lparr>api_db = ?D, net = [], active = 0\<rparr>) = Inr ()"
    by (simp add: do_change_def example_calls split: prod.splits sum.splits)
  then have "\<exists>s'. tracker_exit (constant_env 200) name_order [] 7 False (api_db example_sys) t
      \<lparr>api_db = ?D, net = [], active = 1\<rparr> = (Inr (), s')"
    by (intro example_exit [where cs = "[DeleteDomain ''e.f'']" and N = "{}"])
      (use changes example_axfr(1) in \<open>simp_all del: do_changes.simps io_iter.simps sorted_list_of_set_empty\<close>)
  with step have "\<exists>s'. in_tracker ?W (destroy_block ''e.f'') example_sys = (Inr (), s') \<and> active s' = 0"
    by (intro example_creation_run) (simp_all add: destroy_block_def env_defs example_sys_def)
  then obtain s' where r: "in_tracker ?W (destroy_block ''e.f'') example_sys = (Inr (), s')" by blast
  have a: "domain_object (creator creating_token) (w_domains ?W) None ''e.f'' = Some \<lparr>m_name = ''e.f'', m_owner = 7\<rparr>"
    "domain_view_allowed (creator creating_token) DomainDestroy None"
    "domain_view_allowed (creator creating_token) DomainDestroy (Some \<lparr>m_name = ''e.f'', m_owner = 7\<rparr>)"
    "\<not> is_locally_registrable (local_public_suffixes (conf (w_env ?W))) ''e.f''"
    by (simp_all add: domain_object_def domain_queryset_def creator_def writer_def creating_token_def example_token_def
        domain_view_allowed_def is_authenticated_def is_api_token_def is_owner_def has_delete_domain_permission_def
        may_delete_domain_object_def can_safely_delete_domain_def env_defs constant_env_def is_locally_registrable_def
        split: option.split)
  have d: "domain_destroy ?W (creator creating_token) None ''e.f'' example_sys = (Inr (), s')"
    using r a by (simp add: domain_destroy_def)
  from in_tracker_Inr [OF r] obtain D2 t2 w2 u2 q2 where
    "destroy_block ''e.f'' (api_db example_sys, new_tracker) (net example_sys) = (Inr ((D2, t2), ()), w2)" and q: "api_db q2 = D2"
    and e: "tracker_exit (w_env ?W) (w_order ?W) (w_url ?W) (w_now ?W) False (api_db example_sys) t2 q2 = (Inr u2, s')" .
  then have D2: "D2 = ?D" "t2 = t" using step by (simp_all add: destroy_block_def)
  from tracker_exit_zones [OF e] obtain cs where "compute_changes (w_order ?W) (api_db q2) t2 = Inr cs"
    and z: "zones (api_db s') = fold (default_zone (conf (w_env ?W))) (map change_domain (filter is_create cs)) (zones (api_db q2))"
    by blast
  then have "cs = [DeleteDomain ''e.f'']" using changes D2 q by (simp add: env_defs)
  with z D2 q have "zones (api_db s') ''e.f'' = None" by (simp add: is_create_def)
  with d show ?thesis by blast
qed

theorem deletions_are_authorised_witness:
  "\<exists>s'. domain_destroy (example_domain_env\<lparr>w_domains := [\<lparr>m_name = ''e.f'', m_owner = 7\<rparr>]\<rparr>) (creator creating_token) None
     ''e.f'' example_sys = (Inr (), s') \<and> zones (api_db s') ''e.f'' = None \<and> perm_delete_domain (r_auth (creator creating_token))"
proof -
  from example_deletion obtain s' where s': "domain_destroy (example_domain_env\<lparr>w_domains := [\<lparr>m_name = ''e.f'', m_owner = 7\<rparr>]\<rparr>)
      (creator creating_token) None ''e.f'' example_sys = (Inr (), s')" "zones (api_db s') ''e.f'' = None" by blast
  have "zones (api_db example_sys) ''e.f'' \<noteq> None" by (simp add: example_sys_def)
  from deletions_are_authorised [OF s'(1) this s'(2)] s' show ?thesis by blast
qed

abbreviation imported_item :: vitem where
  "imported_item \<equiv> \<lparr>v_type = ''A'', v_subname = ''w'', v_ttl = Some 60, v_records = Some [''192.0.2.1'']\<rparr>"

lemma example_item:
  "run_validation read_import (conf (constant_env 200)) (import_endpoint (creator creating_token) import_ctx []) False None
     (import_item example_rrset) = Inr imported_item"
  by (simp add: run_validation_def read_import_def import_item_def example_rrset_def import_endpoint_def field_errors_def
      errors_of_def validate_subname_def validate_records_def validate_ttl_def read_only_on_update_def validate_type_def
      permission_validator_def creator_def creating_token_def example_token_def writer_def token_has_rrset_permission_def
      get_policy_def attr_key_def unique_together_def exclusion_constraint_def validate_def validate_canonical_presentation_def
      validate_ci_uniqueness_def validate_length_def conservative_total_length_def construct_name_def
      validate_blocked_content_def validate_ns_def Let_def example_ctx_def import_ctx_def plain_canonical constant_env_def
      rr_set_types_manageable_def rr_set_types_automatic_def rr_set_types_unsupported_def supported_rrset_types_def
      rr_set_types_validation_def)

lemma example_values:
  "to_internal_value (run_validation read_import (conf (constant_env 200)) (import_endpoint (creator creating_token) import_ctx [])) []
     False True False {} (PyList [import_item example_rrset]) = Inr [imported_item]"
  using example_item by (simp add: list_defs import_item_def example_rrset_def)

definition import_db :: db where
  "import_db = \<lparr>zones = [''e.f'' \<mapsto> [((''A'', ''w''), \<lparr>ttl = 60, records = [''192.0.2.1'']\<rparr>)]], published = Map.empty\<rparr>"

definition import_tracker :: tracker where
  "import_tracker = \<lparr>domain_additions = {''e.f''}, domain_deletions = {}, rr_set_additions = [''e.f'' \<mapsto> {(''A'', ''w'')}],
     rr_set_modifications = [''e.f'' \<mapsto> {(''A'', ''w'')}], rr_set_deletions = [''e.f'' \<mapsto> {}]\<rparr>"

lemma example_import:
  "rbind (in_db (db_step (OpDomainCreate ''e.f'') (api_db empty_sys, new_tracker)))
     (import_zone read_import (conf (constant_env 200)) sorted_list_of_set (creator creating_token) import_ctx [example_rrset]) =
   Inr (import_db, import_tracker)"
proof -
  have c: "rrset_full_clean (''A'', ''w'')" by (simp add: rrset_full_clean_def) code_simp
  have n: "clean_records plain_codec ''e.f'' (''A'', ''w'') [''192.0.2.1''] = Inr {''192.0.2.1''}"
    by (simp add: clean_records_def plain_canonical rrset_shape_errors_def)
  have d: "import_data (conf (constant_env 200)) 60 [example_rrset] = [example_rrset]"
    by (simp add: import_data_def not_imported_def example_rrset_def rr_set_types_automatic_def constant_env_def)
  show ?thesis
    using example_values c n d
    by (simp add: import_zone_def Let_def zone_rows_def in_db_def empty_sys_def on_domain_post_save_def domain_updated_def
        new_tracker_def import_ctx_def example_ctx_def list_create_def rrset_create_def vkey_def set_all_record_contents_def
        save_records_def zone_of_def rrset_of_def cname_conflict_def handler_defs' rr_set_updated_def set_rrsets_def key_of_def
        put_rrset_def db_run_def import_db_def import_tracker_def del: on_rr_set_post_save_False on_rr_post_delete_True)
qed

lemma example_creation:
  "\<exists>s'. domain_create example_domain_env (creator creating_token) ''e.f'' (Some ''w A 192.0.2.1'') empty_sys =
     (Inr creating_token, s')"
proof -
  let ?W = "example_domain_env" and ?d = "\<lparr>m_name = ''e.f'', m_owner = 7\<rparr>"
  let ?N = "\<lparr>ttl = 3600, records = [''ns1.example.'']\<rparr>"
  let ?c = "CreateUpdateDeleteRRSets ''e.f'' {(''A'', ''w'')} {(''A'', ''w'')} {}"
  have changes: "compute_changes name_order import_db import_tracker = Inr [CreateDomain ''e.f'', ?c]"
    by (simp add: compute_changes_def import_tracker_def import_db_def changes_of_def name_order_def get_set_def has_rrs_def
        rrset_of_def zone_of_def Let_def)
  have blk: "create_block ?W (creator creating_token) ?d [example_rrset] (api_db empty_sys, new_tracker) (net empty_sys) =
      (Inr ((import_db, import_tracker), creating_token), [])"
    using example_import
    by (simp add: create_block_def create_in_block_def env_defs creator_def creating_token_def example_token_def empty_sys_def
        import_ctx_def del: db_step.simps)
  have "fst (do_changes (constant_env 200) name_order [] (api_db empty_sys) [CreateDomain ''e.f'', ?c] [CreateDomain ''e.f'', ?c]
      \<lparr>api_db = import_db, net = [], active = 0\<rparr>) = Inr ()"
    by (simp add: do_change_def import_db_def cname_conflict_def put_rrset_def rrsets_data_def name_order_def update_entry_def
        rrset_of_def zone_of_def example_calls split: prod.splits sum.splits)
  then have "\<exists>s'. tracker_exit (constant_env 200) name_order [] 7 False (api_db empty_sys) import_tracker
      \<lparr>api_db = import_db, net = [], active = 1\<rparr> = (Inr (), s')"
    by (intro example_exit [where cs = "[CreateDomain ''e.f'', ?c]" and N = "{''e.f''}"])
      (use changes example_axfr(2) in \<open>simp_all del: do_changes.simps io_iter.simps\<close>)
  with blk have "\<exists>s1. in_tracker ?W (create_block ?W (creator creating_token) ?d [example_rrset]) empty_sys = (Inr creating_token, s1) \<and>
      active s1 = 0"
    by (intro example_creation_run) (simp_all add: env_defs empty_sys_def)
  then obtain s1 where r1: "in_tracker ?W (create_block ?W (creator creating_token) ?d [example_rrset]) empty_sys = (Inr creating_token, s1)"
    and a1: "active s1 = 0" by blast
  have no: "\<not> is_locally_registrable (local_public_suffixes (conf (w_env ?W))) ''e.f''"
    by (simp add: env_defs constant_env_def is_locally_registrable_def split: option.split)
  have "delegation_block ?W ''e.f'' (api_db s1, new_tracker) (net s1) = (Inr ((api_db s1, new_tracker), ()), net s1)"
    using no by (simp add: delegation_block_def auto_delegate_def Let_def)
  moreover have "\<exists>s'. tracker_exit (constant_env 200) name_order [] 7 False (api_db s1) new_tracker
      \<lparr>api_db = api_db s1, net = net s1, active = 1\<rparr> = (Inr (), s')"
    by (intro example_exit [where cs = "[]" and N = "{}"])
      (simp_all add: compute_changes_def new_tracker_def name_order_def)
  ultimately have "\<exists>s2. in_tracker ?W (delegation_block ?W ''e.f'') s1 = (Inr (), s2) \<and> active s2 = 0"
    using a1 by (intro example_creation_run) (simp_all add: env_defs)
  with r1 show ?thesis using example_allowed [of creating_token] example_not_suspended example_validates
    by (auto simp: domain_create_def requesting_creator)
qed

theorem domain_create_imports_witness:
  "\<exists>s' q. domain_create example_domain_env (creator creating_token) ''e.f'' (Some ''w A 192.0.2.1'') empty_sys =
     (Inr creating_token, s') \<and> lookup_rrset (api_db s') ''e.f'' (''A'', ''w'') = Some q \<and> ttl q = 60 \<and>
     set (records q) = {''192.0.2.1''} \<and> lookup_rrset (api_db s') ''e.f'' (''NS'', []) \<noteq> None"
proof -
  from example_creation obtain s' where s': "domain_create example_domain_env (creator creating_token) ''e.f''
      (Some ''w A 192.0.2.1'') empty_sys = (Inr creating_token, s')" ..
  let ?data = "filter (\<lambda>q. i_type q \<notin> rr_set_types_automatic \<and> i_type q \<notin> {''CDS'', ''CDNSKEY'', ''DNSKEY''} \<and>
        import_key q \<noteq> (''NS'', [])) [example_rrset]"
  have d: "?data = [example_rrset]" by (simp add: example_rrset_def rr_set_types_automatic_def)
  have n: "clean_records plain_codec ''e.f'' (''A'', ''w'') [''192.0.2.1''] = Inr {''192.0.2.1''}"
    by (simp add: clean_records_def plain_canonical rrset_shape_errors_def)
  note all = conjunct2 [OF domain_create_imports [OF s' example_requested example_env_lawful, unfolded Let_def d requesting_creator], rule_format]
  from all [of "(''A'', ''w'')"] n obtain q where "lookup_rrset (api_db s') ''e.f'' (''A'', ''w'') = Some q" "ttl q = 60"
    "set (records q) = {''192.0.2.1''}"
    by (auto simp: imported_def example_rrset_def env_defs import_ctx_def plain_canonical constant_env_def)
  with s' all [of "(''NS'', [])"] show ?thesis by auto
qed

end
