(* ===== verification/TokenViews.thy ===== *)
theory TokenViews
  imports AuthActions
begin

text \<open>
  The endpoints for tokens and their scoping policies (\<open>views/tokens.py\<close>, \<open>serializers/tokens.py\<close>) with
  the registration of an account for a token that is made for somebody else
  (\<open>RegisterAccountSerializer\<close> in \<open>serializers/users.py\<close>). A request is a function on the store; what
  an earlier step saved stays when a later one fails, as no transaction spans the request. The
  networks of a token are left out, as they are no part of the store.
\<close>

section \<open>Requests\<close>

text \<open>Fields as the parser of the framework hands them over: \<open>None\<close> is an absent field, and \<open>Some None\<close>
  a null. Durations are seconds.\<close>

record token_input =
  in_name :: "string option"
  in_max_age :: "int option option"
  in_max_unused :: "int option option"
  in_create :: "bool option"
  in_delete :: "bool option"
  in_manage :: "bool option"
  in_auto :: "bool option"
  in_override :: "string option option"

record policy_input =
  pi_domain :: "string option option"
  pi_subname :: "string option option"
  pi_type :: "string option option"
  pi_write :: "bool option"

datatype view_error =
  PermissionDenied
| NotFound
| InvalidField string
| ModelError token_error
| StoreFailure store_error
| ActionFailure auth_error

text \<open>What a request takes from its surroundings: the library, the validator and the normalization of
  addresses, the setting \<open>USER_ACTIVATION_REQUIRED\<close>, the clock, and the keys of new rows.\<close>

record view_env =
  ve_lib :: lib
  ve_email_valid :: "string \<Rightarrow> bool"
  ve_normalize :: "string \<Rightarrow> string"
  ve_unusable :: string
  ve_activation_required :: bool
  ve_now :: int
  new_token_id :: nat
  new_policy_id :: nat
  new_user_id :: nat

section \<open>The token serializer\<close>

text \<open>\<open>Token._validators\<close>: no less than nothing and no more than 1000 years.\<close>

definition duration_ok :: "int option \<Rightarrow> bool" where
  "duration_ok x = (case x of None \<Rightarrow> True | Some n \<Rightarrow> 0 \<le> n \<and> n \<le> 365 * 1000 * 86400)"

definition name_ok :: "string \<Rightarrow> bool" where
  "name_ok s \<longleftrightarrow> length s \<le> 64"

definition given :: "'a option \<Rightarrow> ('a \<Rightarrow> bool) \<Rightarrow> bool" where
  "given x P = (case x of None \<Rightarrow> True | Some v \<Rightarrow> P v)"

definition validate_token_fields :: "token_input \<Rightarrow> (view_error, unit) result" where
  "validate_token_fields i =
     (if \<not> given (in_name i) (\<lambda>s. name_ok (strip s)) then Inl (InvalidField ''name'')
      else if \<not> given (in_max_age i) duration_ok then Inl (InvalidField ''max_age'')
      else if \<not> given (in_max_unused i) duration_ok then Inl (InvalidField ''max_unused_period'')
      else Inr ())"

text \<open>\<open>SensitiveSlugRelatedField\<close>: an unknown address becomes an account that is not saved. The column
  compares without case.\<close>

datatype override = ExistingUser nat | UnknownUser string

definition sensitive_user :: "store \<Rightarrow> string \<Rightarrow> override" where
  "sensitive_user S email =
     (case filter (\<lambda>u. (case users S u of None \<Rightarrow> False | Some a \<Rightarrow> lower (ac_email a) = lower email))
             (sorted_list_of_set (dom (users S))) of
        [] \<Rightarrow> UnknownUser email
      | u # _ \<Rightarrow> ExistingUser u)"

text \<open>\<open>ReadOnlyOnUpdateValidator\<close> and \<open>validate_user_override\<close>; an account that is not saved differs from
  every other.\<close>

definition check_override :: "token option \<Rightarrow> override option \<Rightarrow> (view_error, override option) result" where
  "check_override inst value =
     (case value of
        Some (UnknownUser e) \<Rightarrow> if inst = None then Inr value else Inl (InvalidField ''user_override'')
      | _ \<Rightarrow>
          (case validate_user_override inst (case value of Some (ExistingUser u) \<Rightarrow> Some u | _ \<Rightarrow> None) of
             Inl _ \<Rightarrow> Inl (InvalidField ''user_override'')
           | Inr _ \<Rightarrow> Inr value))"

text \<open>The field has a default, which only a partial update leaves out.\<close>

definition validated_override ::
  "store \<Rightarrow> bool \<Rightarrow> token option \<Rightarrow> token_input \<Rightarrow> (view_error, override option) result" where
  "validated_override S partial inst i =
     (case in_override i of
        None \<Rightarrow> if partial then Inr None else check_override inst None
      | Some v \<Rightarrow> check_override inst (map_option (sensitive_user S) v))"

definition pick :: "'a option \<Rightarrow> 'a \<Rightarrow> 'a" where
  "pick x old = (case x of None \<Rightarrow> old | Some v \<Rightarrow> v)"

definition apply_token_fields :: "token_input \<Rightarrow> token \<Rightarrow> token" where
  "apply_token_fields i t =
     t\<lparr>t_max_age := pick (in_max_age i) (t_max_age t),
       t_max_unused := pick (in_max_unused i) (t_max_unused t),
       perm_create_domain := pick (in_create i) (perm_create_domain t),
       perm_delete_domain := pick (in_delete i) (perm_delete_domain t),
       perm_manage_tokens := pick (in_manage i) (perm_manage_tokens t),
       auto_policy := pick (in_auto i) (auto_policy t)\<rparr>"

definition put_token :: "token \<Rightarrow> store \<Rightarrow> store" where
  "put_token t S = S\<lparr>utokens := (utokens S)(t_id t \<mapsto> t)\<rparr>"

definition name_token :: "nat \<Rightarrow> string option \<Rightarrow> store \<Rightarrow> store" where
  "name_token i name S =
     (case name of None \<Rightarrow> S | Some s \<Rightarrow> S\<lparr>token_names := (token_names S)(i := strip s)\<rparr>)"

section \<open>Creating a token\<close>

text \<open>\<open>RegisterAccountSerializer\<close> for the address of an override: \<open>EmailField\<close> strips it, and it must be
  free. The password is unusable.\<close>

definition override_account :: "view_env \<Rightarrow> string \<Rightarrow> account" where
  "override_account E email =
     \<lparr>ac_id = new_user_id E, ac_email = strip email, ac_email_verified = None,
      ac_is_active = (if ve_activation_required E then None else Some True),
      ac_credentials_changed = ve_now E, ac_needs_captcha = True, ac_outreach = False,
      ac_password = [], ac_limit_domains = Some 15\<rparr>"

definition register_override :: "view_env \<Rightarrow> string \<Rightarrow> store \<Rightarrow> (view_error, store) result" where
  "register_override E email S =
     (if \<not> ve_email_valid E (strip email) \<or> email_taken S (new_user_id E) (strip email)
      then Inl (InvalidField ''email'')
      else case create_user (ve_normalize E) (\<lambda>_. ve_unusable E) (override_account E email) [] S of
             Inl e \<Rightarrow> Inl (StoreFailure e) | Inr S' \<Rightarrow> Inr S')"

datatype answer_status = Created | AcceptedLater | Done | Deleted

text \<open>\<open>TokenViewSet.create\<close>: the token is saved without the override, then the account is made and the
  activation mail sent.\<close>

definition invite_override :: "view_env \<Rightarrow> nat \<Rightarrow> string \<Rightarrow> (store, view_error, answer_status) io" where
  "invite_override E i email S =
     (case register_override E email S of
        Inl e \<Rightarrow> (Inl e, S)
      | Inr S1 \<Rightarrow>
          (case build_and_save (ve_lib E) (ve_now E) (ActivateUserWithOverrideToken (new_user_id E) True i) S1 of
             Inl e \<Rightarrow> (Inl (ActionFailure e), S1)
           | Inr (code, S2) \<Rightarrow> (Inr AcceptedLater, S2)))"

definition answer_override :: "view_env \<Rightarrow> nat \<Rightarrow> override option \<Rightarrow> (store, view_error, answer_status) io" where
  "answer_override E i override =
     (case override of
        None \<Rightarrow> io_return Created
      | Some (ExistingUser v) \<Rightarrow> io_return AcceptedLater
      | Some (UnknownUser email) \<Rightarrow> invite_override E i email)"

definition token_create :: "view_env \<Rightarrow> request \<Rightarrow> token_input \<Rightarrow> (store, view_error, answer_status) io" where
  "token_create E r i S =
     (case r_user r of
        None \<Rightarrow> (Inl PermissionDenied, S)
      | Some u \<Rightarrow>
          if \<not> token_view_allowed r (UnsafeMethod False) None then (Inl PermissionDenied, S)
          else
            (case rbind (validate_token_fields i) (\<lambda>_. validated_override S False None i) of
               Inl e \<Rightarrow> (Inl e, S)
             | Inr override \<Rightarrow>
                 let blank = dyndns_token (new_token_id E) (u_id u) (ve_now E) in
                 (case token_step (SaveToken (apply_token_fields i blank) (new_policy_id E)) blank of
                    Inl e \<Rightarrow> (Inl (ModelError e), S)
                  | Inr t \<Rightarrow>
                      answer_override E (t_id t) override
                        (name_token (t_id t) (Some (pick (in_name i) [])) (put_token t S)))))"

section \<open>Changing and deleting a token\<close>

text \<open>\<open>get_object\<close>\<close>

definition visible_token :: "request \<Rightarrow> nat \<Rightarrow> store \<Rightarrow> token option" where
  "visible_token r i S =
     (case utokens S i of
        None \<Rightarrow> None
      | Some t \<Rightarrow> if token_queryset r [t] = [] then None else Some t)"

definition token_update ::
  "view_env \<Rightarrow> request \<Rightarrow> bool \<Rightarrow> nat \<Rightarrow> token_input \<Rightarrow> (store, view_error, answer_status) io" where
  "token_update E r partial k i S =
     (if \<not> token_view_allowed r (UnsafeMethod False) None then (Inl PermissionDenied, S)
      else case visible_token r k S of
        None \<Rightarrow> (Inl NotFound, S)
      | Some t \<Rightarrow>
          if \<not> token_view_allowed r (UnsafeMethod False) (Some t) then (Inl PermissionDenied, S)
          else
            (case rbind (validate_token_fields i) (\<lambda>_. validated_override S partial (Some t) i) of
               Inl e \<Rightarrow> (Inl e, S)
             | Inr _ \<Rightarrow>
                 (case token_step (SaveToken (apply_token_fields i t) (new_policy_id E)) t of
                    Inl e \<Rightarrow> (Inl (ModelError e), S)
                  | Inr t' \<Rightarrow> (Inr Done, name_token (t_id t') (in_name i) (put_token t' S)))))"

text \<open>\<open>IdempotentDestroyMixin\<close>: deleting what is not there succeeds.\<close>

definition token_destroy :: "request \<Rightarrow> nat \<Rightarrow> (store, view_error, answer_status) io" where
  "token_destroy r k S =
     (if \<not> token_view_allowed r (UnsafeMethod True) None then (Inl PermissionDenied, S)
      else case visible_token r k S of
        None \<Rightarrow> (Inr Deleted, S)
      | Some t \<Rightarrow>
          if \<not> token_view_allowed r (UnsafeMethod True) (Some t) then (Inl PermissionDenied, S)
          else (Inr Deleted, S\<lparr>utokens := (utokens S)(t_id t := None)\<rparr>))"

section \<open>Policies\<close>

definition policy_subname_ok :: "string \<Rightarrow> bool" where
  "policy_subname_ok s \<longleftrightarrow> length s \<le> 178 \<and> (s = [] \<or> run_validators subname_validators s = [])"

definition policy_type_ok :: "string \<Rightarrow> bool" where
  "policy_type_ok s \<longleftrightarrow> s \<noteq> [] \<and> length s \<le> 10 \<and> run_validators type_validators s = []"

text \<open>\<open>TokenDomainPolicySerializer\<close>: the domain is one of the requesting user's. The three scope fields are
  required but for a partial update.\<close>

definition policy_domain_ok :: "nat \<Rightarrow> store \<Rightarrow> string option \<Rightarrow> bool" where
  "policy_domain_ok u S d =
     (case d of None \<Rightarrow> True | Some n \<Rightarrow> \<exists>x \<in> set (udomains S). m_name x = n \<and> m_owner x = u)"

definition null_or :: "(string \<Rightarrow> bool) \<Rightarrow> string option \<Rightarrow> bool" where
  "null_or P x = (case x of None \<Rightarrow> True | Some s \<Rightarrow> P (strip s))"

definition validate_policy :: "nat \<Rightarrow> store \<Rightarrow> bool \<Rightarrow> policy_input \<Rightarrow> (view_error, unit) result" where
  "validate_policy u S partial i =
     (if \<not> partial \<and> pi_domain i = None \<or> \<not> given (pi_domain i) (policy_domain_ok u S) then Inl (InvalidField ''domain'')
      else if \<not> partial \<and> pi_subname i = None \<or> \<not> given (pi_subname i) (null_or policy_subname_ok)
      then Inl (InvalidField ''subname'')
      else if \<not> partial \<and> pi_type i = None \<or> \<not> given (pi_type i) (null_or policy_type_ok)
      then Inl (InvalidField ''type'')
      else Inr ())"

definition apply_policy_fields :: "policy_input \<Rightarrow> policy \<Rightarrow> policy" where
  "apply_policy_fields i p =
     p\<lparr>p_domain := pick (pi_domain i) (p_domain p),
       p_subname := pick (map_option (map_option strip) (pi_subname i)) (p_subname p),
       p_rtype := pick (map_option (map_option strip) (pi_type i)) (p_rtype p),
       perm_write := pick (pi_write i) (perm_write p)\<rparr>"

text \<open>The permissions that do not look at an object\<close>

definition policy_write_allowed :: "request \<Rightarrow> bool" where
  "policy_write_allowed r \<longleftrightarrow>
     is_authenticated r \<and> (is_api_token r \<or> mfa_required_if_enabled r) \<and> has_manage_tokens_permission r"

text \<open>\<open>request.user.token_set.get\<close>: only the effective user has the token.\<close>

definition token_of_user :: "nat \<Rightarrow> nat \<Rightarrow> store \<Rightarrow> token option" where
  "token_of_user u k S =
     (case utokens S k of None \<Rightarrow> None | Some t \<Rightarrow> if token_user t = u then Some t else None)"

definition save_policy :: "token_op \<Rightarrow> token \<Rightarrow> answer_status \<Rightarrow> (store, view_error, answer_status) io" where
  "save_policy op t answer S =
     (case token_step op t of
        Inl e \<Rightarrow> (Inl (ModelError e), S)
      | Inr t' \<Rightarrow> (Inr answer, put_token t' S))"

definition policy_create_view ::
  "view_env \<Rightarrow> request \<Rightarrow> nat \<Rightarrow> policy_input \<Rightarrow> (store, view_error, answer_status) io" where
  "policy_create_view E r k i S =
     (case r_user r of
        None \<Rightarrow> (Inl PermissionDenied, S)
      | Some u \<Rightarrow>
          if \<not> policy_write_allowed r then (Inl PermissionDenied, S)
          else
            (case validate_policy (u_id u) S False i of
               Inl e \<Rightarrow> (Inl e, S)
             | Inr _ \<Rightarrow>
                 (case token_of_user (u_id u) k S of
                    None \<Rightarrow> (Inl NotFound, S)
                  | Some t \<Rightarrow>
                      save_policy (CreatePolicy (apply_policy_fields i (default_policy (new_policy_id E)))) t Created S)))"

text \<open>\<open>get_object\<close> of the policies of the token in the URL\<close>

definition visible_policy :: "request \<Rightarrow> nat \<Rightarrow> nat \<Rightarrow> store \<Rightarrow> (token \<times> policy) option" where
  "visible_policy r k j S =
     (case visible_token r k S of
        None \<Rightarrow> None
      | Some t \<Rightarrow> (case find (\<lambda>p. p_id p = j) (policies t) of None \<Rightarrow> None | Some p \<Rightarrow> Some (t, p)))"

definition policy_update_view ::
  "request \<Rightarrow> bool \<Rightarrow> nat \<Rightarrow> nat \<Rightarrow> policy_input \<Rightarrow> (store, view_error, answer_status) io" where
  "policy_update_view r partial k j i S =
     (case r_user r of
        None \<Rightarrow> (Inl PermissionDenied, S)
      | Some u \<Rightarrow>
          if \<not> policy_write_allowed r then (Inl PermissionDenied, S)
          else
            (case visible_policy r k j S of
               None \<Rightarrow> (Inl NotFound, S)
             | Some (t, p) \<Rightarrow>
                 if \<not> policy_view_allowed r (UnsafeMethod False) t then (Inl PermissionDenied, S)
                 else
                   (case validate_policy (u_id u) S partial i of
                      Inl e \<Rightarrow> (Inl e, S)
                    | Inr _ \<Rightarrow> save_policy (UpdatePolicy (apply_policy_fields i p)) t Done S)))"

definition policy_destroy_view :: "request \<Rightarrow> nat \<Rightarrow> nat \<Rightarrow> (store, view_error, answer_status) io" where
  "policy_destroy_view r k j S =
     (if \<not> policy_write_allowed r then (Inl PermissionDenied, S)
      else case visible_policy r k j S of
        None \<Rightarrow> (Inr Deleted, S)
      | Some (t, p) \<Rightarrow>
          if \<not> policy_view_allowed r (UnsafeMethod True) t then (Inl PermissionDenied, S)
          else save_policy (DeletePolicy p) t Deleted S)"

section \<open>The endpoints\<close>

datatype token_request =
  TokenPost token_input
| TokenWrite bool nat token_input
| TokenDelete nat
| PolicyPost nat policy_input
| PolicyWrite bool nat nat policy_input
| PolicyRemove nat nat

fun handle_token_request ::
  "view_env \<Rightarrow> request \<Rightarrow> token_request \<Rightarrow> (store, view_error, answer_status) io" where
  "handle_token_request E r (TokenPost i) = token_create E r i"
| "handle_token_request E r (TokenWrite partial k i) = token_update E r partial k i"
| "handle_token_request E r (TokenDelete k) = token_destroy r k"
| "handle_token_request E r (PolicyPost k i) = policy_create_view E r k i"
| "handle_token_request E r (PolicyWrite partial k j i) = policy_update_view r partial k j i"
| "handle_token_request E r (PolicyRemove k j) = policy_destroy_view r k j"

end
