(* ===== verification/TokenViewsCorrect.thy ===== *)
theory TokenViewsCorrect
  imports TokenViews TokensCorrect AuthActionsCorrect
begin

text \<open>
  The endpoints for tokens: every request, sign-in, sign-out and authenticated action keeps the tables
  of tokens and policies well formed; tokens change only at the hands of the users they belong to;
  and what comes of a token that is made for the account of somebody else.
\<close>

declare split_paired_All [simp del] split_paired_Ex [simp del]

section \<open>Well-formed tables\<close>

definition policy_typed :: "store \<Rightarrow> nat \<Rightarrow> policy \<Rightarrow> bool" where
  "policy_typed S u p \<longleftrightarrow>
     policy_domain_ok u S (p_domain p) \<and> given (p_subname p) policy_subname_ok \<and> given (p_rtype p) policy_type_ok"

definition token_typed :: "store \<Rightarrow> token \<Rightarrow> bool" where
  "token_typed S t \<longleftrightarrow>
     token_wf t \<and> duration_ok (t_max_age t) \<and> duration_ok (t_max_unused t) \<and>
     (t_user_override t \<noteq> None \<longrightarrow> t_mfa t = None \<and> t_user_override t \<noteq> Some (t_owner t)) \<and>
     users S (t_owner t) \<noteq> None \<and> users S (token_user t) \<noteq> None \<and>
     (\<forall>p \<in> set (policies t). policy_typed S (token_user t) p)"

definition tokens_typed :: "store \<Rightarrow> bool" where
  "tokens_typed S \<longleftrightarrow>
     wf_store S \<and> (\<forall>i. name_ok (token_names S i)) \<and> (\<forall>i t. utokens S i = Some t \<longrightarrow> token_typed S t)"

lemma tokens_typedD:
  assumes "tokens_typed S"
  shows "utokens S i = Some t \<Longrightarrow> token_typed S t" and "utokens S i = Some t \<Longrightarrow> t_id t = i"
    and "users S u = Some x \<Longrightarrow> ac_id x = u" and "name_ok (token_names S i)"
  using assms by (auto simp: tokens_typed_def wf_store_def)

text \<open>What the tables say of a token depends on the accounts and the owners of domains only.\<close>

definition owners :: "store \<Rightarrow> (string \<times> nat) set" where
  "owners S = (\<lambda>x. (m_name x, m_owner x)) ` set (udomains S)"

lemma policy_domain_ok_owners:
  "policy_domain_ok u S d \<longleftrightarrow> (case d of None \<Rightarrow> True | Some n \<Rightarrow> (n, u) \<in> owners S)"
  by (force simp: policy_domain_ok_def owners_def split: option.splits)

lemma policy_typed_owners: "owners S = owners S' \<Longrightarrow> policy_typed S u p = policy_typed S' u p"
  by (simp add: policy_typed_def policy_domain_ok_owners split: option.split)

lemma token_typed_mono:
  assumes "token_typed S t" and "owners S = owners S'"
    and "\<And>u. u \<in> {t_owner t, token_user t} \<Longrightarrow> users S u \<noteq> None \<Longrightarrow> users S' u \<noteq> None"
  shows "token_typed S' t"
  using assms(1,3) policy_typed_owners [OF assms(2)] unfolding token_typed_def by blast

lemma tokens_typed_put:
  assumes S: "tokens_typed S" and t: "token_typed S t"
  shows "tokens_typed (put_token t S)"
proof -
  have same: "owners (put_token t S) = owners S" "users (put_token t S) = users S"
    by (simp_all add: put_token_def owners_def)
  show ?thesis
    using S t same token_typed_mono [of S _ "put_token t S"]
    by (auto simp: tokens_typed_def wf_store_def put_token_def split: if_splits)
qed

lemma tokens_typed_name:
  assumes "tokens_typed S" and "given name (\<lambda>s. name_ok (strip s))"
  shows "tokens_typed (name_token i name S)"
proof (cases name)
  case (Some s)
  have "token_typed S t \<Longrightarrow> token_typed (name_token i name S) t" for t
    by (erule token_typed_mono) (auto simp: owners_def name_token_def split: option.splits)
  with assms Some show ?thesis by (auto simp: tokens_typed_def wf_store_def name_token_def given_def)
qed (use assms in \<open>simp add: name_token_def\<close>)

lemma tokens_typed_remove:
  assumes S: "tokens_typed S" and f: "\<And>i t. f i = Some t \<Longrightarrow> utokens S i = Some t"
  shows "tokens_typed (S\<lparr>utokens := f\<rparr>)"
proof -
  have "token_typed (S\<lparr>utokens := f\<rparr>) t" if "f i = Some t" for i t
    by (rule token_typed_mono [OF tokens_typedD(1) [OF S f [OF that]]]) (auto simp: owners_def)
  with S f show ?thesis by (auto simp: tokens_typed_def wf_store_def)
qed

lemma tokens_typed_put_user:
  assumes S: "tokens_typed S"
  shows "tokens_typed (put_user a S)"
proof -
  have "token_typed S t \<Longrightarrow> token_typed (put_user a S) t" for t
    by (erule token_typed_mono) (auto simp: owners_def put_user_def)
  with S show ?thesis by (auto simp: tokens_typed_def wf_store_def put_user_def)
qed

lemma tokens_typed_cong:
  assumes S: "tokens_typed S" and same: "utokens S' = utokens S" "token_names S' = token_names S"
    "owners S = owners S'" "users S' = users S"
  shows "tokens_typed S'"
proof -
  have "token_typed S t \<Longrightarrow> token_typed S' t" for t
    by (erule token_typed_mono) (simp_all add: same)
  with S same show ?thesis by (auto simp: tokens_typed_def wf_store_def)
qed

lemma tokens_typed_outbox: "tokens_typed S \<Longrightarrow> send_email a r c S = Inr S' \<Longrightarrow> tokens_typed S'"
  by (erule tokens_typed_cong) (auto simp: send_email_def Let_def owners_def split: if_splits)

section \<open>Operations on one token\<close>

text \<open>Saving a token gives it the fields that were set and its old policies, or a first default policy.\<close>

lemma save_token_shape:
  assumes "token_step (SaveToken u new) t = Inr t'"
  obtains ps where "t' = u\<lparr>policies := ps\<rparr>" and "set ps \<subseteq> insert (default_policy new) (set (policies t))"
    and "override_ok t t'"
proof -
  from assms have "t' = u\<lparr>policies := policies t\<rparr> \<or> t' = u\<lparr>policies := policies t @ [default_policy new]\<rparr>"
    and o: "override_ok t t'"
    by (auto simp: token_save_def policy_create_def result_simps Let_def split: if_splits)
  then show ?thesis using that by auto
qed

lemma policy_step_shape:
  assumes step: "token_step op t = Inr t'" and op: "op \<in> {CreatePolicy p, UpdatePolicy p, DeletePolicy p}"
  shows "\<exists>ps. t' = t\<lparr>policies := ps\<rparr> \<and> set ps \<subseteq> insert p (set (policies t))"
proof -
  from op consider "op = CreatePolicy p" | "op = UpdatePolicy p" | "op = DeletePolicy p" by blast
  then show ?thesis
  proof cases
    case 1
    with step have "t' = t\<lparr>policies := policies t @ [p]\<rparr>"
      by (auto simp: policy_create_def result_simps split: if_splits)
    then show ?thesis by (intro exI conjI) auto
  next
    case 2
    with step have "t' = t\<lparr>policies := map (\<lambda>q. if p_id q = p_id p then p else q) (policies t)\<rparr>"
      by (auto simp: policy_update_def result_simps split: if_splits)
    then show ?thesis by (intro exI conjI) auto
  next
    case 3
    with step have "t' = t\<lparr>policies := filter (\<lambda>q. p_id q \<noteq> p_id p) (policies t)\<rparr>"
      by (auto simp: policy_delete_def result_simps split: if_splits)
    then show ?thesis by (intro exI conjI) auto
  qed
qed

lemma policies_update [simp]:
  "token_user (t\<lparr>policies := ps\<rparr>) = token_user t" "token_user (apply_token_fields i t) = token_user t"
  "t_owner (apply_token_fields i t) = t_owner t" "t_user_override (apply_token_fields i t) = t_user_override t"
  "t_mfa (apply_token_fields i t) = t_mfa t" "t_id (apply_token_fields i t) = t_id t"
  "policies (apply_token_fields i t) = policies t"
  by (simp_all add: token_user_def apply_token_fields_def split: option.split)

lemma default_policy_typed [simp]: "policy_typed S u (default_policy new)"
  by (simp add: policy_typed_def default_policy_def policy_domain_ok_def given_def)

lemma save_policy_typed:
  assumes S: "tokens_typed S" and t: "utokens S k = Some t" and p: "policy_typed S (token_user t) p"
    and op: "op \<in> {CreatePolicy p, UpdatePolicy p, DeletePolicy p}"
    and run: "save_policy op t a S = (r, S')"
  shows "tokens_typed S'"
proof (cases "token_step op t")
  case (Inr t')
  from policy_step_shape [OF Inr op] obtain ps
    where ps: "t' = t\<lparr>policies := ps\<rparr>" "set ps \<subseteq> insert p (set (policies t))" by blast
  note T = tokens_typedD(1) [OF S t]
  have "token_wf t'" using token_step_wf [OF _ Inr] T by (simp add: token_typed_def)
  with T ps p have "token_typed S t'" by (auto simp: token_typed_def)
  with tokens_typed_put [OF S] run Inr show ?thesis by (auto simp: save_policy_def)
qed (use S run in \<open>simp add: save_policy_def\<close>)

lemma save_token_typed:
  assumes S: "tokens_typed S" and t: "token_typed S t"
    and i: "duration_ok (pick (in_max_age i) (t_max_age t))" "duration_ok (pick (in_max_unused i) (t_max_unused t))"
    and step: "token_step (SaveToken (apply_token_fields i t) new) t = Inr t'"
  shows "token_typed S t'"
proof -
  from step obtain ps where ps: "t' = apply_token_fields i t\<lparr>policies := ps\<rparr>"
    "set ps \<subseteq> insert (default_policy new) (set (policies t))" and o: "override_ok t t'"
    by (rule save_token_shape)
  have "token_wf t'" using token_step_wf [OF _ step] t by (simp add: token_typed_def)
  moreover have "\<forall>p \<in> set ps. policy_typed S (token_user t) p" using ps(2) t by (auto simp: token_typed_def)
  ultimately show ?thesis using t i ps o
    by (auto simp: token_typed_def apply_token_fields_def override_ok_def token_user_def)
qed


section \<open>Requests keep the tables well formed\<close>

lemma duration_ok_None [simp]: "duration_ok None"
  by (simp add: duration_ok_def)

lemma pick_ok: "given x P \<Longrightarrow> P old \<Longrightarrow> P (pick x old)"
  by (simp add: given_def pick_def split: option.splits)

lemma validate_token_fields_Inr:
  "validate_token_fields i = Inr u \<longleftrightarrow>
     given (in_name i) (\<lambda>s. name_ok (strip s)) \<and> given (in_max_age i) duration_ok \<and> given (in_max_unused i) duration_ok"
  by (simp add: validate_token_fields_def)

lemma apply_policy_typed:
  assumes "validate_policy u S partial i = Inr v" and "partial \<Longrightarrow> policy_typed S u p"
  shows "policy_typed S u (apply_policy_fields i p)"
  using assms
  by (auto simp: validate_policy_def policy_typed_def apply_policy_fields_def pick_def given_def null_or_def
      split: if_splits option.splits)

lemma blank_typed:
  assumes "users S u \<noteq> None"
  shows "token_typed S (dyndns_token new u now)"
  using assms
  by (simp add: token_typed_def dyndns_token_def token_wf_def unique_scopes_def commit_ok_def duration_ok_def token_user_def)

lemma register_override_typed:
  assumes "tokens_typed S" and "register_override E email S = Inr S'"
  shows "tokens_typed S'"
  using assms tokens_typed_put_user
  by (auto simp: register_override_def create_user_def Let_def split: if_splits sum.splits)

lemma build_and_save_sends:
  assumes "build_and_save L now a S = Inr (code, S')"
  obtains x where "users S (action_user a) = Some x" and "send_email x (reason a) (recipient_of a) S = Inr S'"
proof -
  from assms obtain c where "action_code L now S a = Inr c"
    by (cases "action_code L now S a") (simp_all add: build_and_save_def)
  with assms have "rbind (get_user (action_user a) S) (\<lambda>u. send_email u (reason a) (recipient_of a) S) = Inr S'"
    by (simp add: build_and_save_def split: sum.splits)
  with that show ?thesis by (auto simp: rbind_Inr_iff)
qed

lemma invite_override_typed:
  assumes S: "tokens_typed S" and run: "invite_override E i email S = (r, S')"
  shows "tokens_typed S'"
proof (cases "register_override E email S")
  case (Inr S1)
  note S1 = register_override_typed [OF S Inr]
  let ?b = "build_and_save (ve_lib E) (ve_now E) (ActivateUserWithOverrideToken (new_user_id E) True i) S1"
  show ?thesis
  proof (cases ?b)
    case b: (Inr cS)
    obtain c S2 where "cS = (c, S2)" by (cases cS)
    with b Inr run have "?b = Inr (c, S')" by (simp add: invite_override_def)
    then obtain x where "send_email x (reason (ActivateUserWithOverrideToken (new_user_id E) True i))
      (recipient_of (ActivateUserWithOverrideToken (new_user_id E) True i)) S1 = Inr S'"
      by (rule build_and_save_sends)
    with S1 show ?thesis by (rule tokens_typed_outbox)
  qed (use S1 Inr run in \<open>simp add: invite_override_def\<close>)
qed (use S run in \<open>simp add: invite_override_def\<close>)

text \<open>A creation that changes anything has saved the token.\<close>

lemma token_create_saves:
  assumes run: "token_create E r i S = (a, S')" and new: "S' \<noteq> S \<or> a = Inr b \<or> a = Inl (InvalidField ''email'')"
  obtains u override t where "r_user r = Some u" and "token_view_allowed r (UnsafeMethod False) None"
    and "validate_token_fields i = Inr ()" and "validated_override S False None i = Inr override"
    and "token_step (SaveToken (apply_token_fields i (dyndns_token (new_token_id E) (u_id u) (ve_now E))) (new_policy_id E))
           (dyndns_token (new_token_id E) (u_id u) (ve_now E)) = Inr t"
    and "answer_override E (t_id t) override (name_token (t_id t) (Some (pick (in_name i) [])) (put_token t S)) = (a, S')"
proof -
  obtain u where ru: "r_user r = Some u"
    using run new by (cases "r_user r") (auto simp: token_create_def)
  have allowed: "token_view_allowed r (UnsafeMethod False) None"
    by (rule ccontr) (use run new ru in \<open>auto simp: token_create_def\<close>)
  obtain override where val: "rbind (validate_token_fields i) (\<lambda>_. validated_override S False None i) = Inr override"
    using run new ru allowed
    by (cases "rbind (validate_token_fields i) (\<lambda>_. validated_override S False None i)")
      (auto simp: token_create_def rbind_Inl_iff validate_token_fields_def validated_override_def check_override_def
        validate_user_override_def split: if_splits option.splits override.splits)
  let ?blank = "dyndns_token (new_token_id E) (u_id u) (ve_now E)"
  obtain t where step: "token_step (SaveToken (apply_token_fields i ?blank) (new_policy_id E)) ?blank = Inr t"
    using run new ru allowed val
    by (cases "token_step (SaveToken (apply_token_fields i ?blank) (new_policy_id E)) ?blank")
      (auto simp: token_create_def Let_def simp del: token_step.simps)
  have v: "validate_token_fields i = Inr ()" "validated_override S False None i = Inr override"
    using val by (auto simp: rbind_Inr_iff)
  from run show ?thesis
    by (intro that [OF ru allowed v step]) (simp add: token_create_def Let_def ru allowed val step del: token_step.simps)
qed

lemma token_create_typed:
  assumes S: "tokens_typed S" and u: "\<And>u. r_user r = Some u \<Longrightarrow> users S (u_id u) \<noteq> None"
    and run: "token_create E r i S = (a, S')"
  shows "tokens_typed S'"
proof (cases "S' = S")
  case False
  then have "S' \<noteq> S \<or> a = Inr Created \<or> a = Inl (InvalidField ''email'')" ..
  with run obtain u override t where
    ru: "r_user r = Some u" and "token_view_allowed r (UnsafeMethod False) None"
    and val: "validate_token_fields i = Inr ()" and "validated_override S False None i = Inr override"
    and step: "token_step (SaveToken (apply_token_fields i (dyndns_token (new_token_id E) (u_id u) (ve_now E))) (new_policy_id E))
           (dyndns_token (new_token_id E) (u_id u) (ve_now E)) = Inr t"
    and rest: "answer_override E (t_id t) override (name_token (t_id t) (Some (pick (in_name i) [])) (put_token t S)) = (a, S')"
    by (rule token_create_saves)
  note b = blank_typed [OF u [OF ru]]
  have "token_typed S t"
    by (rule save_token_typed [OF S b _ _ step])
      (use val in \<open>auto simp: validate_token_fields_Inr dyndns_token_def intro!: pick_ok [where P = duration_ok]\<close>)
  moreover have "given (Some (pick (in_name i) [])) (\<lambda>s. name_ok (strip s))"
    using val by (auto simp: validate_token_fields_Inr given_def pick_def name_ok_def strip_def split: option.splits)
  ultimately have "tokens_typed (name_token (t_id t) (Some (pick (in_name i) [])) (put_token t S))"
    by (intro tokens_typed_name tokens_typed_put S)
  with rest invite_override_typed show ?thesis by (auto simp: answer_override_def split: option.splits override.splits)
qed (use S in simp)

lemma visible_tokenD: "visible_token r k S = Some t \<Longrightarrow> utokens S k = Some t"
  by (auto simp: visible_token_def split: option.splits if_splits)

text \<open>A request that changes anything has passed its checks and saved its object.\<close>

lemma token_update_saves:
  assumes "token_update E r partial k i S = (a, S')" and "S' \<noteq> S"
  obtains t t' where "utokens S k = Some t" and "token_view_allowed r (UnsafeMethod False) (Some t)"
    and "validate_token_fields i = Inr ()"
    and "token_step (SaveToken (apply_token_fields i t) (new_policy_id E)) t = Inr t'"
    and "S' = name_token (t_id t') (in_name i) (put_token t' S)"
  using assms
  by (auto simp: token_update_def rbind_Inr_iff rbind_Inl_iff dest: visible_tokenD simp del: token_step.simps
      split: option.splits if_splits sum.splits)

lemma token_update_typed:
  assumes S: "tokens_typed S" and run: "token_update E r partial k i S = (a, S')"
  shows "tokens_typed S'"
proof (cases "S' = S")
  case False
  with run obtain t t' where t: "utokens S k = Some t" and "token_view_allowed r (UnsafeMethod False) (Some t)"
    and val: "validate_token_fields i = Inr ()"
    and step: "token_step (SaveToken (apply_token_fields i t) (new_policy_id E)) t = Inr t'"
    and S': "S' = name_token (t_id t') (in_name i) (put_token t' S)"
    by (rule token_update_saves)
  note T = tokens_typedD(1) [OF S t]
  have "token_typed S t'"
    by (rule save_token_typed [OF S T _ _ step])
      (use val T in \<open>auto simp: validate_token_fields_Inr token_typed_def intro!: pick_ok [where P = duration_ok]\<close>)
  with val S' show ?thesis by (auto simp: validate_token_fields_Inr intro: tokens_typed_name tokens_typed_put S)
qed (use S in simp)

lemma policy_view_user:
  "policy_view_allowed r (UnsafeMethod d) t \<Longrightarrow> r_user r = Some u \<Longrightarrow> token_user t = u_id u"
  by (simp add: policy_view_allowed_def is_token_user_def is_user_def)

lemma token_of_userD: "token_of_user u k S = Some t \<Longrightarrow> utokens S k = Some t \<and> token_user t = u"
  by (auto simp: token_of_user_def split: option.splits if_splits)

lemma visible_policyD:
  "visible_policy r k j S = Some (t, p) \<Longrightarrow> visible_token r k S = Some t \<and> p \<in> set (policies t) \<and> p_id p = j"
  by (auto simp: visible_policy_def find_Some_iff split: option.splits)

text \<open>The same for policies: the token is the requesting user's, and the policy that is saved is well formed.\<close>

lemma policy_create_saves:
  assumes "policy_create_view E r k i S = (a, S')" and "S' \<noteq> S"
  obtains u t p where "r_user r = Some u" and "policy_write_allowed r" and "utokens S k = Some t"
    and "token_user t = u_id u" and "policy_typed S (token_user t) p" and "save_policy (CreatePolicy p) t Created S = (a, S')"
proof -
  from assms obtain u v t where u: "r_user r = Some u" "policy_write_allowed r"
    and val: "validate_policy (u_id u) S False i = Inr v" and t: "token_of_user (u_id u) k S = Some t"
    and save: "save_policy (CreatePolicy (apply_policy_fields i (default_policy (new_policy_id E)))) t Created S = (a, S')"
    by (auto simp: policy_create_view_def split: option.splits if_splits sum.splits)
  from token_of_userD [OF t] apply_policy_typed [OF val] show ?thesis
    by (intro that [OF u _ _ _ save]) auto
qed

lemma policy_update_saves:
  assumes "policy_update_view r partial k j i S = (a, S')" and "S' \<noteq> S" and typed: "tokens_typed S \<or> \<not> partial"
  obtains u t p where "r_user r = Some u" and "policy_write_allowed r" and "utokens S k = Some t"
    and "token_user t = u_id u" and "policy_typed S (token_user t) p" and "save_policy (UpdatePolicy p) t Done S = (a, S')"
proof -
  from assms(1,2) obtain u v t p where u: "r_user r = Some u" "policy_write_allowed r"
    and vis: "visible_policy r k j S = Some (t, p)" and allowed: "policy_view_allowed r (UnsafeMethod False) t"
    and val: "validate_policy (u_id u) S partial i = Inr v"
    and save: "save_policy (UpdatePolicy (apply_policy_fields i p)) t Done S = (a, S')"
    by (auto simp: policy_update_view_def split: option.splits if_splits sum.splits prod.splits)
  from visible_policyD [OF vis] have k: "utokens S k = Some t" and p: "p \<in> set (policies t)"
    by (auto dest: visible_tokenD)
  note tu = policy_view_user [OF allowed u(1)]
  have "policy_typed S (token_user t) p" if "partial"
    using tokens_typedD(1) [OF _ k] typed that p by (auto simp: token_typed_def)
  with apply_policy_typed [OF val, of p] tu show ?thesis by (intro that [OF u k _ _ save]) auto
qed

lemma policy_destroy_saves:
  assumes "policy_destroy_view r k j S = (a, S')" and "S' \<noteq> S" and r: "r_user r \<noteq> None"
  obtains u t p where "r_user r = Some u" and "policy_write_allowed r" and "utokens S k = Some t"
    and "token_user t = u_id u" and "p \<in> set (policies t)" and "save_policy (DeletePolicy p) t Deleted S = (a, S')"
proof -
  from assms obtain t p u where w: "policy_write_allowed r" and vis: "visible_policy r k j S = Some (t, p)"
    and u: "r_user r = Some u" and allowed: "policy_view_allowed r (UnsafeMethod True) t"
    and save: "save_policy (DeletePolicy p) t Deleted S = (a, S')"
    by (auto simp: policy_destroy_view_def split: option.splits if_splits prod.splits)
  from visible_policyD [OF vis] policy_view_user [OF allowed u] show ?thesis
    by (intro that [OF u w _ _ _ save]) (auto dest: visible_tokenD)
qed

lemma policy_writes_typed:
  assumes S: "tokens_typed S"
  shows "policy_create_view E r k i S = (a, S') \<Longrightarrow> tokens_typed S'"
    and "policy_update_view r partial k j i S = (a, S') \<Longrightarrow> tokens_typed S'"
    and "policy_destroy_view r k j S = (a, S') \<Longrightarrow> tokens_typed S'"
proof -
  assume run: "policy_create_view E r k i S = (a, S')"
  show "tokens_typed S'"
  proof (cases "S' = S")
    case False
    from policy_create_saves [OF run False] save_policy_typed [OF S] show ?thesis by (metis insertI1)
  qed (use S in simp)
next
  assume run: "policy_update_view r partial k j i S = (a, S')"
  show "tokens_typed S'"
  proof (cases "S' = S")
    case False
    from policy_update_saves [OF run False] S save_policy_typed [OF S] show ?thesis by (metis insertI1 insertI2)
  qed (use S in simp)
next
  assume run: "policy_destroy_view r k j S = (a, S')"
  show "tokens_typed S'"
  proof (cases "S' = S")
    case False
    then have "r_user r \<noteq> None" using run
      by (auto simp: policy_destroy_view_def policy_write_allowed_def is_authenticated_def split: if_splits)
    from policy_destroy_saves [OF run False this] obtain u t p where t: "utokens S k = Some t"
      and p: "p \<in> set (policies t)" and save: "save_policy (DeletePolicy p) t Deleted S = (a, S')" by metis
    have "policy_typed S (token_user t) p" using tokens_typedD(1) [OF S t] p by (simp add: token_typed_def)
    then show ?thesis by (rule save_policy_typed [OF S t _ _ save]) simp
  qed (use S in simp)
qed

lemma token_destroy_typed: "tokens_typed S \<Longrightarrow> token_destroy r k S = (a, S') \<Longrightarrow> tokens_typed S'"
  by (auto simp: token_destroy_def split: option.splits if_splits intro!: tokens_typed_remove)

lemma requests_typed:
  assumes S: "tokens_typed S" and u: "\<And>u. r_user r = Some u \<Longrightarrow> users S (u_id u) \<noteq> None"
    and run: "handle_token_request E r q S = (a, S')"
  shows "tokens_typed S'"
proof (cases q)
  case (TokenPost i)
  with run show ?thesis by (intro token_create_typed [OF S u, of r E i a]) simp_all
qed (use run in \<open>simp_all add: token_update_typed [OF S] token_destroy_typed [OF S] policy_writes_typed [OF S]\<close>)

section \<open>Sessions and authenticated actions\<close>

lemma login_typed:
  assumes S: "tokens_typed S" and u: "users S u \<noteq> None"
  shows "tokens_typed (login new u now S)"
proof -
  let ?f = "\<lambda>i. case utokens S i of None \<Rightarrow> None
     | Some t \<Rightarrow> if t_owner t = u \<and> t_user_override t = None \<and> t_mfa t \<noteq> None \<and> \<not> is_valid now t then None else Some t"
  have "login new u now S = put_token (login_token new u now) (S\<lparr>utokens := ?f\<rparr>)"
    by (simp add: login_def put_token_def login_token_def)
  moreover have "tokens_typed (S\<lparr>utokens := ?f\<rparr>)"
    by (rule tokens_typed_remove [OF S]) (auto split: option.splits if_splits)
  moreover have "token_typed (S\<lparr>utokens := ?f\<rparr>) (login_token new u now)"
    using u by (simp add: token_typed_def login_token_def token_wf_def unique_scopes_def commit_ok_def
        duration_ok_def token_user_def)
  ultimately show ?thesis using tokens_typed_put by simp
qed

lemma atomic_keeps: "(\<And>S'. f S = Inr S' \<Longrightarrow> P S') \<Longrightarrow> P S \<Longrightarrow> atomic f S = (r, S') \<Longrightarrow> P S'"
  by (auto simp: atomic_def split: sum.splits)

lemma user_changes_typed:
  assumes S: "tokens_typed S"
  shows "set_outreach u b S = Inr S' \<Longrightarrow> tokens_typed S'" and "activate u S = Inr S' \<Longrightarrow> tokens_typed S'"
    and "touch_credentials now u S = Inr S' \<Longrightarrow> tokens_typed S'"
    and "change_email now u e S = Inr S' \<Longrightarrow> tokens_typed S'"
    and "change_password mp now u pw S = Inr S' \<Longrightarrow> tokens_typed S'"
  using tokens_typed_put_user [OF S] tokens_typed_outbox [OF tokens_typed_put_user [OF S]]
  by (auto simp: set_outreach_def activate_def touch_credentials_def change_email_def change_password_def
      rbind_Inr_iff Let_def split: if_splits)

lemma factor_save_typed:
  assumes S: "tokens_typed S" and run: "factor_save now f S = Inr S'"
  shows "tokens_typed S'"
proof -
  from run obtain S1 where S1: "(if mfa_enabled S (f_user f) then Inr S else touch_credentials now (f_user f) S) = Inr S1"
    and S': "S' = put_factor f S1" by (auto simp: factor_save_def rbind_Inr_iff split: if_splits)
  from S1 S user_changes_typed(3) [OF S] have "tokens_typed S1" by (auto split: if_splits)
  then show ?thesis unfolding S' by (rule tokens_typed_cong) (simp_all add: put_factor_def owners_def)
qed

lemma delete_user_typed:
  assumes S: "tokens_typed S" and run: "delete_user u S = Inr S'"
  shows "tokens_typed S'"
proof -
  have S': "owners S = owners S'" "users S' = (users S)(u := None)" "token_names S' = token_names S"
    and tok: "\<And>i t. utokens S' i = Some t \<Longrightarrow> utokens S i = Some t \<and> t_owner t \<noteq> u \<and> t_user_override t \<noteq> Some u"
    using run by (auto simp: delete_user_def owners_def split: if_splits option.splits)
  have "token_typed S' t" if "utokens S' i = Some t" for i t
  proof (rule token_typed_mono [OF tokens_typedD(1) [OF S conjunct1 [OF tok [OF that]]] S'(1)])
    fix v assume "v \<in> {t_owner t, token_user t}" "users S v \<noteq> None"
    with tok [OF that] show "users S' v \<noteq> None" by (auto simp: S'(2) token_user_def split: option.splits)
  qed
  with S S' tok show ?thesis by (auto simp: tokens_typed_def wf_store_def)
qed

lemma save_override_typed:
  assumes S: "tokens_typed S" and u: "users S u \<noteq> None" and run: "save_override i u S = Inr S'"
  shows "tokens_typed S'"
proof -
  from run obtain t t' where t: "utokens S i = Some t"
    and step: "token_step (SaveToken (t\<lparr>t_user_override := Some u\<rparr>) 0) t = Inr t'"
    and S': "S' = S\<lparr>utokens := (utokens S)(i \<mapsto> t')\<rparr>"
    by (auto simp: save_override_def simp del: token_step.simps split: option.splits sum.splits)
  note T = tokens_typedD(1) [OF S t]
  from step obtain ps where ps: "t' = t\<lparr>t_user_override := Some u, policies := ps\<rparr>"
    "set ps \<subseteq> insert (default_policy 0) (set (policies t))" and o: "override_ok t t'"
    by (rule save_token_shape) simp
  have wf: "token_wf t'" using token_step_wf [OF _ step] T by (simp add: token_typed_def)
  have "policy_typed S u p" if "p \<in> set ps" for p
  proof (cases "token_user t = u")
    case True
    with that ps(2) T show ?thesis by (auto simp: token_typed_def)
  next
    case False
    with o that ps(1) have "p_domain p = None" by (auto simp: override_ok_def token_user_def)
    moreover have "given (p_subname p) policy_subname_ok \<and> given (p_rtype p) policy_type_ok"
      using that ps(2) T default_policy_typed [of S u 0] by (auto simp: token_typed_def policy_typed_def)
    ultimately show ?thesis by (simp add: policy_typed_def policy_domain_ok_def)
  qed
  with T ps o u wf have "token_typed S t'" by (auto simp: token_typed_def override_ok_def token_user_def)
  moreover have "S' = put_token t' S" using S' tokens_typedD(2) [OF S t] ps by (simp add: put_token_def)
  ultimately show ?thesis using tokens_typed_put [OF S] by simp
qed

lemma renew_typed:
  assumes "tokens_typed S" and "\<And>x. m_name (f x) = m_name x \<and> m_owner (f x) = m_owner x"
  shows "tokens_typed (S\<lparr>udomains := map f (udomains S)\<rparr>)"
  using assms(1) by (rule tokens_typed_cong) (use assms(2) in \<open>auto simp: owners_def image_image\<close>)

lemma act_typed:
  assumes S: "tokens_typed S" and run: "act_unchecked L now new a S = (r, S')"
  shows "tokens_typed S'"
proof (cases a)
  case (ActivateUserWithOverrideToken u b i)
  let ?f = "\<lambda>S. rbind (set_outreach u b S) (activate u)"
  have f: "tokens_typed S1 \<and> users S1 u \<noteq> None" if "?f S = Inr S1" for S1
  proof -
    from that obtain S0 where "set_outreach u b S = Inr S0" and a0: "activate u S0 = Inr S1" by (auto simp: rbind_Inr_iff)
    with user_changes_typed(1) [OF S] have S0: "tokens_typed S0" by blast
    from a0 tokens_typedD(3) [OF S0] have "users S1 u \<noteq> None" by (auto simp: activate_def put_user_def rbind_Inr_iff)
    with user_changes_typed(2) [OF S0 a0] show ?thesis by simp
  qed
  show ?thesis
  proof (cases "?f S")
    case (Inl e)
    with run ActivateUserWithOverrideToken S show ?thesis by (simp add: io_bind_def atomic_def)
  next
    case (Inr S1)
    with run ActivateUserWithOverrideToken have "atomic (save_override i u) S1 = (r, S')" by (simp add: io_bind_def atomic_def)
    with f [OF Inr] save_override_typed show ?thesis by (blast intro: atomic_keeps [where P = tokens_typed])
  qed
qed (use run S user_changes_typed [OF S] factor_save_typed [OF S] delete_user_typed [OF S] in
  \<open>auto intro!: renew_typed elim!: atomic_keeps [where P = tokens_typed, rotated 2]\<close>)

section \<open>Well-formed tables, whatever happens\<close>

text \<open>What changes accounts, tokens and policies: requests to the endpoints for tokens by a user that exists,
  whatever their outcome, signing in and out, registration, and authenticated actions.\<close>

inductive table_step :: "store \<Rightarrow> store \<Rightarrow> bool" where
  request: "(\<And>u. r_user r = Some u \<Longrightarrow> users S (u_id u) \<noteq> None) \<Longrightarrow> handle_token_request E r q S = (a, S') \<Longrightarrow>
     table_step S S'"
| sign_in: "users S u \<noteq> None \<Longrightarrow> table_step S (login new u now S)"
| sign_out: "table_step S (logout t S)"
| registration: "register norm mp required errs x raw captcha has_domain S = Inr (S', ans) \<Longrightarrow> table_step S S'"
| action: "act L now new av S = (b, S') \<Longrightarrow> table_step S S'"

lemma table_step_typed:
  assumes "table_step S S'" and S: "tokens_typed S"
  shows "tokens_typed S'"
  using assms
proof cases
  case (request r E q a)
  then show ?thesis by (metis requests_typed [OF S])
next
  case (registration norm mp required errs x raw captcha has_domain ans)
  then show ?thesis using S tokens_typed_put_user [OF S] tokens_typed_outbox [OF tokens_typed_put_user [OF S]]
    by (auto simp: register_def create_user_def rbind_Inr_iff Let_def split: if_splits)
next
  case (action L now new av b)
  then show ?thesis using S act_typed [OF S] by (auto simp: act_def split: prod.splits if_splits)
qed (use login_typed [OF S] in
  \<open>auto simp: logout_def intro!: tokens_typed_remove [OF S] split: if_splits\<close>)

inductive table_reachable :: "store \<Rightarrow> bool" where
  empty: "table_reachable \<lparr>users = Map.empty, factors = [], captchas = [], udomains = ds, utokens = Map.empty,
     token_names = (\<lambda>i. []), outbox = []\<rparr>"
| step: "table_reachable S \<Longrightarrow> table_step S S' \<Longrightarrow> table_reachable S'"

lemma table_reachable_typed: "table_reachable S \<Longrightarrow> tokens_typed S"
proof (induction rule: table_reachable.induct)
  case (step S S')
  then show ?case using table_step_typed by blast
qed (simp add: tokens_typed_def wf_store_def name_ok_def)

text \<open>C7: From an empty database, whatever sequence of token and policy requests, sign-ins and sign-outs,
  registrations and authenticated actions is carried out, and whatever comes of each of them: every token belongs
  to accounts that exist, its limits lie between nothing and 1000 years and its name has at most 64
  characters; a token with a user override is no login token, does not manage tokens and has not its
  owner as the override; and every policy is for a domain that the effective user of the token owns, with a
  valid subname and type.\<close>

theorem tokens_stay_typed:
  assumes "table_reachable S" and t: "utokens S i = Some t"
  shows "users S (t_owner t) \<noteq> None \<and> users S (token_user t) \<noteq> None \<and>
    (\<forall>n. t_max_age t = Some n \<longrightarrow> 0 \<le> n \<and> n \<le> 365 * 1000 * 86400) \<and>
    (\<forall>n. t_max_unused t = Some n \<longrightarrow> 0 \<le> n \<and> n \<le> 365 * 1000 * 86400) \<and> length (token_names S i) \<le> 64 \<and>
    (t_user_override t \<noteq> None \<longrightarrow>
       t_mfa t = None \<and> \<not> perm_manage_tokens t \<and> t_user_override t \<noteq> Some (t_owner t)) \<and>
    (\<forall>p \<in> set (policies t).
       (\<forall>d. p_domain p = Some d \<longrightarrow> (\<exists>x \<in> set (udomains S). m_name x = d \<and> m_owner x = token_user t)) \<and>
       (\<forall>s. p_subname p = Some s \<longrightarrow> policy_subname_ok s) \<and> (\<forall>y. p_rtype p = Some y \<longrightarrow> policy_type_ok y))"
proof -
  note S = table_reachable_typed [OF assms(1)]
  from tokens_typedD(1) [OF S t] tokens_typedD(4) [OF S, of i] show ?thesis
    by (auto simp: token_typed_def token_wf_def duration_ok_def name_ok_def policy_typed_def policy_domain_ok_def
        given_def)
qed

section \<open>Who changes tokens\<close>

definition manager :: "request \<Rightarrow> user \<Rightarrow> bool" where
  "manager r u \<longleftrightarrow> r_user r = Some u \<and> perm_manage_tokens (r_auth r) \<and>
     (u_mfa_enabled u \<longrightarrow> t_mfa (r_auth r) \<noteq> Some False)"

lemma allowed_manager:
  "token_view_allowed r m obj \<Longrightarrow> \<exists>u. manager r u" "policy_write_allowed r \<Longrightarrow> \<exists>u. manager r u"
  by (auto simp: token_view_allowed_def policy_write_allowed_def is_authenticated_def is_api_token_def
      mfa_required_if_enabled_def has_manage_tokens_permission_def manager_def)

lemma managerD: "manager r u \<Longrightarrow> r_user r = Some u"
  by (simp add: manager_def)

lemma invite_override_tokens:
  assumes "invite_override E i email S = (a, S')"
  shows "utokens S' = utokens S"
proof (cases "register_override E email S")
  case (Inr S1)
  then have S1: "utokens S1 = utokens S"
    by (auto simp: register_override_def create_user_def put_user_def Let_def split: if_splits sum.splits)
  let ?b = "build_and_save (ve_lib E) (ve_now E) (ActivateUserWithOverrideToken (new_user_id E) True i) S1"
  show ?thesis
  proof (cases ?b)
    case b: (Inr cS)
    obtain c S2 where "cS = (c, S2)" by (cases cS)
    with b Inr assms have "?b = Inr (c, S')" by (simp add: invite_override_def)
    then obtain x where "send_email x (reason (ActivateUserWithOverrideToken (new_user_id E) True i))
      (recipient_of (ActivateUserWithOverrideToken (new_user_id E) True i)) S1 = Inr S'"
      by (rule build_and_save_sends)
    from send_email_users [OF this] S1 show ?thesis by simp
  qed (use S1 Inr assms in \<open>simp add: invite_override_def\<close>)
qed (use assms in \<open>simp add: invite_override_def\<close>)

lemma token_create_entry:
  assumes run: "token_create E r i S = (a, S')" and new: "S' \<noteq> S \<or> a = Inr b \<or> a = Inl (InvalidField ''email'')"
  obtains u t ps where "manager r u" and "utokens S' = (utokens S)(new_token_id E \<mapsto> t)"
    and "t = (apply_token_fields i (dyndns_token (new_token_id E) (u_id u) (ve_now E)))\<lparr>policies := ps\<rparr>"
    and "set ps \<subseteq> {default_policy (new_policy_id E)}"
proof -
  from run new obtain u override t where ru: "r_user r = Some u"
    and allowed: "token_view_allowed r (UnsafeMethod False) None" and "validate_token_fields i = Inr ()"
    and "validated_override S False None i = Inr override"
    and step: "token_step (SaveToken (apply_token_fields i (dyndns_token (new_token_id E) (u_id u) (ve_now E))) (new_policy_id E))
           (dyndns_token (new_token_id E) (u_id u) (ve_now E)) = Inr t"
    and rest: "answer_override E (t_id t) override (name_token (t_id t) (Some (pick (in_name i) [])) (put_token t S)) = (a, S')"
    by (rule token_create_saves)
  from step obtain ps where ps: "t = (apply_token_fields i (dyndns_token (new_token_id E) (u_id u) (ve_now E)))\<lparr>policies := ps\<rparr>"
    "set ps \<subseteq> insert (default_policy (new_policy_id E)) (set (policies (dyndns_token (new_token_id E) (u_id u) (ve_now E))))"
    by (rule save_token_shape)
  have "manager r u" using allowed_manager(1) [OF allowed] ru by (auto simp: manager_def)
  moreover have "utokens S' = (utokens S)(t_id t \<mapsto> t)"
    using rest invite_override_tokens
    by (fastforce simp: answer_override_def name_token_def put_token_def split: option.splits override.splits)
  ultimately show ?thesis using ps by (intro that) (auto simp: dyndns_token_def)
qed

text \<open>What one change of an entry of the table may be.\<close>

definition entry_change :: "view_env \<Rightarrow> nat \<Rightarrow> nat \<Rightarrow> token option \<Rightarrow> token option \<Rightarrow> bool" where
  "entry_change E u i old new =
     (case old of
        None \<Rightarrow> i = new_token_id E \<and>
          (\<exists>t. new = Some t \<and> t_owner t = u \<and> t_user_override t = None \<and> t_mfa t = None)
      | Some t \<Rightarrow>
          (case new of
             None \<Rightarrow> u \<in> {t_owner t, token_user t}
           | Some t' \<Rightarrow> token_user t = u \<and>
               t_owner t' = t_owner t \<and> t_user_override t' = t_user_override t \<and> t_mfa t' = t_mfa t))"

lemma save_policy_entry:
  assumes save: "save_policy op t a S = (b, S')" and op: "op \<in> {CreatePolicy p, UpdatePolicy p, DeletePolicy p}"
    and k: "utokens S k = Some t" "t_id t = k" and u: "token_user t = u" and changed: "utokens S' i \<noteq> utokens S i"
  shows "entry_change E u i (utokens S i) (utokens S' i)"
proof (cases "token_step op t")
  case (Inr t')
  from policy_step_shape [OF Inr op] obtain ps where t': "t' = t\<lparr>policies := ps\<rparr>" by blast
  from save Inr k t' have "utokens S' = (utokens S)(k \<mapsto> t')" by (auto simp: save_policy_def put_token_def)
  with changed k u t' show ?thesis by (auto simp: entry_change_def split: if_splits)
qed (use save changed in \<open>simp add: save_policy_def\<close>)


section \<open>Tokens for the account of somebody else\<close>

lemma build_and_save_needs_state:
  assumes "build_and_save L now a S = Inr (code, S')"
  obtains w where "state L S a = Inr w"
  using assms that by (cases "state L S a") (simp_all add: build_and_save_def action_code_def)

text \<open>An activation that was mailed is for a token without limits on its age: the state could be computed.\<close>

lemma invite_override_Inr:
  assumes run: "invite_override E i email S = (Inr ans, S')" and t: "utokens S i = Some t"
  obtains x where "users S' = (users S)(new_user_id E \<mapsto> x)" and "ac_id x = new_user_id E"
    and "ac_is_active x = (if ve_activation_required E then None else Some True)" and "utokens S' = utokens S"
    and "outbox S' = outbox S @ [(''activate-account-with-override-token'', ac_email x)]"
    and "t_max_age t = None \<and> t_max_unused t = None"
proof -
  let ?a = "ActivateUserWithOverrideToken (new_user_id E) True i"
  let ?x = "(override_account E email)\<lparr>ac_email := ve_normalize E (strip email), ac_password := ve_unusable E\<rparr>"
  obtain S1 where S1: "register_override E email S = Inr S1"
    using run by (cases "register_override E email S") (auto simp: invite_override_def)
  then have eq: "S1 = put_user ?x S"
    by (auto simp: register_override_def create_user_def override_account_def Let_def split: if_splits sum.splits)
  then have x1: "users S1 = (users S)(new_user_id E \<mapsto> ?x)" "utokens S1 = utokens S" "outbox S1 = outbox S"
    by (simp_all add: put_user_def override_account_def)
  let ?b = "build_and_save (ve_lib E) (ve_now E) ?a S1"
  obtain c where b: "?b = Inr (c, S')"
    using run S1 by (cases ?b) (auto simp: invite_override_def split: prod.splits)
  then obtain y where y: "users S1 (action_user ?a) = Some y" and mail: "send_email y (reason ?a) (recipient_of ?a) S1 = Inr S'"
    by (rule build_and_save_sends)
  from y x1 have y: "y = ?x" by simp
  from mail have box: "outbox S' = outbox S @ [(''activate-account-with-override-token'', ac_email ?x)]"
    by (auto simp: send_email_def Let_def recipient_of_def x1 y split: if_splits)
  from b obtain w where w: "state (ve_lib E) S1 ?a = Inr w" by (rule build_and_save_needs_state)
  have "t_max_age t = None \<and> t_max_unused t = None"
  proof (rule ccontr)
    assume "\<not> ?thesis"
    then obtain n where n: "t_max_age t = Some n \<or> t_max_unused t = Some n" by auto
    obtain vs where f: "state_fields (ve_lib E) S1 ?a = Inr vs" and "PyTimedelta n \<in> set vs"
      using x1 t n by (auto simp: fields_defs py_timedelta_def)
    then have "dumps (PyList vs) = Inl JsonTypeError" by (intro dumps_list_fails) auto
    with f w show False by (simp add: state_def state_of_def del: dumps.simps)
  qed
  with send_email_users [OF mail] x1 box show ?thesis
    by (intro that [of ?x]) (auto simp: override_account_def)
qed

text \<open>A refusal for the address of the override comes after the token was saved: the client is told of an error,
  and the token stays.\<close>

lemma refused_address_leaves_token:
  assumes "token_create E r i S = (Inl (InvalidField ''email''), S')"
  shows "\<exists>t. utokens S' (new_token_id E) = Some t"
proof -
  from assms have "S' \<noteq> S \<or> Inl (InvalidField ''email'') = Inr Created \<or>
      Inl (InvalidField ''email'') = (Inl (InvalidField ''email'') :: (view_error, answer_status) result)" by simp
  with assms show ?thesis by (rule token_create_entry) simp
qed

text \<open>An address with a blank in front is looked up as it is, and stripped when the account is made: the answer
  says whether the account exists.\<close>

lemma padded_address_reveals_account:
  assumes "strip (CHR '' '' # e) = e" and "ve_email_valid E e"
    and "\<And>u x. users S u = Some x \<Longrightarrow> lower (ac_email x) \<noteq> lower (CHR '' '' # e)"
  shows "sensitive_user S (CHR '' '' # e) = UnknownUser (CHR '' '' # e)"
    and "email_taken S (new_user_id E) e \<Longrightarrow>
      invite_override E k (CHR '' '' # e) S = (Inl (InvalidField ''email''), S)"
    and "\<not> email_taken S (new_user_id E) e \<Longrightarrow>
      fst (invite_override E k (CHR '' '' # e) S) \<noteq> Inl (InvalidField ''email'')"
proof -
  show "sensitive_user S (CHR '' '' # e) = UnknownUser (CHR '' '' # e)"
    using assms(3) by (auto simp: sensitive_user_def filter_empty_conv split: option.splits list.splits)
  show "email_taken S (new_user_id E) e \<Longrightarrow> invite_override E k (CHR '' '' # e) S = (Inl (InvalidField ''email''), S)"
    using assms(1) by (simp add: invite_override_def register_override_def)
  show "\<not> email_taken S (new_user_id E) e \<Longrightarrow> fst (invite_override E k (CHR '' '' # e) S) \<noteq> Inl (InvalidField ''email'')"
    using assms(1,2) by (auto simp: invite_override_def register_override_def split: sum.splits prod.splits)
qed

text \<open>C40: The creation of a token for an address without an account makes the token for its owner first, without
  override and without limits on its age, and a new account that is not active if activation is required; the
  activation mail goes to the address of that account. Carrying out the activation right after makes the account active and, unless the
  token was created to manage tokens, hands the token over to it; a token that manages tokens is refused then,
  although its creation was accepted, and the account stays active without it.\<close>

theorem override_activation:
  assumes reach: "table_reachable S" and run: "token_create E r i S = (Inr AcceptedLater, S')"
    and unknown: "validated_override S False None i = Inr (Some (UnknownUser email))"
    and user: "\<And>u. r_user r = Some u \<Longrightarrow> users S (u_id u) \<noteq> None" and fresh: "users S (new_user_id E) = None"
    and act: "act L now k (ActivateUserWithOverrideToken (new_user_id E) b (new_token_id E), True) S' = (res, S'')"
  shows "\<exists>u x t. r_user r = Some u \<and>
    users S' (new_user_id E) = Some x \<and> ac_is_active x = (if ve_activation_required E then None else Some True) \<and>
    outbox S' = outbox S @ [(''activate-account-with-override-token'', ac_email x)] \<and>
    utokens S' (new_token_id E) = Some t \<and> t_owner t = u_id u \<and> t_user_override t = None \<and>
    t_max_age t = None \<and> t_max_unused t = None \<and>
    users S'' (new_user_id E) = Some (x\<lparr>ac_outreach := b, ac_is_active := Some True, ac_needs_captcha := False\<rparr>) \<and>
    (if in_manage i = Some True
     then res = Inl (ActionFailed (TokenError ManageWithOverride)) \<and> utokens S'' = utokens S'
     else res = Inr () \<and> utokens S'' = (utokens S')(new_token_id E \<mapsto> t\<lparr>t_user_override := Some (new_user_id E)\<rparr>))"
proof -
  let ?n = "new_user_id E" and ?k = "new_token_id E"
  note S = table_reachable_typed [OF reach]
  have S': "tokens_typed S'" by (rule token_create_typed [OF S user run])
  from run obtain u override t where ru: "r_user r = Some u"
    and "token_view_allowed r (UnsafeMethod False) None" and val: "validate_token_fields i = Inr ()"
    and over: "validated_override S False None i = Inr override"
    and step: "token_step (SaveToken (apply_token_fields i (dyndns_token ?k (u_id u) (ve_now E))) (new_policy_id E))
           (dyndns_token ?k (u_id u) (ve_now E)) = Inr t"
    and rest: "answer_override E (t_id t) override (name_token (t_id t) (Some (pick (in_name i) [])) (put_token t S)) =
      (Inr AcceptedLater, S')"
    by (rule token_create_saves [OF _ disjI2 [OF disjI1 [OF refl]]])
  from step obtain ps where ps: "t = (apply_token_fields i (dyndns_token ?k (u_id u) (ve_now E)))\<lparr>policies := ps\<rparr>"
    "set ps \<subseteq> insert (default_policy (new_policy_id E)) (set (policies (dyndns_token ?k (u_id u) (ve_now E))))"
    by (rule save_token_shape)
  have t: "t_id t = ?k" "t_owner t = u_id u" "t_user_override t = None" "t_mfa t = None"
    "perm_manage_tokens t = (in_manage i = Some True)"
    by (auto simp: ps(1) dyndns_token_def apply_token_fields_def pick_def split: option.splits)
  let ?S1 = "name_token ?k (Some (pick (in_name i) [])) (put_token t S)"
  have S1: "utokens ?S1 ?k = Some t" "users ?S1 = users S" "outbox ?S1 = outbox S"
    by (simp_all add: name_token_def put_token_def t(1))
  from over unknown have "override = Some (UnknownUser email)" by simp
  with rest have "invite_override E ?k email ?S1 = (Inr AcceptedLater, S')" by (simp add: answer_override_def t(1))
  from this S1(1) obtain x where x: "users S' = (users S)(?n \<mapsto> x)" "ac_id x = ?n"
    "ac_is_active x = (if ve_activation_required E then None else Some True)" and tok: "utokens S' = utokens ?S1"
    and box: "outbox S' = outbox S @ [(''activate-account-with-override-token'', ac_email x)]"
    and limits: "t_max_age t = None \<and> t_max_unused t = None"
    by (rule invite_override_Inr) (simp_all add: S1)
  let ?y = "x\<lparr>ac_outreach := b, ac_is_active := Some True, ac_needs_captcha := False\<rparr>"
  have tS': "utokens S' ?k = Some t" using tok S1 by simp
  note T = tokens_typedD(1) [OF S' tS']
  let ?S2 = "S'\<lparr>users := (users S')(?n \<mapsto> ?y)\<rparr>"
  have two: "rbind (set_outreach ?n b S') (activate ?n) = Inr ?S2"
    using x by (simp add: set_outreach_def activate_def get_user_def put_user_def)
  have act2: "act L now k (ActivateUserWithOverrideToken ?n b ?k, True) S' = atomic (save_override ?k ?n) ?S2"
    using two by (simp add: act_def io_bind_def atomic_def)
  let ?t = "t\<lparr>t_user_override := Some ?n\<rparr>"
  have "u_id u \<noteq> ?n" using user [OF ru] fresh by auto
  with t T have wf: "token_wf t" and no: "Some ?n \<noteq> Some (t_owner t)" by (auto simp: token_typed_def)
  have dom: "p_domain p = None" if "p \<in> set (policies t)" for p
    using that ps by (auto simp: default_policy_def dyndns_token_def)
  have "token_step (SaveToken ?t 0) t = (if perm_manage_tokens t then Inl ManageWithOverride else Inr ?t)"
  proof (cases "perm_manage_tokens t")
    case True
    then show ?thesis by (simp add: token_save_def token_clean_def Let_def)
  next
    case False
    have "token_clean ?t = Inr ()"
      using wf False get_default_Some [of "policies t"] by (auto simp: token_clean_def token_wf_def split: option.splits)
    moreover have "get_policy (policies t) None \<noteq> None" if "auto_policy t"
      using wf that get_default_None by (auto simp: token_wf_def commit_ok_def)
    moreover have "override_ok t ?t" using False t no dom by (simp add: override_ok_def)
    moreover have "commit_ok ?t" using wf by (simp add: token_wf_def commit_ok_def)
    ultimately show ?thesis using False by (auto simp: token_save_def Let_def)
  qed
  then have "atomic (save_override ?k ?n) ?S2 =
      (if perm_manage_tokens t then (Inl (ActionFailed (TokenError ManageWithOverride)), ?S2)
       else (Inr (), ?S2\<lparr>utokens := (utokens S')(?k \<mapsto> ?t)\<rparr>))"
    using tS' by (simp add: atomic_def save_override_def del: token_step.simps)
  with act act2 ru x box tS' t limits show ?thesis by (auto split: if_splits)
qed

section \<open>Examples\<close>

definition no_store :: store where
  "no_store = \<lparr>users = Map.empty, factors = [], captchas = [], udomains = [], utokens = Map.empty,
     token_names = (\<lambda>i. []), outbox = []\<rparr>"

definition signed_in :: store where
  "signed_in = login 9 1 1000 (no_store\<lparr>users := [1 \<mapsto> example_account]\<rparr>)"

lemma signed_in_reachable: "table_reachable signed_in"
proof -
  have e: "table_reachable no_store" unfolding no_store_def by (rule table_reachable.empty)
  have "register (\<lambda>e. e) (\<lambda>p. p) False [] example_account ''old'' True False no_store =
      Inr (no_store\<lparr>users := [1 \<mapsto> example_account]\<rparr>, Accepted)"
    by (simp add: register_def create_user_def email_taken_def get_user_def put_user_def no_store_def
        example_account_def Let_def)
  from table_reachable.step [OF e table_step.registration [OF this]]
  have "table_reachable (no_store\<lparr>users := [1 \<mapsto> example_account]\<rparr>)" .
  from table_reachable.step [OF this table_step.sign_in, of 1 9 1000] show ?thesis
    unfolding signed_in_def by simp
qed

lemma signed_in_fields [simp]:
  "users signed_in = [1 \<mapsto> example_account]" "utokens signed_in = [9 \<mapsto> login_token 9 1 1000]"
  "udomains signed_in = []" "outbox signed_in = []" "token_names signed_in = (\<lambda>i. [])"
  by (auto simp: signed_in_def login_def no_store_def)

definition first_request :: request where
  "first_request = \<lparr>r_user = Some \<lparr>u_id = 1, u_is_active = Some True, u_mfa_enabled = False,
       u_limit_domains = None, u_domain_count = 0\<rparr>, r_auth = login_token 9 1 1000, r_remote_addr = 0\<rparr>"

definition first_env :: view_env where
  "first_env = \<lparr>ve_lib = example_lib PyNone, ve_email_valid = (\<lambda>e. e \<noteq> []), ve_normalize = (\<lambda>e. e),
     ve_unusable = ''!'', ve_activation_required = True, ve_now = 2000, new_token_id = 10, new_policy_id = 11,
     new_user_id = 2\<rparr>"

definition no_input :: token_input where
  "no_input = \<lparr>in_name = None, in_max_age = None, in_max_unused = None, in_create = None, in_delete = None,
     in_manage = None, in_auto = None, in_override = None\<rparr>"

lemma first_allowed: "token_view_allowed first_request (UnsafeMethod d) None"
  by (cases d) (simp_all add: token_view_allowed_def first_request_def is_authenticated_def mfa_required_if_enabled_def
      has_manage_tokens_permission_def login_token_def)

theorem tokens_stay_typed_witness:
  "users signed_in 1 \<noteq> None \<and> utokens signed_in 9 = Some (login_token 9 1 1000) \<and>
   t_user_override (login_token 9 1 1000) = None"
proof -
  have t: "utokens signed_in 9 = Some (login_token 9 1 1000)" by simp
  from tokens_stay_typed [OF signed_in_reachable t] t show ?thesis by (simp add: login_token_def)
qed


theorem override_activation_witness:
  "\<exists>S' S'' res. token_create first_env first_request (no_input\<lparr>in_override := Some (Some ''x@y.z'')\<rparr>) signed_in =
       (Inr AcceptedLater, S') \<and>
     act (example_lib PyNone) 3000 0 (ActivateUserWithOverrideToken 2 True 10, True) S' = (res, S'') \<and> res = Inr () \<and>
     (\<exists>t. utokens S'' 10 = Some t \<and> token_user t = 2)"
proof -
  let ?i = "no_input\<lparr>in_override := Some (Some ''x@y.z'')\<rparr>"
  have over: "validated_override signed_in False None ?i = Inr (Some (UnknownUser ''x@y.z''))"
    by (simp add: validated_override_def no_input_def sensitive_user_def example_account_def check_override_def
        lower_def lower_char_def)
  have strip: "strip ''x@y.z'' = ''x@y.z''" by code_simp
  have "\<exists>S'. token_create first_env first_request ?i signed_in = (Inr AcceptedLater, S')"
    using over first_allowed [of False]
    by (simp add: token_create_def first_request_def validate_token_fields_def no_input_def given_def Let_def
        apply_token_fields_def pick_def token_save_def token_clean_def dyndns_token_def override_ok_def commit_ok_def
        answer_override_def name_token_def put_token_def invite_override_def register_override_def first_env_def
        strip email_taken_def example_account_def lower_def lower_char_def create_user_def override_account_def
        put_user_def build_and_save_def action_code_def state_def fields_defs state_of_def example_lib_def
        py_bool_option_def py_timedelta_def token_user_def pack_code_def action_data_def get_user_def send_email_def
        lanes_def recipient_of_def result_simps)
  then obtain S' where run: "token_create first_env first_request ?i signed_in = (Inr AcceptedLater, S')" by blast
  obtain res S'' where act: "act (example_lib PyNone) 3000 0 (ActivateUserWithOverrideToken (new_user_id first_env) True
      (new_token_id first_env), True) S' = (res, S'')" by (metis surj_pair)
  have "new_user_id first_env = 2" "new_token_id first_env = 10" by (simp_all add: first_env_def)
  with override_activation [OF signed_in_reachable run over _ _ act] act run show ?thesis
    by (auto simp: first_request_def no_input_def token_user_def)
qed

end
