(* ===== verification/Spec2Isabelle.thy ===== *)
theory Spec2Isabelle
  imports DomainsCorrect TrackerExit TrackerSync BulkApply TokensCorrect
    RenewalLive DynDnsCorrect UsersCorrect CodesSpent AuthenticationCorrect Throttling RRsetViewsCorrect SyncCorrect DomainViewsCorrect TokenViewsCorrect
begin

text \<open>
  A model of the deSEC DNS hosting stack: the Django application under \<open>src/api/desecapi\<close> that keeps
  users, tokens and DNS data in a database, serves them as a REST API, and pushes changes to PowerDNS.

  \<^bold>\<open>How the parts interact.\<close> A request is authenticated (\<open>authentication.py\<close>), throttled
  (\<open>throttling.py\<close>) and checked against permission classes (\<open>permissions.py\<close>), which ask the token for
  the policy that applies (\<open>models/tokens.py\<close>). Views hand the data to serializers; those for RRsets
  validate a whole list at once (\<open>serializers/records.py\<close>) and canonicalise every record
  (\<open>models/records.py\<close>). All changes of DNS data happen inside a change tracker
  (\<open>pdns_change_tracker.py\<close>): signal handlers collect what changed, and at the end of the block the
  tracker computes requests and sends them (\<open>pdns.py\<close>), within one transaction. The dynDNS endpoint
  (\<open>views/dyndns.py\<close>) turns a query string into such a list of RRsets. Accounts change by actions
  that are confirmed with a code from a mail (\<open>models/authenticated_actions.py\<close>). Commands run from
  cron do the housekeeping (\<open>management/commands\<close>).

  \<^bold>\<open>Theories.\<close> The theory of a component holds its data and operations, \<open>...Correct\<close> and the like its
  properties.

  \<^item> \<open>Prelude\<close>: results, string methods of Python, sums of lists and maps; \<open>Effects\<close>: code that changes
    a world and may raise, as functions of the world; \<open>Json\<close>: Python values and \<open>json.dumps\<close>;
    \<open>PyRegex\<close>: regular expressions with a derivative matcher that agrees with their language.
  \<^item> \<open>Names\<close> (\<open>models/base.py\<close>, parts of \<open>models/records.py\<close>): the validators of names, with the
    expressions as in the source, equal to a description in terms of labels; building and splitting
    names are inverse.
  \<^item> \<open>Pdns\<close> (\<open>pdns.py\<close>, \<open>pch.py\<close>): each request as a function of an environment that answers HTTP;
    zone identifiers are injective.
  \<^item> \<open>Tracker\<close> (\<open>pdns_change_tracker.py\<close>) with \<open>TrackerLog\<close>, \<open>TrackerCorrect\<close>, \<open>TrackerChanges\<close>,
    \<open>TrackerSync\<close>, \<open>TrackerExit\<close>: the handlers and the database they watch as steps on a pair of
    both; the sets of the tracker against the log of the signals; what is pushed agrees with the
    database after the block; failure, rollback and nesting.
  \<^item> \<open>Records\<close>, \<open>RecordsCorrect\<close> (\<open>models/records.py\<close>): canonicalisation, validation and storage of
    records.
  \<^item> \<open>Bulk\<close>, \<open>BulkCorrect\<close>, \<open>BulkApply\<close> (\<open>serializers/records.py\<close>, \<open>validators.py\<close>): validation of a
    single RRset and of a list, and the application of validated data inside a tracker.
  \<^item> \<open>Tokens\<close>, \<open>TokensCorrect\<close> (\<open>models/tokens.py\<close>, \<open>permissions.py\<close>): policies, their order and
    constraints, permission classes.
  \<^item> \<open>Domains\<close>, \<open>DomainsCorrect\<close> (\<open>models/domains.py\<close>, \<open>views/domains.py\<close>, \<open>serializers/domains.py\<close>):
    who may register a name, delegation, creation.
  \<^item> \<open>DynDns\<close>, \<open>DynDnsCorrect\<close> (\<open>views/dyndns.py\<close>): the whole handler.
  \<^item> \<open>Users\<close>, \<open>UsersCorrect\<close> (\<open>models/users.py\<close>, \<open>models/mfa.py\<close>, \<open>models/captcha.py\<close> and their views):
    accounts, one-time passwords, captchas.
  \<^item> \<open>AuthActions\<close>, \<open>AuthActionsCorrect\<close>, \<open>CodesSpent\<close> (\<open>models/\<close>, \<open>serializers/\<close> and
    \<open>views/authenticated_actions.py\<close>): actions, their states and codes; a code is accepted only while
    what its action relies on is as it was; over any history of an account, none made before a change
    of credentials is accepted after it.
  \<^item> \<open>Authentication\<close>, \<open>AuthenticationCorrect\<close> (\<open>authentication.py\<close>) and \<open>Throttling\<close>
    (\<open>throttling.py\<close>).
  \<^item> \<open>Renewal\<close>, \<open>RenewalCorrect\<close>, \<open>RenewalLive\<close> (\<open>management/commands/scavenge-unused.py\<close>): the stages
    of the command; histories of runs, links, creations and deletions; an abstract machine for one
    domain, which the command refines, and eventual deletion.
  \<^item> \<open>RRsetViews\<close>, \<open>RRsetViewsCorrect\<close> (\<open>views/records.py\<close>): the writing endpoints for RRsets as a whole,
    permissions, validators in the order of the framework and the change inside a tracker.
  \<^item> \<open>JsonDecode\<close>: \<open>json.loads\<close>, which reads back what \<open>json.dumps\<close> wrote. \<open>NameServer\<close>: the zone endpoints of
    PowerDNS as an interface (a locale), with the effect of each request of \<open>pdns.py\<close> proved in it;
    \<open>ReferenceServer\<close>: a server that decodes the requests, on which the interface is interpreted;
    \<open>Mirror\<close>: a tracked block keeps the served zones equal to the database.
  \<^item> \<open>SyncCommands\<close>, \<open>SyncCorrect\<close> (\<open>sync-to-pdns.py\<close>, \<open>sync-from-pdns.py\<close>, \<open>align-catalog-zone.py\<close>): the
    commands that repair either side, and their round trip.
  \<^item> \<open>DomainViews\<close>, \<open>DomainViewsCorrect\<close> (\<open>views/domains.py\<close>, \<open>serializers/domains.py\<close>): creation of a domain from
    a zone file, its delegation, deletion and export as whole requests.
  \<^item> \<open>TokenViews\<close>, \<open>TokenViewsCorrect\<close> (\<open>views/tokens.py\<close>, \<open>serializers/tokens.py\<close>): the endpoints for tokens and
    policies on the store, who may change what, and tokens made for the account of somebody else.

  \<^bold>\<open>State and operations.\<close> The database of zones is a map from domain names to association lists of
  RRsets (\<open>Tracker\<close>), each with a TTL and the set of its records; a tracked block runs on the pair of
  that database and the tracker. Accounts, factors, tokens and the renewal fields of domains are the
  record \<open>store\<close> (\<open>Users\<close>). Exceptions are values: \<open>Inl\<close> of an error type per component, one
  constructor for each exception the code raises or lets through. Code with effects that stay when
  it raises has the type \<open>io\<close>; code inside a transaction returns a result and the old state stays.

  \<^bold>\<open>Parameters.\<close> Code outside the repository is an argument: the codecs of dnspython, the HTTP
  servers, the public suffix list, one-time passwords, SHA-1 and SHA-256, Fernet, base64, the hash of keys and passwords, the token lookup of Django REST framework, the order in
  which Python iterates over a set. Laws a proof needs are hypotheses or locale assumptions with a
  witness that instantiates them.

  \<^bold>\<open>Bounds.\<close> Every loop of the modelled code runs over a list that is fixed when it starts. Only the JSON reader
  has a bound on its steps, twice the length of the text; \<open>parse_enough\<close> shows that a larger one
  accepts nothing more. Integers are unbounded as in Python; addresses are naturals below \<open>2 ^ 32\<close> and \<open>2 ^ 128\<close>.

  \<^bold>\<open>Not modelled.\<close> Rendering of responses, routing, templates, settings and migrations have no logic of
  their own. Metrics and logging do not influence the rest. Mail backends and cryptography
  (\<open>crypto.py\<close>) only call libraries. Unicode beyond ASCII, concurrent transactions and the time that passes during a
  request are left out.
\<close>

end
